(* ===== verification/Prelude.thy ===== *)
theory Prelude
  imports Main "HOL-Library.List_Lexorder" "HOL-Library.Char_ord" "HOL-Library.Product_Lexorder"
    "HOL-Library.Multiset"
begin

text \<open>
  What every component of the development shares: the JavaScript values that cross the
  program's validation boundaries, the string and array operations of the standard library
  the source calls, results with errors as values, and the generic state-machine interface
  in which the invariants of the stateful components are lifted to whole runs.

  A string is the list of the UTF-8 bytes of the JavaScript string, so
  \<open>Buffer.byteLength(s, "utf8")\<close> is \<^term>\<open>length s\<close>; \<open>js_length\<close> is the UTF-16
  \<open>.length\<close>.  The order on strings is the lexicographic order of the bytes, which is
  the order of \<open>Array.prototype.sort\<close> on all strings whose code points are in the basic
  plane below the surrogates (all identifiers of the program are ASCII).
\<close>

named_theorems result_simps "unfolding of results and of the guards that build them"
named_theorems inv_intros "an operation keeps the invariant of its component"

section \<open>Results\<close>

text \<open>A thrown error is \<^term>\<open>Inl\<close>, a returned value \<^term>\<open>Inr\<close>.\<close>

definition bindR :: "'e + 'a \<Rightarrow> ('a \<Rightarrow> 'e + 'b) \<Rightarrow> 'e + 'b" where
  "bindR m f = (case m of Inl e \<Rightarrow> Inl e | Inr a \<Rightarrow> f a)"

definition guardR :: "bool \<Rightarrow> 'e \<Rightarrow> 'e + unit" where
  "guardR ok e = (if ok then Inr () else Inl e)"

fun mapR :: "('a \<Rightarrow> 'e + 'b) \<Rightarrow> 'a list \<Rightarrow> 'e + 'b list" where
  "mapR f [] = Inr []"
| "mapR f (x # xs) = bindR (f x) (\<lambda>y. bindR (mapR f xs) (\<lambda>ys. Inr (y # ys)))"

fun foldR :: "('s \<Rightarrow> 'a \<Rightarrow> 'e + 's) \<Rightarrow> 's \<Rightarrow> 'a list \<Rightarrow> 'e + 's" where
  "foldR f s [] = Inr s"
| "foldR f s (x # xs) = bindR (f s x) (\<lambda>s'. foldR f s' xs)"

lemma bindR_simps [simp]: "bindR (Inl e) f = Inl e" "bindR (Inr a) f = f a"
  by (simp_all add: bindR_def)

lemma bindR_Inr_iff [result_simps]: "bindR m f = Inr b \<longleftrightarrow> (\<exists>a. m = Inr a \<and> f a = Inr b)"
  by (cases m) simp_all

lemma bindR_Inl_iff [result_simps]:
  "bindR m f = Inl e \<longleftrightarrow> m = Inl e \<or> (\<exists>a. m = Inr a \<and> f a = Inl e)"
  by (cases m) simp_all

lemma guardR_Inr_iff [result_simps]: "guardR ok e = Inr u \<longleftrightarrow> ok"
  by (simp add: guardR_def)

lemma guardR_Inl_iff [result_simps]: "guardR ok e = Inl e' \<longleftrightarrow> \<not> ok \<and> e' = e"
  by (auto simp: guardR_def)

lemma guardR_simps [simp]: "guardR True e = Inr ()" "guardR False e = Inl e"
  by (simp_all add: guardR_def)

lemma bindR_cong [fundef_cong]:
  "m = m' \<Longrightarrow> (\<And>a. m' = Inr a \<Longrightarrow> f a = f' a) \<Longrightarrow> bindR m f = bindR m' f'"
  by (cases m') simp_all

lemma mapR_cong [fundef_cong]:
  "xs = ys \<Longrightarrow> (\<And>x. x \<in> set ys \<Longrightarrow> f x = g x) \<Longrightarrow> mapR f xs = mapR g ys"
  by (induction ys arbitrary: xs) auto

lemma mapR_Inr_iff:
  "mapR f xs = Inr ys \<longleftrightarrow> list_all2 (\<lambda>x y. f x = Inr y) xs ys"
proof (induction xs arbitrary: ys)
  case Nil
  then show ?case by auto
next
  case (Cons x xs)
  then show ?case by (cases ys) (auto simp: result_simps)
qed

lemma mapR_length: "mapR f xs = Inr ys \<Longrightarrow> length ys = length xs"
  by (auto simp: mapR_Inr_iff list_all2_lengthD)

lemma mapR_set: "mapR f xs = Inr ys \<Longrightarrow> y \<in> set ys \<Longrightarrow> \<exists>x\<in>set xs. f x = Inr y"
  by (metis (mono_tags) mapR_Inr_iff list_all2_conv_all_nth in_set_conv_nth)

lemma foldR_invariant:
  assumes "foldR f s xs = Inr s'" and "I s"
    and step: "\<And>s x s'. I s \<Longrightarrow> x \<in> set xs \<Longrightarrow> f s x = Inr s' \<Longrightarrow> I s'"
  shows "I s'"
  using assms
proof (induction xs arbitrary: s)
  case Nil
  then show ?case by simp
next
  case (Cons x xs)
  from Cons.prems(1) obtain t where t: "f s x = Inr t" "foldR f t xs = Inr s'"
    by (auto simp: bindR_Inr_iff)
  have "I t"
    by (rule Cons.prems(3) [OF Cons.prems(2) _ t(1)]) simp
  show ?case
    by (rule Cons.IH [OF t(2) \<open>I t\<close>]) (rule Cons.prems(3), simp_all)
qed

section \<open>State and errors\<close>

text \<open>
  Code that updates a state and may throw: the state reached so far is kept when an error is
  thrown.
\<close>

type_synonym ('s, 'e, 'a) stateR = "'s \<Rightarrow> 's \<times> ('e + 'a)"

definition returnS :: "'a \<Rightarrow> ('s, 'e, 'a) stateR" where
  "returnS a = (\<lambda>s. (s, Inr a))"

definition throwS :: "'e \<Rightarrow> ('s, 'e, 'a) stateR" where
  "throwS e = (\<lambda>s. (s, Inl e))"

definition bindS :: "('s, 'e, 'a) stateR \<Rightarrow> ('a \<Rightarrow> ('s, 'e, 'b) stateR) \<Rightarrow> ('s, 'e, 'b) stateR" where
  "bindS m f = (\<lambda>s. case m s of (s', r) \<Rightarrow> (case r of Inl e \<Rightarrow> (s', Inl e) | Inr a \<Rightarrow> f a s'))"

definition getS :: "('s \<Rightarrow> 'a) \<Rightarrow> ('s, 'e, 'a) stateR" where
  "getS f = (\<lambda>s. (s, Inr (f s)))"

definition modifyS :: "('s \<Rightarrow> 's) \<Rightarrow> ('s, 'e, unit) stateR" where
  "modifyS f = (\<lambda>s. (f s, Inr ()))"

definition liftS :: "'e + 'a \<Rightarrow> ('s, 'e, 'a) stateR" where
  "liftS r = (\<lambda>s. (s, r))"

definition guardS :: "bool \<Rightarrow> 'e \<Rightarrow> ('s, 'e, unit) stateR" where
  "guardS ok e = (if ok then returnS () else throwS e)"

definition catchS :: "('s, 'e, 'a) stateR \<Rightarrow> ('e \<Rightarrow> ('s, 'f, 'a) stateR) \<Rightarrow> ('s, 'f, 'a) stateR" where
  "catchS m h = (\<lambda>s. case m s of (s', r) \<Rightarrow> (case r of Inl e \<Rightarrow> h e s' | Inr a \<Rightarrow> (s', Inr a)))"

fun eachS :: "('a \<Rightarrow> ('s, 'e, unit) stateR) \<Rightarrow> 'a list \<Rightarrow> ('s, 'e, unit) stateR" where
  "eachS f [] = returnS ()"
| "eachS f (x # xs) = bindS (f x) (\<lambda>_. eachS f xs)"

text \<open>Partial correctness: from \<open>P\<close> every result of \<open>m\<close> satisfies \<open>Q\<close> with the state it leaves.\<close>

definition validS :: "('s \<Rightarrow> bool) \<Rightarrow> ('s, 'e, 'a) stateR \<Rightarrow> ('e + 'a \<Rightarrow> 's \<Rightarrow> bool) \<Rightarrow> bool" where
  "validS P m Q \<longleftrightarrow> (\<forall>s. P s \<longrightarrow> Q (snd (m s)) (fst (m s)))"

abbreviation keepsS :: "('s \<Rightarrow> bool) \<Rightarrow> ('s, 'e, 'a) stateR \<Rightarrow> bool" where
  "keepsS I m \<equiv> validS I m (\<lambda>_. I)"

named_theorems keeps_intros "rules for the invariants of code with state"

lemma validS_bind:
  assumes "validS P m (\<lambda>r s. case r of Inl e \<Rightarrow> Q (Inl e) s | Inr a \<Rightarrow> R a s)" and "\<And>a. validS (R a) (f a) Q"
  shows "validS P (bindS m f) Q"
  unfolding validS_def bindS_def
proof (intro allI impI)
  fix s assume "P s"
  with assms(1) have r: "case snd (m s) of Inl e \<Rightarrow> Q (Inl e) (fst (m s)) | Inr a \<Rightarrow> R a (fst (m s))"
    by (simp add: validS_def)
  show "Q (snd (case m s of (s', r) \<Rightarrow> case r of Inl e \<Rightarrow> (s', Inl e) | Inr a \<Rightarrow> f a s'))
      (fst (case m s of (s', r) \<Rightarrow> case r of Inl e \<Rightarrow> (s', Inl e) | Inr a \<Rightarrow> f a s'))"
    using r assms(2) by (cases "m s"; cases "snd (m s)") (auto simp: validS_def)
qed

lemma validS_get: "(\<And>a. validS (\<lambda>s. P s \<and> f s = a) (g a) Q) \<Longrightarrow> validS P (bindS (getS f) g) Q"
  by (auto simp: validS_def bindS_def getS_def)

lemma validS_modify: "(\<And>s. P s \<Longrightarrow> R (f s)) \<Longrightarrow> validS R (g ()) Q \<Longrightarrow> validS P (bindS (modifyS f) g) Q"
  by (auto simp: validS_def bindS_def modifyS_def)

lemma validS_pre: "validS P m Q \<Longrightarrow> (\<And>s. P' s \<Longrightarrow> P s) \<Longrightarrow> validS P' m Q"
  by (auto simp: validS_def)

lemma validS_return: "(\<And>s. P s \<Longrightarrow> Q (Inr a) s) \<Longrightarrow> validS P (returnS a) Q"
  by (auto simp: validS_def returnS_def)

lemma validS_throw: "(\<And>s. P s \<Longrightarrow> Q (Inl e) s) \<Longrightarrow> validS P (throwS e) Q"
  by (auto simp: validS_def throwS_def)

lemma validS_if: "(b \<Longrightarrow> validS P m Q) \<Longrightarrow> (\<not> b \<Longrightarrow> validS P n Q) \<Longrightarrow> validS P (if b then m else n) Q"
  by simp

lemma validS_guard: "(ok \<Longrightarrow> validS P m Q) \<Longrightarrow> (\<And>s. P s \<Longrightarrow> Q (Inl e) s) \<Longrightarrow> validS P (bindS (guardS ok e) (\<lambda>_. m)) Q"
  by (cases ok) (auto simp: validS_def bindS_def guardS_def returnS_def throwS_def)

lemma validS_lift: "(\<And>a. r = Inr a \<Longrightarrow> validS P (g a) Q) \<Longrightarrow> (\<And>e s. P s \<Longrightarrow> Q (Inl e) s) \<Longrightarrow> validS P (bindS (liftS r) g) Q"
  by (cases r) (auto simp: validS_def bindS_def liftS_def)

lemma keeps_bind [keeps_intros]: "keepsS I m \<Longrightarrow> (\<And>a. keepsS I (f a)) \<Longrightarrow> keepsS I (bindS m f)"
  by (rule validS_bind [where R = "\<lambda>_. I"]) (auto simp: validS_def split: sum.splits)

lemma keeps_pure [keeps_intros]:
  "keepsS I (returnS a)" "keepsS I (throwS e)" "keepsS I (getS g)" "keepsS I (liftS r)" "keepsS I (guardS ok e)"
  by (simp_all add: validS_def returnS_def throwS_def getS_def liftS_def guardS_def)

lemma keeps_modify [keeps_intros]: "(\<And>s. I s \<Longrightarrow> I (f s)) \<Longrightarrow> keepsS I (modifyS f)"
  by (simp add: validS_def modifyS_def)

lemma keeps_catch [keeps_intros]: "keepsS I m \<Longrightarrow> (\<And>e. keepsS I (h e)) \<Longrightarrow> keepsS I (catchS m h)"
  unfolding validS_def catchS_def by (auto split: sum.splits prod.splits)

lemma keeps_each [keeps_intros]: "(\<And>x. x \<in> set xs \<Longrightarrow> keepsS I (f x)) \<Longrightarrow> keepsS I (eachS f xs)"
  by (induction xs) (auto intro: keeps_intros)

lemma keeps_if [keeps_intros]: "(b \<Longrightarrow> keepsS I m) \<Longrightarrow> (\<not> b \<Longrightarrow> keepsS I n) \<Longrightarrow> keepsS I (if b then m else n)"
  by simp

section \<open>JavaScript values\<close>

text \<open>
  \<open>JInt\<close> is a number that prints as an integer (an integral double below \<open>10^21\<close>);
  \<open>JFlt\<close> is any other finite double, given by its floor and its decimal text.  An object
  lists its own enumerable fields in enumeration order; prototypes, accessors and symbols
  do not occur in a value that came out of \<open>JSON.parse\<close> or an object literal, and the
  checks of the source that reject them are not modelled.
\<close>

datatype jsval =
    JUndef
  | JNull
  | JBool bool
  | JInt int
  | JFlt int string
  | JNaN
  | JInf bool
  | JStr string
  | JArr "jsval list"
  | JObj "(string \<times> jsval) list"

definition MAX_SAFE_INTEGER :: int where
  "MAX_SAFE_INTEGER = 9007199254740991"

definition is_safe_int :: "int \<Rightarrow> bool" where
  "is_safe_int n \<longleftrightarrow> \<bar>n\<bar> \<le> MAX_SAFE_INTEGER"

fun js_field :: "(string \<times> jsval) list \<Rightarrow> string \<Rightarrow> jsval" where
  "js_field [] k = JUndef"
| "js_field ((k', v) # fs) k = (if k' = k then v else js_field fs k)"

fun is_str :: "jsval \<Rightarrow> bool" where
  "is_str (JStr s) = True"
| "is_str _ = False"

fun the_str :: "jsval \<Rightarrow> string" where
  "the_str (JStr s) = s"
| "the_str _ = []"

section \<open>Strings\<close>

text \<open>The white space and line terminators \<open>String.prototype.trim\<close> removes, in UTF-8.\<close>

definition ws_seqs :: "string list" where
  "ws_seqs = [[CHR 32], [CHR 9], [CHR 10], [CHR 11], [CHR 12], [CHR 13],
     [CHR 0xC2, CHR 0xA0], [CHR 0xE1, CHR 0x9A, CHR 0x80],
     [CHR 0xE2, CHR 0x80, CHR 0x80], [CHR 0xE2, CHR 0x80, CHR 0x81], [CHR 0xE2, CHR 0x80, CHR 0x82],
     [CHR 0xE2, CHR 0x80, CHR 0x83], [CHR 0xE2, CHR 0x80, CHR 0x84], [CHR 0xE2, CHR 0x80, CHR 0x85],
     [CHR 0xE2, CHR 0x80, CHR 0x86], [CHR 0xE2, CHR 0x80, CHR 0x87], [CHR 0xE2, CHR 0x80, CHR 0x88],
     [CHR 0xE2, CHR 0x80, CHR 0x89], [CHR 0xE2, CHR 0x80, CHR 0x8A], [CHR 0xE2, CHR 0x80, CHR 0xA8],
     [CHR 0xE2, CHR 0x80, CHR 0xA9], [CHR 0xE2, CHR 0x80, CHR 0xAF], [CHR 0xE2, CHR 0x81, CHR 0x9F],
     [CHR 0xE3, CHR 0x80, CHR 0x80], [CHR 0xEF, CHR 0xBB, CHR 0xBF]]"

definition starts_with :: "string \<Rightarrow> string \<Rightarrow> bool" where
  "starts_with s p \<longleftrightarrow> take (length p) s = p"

function strip_front :: "string list \<Rightarrow> string \<Rightarrow> string" where
  "strip_front ws s =
     (case List.find (\<lambda>w. w \<noteq> [] \<and> starts_with s w) ws of
        None \<Rightarrow> s
      | Some w \<Rightarrow> strip_front ws (drop (length w) s))"
  by pat_completeness auto
termination
proof (relation "measure (\<lambda>(ws, s). length s)")
  fix ws :: "string list" and s w :: string
  assume "List.find (\<lambda>w. w \<noteq> [] \<and> starts_with s w) ws = Some w"
  then have "w \<noteq> []" and "take (length w) s = w"
    by (auto simp: find_Some_iff starts_with_def)
  then have "s \<noteq> []" by auto
  with \<open>w \<noteq> []\<close> show "((ws, drop (length w) s), ws, s) \<in> measure (\<lambda>(ws, s). length s)"
    by simp
qed simp

declare strip_front.simps [simp del]

definition js_trim :: "string \<Rightarrow> string" where
  "js_trim s = rev (strip_front (map rev ws_seqs) (rev (strip_front ws_seqs s)))"

definition no_ws :: "string list \<Rightarrow> string \<Rightarrow> bool" where
  "no_ws ws s \<longleftrightarrow> (\<forall>w\<in>set ws. w \<noteq> [] \<longrightarrow> \<not> starts_with s w)"

lemma no_ws_find: "no_ws ws s \<longleftrightarrow> List.find (\<lambda>w. w \<noteq> [] \<and> starts_with s w) ws = None"
  by (auto simp: no_ws_def find_None_iff)

lemma strip_front_id: "no_ws ws s \<Longrightarrow> strip_front ws s = s"
  by (subst strip_front.simps) (simp add: no_ws_find)

lemma strip_front_no_ws: "no_ws ws (strip_front ws s)"
proof (induction ws s rule: strip_front.induct)
  case (1 ws s)
  show ?case
  proof (cases "List.find (\<lambda>w. w \<noteq> [] \<and> starts_with s w) ws")
    case None
    then show ?thesis by (subst strip_front.simps) (simp add: no_ws_find)
  next
    case (Some w)
    have "no_ws ws (strip_front ws (drop (length w) s))" by (rule 1 [OF Some])
    with Some show ?thesis by (subst strip_front.simps) simp
  qed
qed

lemma strip_front_suffix: "\<exists>p. s = p @ strip_front ws s"
proof (induction ws s rule: strip_front.induct)
  case (1 ws s)
  show ?case
  proof (cases "List.find (\<lambda>w. w \<noteq> [] \<and> starts_with s w) ws")
    case None
    then show ?thesis by (subst strip_front.simps) simp
  next
    case (Some w)
    from 1 [OF Some] obtain p where "drop (length w) s = p @ strip_front ws (drop (length w) s)" ..
    then have "s = (take (length w) s @ p) @ strip_front ws (drop (length w) s)"
      by (metis append_assoc append_take_drop_id)
    then have "\<exists>q. s = q @ strip_front ws (drop (length w) s)" ..
    moreover from Some have "strip_front ws s = strip_front ws (drop (length w) s)"
      by (subst strip_front.simps) simp
    ultimately show ?thesis by simp
  qed
qed

lemma no_ws_prefix: "no_ws ws (s @ t) \<Longrightarrow> no_ws ws s"
  by (force simp: no_ws_def starts_with_def)

lemma js_trim_idem [simp]: "js_trim (js_trim s) = js_trim s"
proof -
  let ?a = "strip_front ws_seqs s" and ?r = "map rev ws_seqs"
  let ?b = "strip_front ?r (rev ?a)"
  obtain p where "rev ?a = p @ ?b" using strip_front_suffix by blast
  then have "?a = rev ?b @ rev p" by (metis rev_append rev_rev_ident)
  then have "no_ws ws_seqs (rev ?b)"
    using strip_front_no_ws [of ws_seqs s] no_ws_prefix by metis
  then show ?thesis
    by (simp add: js_trim_def strip_front_id strip_front_no_ws)
qed

lemma js_trim_length: "length (js_trim s) \<le> length s"
proof -
  obtain p q where "s = p @ strip_front ws_seqs s"
    and "rev (strip_front ws_seqs s) = q @ strip_front (map rev ws_seqs) (rev (strip_front ws_seqs s))"
    using strip_front_suffix by blast
  then show ?thesis
    unfolding js_trim_def by (metis le_add2 length_append length_rev order_trans)
qed

text \<open>A string that begins and ends with a printable ASCII character is its own trim.\<close>

definition plain_char :: "char \<Rightarrow> bool" where
  "plain_char c \<longleftrightarrow> (let b = (of_char c :: int) in 33 \<le> b \<and> b < 128)"

definition plain_ends :: "string \<Rightarrow> bool" where
  "plain_ends s \<longleftrightarrow> s \<noteq> [] \<and> plain_char (hd s) \<and> plain_char (last s)"

lemma ws_seqs_not_plain:
  "list_all (\<lambda>w. w \<noteq> [] \<and> \<not> plain_char (hd w) \<and> \<not> plain_char (last w)) ws_seqs"
  by code_simp

lemma no_ws_plain:
  assumes "list_all (\<lambda>w. w \<noteq> [] \<and> \<not> plain_char (hd w)) ws" and "s \<noteq> []" and "plain_char (hd s)"
  shows "no_ws ws s"
  unfolding no_ws_def
proof (intro ballI impI notI)
  fix w assume "w \<in> set ws" "w \<noteq> []" "starts_with s w"
  then have "hd w = hd s"
    by (metis starts_with_def hd_append2 append_take_drop_id)
  with assms(1,3) \<open>w \<in> set ws\<close> show False
    by (auto simp: list_all_iff)
qed

lemma js_trim_plain: "plain_ends s \<Longrightarrow> js_trim s = s"
proof -
  assume s: "plain_ends s"
  have "no_ws ws_seqs s"
    using s ws_seqs_not_plain by (intro no_ws_plain) (auto simp: plain_ends_def list_all_iff)
  moreover have "no_ws (map rev ws_seqs) (rev s)"
    using s ws_seqs_not_plain
    by (intro no_ws_plain) (auto simp: plain_ends_def list_all_iff hd_rev)
  ultimately show ?thesis by (simp add: js_trim_def strip_front_id)
qed

lemma js_trim_plain_nonempty: "plain_ends s \<Longrightarrow> js_trim s \<noteq> []"
  by (auto simp: js_trim_plain plain_ends_def)

text \<open>The UTF-16 length: one unit per lead byte, two for a four-byte sequence.\<close>

definition utf16_units :: "char \<Rightarrow> nat" where
  "utf16_units c =
     (let b = (of_char c :: int) in if 128 \<le> b \<and> b < 192 then 0 else if 240 \<le> b then 2 else 1)"

definition js_length :: "string \<Rightarrow> nat" where
  "js_length s = sum_list (map utf16_units s)"

fun js_includes :: "string \<Rightarrow> string \<Rightarrow> bool" where
  "js_includes [] p = (p = [])"
| "js_includes (c # s) p = (starts_with (c # s) p \<or> js_includes s p)"

fun js_join :: "string \<Rightarrow> string list \<Rightarrow> string" where
  "js_join sep [] = []"
| "js_join sep [s] = s"
| "js_join sep (s # ss) = s @ sep @ js_join sep ss"

text \<open>\<open>String.prototype.split\<close> at single characters.\<close>

fun split_at :: "(char \<Rightarrow> bool) \<Rightarrow> string \<Rightarrow> string list" where
  "split_at p [] = [[]]"
| "split_at p (c # s) =
     (if p c then [] # split_at p s
      else (case split_at p s of [] \<Rightarrow> [[c]] | w # ws \<Rightarrow> (c # w) # ws))"

lemma split_at_nonempty [simp]: "split_at p s \<noteq> []"
  by (cases s) (auto split: list.splits)

lemma starts_with_iff: "starts_with s p \<longleftrightarrow> (\<exists>w. s = p @ w)"
  unfolding starts_with_def by (metis append_eq_conv_conj)

lemma split_at_append: "p c \<Longrightarrow> split_at p (a @ c # b) = split_at p a @ split_at p b"
  by (induction a) (auto split: list.splits)

lemma split_at_none: "\<forall>c\<in>set s. \<not> p c \<Longrightarrow> split_at p s = [s]"
  by (induction s) auto

lemma split_at_pieces: "w \<in> set (split_at p s) \<Longrightarrow> c \<in> set w \<Longrightarrow> \<not> p c"
proof (induction s arbitrary: w)
  case (Cons d s)
  obtain a as where s: "split_at p s = a # as" by (cases "split_at p s") auto
  with Cons.IH [of a] Cons.IH [of w] Cons.prems show ?case by (auto split: if_splits)
qed simp

lemma js_join_Cons: "ss \<noteq> [] \<Longrightarrow> js_join sep (s # ss) = s @ sep @ js_join sep ss"
  by (cases ss) auto

lemma js_join_append:
  "xs \<noteq> [] \<Longrightarrow> ys \<noteq> [] \<Longrightarrow> js_join sep (xs @ ys) = js_join sep xs @ sep @ js_join sep ys"
proof (induction xs)
  case (Cons x xs)
  then show ?case by (cases "xs = []") (simp_all add: js_join_Cons)
qed simp

definition ascii_lower :: "char \<Rightarrow> char" where
  "ascii_lower c = (let b = (of_char c :: int) in if 65 \<le> b \<and> b \<le> 90 then char_of (b + 32) else c)"

text \<open>Character classes, and a pattern of one leading class and a bounded tail of another.\<close>

definition is_upper :: "char \<Rightarrow> bool" where
  "is_upper c \<longleftrightarrow> (let b = (of_char c :: int) in 65 \<le> b \<and> b \<le> 90)"

definition is_lower :: "char \<Rightarrow> bool" where
  "is_lower c \<longleftrightarrow> (let b = (of_char c :: int) in 97 \<le> b \<and> b \<le> 122)"

definition is_digit :: "char \<Rightarrow> bool" where
  "is_digit c \<longleftrightarrow> (let b = (of_char c :: int) in 48 \<le> b \<and> b \<le> 57)"

definition matches :: "(char \<Rightarrow> bool) \<Rightarrow> (char \<Rightarrow> bool) \<Rightarrow> nat \<Rightarrow> string \<Rightarrow> bool" where
  "matches first rest n s \<longleftrightarrow>
     (case s of [] \<Rightarrow> False | c # cs \<Rightarrow> first c \<and> list_all rest cs \<and> length cs \<le> n)"

function nat_digits :: "nat \<Rightarrow> string" where
  "nat_digits n = (if n < 10 then [char_of (48 + n)] else nat_digits (n div 10) @ [char_of (48 + n mod 10)])"
  by pat_completeness auto
termination
  by (relation "measure id") auto

declare nat_digits.simps [simp del]

definition int_text :: "int \<Rightarrow> string" where
  "int_text n = (if n < 0 then CHR ''-'' # nat_digits (nat (- n)) else nat_digits (nat n))"

text \<open>\<open>String(v)\<close>, with the array case of \<open>Array.prototype.toString\<close>.\<close>

fun js_String :: "jsval \<Rightarrow> string" where
  "js_String JUndef = ''undefined''"
| "js_String JNull = ''null''"
| "js_String (JBool b) = (if b then ''true'' else ''false'')"
| "js_String (JInt n) = int_text n"
| "js_String (JFlt _ t) = t"
| "js_String JNaN = ''NaN''"
| "js_String (JInf neg) = (if neg then ''-Infinity'' else ''Infinity'')"
| "js_String (JStr s) = s"
| "js_String (JArr vs) =
     js_join '','' (map (\<lambda>v. case v of JUndef \<Rightarrow> [] | JNull \<Rightarrow> [] | _ \<Rightarrow> js_String v) vs)"
| "js_String (JObj _) = ''[object Object]''"

fun js_truthy :: "jsval \<Rightarrow> bool" where
  "js_truthy JUndef = False"
| "js_truthy JNull = False"
| "js_truthy (JBool b) = b"
| "js_truthy (JInt n) = (n \<noteq> 0)"
| "js_truthy JNaN = False"
| "js_truthy (JStr s) = (s \<noteq> [])"
| "js_truthy _ = True"

section \<open>JSON text\<close>

definition hex_digit :: "nat \<Rightarrow> char" where
  "hex_digit n = (if n < 10 then char_of (48 + n) else char_of (87 + n))"

definition json_char :: "char \<Rightarrow> string" where
  "json_char c =
     (let b = (of_char c :: int) in
      if c = CHR 34 then [CHR 92, CHR 34]
      else if c = CHR 92 then [CHR 92, CHR 92]
      else if b = 8 then [CHR 92, CHR ''b'']
      else if b = 12 then [CHR 92, CHR ''f'']
      else if b = 10 then [CHR 92, CHR ''n'']
      else if b = 13 then [CHR 92, CHR ''r'']
      else if b = 9 then [CHR 92, CHR ''t'']
      else if b < 32 then CHR 92 # ''u00'' @ [hex_digit (nat (b div 16)), hex_digit (nat (b mod 16))]
      else [c])"

definition json_string :: "string \<Rightarrow> string" where
  "json_string s = CHR 34 # concat (map json_char s) @ [CHR 34]"

text \<open>\<open>JSON.stringify\<close>: \<^term>\<open>None\<close> is the result \<open>undefined\<close>.\<close>

fun json_stringify :: "jsval \<Rightarrow> string option" where
  "json_stringify JUndef = None"
| "json_stringify JNull = Some ''null''"
| "json_stringify (JBool b) = Some (if b then ''true'' else ''false'')"
| "json_stringify (JInt n) = Some (int_text n)"
| "json_stringify (JFlt _ t) = Some t"
| "json_stringify JNaN = Some ''null''"
| "json_stringify (JInf _) = Some ''null''"
| "json_stringify (JStr s) = Some (json_string s)"
| "json_stringify (JArr vs) =
     Some (''['' @ js_join '','' (map (\<lambda>v. case json_stringify v of None \<Rightarrow> ''null'' | Some t \<Rightarrow> t) vs) @ '']'')"
| "json_stringify (JObj fs) =
     Some (''{'' @ js_join '','' (concat (map (\<lambda>(k, v).
       (case json_stringify v of None \<Rightarrow> [] | Some t \<Rightarrow> [json_string k @ '':'' @ t])) fs)) @ ''}'')"

text \<open>
  The canonical text the digests are taken of: as \<open>JSON.stringify\<close>, with the fields of
  every object sorted by name.  The source's functions agree on values without undefined
  fields, the only ones that are hashed.
\<close>

fun canonicalJson :: "jsval \<Rightarrow> string" where
  "canonicalJson (JArr vs) = ''['' @ js_join '','' (map canonicalJson vs) @ '']''"
| "canonicalJson (JObj fs) =
     ''{'' @ js_join '',''
       (map (\<lambda>(k, t). json_string k @ '':'' @ t)
         (sort_key fst (map (\<lambda>(k, v). (k, canonicalJson v)) fs))) @ ''}''"
| "canonicalJson v = (case json_stringify v of None \<Rightarrow> ''undefined'' | Some t \<Rightarrow> t)"

text \<open>The nodes of a value.\<close>

fun json_nodes :: "jsval \<Rightarrow> nat" where
  "json_nodes (JArr vs) = Suc (sum_list (map json_nodes vs))"
| "json_nodes (JObj fs) = Suc (sum_list (map (\<lambda>(k, v). json_nodes v) fs))"
| "json_nodes v = 1"

section \<open>Arrays and sets\<close>

text \<open>\<open>[...new Set(xs)]\<close>: the first occurrence of every element, in order.\<close>

fun uniq :: "'a list \<Rightarrow> 'a list" where
  "uniq [] = []"
| "uniq (x # xs) = x # removeAll x (uniq xs)"

lemma set_uniq [simp]: "set (uniq xs) = set xs"
  by (induction xs) auto

lemma distinct_uniq [simp]: "distinct (uniq xs)"
  by (induction xs) (auto simp: distinct_removeAll)

lemma uniq_distinct: "distinct xs \<Longrightarrow> uniq xs = xs"
  by (induction xs) (auto simp: removeAll_id)

text \<open>
  \<open>Array.prototype.sort\<close> with a comparator: the sort is stable, so for a comparator that
  is a total preorder the insertion sort gives the same array.
\<close>

fun insert_cmp :: "('a \<Rightarrow> 'a \<Rightarrow> int) \<Rightarrow> 'a \<Rightarrow> 'a list \<Rightarrow> 'a list" where
  "insert_cmp cmp x [] = [x]"
| "insert_cmp cmp x (y # ys) = (if cmp x y \<le> 0 then x # y # ys else y # insert_cmp cmp x ys)"

fun sort_cmp :: "('a \<Rightarrow> 'a \<Rightarrow> int) \<Rightarrow> 'a list \<Rightarrow> 'a list" where
  "sort_cmp cmp [] = []"
| "sort_cmp cmp (x # xs) = insert_cmp cmp x (sort_cmp cmp xs)"

text \<open>A comparator on strings, standing for \<open>localeCompare\<close> where a concrete one is needed.\<close>

definition lex_cmp :: "string \<Rightarrow> string \<Rightarrow> int" where
  "lex_cmp s t = (if s < t then -1 else if s = t then 0 else 1)"

lemma mset_insert_cmp [simp]: "mset (insert_cmp cmp x ys) = add_mset x (mset ys)"
  by (induction ys) auto

lemma mset_sort_cmp [simp]: "mset (sort_cmp cmp xs) = mset xs"
  by (induction xs) auto

lemma set_sort_cmp [simp]: "set (sort_cmp cmp xs) = set xs"
  by (metis mset_sort_cmp set_mset_mset)

lemma length_sort_cmp [simp]: "length (sort_cmp cmp xs) = length xs"
  by (metis mset_sort_cmp size_mset)

section \<open>Maps in insertion order\<close>

text \<open>
  A JavaScript \<open>Map\<close>: setting an existing key keeps its position, a new key goes last.
\<close>

fun jm_set :: "'k \<Rightarrow> 'v \<Rightarrow> ('k \<times> 'v) list \<Rightarrow> ('k \<times> 'v) list" where
  "jm_set k v [] = [(k, v)]"
| "jm_set k v ((k', v') # m) = (if k' = k then (k, v) # m else (k', v') # jm_set k v m)"

definition jm_delete :: "'k \<Rightarrow> ('k \<times> 'v) list \<Rightarrow> ('k \<times> 'v) list" where
  "jm_delete k m = filter (\<lambda>p. fst p \<noteq> k) m"

abbreviation jm_get :: "('k \<times> 'v) list \<Rightarrow> 'k \<Rightarrow> 'v option" where
  "jm_get m k \<equiv> map_of m k"

abbreviation jm_keys :: "('k \<times> 'v) list \<Rightarrow> 'k list" where
  "jm_keys m \<equiv> map fst m"

lemma jm_set_same:
  "(\<And>v'. (k, v') \<in> set m \<Longrightarrow> v' = v) \<Longrightarrow> set (jm_set k v m) = insert (k, v) (set m)"
proof (induction m)
  case (Cons p m)
  have "set (jm_set k v m) = insert (k, v) (set m)"
    by (rule Cons.IH) (rule Cons.prems, simp)
  with Cons.prems show ?case
    by (cases p; cases "fst p = k") (simp, fastforce, auto)
qed simp

text \<open>The interface of such a map, and its interpretation on the association lists.\<close>

locale ordered_map =
  fixes keys :: "'m \<Rightarrow> 'k list"
    and lookup :: "'m \<Rightarrow> 'k \<Rightarrow> 'v option"
    and put :: "'k \<Rightarrow> 'v \<Rightarrow> 'm \<Rightarrow> 'm"
    and remove :: "'k \<Rightarrow> 'm \<Rightarrow> 'm"
  assumes lookup_put: "lookup (put k v m) k' = (if k' = k then Some v else lookup m k')"
    and lookup_remove: "lookup (remove k m) k' = (if k' = k then None else lookup m k')"
    and keys_put: "keys (put k v m) = (if k \<in> set (keys m) then keys m else keys m @ [k])"
    and keys_remove: "keys (remove k m) = filter (\<lambda>k'. k' \<noteq> k) (keys m)"
    and lookup_keys: "(lookup m k = None) = (k \<notin> set (keys m))"
begin

lemma distinct_put: "distinct (keys m) \<Longrightarrow> distinct (keys (put k v m))"
  by (simp add: keys_put)

lemma distinct_remove: "distinct (keys m) \<Longrightarrow> distinct (keys (remove k m))"
  by (simp add: keys_remove)

lemma put_same_size: "k \<in> set (keys m) \<Longrightarrow> length (keys (put k v m)) = length (keys m)"
  by (simp add: keys_put)

lemma remove_put: "lookup (remove k (put k v m)) = lookup (remove k m)"
  by (auto simp: lookup_put lookup_remove)

end

lemma jm_set_subset: "set (jm_set k v m) \<subseteq> insert (k, v) (set m)"
  by (induction k v m rule: jm_set.induct) (auto split: if_splits)

lemma jm_set_all: "\<forall>(j, b)\<in>set m. P j b \<Longrightarrow> P i a \<Longrightarrow> \<forall>(j, b)\<in>set (jm_set i a m). P j b"
  using jm_set_subset [of i a m] by blast

lemma jm_set_length: "length (jm_set k v m) = (if k \<in> fst ` set m then length m else Suc (length m))"
  by (induction k v m rule: jm_set.induct) auto

lemma jm_get_set: "jm_get (jm_set k v m) k' = (if k' = k then Some v else jm_get m k')"
  by (induction m) auto

lemma jm_keys_set:
  "jm_keys (jm_set k v m) = (if k \<in> set (jm_keys m) then jm_keys m else jm_keys m @ [k])"
proof (induction m)
  case (Cons p m)
  then show ?case by (cases p) (simp only: jm_set.simps, simp)
qed simp

lemma jm_get_delete: "jm_get (jm_delete k m) k' = (if k' = k then None else jm_get m k')"
  by (induction m) (auto simp: jm_delete_def)

lemma jm_keys_delete: "jm_keys (jm_delete k m) = filter (\<lambda>k'. k' \<noteq> k) (jm_keys m)"
  by (induction m) (auto simp: jm_delete_def)

interpretation jm: ordered_map jm_keys map_of jm_set jm_delete
  by unfold_locales (simp_all add: jm_get_set jm_get_delete jm_keys_set jm_keys_delete map_of_eq_None_iff)

section \<open>Runs of operations\<close>

text \<open>
  A stateful component: a step per operation, with the outcomes of its environment as
  part of the operation, and an invariant every step keeps.
\<close>

fun run_ops :: "('s \<Rightarrow> 'op \<Rightarrow> 's) \<Rightarrow> 's \<Rightarrow> 'op list \<Rightarrow> 's" where
  "run_ops step s [] = s"
| "run_ops step s (x # xs) = run_ops step (step s x) xs"

locale op_system =
  fixes step :: "'s \<Rightarrow> 'op \<Rightarrow> 's"
    and inv :: "'s \<Rightarrow> bool"
  assumes step_inv: "inv s \<Longrightarrow> inv (step s x)"
begin

lemma run_inv: "inv s \<Longrightarrow> inv (run_ops step s xs)"
  by (induction xs arbitrary: s) (auto intro: step_inv)

lemma run_stays:
  assumes "inv s" and "P s" and step: "\<And>s x. inv s \<Longrightarrow> P s \<Longrightarrow> P (step s x)"
  shows "P (run_ops step s xs)"
  using assms(1,2)
proof (induction xs arbitrary: s)
  case (Cons x xs)
  then show ?case by (simp add: step_inv step)
qed simp

lemma run_mono:
  fixes f :: "'s \<Rightarrow> 'n::preorder"
  assumes "inv s" and "\<And>s x. inv s \<Longrightarrow> f s \<le> f (step s x)"
  shows "f s \<le> f (run_ops step s xs)"
  using assms(1)
proof (induction xs arbitrary: s)
  case Nil
  then show ?case by simp
next
  case (Cons x xs)
  then have "f (step s x) \<le> f (run_ops step (step s x) xs)"
    by (simp add: step_inv)
  with assms(2) [OF Cons.prems, of x] show ?case
    by (auto intro: order_trans)
qed

end

lemma run_ops_append: "run_ops step s (xs @ ys) = run_ops step (run_ops step s xs) ys"
  by (induction xs arbitrary: s) simp_all

text \<open>\<open>v ?? d\<close>\<close>

definition nullish :: "jsval \<Rightarrow> jsval \<Rightarrow> jsval" where
  "nullish v d = (if v = JUndef \<or> v = JNull then d else v)"

section \<open>Objects\<close>

text \<open>\<open>{ ...a, ...b }\<close>\<close>

definition js_assign :: "(string \<times> jsval) list \<Rightarrow> (string \<times> jsval) list \<Rightarrow> (string \<times> jsval) list" where
  "js_assign a b = fold (\<lambda>(k, v) o'. jm_set k v o') b a"

fun is_obj :: "jsval \<Rightarrow> bool" where
  "is_obj (JObj fs) = True"
| "is_obj _ = False"

fun the_obj :: "jsval \<Rightarrow> (string \<times> jsval) list" where
  "the_obj (JObj fs) = fs"
| "the_obj _ = []"

lemma js_field_set [simp]: "js_field (jm_set k v m) k' = (if k' = k then v else js_field m k')"
  by (induction m) auto

lemma js_assign_simps [simp]:
  "js_assign a [] = a" "js_assign a ((k, v) # b) = js_assign (jm_set k v a) b"
  by (simp_all add: js_assign_def)

lemma js_field_none: "k \<notin> fst ` set m \<Longrightarrow> js_field m k = JUndef"
  by (induction m) auto

lemma js_field_assign: "k \<notin> fst ` set b \<Longrightarrow> js_field (js_assign a b) k = js_field a k"
proof (induction b arbitrary: a)
  case (Cons p b)
  then show ?case by (cases p) auto
qed simp

lemma js_field_delete: "js_field (jm_delete k a) k' = (if k' = k then JUndef else js_field a k')"
  by (induction a) (auto simp: jm_delete_def)

lemma js_assign_length: "length (js_assign a b) \<le> length a + length b"
proof (induction b arbitrary: a)
  case (Cons p b)
  obtain k v where "p = (k, v)" by (cases p)
  with Cons [of "jm_set k v a"] show ?case by (simp add: jm_set_length split: if_splits)
qed simp

end
