(* ===== verification/Capabilities.thy ===== *)
theory Capabilities
  imports Prelude
begin

text \<open>
  The trusted capability and tool registries of \<open>packages/policy/src/capabilities.ts\<close> and
  the operations on them: validation of capability sets, the lookups by tool name, the
  migration of legacy policies and the intersection that bounds a delegated child.
\<close>

section \<open>The capability registry\<close>

record capability_entry =
  cap_id :: string
  cap_description :: string

definition capability :: "string \<Rightarrow> string \<Rightarrow> capability_entry" where
  "capability i d = \<lparr>cap_id = i, cap_description = d\<rparr>"

definition CAPABILITY_REGISTRY_VERSION :: int where
  "CAPABILITY_REGISTRY_VERSION = 1"

definition CAPABILITY_REGISTRY :: "capability_entry list" where
  "CAPABILITY_REGISTRY = [
     capability ''workspace.inspect'' ''Inspect bounded workspace and local runtime state.'',
     capability ''workspace.mutate'' ''Create, update, or remove workspace and local runtime state.'',
     capability ''workspace.patch'' ''Apply a bounded, reviewable workspace patch.'',
     capability ''git.read'' ''Inspect bounded status, diffs, and history from the assigned local Git worktree.'',
     capability ''github.read'' ''Read bounded metadata and content from explicitly allowed GitHub repositories.'',
     capability ''node.read'' ''Read bounded status and diagnostics from explicitly allowed authenticated nodes.'',
     capability ''process.execute'' ''Execute a bounded process without an implicit shell.'',
     capability ''process.interactive'' ''Control an interactive process or terminal session.'',
     capability ''process.shell'' ''Interpret shell syntax; separate from argument-array process execution.'',
     capability ''network.access'' ''Access a configured network service or public network resource.'',
     capability ''browser.read'' ''Inspect browser tabs, pages, and recovery state.'',
     capability ''browser.mutate'' ''Change browser or remote page state.'',
     capability ''computer.read'' ''Inspect a paired computer display.'',
     capability ''computer.mutate'' ''Send bounded input to an explicitly paired computer display.'',
     capability ''email.read'' ''Read bounded content from explicitly selected email accounts.'',
     capability ''calendar.read'' ''Read bounded events from explicitly selected calendar accounts.'',
     capability ''agent.delegate'' ''Delegate bounded work to a child agent.'',
     capability ''mcp.discover'' ''Discover tools from a configured MCP server.'',
     capability ''mcp.invoke'' ''Invoke a tool on a configured MCP server.'',
     capability ''skill.catalog'' ''List bounded metadata for explicitly enabled skill packages.'',
     capability ''skill.hydrate'' ''Hydrate a trusted, selected skill package.'',
     capability ''skill.manage'' ''Create or change the lifecycle of a managed skill package.'',
     capability ''event.register'' ''Register a durable event source or trigger.'',
     capability ''secret.reference.use'' ''Use an opaque operator-provided secret reference.'',
     capability ''restore.create'' ''Create a bounded recovery snapshot.'',
     capability ''restore.apply'' ''Apply an operator-reviewed recovery snapshot.'']"

definition CAPABILITY_IDS :: "string list" where
  "CAPABILITY_IDS = map cap_id CAPABILITY_REGISTRY"

definition DEFAULT_ALLOWED_CAPABILITIES :: "string list" where
  "DEFAULT_ALLOWED_CAPABILITIES = [''workspace.inspect'', ''workspace.mutate'', ''network.access'',
     ''browser.read'', ''browser.mutate'', ''agent.delegate'']"

section \<open>The tool registry\<close>

datatype tool_effect =
  E_read | E_filesystem_write | E_process | E_network | E_credential | E_external_state

datatype reversibility =
  R_pure | R_snapshot_reversible | R_compensatable | R_irreversible

record safety_policy =
  sp_effects :: "tool_effect list"
  sp_reversibility :: reversibility
  sp_requiresCapability :: bool
  sp_requiresApproval :: bool
  sp_retrySafe :: bool

datatype effect_reversible = ER_reversible | ER_irreversible | ER_uncertain
datatype effect_idempotency = EI_idempotent | EI_non_idempotent | EI_unknown

record approval_effect =
  ae_effectClass :: string
  ae_summaryAction :: string
  ae_targetFallback :: string
  ae_targetFields :: "string list"
  ae_mutation :: string
  ae_recovery :: string
  ae_reversible :: effect_reversible
  ae_idempotency :: effect_idempotency

datatype approval_flag = Approval_required | Approval_not_required

record tool_entry =
  te_tool :: string
  te_capabilities :: "string list"
  te_legacyCapabilities :: "string list"
  te_approval :: "approval_flag option"
  te_safety :: "safety_policy option"
  te_approvalEffect :: "approval_effect option"

text \<open>The three optional fields of \<open>options\<close> are arguments, \<^term>\<open>None\<close> when absent.\<close>

definition tool_with :: "string \<Rightarrow> string list \<Rightarrow> string list \<Rightarrow> approval_flag option
    \<Rightarrow> safety_policy option \<Rightarrow> approval_effect option \<Rightarrow> tool_entry" where
  "tool_with name capabilities legacy appr safety effect =
     \<lparr>te_tool = name, te_capabilities = capabilities, te_legacyCapabilities = legacy,
      te_approval = appr, te_safety = safety, te_approvalEffect = effect\<rparr>"

definition tool :: "string \<Rightarrow> string list \<Rightarrow> string list \<Rightarrow> tool_entry" where
  "tool name capabilities legacy = tool_with name capabilities legacy None None None"

definition safety :: "tool_effect list \<Rightarrow> reversibility \<Rightarrow> bool \<Rightarrow> bool \<Rightarrow> safety_policy" where
  "safety effects kind appr retry =
     \<lparr>sp_effects = effects, sp_reversibility = kind, sp_requiresCapability = True,
      sp_requiresApproval = appr, sp_retrySafe = retry\<rparr>"

definition inspectTools :: "(string \<times> string) list" where
  "inspectTools = [
     (''job.healthcheck'', ''job.healthcheck''), (''text.echo'', ''text.echo''),
     (''workspace.readText'', ''workspace.readText''),
     (''workspace.list'', ''workspace.list''), (''workspace.stat'', ''workspace.stat''),
     (''workspace.search'', ''workspace.search''),
     (''workspace.read'', ''workspace.read''), (''workspace.diff'', ''workspace.diff''),
     (''memory.candidates'', ''memory.read''), (''memory.search'', ''memory.read''),
     (''memory.recall'', ''memory.read''),
     (''memory.browse'', ''memory.read''), (''memory.open'', ''memory.read''),
     (''memory.curate'', ''memory.read''),
     (''session.list'', ''session.read''), (''session.read'', ''session.read''),
     (''project.list'', ''session.read''),
     (''goal.list'', ''goal.read''), (''improve.list'', ''improve.read'')]"

definition mutateTools :: "(string \<times> string) list" where
  "mutateTools = [
     (''memory.remember'', ''memory.write''), (''memory.suggest'', ''memory.write''),
     (''memory.decide'', ''memory.write''),
     (''memory.compact'', ''memory.write''), (''memory.correct'', ''memory.write''),
     (''memory.forget'', ''memory.write''),
     (''session.create'', ''session.write''), (''session.message'', ''session.write''),
     (''session.rename'', ''session.write''),
     (''session.assign'', ''session.write''), (''session.update'', ''session.write''),
     (''session.delete'', ''session.write''),
     (''project.create'', ''session.write''), (''project.update'', ''session.write''),
     (''goal.create'', ''goal.write''),
     (''goal.update'', ''goal.write''), (''improve.propose'', ''improve.write''),
     (''improve.learn'', ''improve.write''),
     (''improve.decide'', ''improve.write''), (''improve.rollback'', ''improve.write'')]"

definition discordReadTools :: "string list" where
  "discordReadTools = [
     ''discord.listChannels'', ''discord.readMessages'', ''discord.listReactions'', ''discord.listPins'',
     ''discord.listThreads'', ''discord.searchMessages'']"

definition discordMutationTools :: "string list" where
  "discordMutationTools = [
     ''discord.sendMessage'', ''discord.editMessage'', ''discord.deleteMessage'', ''discord.addReaction'',
     ''discord.removeReaction'', ''discord.pinMessage'', ''discord.unpinMessage'', ''discord.sendPoll'',
     ''discord.createThread'', ''discord.replyThread'']"

definition discordReadSafety :: safety_policy where
  "discordReadSafety = safety [E_read, E_network] R_pure False False"

definition discordMutationSafety :: "string \<Rightarrow> safety_policy option" where
  "discordMutationSafety name =
     (if name = ''discord.sendMessage'' \<or> name = ''discord.addReaction''
      then Some (safety [E_network, E_credential, E_external_state] R_compensatable True False)
      else if name = ''discord.createThread''
      then Some (safety [E_network, E_credential, E_external_state] R_irreversible True False)
      else None)"

definition discordApprovalEffect :: "string \<Rightarrow> approval_effect" where
  "discordApprovalEffect name =
     \<lparr>ae_effectClass = ''Discord mutation'',
      ae_summaryAction = ''Discord mutation'',
      ae_targetFallback = ''the configured Discord target'',
      ae_targetFields = [''channelId'', ''threadId'', ''messageId''],
      ae_mutation = drop (length ''discord.'') name,
      ae_recovery = ''An uncertain external mutation requires operator review before retry.'',
      ae_reversible = (if js_includes name ''delete'' then ER_irreversible else ER_uncertain),
      ae_idempotency = EI_non_idempotent\<rparr>"

text \<open>The registry in the order of the source, a group per definition.\<close>

definition workspaceRegistry :: "tool_entry list" where
  "workspaceRegistry =
     map (\<lambda>(name, legacy). tool name [''workspace.inspect''] [legacy]) inspectTools @
     map (\<lambda>(name, legacy). tool name [''workspace.mutate''] [legacy]) mutateTools @
     [tool ''workspace.mutate'' [''workspace.mutate''] [],
      tool ''workspace.patch'' [''workspace.patch''] []] @
     map (\<lambda>name. tool_with name [''git.read''] [] (Some Approval_not_required)
           (Some (safety [E_read] R_pure False True)) None)
       [''git.status'', ''git.diff'', ''git.log''] @
     map (\<lambda>name. tool_with name [''github.read'', ''network.access'', ''secret.reference.use''] []
           (Some Approval_not_required)
           (Some (safety [E_read, E_network, E_credential] R_pure False True)) None)
       [''github.repository'', ''github.issue'', ''github.pull-request'', ''github.checks''] @
     map (\<lambda>name. tool_with name [''node.read'', ''network.access'', ''secret.reference.use''] []
           (Some Approval_not_required)
           (Some (safety [E_read, E_network, E_credential] R_pure False False)) None)
       [''node.status'', ''node.diagnostics'']"

definition executionRegistry :: "tool_entry list" where
  "executionRegistry = [
     tool ''restore.create'' [''restore.create''] [],
     tool ''restore.apply'' [''restore.apply''] [],
     tool ''snapshot.create'' [''restore.create''] [],
     tool ''snapshot.restore'' [''restore.apply''] [],
     tool ''process.exec'' [''process.execute''] [''process.exec''],
     tool ''agent.delegate'' [''agent.delegate''] [''agent.delegate''],
     tool ''web.search'' [''network.access''] [''web.read''],
     tool ''web.fetch'' [''network.access''] [''web.read''],
     tool ''browser.tabs'' [''browser.read''] [''browser.read''],
     tool ''browser.open'' [''browser.read'', ''network.access''] [''browser.read''],
     tool ''browser.snapshot'' [''browser.read''] [''browser.read''],
     tool ''browser.recovery.status'' [''browser.read''] [''browser.read''],
     tool ''browser.click'' [''browser.mutate'', ''network.access''] [''browser.act''],
     tool ''browser.type'' [''browser.mutate'', ''network.access''] [''browser.act''],
     tool ''browser.press'' [''browser.mutate'', ''network.access''] [''browser.act''],
     tool_with ''browser.recovery.resolve'' [''browser.mutate''] [''browser.act'']
       (Some Approval_not_required)
       (Some (safety [E_filesystem_write, E_external_state] R_compensatable False False)) None]"

definition computerRegistry :: "tool_entry list" where
  "computerRegistry = [
     tool_with ''computer.screen'' [''computer.read''] [''computer.screen'']
       (Some Approval_not_required)
       (Some (safety [E_read, E_credential] R_pure False False)) None,
     tool_with ''computer.act'' [''computer.mutate''] []
       (Some Approval_required)
       (Some (safety [E_credential, E_external_state] R_irreversible True False))
       (Some \<lparr>ae_effectClass = ''paired computer mutation'',
              ae_summaryAction = ''computer input'',
              ae_targetFallback = ''the explicitly paired computer display'',
              ae_targetFields = [],
              ae_mutation = ''act'',
              ae_recovery = ''An uncertain computer input outcome requires operator inspection before another action.'',
              ae_reversible = ER_uncertain,
              ae_idempotency = EI_non_idempotent\<rparr>),
     tool_with ''computer.recovery.status'' [''computer.read''] []
       (Some Approval_not_required)
       (Some (safety [E_read] R_pure False True)) None,
     tool_with ''computer.recovery.resolve'' [''computer.mutate''] []
       (Some Approval_not_required)
       (Some (safety [E_filesystem_write, E_external_state] R_compensatable False False)) None]"

definition serviceRegistry :: "tool_entry list" where
  "serviceRegistry =
     map (\<lambda>name. tool_with name [''email.read'', ''network.access'', ''secret.reference.use''] []
           (Some Approval_not_required)
           (Some (safety [E_read, E_network, E_credential] R_pure False False)) None)
       [''email.accounts'', ''email.search'', ''email.read'', ''email.thread''] @
     map (\<lambda>name. tool_with name [''calendar.read'', ''network.access'', ''secret.reference.use''] []
           (Some Approval_not_required)
           (Some (safety [E_read, E_network, E_credential] R_pure False False)) None)
       [''calendar.calendars'', ''calendar.events'', ''calendar.read''] @
     [tool ''agent.run'' [''agent.delegate'', ''network.access''] [''agent.run''],
      tool ''model.chat'' [''network.access''] [''model.chat''],
      tool ''mcp.discover'' [''mcp.discover''] [],
      tool ''mcp.invoke'' [''mcp.invoke''] [],
      tool ''skill.catalog'' [''skill.catalog''] [''skill.catalog''],
      tool ''skill.hydrate'' [''skill.hydrate''] [''skill.hydrate''],
      tool ''skill.install'' [''skill.manage''] [''skill.install''],
      tool ''skill.lifecycle'' [''skill.manage''] [''skill.lifecycle'']]"

definition discordRegistry :: "tool_entry list" where
  "discordRegistry =
     map (\<lambda>name. tool_with name [''network.access''] [''discord.read''] (Some Approval_not_required)
           (if name \<in> set [''discord.listChannels'', ''discord.readMessages'']
            then Some discordReadSafety else None) None) discordReadTools @
     map (\<lambda>name. tool_with name [''network.access''] [''discord.write''] (Some Approval_required)
           (discordMutationSafety name) (Some (discordApprovalEffect name))) discordMutationTools"

definition TOOL_CAPABILITY_REGISTRY :: "tool_entry list" where
  "TOOL_CAPABILITY_REGISTRY =
     workspaceRegistry @ executionRegistry @ computerRegistry @ serviceRegistry @ discordRegistry"

section \<open>Errors and lookups\<close>

datatype cap_code =
  UNKNOWN_CAPABILITY | UNKNOWN_TOOL | INVALID_CAPABILITY_SET | CAPABILITY_ESCALATION

record cap_error =
  ce_code :: cap_code
  ce_message :: string
  ce_details :: "(string \<times> jsval) list"

definition CapabilityRegistryError ::
    "cap_code \<Rightarrow> string \<Rightarrow> (string \<times> jsval) list \<Rightarrow> cap_error" where
  "CapabilityRegistryError code msg details =
     \<lparr>ce_code = code, ce_message = msg, ce_details = details\<rparr>"

definition jstrs :: "string list \<Rightarrow> jsval" where
  "jstrs ss = JArr (map JStr ss)"

text \<open>The registry indexed by tool name: \<open>new Map(...)\<close> keeps the last entry of a name.\<close>

definition toolCapabilities :: "string \<Rightarrow> tool_entry option" where
  "toolCapabilities name = List.find (\<lambda>e. te_tool e = name) (rev TOOL_CAPABILITY_REGISTRY)"

definition is_capability :: "string \<Rightarrow> bool" where
  "is_capability s \<longleftrightarrow> s \<in> set CAPABILITY_IDS"

fun isCapabilityId :: "jsval \<Rightarrow> bool" where
  "isCapabilityId (JStr s) = is_capability s"
| "isCapabilityId _ = False"

definition nonblank_str :: "jsval \<Rightarrow> bool" where
  "nonblank_str v \<longleftrightarrow> is_str v \<and> js_trim (the_str v) \<noteq> []"

definition assertCapabilityIds :: "jsval \<Rightarrow> string \<Rightarrow> cap_error + string list" where
  "assertCapabilityIds value label =
     (case value of
        JArr vs \<Rightarrow>
          if 128 < length vs \<or> list_ex (\<lambda>v. \<not> nonblank_str v) vs
          then Inl (CapabilityRegistryError INVALID_CAPABILITY_SET
            (label @ '' must be an array of at most 128 non-empty capability identifiers'') [])
          else
            let result = sort (uniq (map js_String vs));
                unknown = filter (\<lambda>s. \<not> is_capability s) result in
            if unknown \<noteq> []
            then Inl (CapabilityRegistryError UNKNOWN_CAPABILITY
              (''unknown capability identifier: '' @ js_join '', '' unknown) [(''unknown'', jstrs unknown)])
            else Inr result
      | _ \<Rightarrow> Inl (CapabilityRegistryError INVALID_CAPABILITY_SET
            (label @ '' must be an array of at most 128 non-empty capability identifiers'') []))"

definition unknown_tool :: "string \<Rightarrow> cap_error" where
  "unknown_tool toolName = CapabilityRegistryError UNKNOWN_TOOL
     (''tool has no trusted capability declaration: '' @ toolName) [(''tool'', JStr toolName)]"

definition capabilitiesForTool :: "string \<Rightarrow> cap_error + string list" where
  "capabilitiesForTool toolName =
     (case toolCapabilities toolName of
        None \<Rightarrow> Inl (unknown_tool toolName)
      | Some entry \<Rightarrow> Inr (te_capabilities entry))"

definition legacyCapabilitiesForTool :: "string \<Rightarrow> cap_error + string list" where
  "legacyCapabilitiesForTool toolName =
     (case toolCapabilities toolName of
        None \<Rightarrow> Inl (unknown_tool toolName)
      | Some entry \<Rightarrow> Inr (te_legacyCapabilities entry))"

definition approvalRequirementForTool :: "string \<Rightarrow> bool option" where
  "approvalRequirementForTool toolName =
     (case toolCapabilities toolName of
        None \<Rightarrow> None
      | Some entry \<Rightarrow> map_option (\<lambda>a. a = Approval_required) (te_approval entry))"

definition safetyPolicyForTool :: "string \<Rightarrow> safety_policy option" where
  "safetyPolicyForTool toolName = Option.bind (toolCapabilities toolName) te_safety"

definition approvalEffectPolicyForTool :: "string \<Rightarrow> approval_effect option" where
  "approvalEffectPolicyForTool toolName = Option.bind (toolCapabilities toolName) te_approvalEffect"

section \<open>Migration of legacy policies\<close>

record grant =
  g_capability :: string
  g_tool :: string

record migration_entry =
  me_legacyCapability :: string
  me_capabilities :: "string list"
  me_tools :: "string list"

text \<open>
  The report's constant fields (\<open>disposition: "scoped"\<close>, \<open>automaticWidening: false\<close>) are not
  repeated in the records.
\<close>

record migration_report =
  mr_registryVersion :: int
  mr_required :: bool
  mr_legacyCapabilities :: "string list"
  mr_entries :: "migration_entry list"

record migrated_policy =
  mp_allowedCapabilities :: "string list"
  mp_scopedCapabilities :: "grant list"
  mp_report :: migration_report

type_synonym grant_map = "(string \<times> grant) list"

definition grant_key :: "string \<Rightarrow> string \<Rightarrow> string" where
  "grant_key toolName cap = toolName @ [CHR 0x00] @ cap"

definition put_grant :: "string \<Rightarrow> string \<Rightarrow> grant_map \<Rightarrow> grant_map" where
  "put_grant toolName cap m = jm_set (grant_key toolName cap) \<lparr>g_capability = cap, g_tool = toolName\<rparr> m"

text \<open>\<open>left.tool.localeCompare(right.tool) || left.capability.localeCompare(right.capability)\<close>.\<close>

definition grant_cmp :: "(string \<Rightarrow> string \<Rightarrow> int) \<Rightarrow> grant \<Rightarrow> grant \<Rightarrow> int" where
  "grant_cmp lc l r =
     (if lc (g_tool l) (g_tool r) \<noteq> 0 then lc (g_tool l) (g_tool r)
      else lc (g_capability l) (g_capability r))"

definition legacyAliases :: "string list" where
  "legacyAliases = concat (map te_legacyCapabilities TOOL_CAPABILITY_REGISTRY)"

definition isLegacy :: "bool \<Rightarrow> string \<Rightarrow> bool" where
  "isLegacy versionless value \<longleftrightarrow>
     \<not> is_capability value \<or> (versionless \<and> value \<in> set legacyAliases)"

definition legacy_matches :: "string \<Rightarrow> tool_entry list" where
  "legacy_matches legacy =
     filter (\<lambda>e. legacy \<in> set (te_legacyCapabilities e)) TOOL_CAPABILITY_REGISTRY"

definition migrate_step ::
    "migration_entry list \<times> grant_map \<Rightarrow> string \<Rightarrow> cap_error + (migration_entry list \<times> grant_map)" where
  "migrate_step = (\<lambda>(entries, scoped) legacy.
     let matches = legacy_matches legacy in
     if matches = []
     then Inl (CapabilityRegistryError UNKNOWN_CAPABILITY
       (''unknown capability identifier: '' @ legacy) [(''unknown'', jstrs [legacy])])
     else
       let tools = sort (uniq (map te_tool matches));
           capabilities = sort (uniq (concat (map te_capabilities matches)));
           scoped' = fold (\<lambda>m. fold (put_grant (te_tool m)) (te_capabilities m)) matches scoped in
       Inr (entries @ [\<lparr>me_legacyCapability = legacy, me_capabilities = capabilities, me_tools = tools\<rparr>],
            scoped'))"

definition migrateLegacyCapabilityPolicy ::
    "(string \<Rightarrow> string \<Rightarrow> int) \<Rightarrow> jsval \<Rightarrow> bool \<Rightarrow> cap_error + migrated_policy" where
  "migrateLegacyCapabilityPolicy lc input versionless =
     (case input of
        JArr items \<Rightarrow>
          let values = sort (filter (\<lambda>s. s \<noteq> []) (uniq (map (\<lambda>v. js_trim (js_String v)) items)));
              allowed = filter (\<lambda>s. \<not> isLegacy versionless s) values;
              legacy = filter (isLegacy versionless) values in
          bindR (foldR migrate_step ([], []) legacy) (\<lambda>(entries, scoped).
          Inr \<lparr>mp_allowedCapabilities = sort allowed,
               mp_scopedCapabilities = sort_cmp (grant_cmp lc) (map snd scoped),
               mp_report = \<lparr>mr_registryVersion = CAPABILITY_REGISTRY_VERSION,
                            mr_required = (entries \<noteq> []),
                            mr_legacyCapabilities = legacy,
                            mr_entries = entries\<rparr>\<rparr>)
      | _ \<Rightarrow> Inl (CapabilityRegistryError INVALID_CAPABILITY_SET
               ''allowedCapabilities must be an array'' []))"

section \<open>Delegation to a child\<close>

definition declare_tools :: "string list \<Rightarrow> string list \<Rightarrow> cap_error + string list" where
  "declare_tools declared tools =
     foldR (\<lambda>ds t. bindR (capabilitiesForTool t) (\<lambda>cs. Inr (uniq (ds @ cs)))) declared (uniq tools)"

definition intersectChildCapabilities :: "jsval \<Rightarrow> jsval \<Rightarrow> jsval \<Rightarrow> cap_error + string list" where
  "intersectChildCapabilities parentCapabilities requestedCapabilities requestedTools =
     bindR (assertCapabilityIds parentCapabilities ''parentCapabilities'') (\<lambda>parent.
     bindR (assertCapabilityIds requestedCapabilities ''requestedCapabilities'') (\<lambda>requested.
     bindR (case requestedTools of
              JArr ts \<Rightarrow>
                if 128 < length ts \<or> list_ex (\<lambda>t. \<not> nonblank_str t) ts
                then Inl (CapabilityRegistryError INVALID_CAPABILITY_SET
                  ''requestedTools must be an array of at most 128 non-empty tool identifiers'' [])
                else Inr (map js_String ts)
            | _ \<Rightarrow> Inl (CapabilityRegistryError INVALID_CAPABILITY_SET
                  ''requestedTools must be an array of at most 128 non-empty tool identifiers'' [])) (\<lambda>tools.
     bindR (declare_tools [] tools) (\<lambda>declared.
     let outsideParent = filter (\<lambda>c. c \<notin> set parent) requested;
         outsideTools = filter (\<lambda>c. c \<notin> set declared) requested;
         missingForTools = filter (\<lambda>c. c \<notin> set requested) declared in
     if outsideParent \<noteq> [] \<or> outsideTools \<noteq> [] \<or> missingForTools \<noteq> []
     then Inl (CapabilityRegistryError CAPABILITY_ESCALATION
       ''child capability request exceeds its parent or trusted tool declarations''
       [(''outsideParent'', jstrs outsideParent), (''outsideTools'', jstrs outsideTools),
        (''missingForTools'', jstrs missingForTools)])
     else Inr (filter (\<lambda>c. c \<in> set parent \<and> c \<in> set declared) requested)))))"


section \<open>Facts on the tables\<close>

named_theorems cap_simps "success conditions of the operations on capabilities"

lemma registry_distinct: "distinct (map te_tool TOOL_CAPABILITY_REGISTRY)"
  by code_simp

lemma registry_names:
  "list_all (\<lambda>e. plain_ends (te_tool e) \<and> CHR 0x00 \<notin> set (te_tool e)) TOOL_CAPABILITY_REGISTRY"
  by code_simp

lemma registry_capabilities:
  "list_all (\<lambda>e. te_capabilities e \<noteq> [] \<and> distinct (te_capabilities e) \<and>
     list_all is_capability (te_capabilities e)) TOOL_CAPABILITY_REGISTRY"
  by code_simp

lemma registry_approvals:
  "list_all (\<lambda>e. case te_safety e of None \<Rightarrow> True
     | Some s \<Rightarrow> sp_requiresCapability s \<and> te_approval e \<noteq> None \<and>
         (sp_requiresApproval s \<longleftrightarrow> te_approval e = Some Approval_required) \<and>
         (sp_reversibility s = R_irreversible \<longrightarrow> sp_requiresApproval s) \<and>
         (sp_retrySafe s \<longrightarrow> sp_reversibility s = R_pure))
     TOOL_CAPABILITY_REGISTRY"
  by code_simp

lemma registry_effects:
  "list_all (\<lambda>e. te_approval e = Some Approval_required \<longleftrightarrow> te_approvalEffect e \<noteq> None)
     TOOL_CAPABILITY_REGISTRY"
  by code_simp

lemma capability_ids_nonblank: "list_all plain_ends CAPABILITY_IDS"
  by code_simp

section \<open>What the operations compute\<close>


lemma jstrs_inject [simp]: "jstrs xs = jstrs ys \<longleftrightarrow> xs = ys"
  by (auto simp: jstrs_def dest: map_injective[OF _ injI])

lemma is_capability_nonblank: "is_capability s \<Longrightarrow> js_trim s \<noteq> []"
  using capability_ids_nonblank js_trim_plain_nonempty
  by (auto simp: is_capability_def list_all_iff)

lemma nonblank_str_JStr [simp]: "nonblank_str (JStr s) \<longleftrightarrow> js_trim s \<noteq> []"
  by (simp add: nonblank_str_def)

lemma nonblank_strD: "nonblank_str v \<Longrightarrow> v = JStr (the_str v)"
  by (cases v) (auto simp: nonblank_str_def)

lemma nonblank_arr: "list_all nonblank_str vs \<Longrightarrow> vs = map JStr (map the_str vs)"
  by (induction vs) (auto dest: nonblank_strD)

lemma assertCapabilityIds_iff [cap_simps]:
  "assertCapabilityIds v l = Inr cs \<longleftrightarrow>
     (\<exists>ss. v = jstrs ss \<and> length ss \<le> 128 \<and> list_all is_capability ss \<and> cs = sort (uniq ss))"
  (is "?L = ?R")
proof
  assume L: ?L
  then obtain vs where v: "v = JArr vs" "length vs \<le> 128" "list_all nonblank_str vs"
    by (cases v) (auto simp: assertCapabilityIds_def list_ex_iff list_all_iff split: if_splits)
  then obtain ss where ss: "vs = map JStr ss" using nonblank_arr by blast
  with L v show ?R
    by (intro exI [of _ ss])
      (auto simp: assertCapabilityIds_def jstrs_def Let_def filter_empty_conv list_all_iff comp_def
        split: if_splits)
next
  assume ?R
  then obtain ss where ss: "v = jstrs ss" "length ss \<le> 128" "list_all is_capability ss" "cs = sort (uniq ss)"
    by blast
  then show ?L
    by (auto simp: assertCapabilityIds_def jstrs_def Let_def list_all_iff list_ex_iff comp_def
        filter_empty_conv dest: is_capability_nonblank)
qed

lemma find_SomeD: "List.find P xs = Some x \<Longrightarrow> x \<in> set xs \<and> P x"
  by (induction xs) (auto split: if_splits)

lemma toolCapabilities_Some:
  "toolCapabilities t = Some e \<longleftrightarrow> e \<in> set TOOL_CAPABILITY_REGISTRY \<and> te_tool e = t"
proof
  assume "toolCapabilities t = Some e"
  then show "e \<in> set TOOL_CAPABILITY_REGISTRY \<and> te_tool e = t"
    by (auto simp: toolCapabilities_def dest: find_SomeD)
next
  assume e: "e \<in> set TOOL_CAPABILITY_REGISTRY \<and> te_tool e = t"
  then obtain e' where e': "toolCapabilities t = Some e'"
    unfolding toolCapabilities_def
    by (cases "List.find (\<lambda>e. te_tool e = t) (rev TOOL_CAPABILITY_REGISTRY)")
      (auto simp: find_None_iff)
  then have "e' \<in> set TOOL_CAPABILITY_REGISTRY" "te_tool e' = t"
    by (auto simp: toolCapabilities_def dest: find_SomeD)
  with e have "e' = e"
    using registry_distinct by (auto simp: distinct_map inj_on_def)
  with e' show "toolCapabilities t = Some e" by simp
qed

text \<open>The capabilities a tool is declared to need; none for an unknown tool.\<close>

definition tool_needs :: "string \<Rightarrow> string set" where
  "tool_needs t = (case toolCapabilities t of None \<Rightarrow> {} | Some e \<Rightarrow> set (te_capabilities e))"

definition registered :: "string \<Rightarrow> bool" where
  "registered t \<longleftrightarrow> toolCapabilities t \<noteq> None"

lemma capabilitiesForTool_iff [cap_simps]:
  "capabilitiesForTool t = Inr cs \<longleftrightarrow> (\<exists>e. toolCapabilities t = Some e \<and> cs = te_capabilities e)"
  by (auto simp: capabilitiesForTool_def split: option.splits)

lemma registered_nonblank: "registered t \<Longrightarrow> js_trim t \<noteq> []"
  using registry_names js_trim_plain_nonempty
  by (fastforce simp: registered_def toolCapabilities_Some list_all_iff)

lemma tool_needs_capability: "c \<in> tool_needs t \<Longrightarrow> is_capability c"
  using registry_capabilities
  by (auto simp: tool_needs_def toolCapabilities_Some list_all_iff split: option.splits)

lemma declare_fold:
  "foldR (\<lambda>ds t. bindR (capabilitiesForTool t) (\<lambda>cs. Inr (uniq (ds @ cs)))) ds ts = Inr r \<Longrightarrow>
     list_all registered ts \<and> set r = set ds \<union> (\<Union>t\<in>set ts. tool_needs t)"
  by (induction ts arbitrary: ds)
    (auto simp: result_simps capabilitiesForTool_iff registered_def tool_needs_def)

lemma declare_fold_ok:
  "list_all registered ts \<Longrightarrow>
     \<exists>r. foldR (\<lambda>ds t. bindR (capabilitiesForTool t) (\<lambda>cs. Inr (uniq (ds @ cs)))) ds ts = Inr r"
proof (induction ts arbitrary: ds)
  case (Cons t ts)
  then obtain e where "toolCapabilities t = Some e" by (auto simp: registered_def)
  then have "capabilitiesForTool t = Inr (te_capabilities e)" by (simp add: capabilitiesForTool_def)
  with Cons show ?case by simp
qed simp

lemma declare_tools_iff:
  "(\<exists>r. declare_tools ds ts = Inr r) \<longleftrightarrow> list_all registered ts"
  unfolding declare_tools_def
  using declare_fold_ok [of "uniq ts" ds] declare_fold [of ds "uniq ts"]
  by (auto simp: list_all_iff)

lemma declare_tools_set:
  "declare_tools ds ts = Inr r \<Longrightarrow> set r = set ds \<union> (\<Union>t\<in>set ts. tool_needs t)"
  unfolding declare_tools_def by (drule declare_fold) simp

lemma intersect_tools_iff:
  "(case v of JArr ts \<Rightarrow> if 128 < length ts \<or> list_ex (\<lambda>t. \<not> nonblank_str t) ts then Inl e
       else Inr (map js_String ts) | _ \<Rightarrow> Inl e) = Inr tools \<longleftrightarrow>
     v = jstrs tools \<and> length tools \<le> 128 \<and> list_all (\<lambda>t. js_trim t \<noteq> []) tools"
  (is "?L = ?R")
proof
  assume L: ?L
  then obtain vs where v: "v = JArr vs" "length vs \<le> 128" "list_all nonblank_str vs" "tools = map js_String vs"
    by (cases v) (auto simp: list_ex_iff list_all_iff split: if_splits)
  then obtain ss where "vs = map JStr ss" using nonblank_arr by blast
  with v show ?R by (auto simp: jstrs_def list_all_iff comp_def)
qed (auto simp: jstrs_def list_ex_iff list_all_iff comp_def)

text \<open>What a delegation grants, stated without the validation of its arguments.\<close>

definition delegation_ok :: "string list \<Rightarrow> string list \<Rightarrow> string list \<Rightarrow> bool" where
  "delegation_ok ps rs ts \<longleftrightarrow>
     length ps \<le> 128 \<and> length rs \<le> 128 \<and> length ts \<le> 128 \<and>
     list_all is_capability ps \<and> list_all registered ts \<and>
     set rs \<subseteq> set ps \<and> set rs = (\<Union>t\<in>set ts. tool_needs t)"

lemma delegation_ok_requested: "delegation_ok ps rs ts \<Longrightarrow> list_all is_capability rs"
  by (force simp: delegation_ok_def list_all_iff dest: tool_needs_capability)

lemma intersect_iff:
  "intersectChildCapabilities (jstrs ps) (jstrs rs) (jstrs ts) = Inr cs \<longleftrightarrow>
     delegation_ok ps rs ts \<and> cs = sort (uniq rs)"
  (is "?L = ?R")
proof
  assume L: ?L
  then obtain ds where ds: "declare_tools [] ts = Inr ds"
    by (auto simp: intersectChildCapabilities_def bindR_Inr_iff assertCapabilityIds_iff
        intersect_tools_iff)
  from L ds have "delegation_ok ps rs ts"
    using declare_tools_set [OF ds] declare_tools_iff [of "[]" ts]
    by (auto simp: intersectChildCapabilities_def bindR_Inr_iff assertCapabilityIds_iff
        intersect_tools_iff delegation_ok_def filter_empty_conv split: if_splits)
  moreover from L ds have "cs = sort (uniq rs)"
    by (auto simp: intersectChildCapabilities_def bindR_Inr_iff assertCapabilityIds_iff
        intersect_tools_iff filter_empty_conv intro!: filter_True split: if_splits)
  ultimately show ?R by simp
next
  assume R: ?R
  then obtain ds where ds: "declare_tools [] ts = Inr ds"
    using declare_tools_iff [of "[]" ts] by (auto simp: delegation_ok_def)
  note req = delegation_ok_requested [of ps rs ts]
  have nb: "list_all (\<lambda>t. js_trim t \<noteq> []) ts"
    using R registered_nonblank by (auto simp: delegation_ok_def list_all_iff)
  show ?L
    unfolding intersectChildCapabilities_def bindR_Inr_iff
    using R ds nb req declare_tools_set [OF ds]
    by (auto simp: assertCapabilityIds_iff delegation_ok_def filter_empty_conv intersect_tools_iff
        bindR_Inr_iff intro!: filter_True)
qed

lemma intersect_args:
  "intersectChildCapabilities p r t = Inr cs \<Longrightarrow> \<exists>ps rs ts. p = jstrs ps \<and> r = jstrs rs \<and> t = jstrs ts"
  by (auto simp: intersectChildCapabilities_def bindR_Inr_iff assertCapabilityIds_iff intersect_tools_iff)

section \<open>Delegation never widens\<close>

text \<open>
  The contract every narrowing of authority keeps: what is granted was held by the parent and
  covers what the request needs.  Chains of grants then stay within the authority of the root.
\<close>

locale authority_narrowing =
  fixes narrow :: "string list \<Rightarrow> 'q \<Rightarrow> 'e + string list"
    and needs :: "'q \<Rightarrow> string set"
  assumes narrow_parent: "narrow p q = Inr c \<Longrightarrow> set c \<subseteq> set p"
    and narrow_needs: "narrow p q = Inr c \<Longrightarrow> needs q \<subseteq> set c"
begin

lemma chain_within: "foldR narrow p qs = Inr c \<Longrightarrow> set c \<subseteq> set p"
proof (induction qs arbitrary: p)
  case (Cons q qs)
  then obtain p' where "narrow p q = Inr p'" "foldR narrow p' qs = Inr c"
    by (auto simp: bindR_Inr_iff)
  with Cons.IH narrow_parent show ?case by blast
qed simp

lemma chain_needs: "foldR narrow p qs = Inr c \<Longrightarrow> q \<in> set qs \<Longrightarrow> needs q \<subseteq> set p"
proof (induction qs arbitrary: p)
  case (Cons q' qs)
  then obtain p' where p': "narrow p q' = Inr p'" "foldR narrow p' qs = Inr c"
    by (auto simp: bindR_Inr_iff)
  show ?case
  proof (cases "q = q'")
    case True
    with p'(1) show ?thesis using narrow_parent narrow_needs by blast
  next
    case False
    with Cons.prems(2) have "q \<in> set qs" by simp
    with Cons.IH [OF p'(2)] narrow_parent [OF p'(1)] show ?thesis by blast
  qed
qed simp

end

text \<open>A child's request: the capabilities and the tools it asks for.\<close>

definition delegate :: "string list \<Rightarrow> string list \<times> string list \<Rightarrow> cap_error + string list" where
  "delegate p q = intersectChildCapabilities (jstrs p) (jstrs (fst q)) (jstrs (snd q))"

definition request_needs :: "string list \<times> string list \<Rightarrow> string set" where
  "request_needs q = (\<Union>t\<in>set (snd q). tool_needs t)"

interpretation delegation: authority_narrowing delegate request_needs
  by unfold_locales (auto simp: delegate_def request_needs_def intersect_iff delegation_ok_def)

lemma delegate_registered:
  "foldR delegate p qs = Inr c \<Longrightarrow> q \<in> set qs \<Longrightarrow> list_all registered (snd q)"
  by (induction qs arbitrary: p)
    (auto simp: bindR_Inr_iff delegate_def intersect_iff delegation_ok_def)

section \<open>Migration\<close>

definition legacy_grants :: "string \<Rightarrow> grant set" where
  "legacy_grants v = {g. \<exists>e\<in>set TOOL_CAPABILITY_REGISTRY. v \<in> set (te_legacyCapabilities e) \<and>
     g_tool g = te_tool e \<and> g_capability g \<in> set (te_capabilities e)}"

definition grant_map_ok :: "grant_map \<Rightarrow> bool" where
  "grant_map_ok m \<longleftrightarrow>
     (\<forall>(k, g)\<in>set m. k = grant_key (g_tool g) (g_capability g) \<and> CHR 0x00 \<notin> set (g_tool g))"

lemma grant_key_inject:
  "CHR 0x00 \<notin> set t \<Longrightarrow> CHR 0x00 \<notin> set t' \<Longrightarrow>
     grant_key t c = grant_key t' c' \<longleftrightarrow> t = t' \<and> c = c'"
proof (induction t arbitrary: t')
  case Nil
  then show ?case by (cases t') (auto simp: grant_key_def)
next
  case (Cons x t)
  then show ?case by (cases t') (auto simp: grant_key_def)
qed

lemma put_grant_ok:
  assumes "grant_map_ok m" and "CHR 0x00 \<notin> set t"
  shows "grant_map_ok (put_grant t c m)"
    and "snd ` set (put_grant t c m) = insert \<lparr>g_capability = c, g_tool = t\<rparr> (snd ` set m)"
proof -
  have "set (put_grant t c m) =
      insert (grant_key t c, \<lparr>g_capability = c, g_tool = t\<rparr>) (set m)"
    unfolding put_grant_def using assms grant_key_inject
    by (intro jm_set_same) (fastforce simp: grant_map_ok_def)
  then show "grant_map_ok (put_grant t c m)"
    and "snd ` set (put_grant t c m) = insert \<lparr>g_capability = c, g_tool = t\<rparr> (snd ` set m)"
    using assms by (auto simp: grant_map_ok_def)
qed

lemma put_grants_ok:
  assumes "grant_map_ok m" and "CHR 0x00 \<notin> set t"
  shows "grant_map_ok (fold (put_grant t) cs m) \<and>
    snd ` set (fold (put_grant t) cs m) = snd ` set m \<union> (\<lambda>c. \<lparr>g_capability = c, g_tool = t\<rparr>) ` set cs"
  using assms(1)
proof (induction cs arbitrary: m)
  case (Cons c cs)
  then show ?case
    using Cons.IH [OF put_grant_ok(1) [OF Cons.prems assms(2)]] put_grant_ok(2) [OF Cons.prems assms(2)]
    by auto
qed simp

lemma put_entries_ok:
  assumes "grant_map_ok m" and "set es \<subseteq> set TOOL_CAPABILITY_REGISTRY"
  defines "m' \<equiv> fold (\<lambda>e. fold (put_grant (te_tool e)) (te_capabilities e)) es m"
  shows "grant_map_ok m' \<and> snd ` set m' = snd ` set m \<union>
    {g. \<exists>e\<in>set es. g_tool g = te_tool e \<and> g_capability g \<in> set (te_capabilities e)}"
  using assms(1,2) unfolding m'_def
proof (induction es arbitrary: m)
  case (Cons e es)
  then have "CHR 0x00 \<notin> set (te_tool e)"
    using registry_names by (auto simp: list_all_iff)
  note step = put_grants_ok [OF Cons.prems(1) this, of "te_capabilities e"]
  with Cons.IH [of "fold (put_grant (te_tool e)) (te_capabilities e) m"] Cons.prems(2)
  show ?case by (auto simp: image_iff) (metis grant.surjective old.unit.exhaust)+
qed simp

lemma migrate_step_ok:
  assumes "migrate_step (es, m) v = Inr (es', m')" and "grant_map_ok m"
  shows "grant_map_ok m'" and "snd ` set m' = snd ` set m \<union> legacy_grants v"
    and "legacy_matches v \<noteq> []" and "length es' = Suc (length es)"
proof -
  from assms(1) have m': "m' = fold (\<lambda>e. fold (put_grant (te_tool e)) (te_capabilities e)) (legacy_matches v) m"
    and "legacy_matches v \<noteq> []" "length es' = Suc (length es)"
    by (auto simp: migrate_step_def Let_def split: if_splits)
  then show "legacy_matches v \<noteq> []" "length es' = Suc (length es)" by simp_all
  have sub: "set (legacy_matches v) \<subseteq> set TOOL_CAPABILITY_REGISTRY"
    by (auto simp: legacy_matches_def)
  show "grant_map_ok m'" "snd ` set m' = snd ` set m \<union> legacy_grants v"
    using put_entries_ok [OF assms(2) sub] unfolding m'
    by (auto simp: legacy_grants_def legacy_matches_def)
qed

lemma migrate_fold_ok:
  "foldR migrate_step (es, m) vs = Inr (es', m') \<Longrightarrow> grant_map_ok m \<Longrightarrow>
     grant_map_ok m' \<and> snd ` set m' = snd ` set m \<union> (\<Union>v\<in>set vs. legacy_grants v) \<and>
     list_all (\<lambda>v. legacy_matches v \<noteq> []) vs \<and> length es' = length es + length vs"
proof (induction vs arbitrary: es m)
  case (Cons v vs)
  from Cons.prems(1) obtain es1 m1 where
    1: "migrate_step (es, m) v = Inr (es1, m1)" "foldR migrate_step (es1, m1) vs = Inr (es', m')"
    by (auto simp: bindR_Inr_iff)
  from Cons.IH [OF 1(2) migrate_step_ok(1) [OF 1(1) Cons.prems(2)]]
  show ?case using migrate_step_ok [OF 1(1) Cons.prems(2)] by auto
qed simp

lemma migrate_fold_total:
  "list_all (\<lambda>v. legacy_matches v \<noteq> []) vs \<Longrightarrow> \<exists>r. foldR migrate_step (es, m) vs = Inr r"
proof (induction vs arbitrary: es m)
  case (Cons v vs)
  then obtain es1 m1 where "migrate_step (es, m) v = Inr (es1, m1)"
    by (auto simp: migrate_step_def Let_def)
  with Cons show ?case by simp
qed simp

text \<open>The identifiers a configured policy lists, trimmed, without the blank ones.\<close>

definition listed :: "jsval list \<Rightarrow> string set" where
  "listed items = {s. s \<noteq> [] \<and> (\<exists>v\<in>set items. s = js_trim (js_String v))}"

text \<open>A name that some tool of the registry declares as an alias of its capabilities.\<close>

definition tool_alias :: "string \<Rightarrow> bool" where
  "tool_alias s \<longleftrightarrow> (\<exists>e\<in>set TOOL_CAPABILITY_REGISTRY. s \<in> set (te_legacyCapabilities e))"

lemma alias_iff: "s \<in> set legacyAliases \<longleftrightarrow> tool_alias s"
  by (auto simp: legacyAliases_def tool_alias_def)

lemma legacy_name: "isLegacy versionless s \<longleftrightarrow> s \<notin> set CAPABILITY_IDS \<or> versionless \<and> tool_alias s"
  by (simp add: isLegacy_def is_capability_def alias_iff)

lemma migrate_ok:
  assumes "migrateLegacyCapabilityPolicy lc (JArr items) versionless = Inr mp"
  shows "set (mp_allowedCapabilities mp) = {s \<in> listed items. \<not> isLegacy versionless s}"
    and "set (mp_scopedCapabilities mp) = (\<Union>s\<in>{s \<in> listed items. isLegacy versionless s}. legacy_grants s)"
    and "sorted (mp_allowedCapabilities mp)" and "distinct (mp_allowedCapabilities mp)"
proof -
  let ?vals = "sort (filter (\<lambda>s. s \<noteq> []) (uniq (map (\<lambda>v. js_trim (js_String v)) items)))"
  have vals: "set ?vals = listed items" by (auto simp: listed_def)
  from assms obtain es m where
    fold: "foldR migrate_step ([], []) (filter (isLegacy versionless) ?vals) = Inr (es, m)"
    and mp: "mp_allowedCapabilities mp = sort (filter (\<lambda>s. \<not> isLegacy versionless s) ?vals)"
      "mp_scopedCapabilities mp = sort_cmp (grant_cmp lc) (map snd m)"
    by (auto simp: migrateLegacyCapabilityPolicy_def Let_def bindR_Inr_iff split: prod.splits)
  have "snd ` set m = (\<Union>s\<in>{s \<in> set ?vals. isLegacy versionless s}. legacy_grants s)"
    using migrate_fold_ok [OF fold] by (simp add: grant_map_ok_def)
  then show "set (mp_scopedCapabilities mp) =
      (\<Union>s\<in>{s \<in> listed items. isLegacy versionless s}. legacy_grants s)"
    unfolding vals by (simp add: mp)
  show "set (mp_allowedCapabilities mp) = {s \<in> listed items. \<not> isLegacy versionless s}"
    using vals by (auto simp: mp)
  show "sorted (mp_allowedCapabilities mp)" "distinct (mp_allowedCapabilities mp)"
    by (auto simp: mp)
qed

lemma migrate_total:
  "(\<exists>mp. migrateLegacyCapabilityPolicy lc (JArr items) versionless = Inr mp) \<longleftrightarrow>
     (\<forall>s\<in>listed items. isLegacy versionless s \<longrightarrow> s \<in> set legacyAliases)"
  (is "?L \<longleftrightarrow> ?R")
proof -
  let ?vals = "sort (filter (\<lambda>s. s \<noteq> []) (uniq (map (\<lambda>v. js_trim (js_String v)) items)))"
  have vals: "set ?vals = listed items" by (auto simp: listed_def)
  have m: "legacy_matches s \<noteq> [] \<longleftrightarrow> s \<in> set legacyAliases" for s
    by (auto simp: legacy_matches_def legacyAliases_def filter_empty_conv)
  have "?L \<longleftrightarrow> (\<exists>r. foldR migrate_step ([], []) (filter (isLegacy versionless) ?vals) = Inr r)"
    by (auto simp: migrateLegacyCapabilityPolicy_def Let_def bindR_Inr_iff split: prod.splits)
  also have "\<dots> \<longleftrightarrow> list_all (\<lambda>v. legacy_matches v \<noteq> []) (filter (isLegacy versionless) ?vals)"
  proof
    assume "\<exists>r. foldR migrate_step ([], []) (filter (isLegacy versionless) ?vals) = Inr r"
    then obtain es m where "foldR migrate_step ([], []) (filter (isLegacy versionless) ?vals) = Inr (es, m)"
      by (metis surj_pair)
    from migrate_fold_ok [OF this]
    show "list_all (\<lambda>v. legacy_matches v \<noteq> []) (filter (isLegacy versionless) ?vals)"
      by (simp add: grant_map_ok_def)
  qed (rule migrate_fold_total)
  also have "\<dots> \<longleftrightarrow> ?R"
    unfolding list_all_iff m using vals by auto
  finally show ?thesis .
qed

lemma legacy_grants_needed: "g \<in> legacy_grants v \<Longrightarrow> g_capability g \<in> tool_needs (g_tool g)"
  unfolding legacy_grants_def tool_needs_def
  by (auto simp: toolCapabilities_Some [THEN iffD2])


section \<open>Properties\<close>

text \<open>
  C1. A delegation succeeds exactly when the three arguments are within their bounds, every
  parent capability is known and every tool registered, the request stays within the parent,
  and it is exactly what the requested tools are declared to need; it then grants exactly the
  request, sorted and without duplicates.
\<close>

theorem child_capabilities_exact:
  "intersectChildCapabilities (jstrs parent) (jstrs requested) (jstrs tools) = Inr granted \<longleftrightarrow>
     length parent \<le> 128 \<and> length requested \<le> 128 \<and> length tools \<le> 128 \<and>
     set parent \<subseteq> set CAPABILITY_IDS \<and> list_all registered tools \<and>
     set requested \<subseteq> set parent \<and> set requested = (\<Union>t\<in>set tools. tool_needs t) \<and>
     granted = sort (uniq requested)"
  by (auto simp: intersect_iff delegation_ok_def list_all_iff is_capability_def)

text \<open>
  C2. Down a chain of delegations authority only shrinks: what the last child holds, and
  everything any tool of any child of the chain needs, is within what the root held, and every
  tool of the chain is registered.
\<close>

theorem delegation_chain_bounded:
  assumes "foldR delegate root requests = Inr held"
  shows "set held \<subseteq> set root \<and>
    (\<forall>q\<in>set requests. request_needs q \<subseteq> set root \<and> list_all registered (snd q))"
  using assms delegation.chain_within delegation.chain_needs delegate_registered by blast

theorem delegation_chain_bounded_witness:
  "set [''workspace.inspect''] \<subseteq> set [''agent.delegate'', ''network.access'', ''workspace.inspect''] \<and>
   request_needs ([''workspace.inspect'', ''network.access''], [''web.fetch'', ''workspace.read'']) \<subseteq>
     set [''agent.delegate'', ''network.access'', ''workspace.inspect'']"
proof -
  have "foldR delegate [''agent.delegate'', ''network.access'', ''workspace.inspect'']
      [([''workspace.inspect'', ''network.access''], [''web.fetch'', ''workspace.read'']),
       ([''workspace.inspect''], [''workspace.read''])] = Inr [''workspace.inspect'']"
    by code_simp
  from delegation_chain_bounded [OF this] show ?thesis by simp
qed

text \<open>
  C3. Whether and how a legacy policy migrates, for any list. It is refused exactly when some listed name
  (trimmed, not blank) is neither a registered capability nor an alias of some tool. Otherwise the names kept
  are the listed registered capabilities - in a versionless policy without those that are also aliases of
  some tool, which are migrated instead - and the scoped grants are exactly those of the tools that declare a
  migrated alias, each for a capability its tool is declared to need.
\<close>

theorem migration_never_widens:
  "case migrateLegacyCapabilityPolicy lc (JArr items) versionless of
     Inl e \<Rightarrow> \<exists>s\<in>listed items. s \<notin> set CAPABILITY_IDS \<and> \<not> tool_alias s
   | Inr mp \<Rightarrow>
       (\<forall>s\<in>listed items. s \<in> set CAPABILITY_IDS \<or> tool_alias s) \<and>
       set (mp_allowedCapabilities mp) = {s \<in> listed items. s \<in> set CAPABILITY_IDS \<and> \<not> (versionless \<and> tool_alias s)} \<and>
       set (mp_scopedCapabilities mp) =
         (\<Union>s\<in>{s \<in> listed items. s \<notin> set CAPABILITY_IDS \<or> versionless \<and> tool_alias s}. legacy_grants s) \<and>
       (\<forall>g\<in>set (mp_scopedCapabilities mp). g_capability g \<in> tool_needs (g_tool g))"
proof (cases "migrateLegacyCapabilityPolicy lc (JArr items) versionless")
  case (Inl e)
  then show ?thesis
    using migrate_total [of lc items versionless] by (auto simp: legacy_name alias_iff)
next
  case (Inr mp)
  then have "\<forall>s\<in>listed items. isLegacy versionless s \<longrightarrow> s \<in> set legacyAliases"
    using migrate_total [of lc items versionless] by blast
  then show ?thesis
    unfolding Inr sum.case migrate_ok(1,2) [OF Inr] using legacy_grants_needed by (auto simp: legacy_name alias_iff)
qed

theorem migration_never_widens_witness:
  "\<exists>mp. migrateLegacyCapabilityPolicy lex_cmp (JArr [JStr '' web.read'', JStr ''git.read'']) True = Inr mp \<and>
     mp_allowedCapabilities mp = [''git.read''] \<and>
     (\<forall>g\<in>set (mp_scopedCapabilities mp). g_capability g \<in> tool_needs (g_tool g))"
proof -
  have "case migrateLegacyCapabilityPolicy lex_cmp (JArr [JStr '' web.read'', JStr ''git.read'']) True of
      Inl e \<Rightarrow> False | Inr mp \<Rightarrow> mp_allowedCapabilities mp = [''git.read'']"
    by code_simp
  then obtain mp where mp:
      "migrateLegacyCapabilityPolicy lex_cmp (JArr [JStr '' web.read'', JStr ''git.read'']) True = Inr mp"
      "mp_allowedCapabilities mp = [''git.read'']"
    by (auto split: sum.splits)
  from migration_never_widens [where lc = lex_cmp and items = "[JStr '' web.read'', JStr ''git.read'']" and versionless = True] mp show ?thesis by simp
qed

text \<open>
  What a lookup returns for any tool name: a non-empty set of registered capabilities; a
  trusted safety policy agrees with the approval requirement, an irreversible one needs
  approval and a retry-safe one is pure; an approval effect is there exactly when approval is
  required.
\<close>

lemma trusted_declarations_sound:
  assumes "capabilitiesForTool t = Inr cs"
  shows "cs \<noteq> [] \<and> distinct cs \<and> set cs \<subseteq> set CAPABILITY_IDS \<and>
    (\<forall>s. safetyPolicyForTool t = Some s \<longrightarrow>
       approvalRequirementForTool t = Some (sp_requiresApproval s) \<and> sp_requiresCapability s \<and>
       (sp_reversibility s = R_irreversible \<longrightarrow> sp_requiresApproval s) \<and>
       (sp_retrySafe s \<longrightarrow> sp_reversibility s = R_pure)) \<and>
    (approvalRequirementForTool t = Some True \<longleftrightarrow> approvalEffectPolicyForTool t \<noteq> None)"
proof -
  from assms obtain e where e: "toolCapabilities t = Some e" "cs = te_capabilities e"
    by (auto simp: capabilitiesForTool_iff)
  then have e_in: "e \<in> set TOOL_CAPABILITY_REGISTRY" by (simp add: toolCapabilities_Some)
  note facts = registry_capabilities [unfolded list_all_iff, THEN bspec, OF e_in]
    registry_approvals [unfolded list_all_iff, THEN bspec, OF e_in]
    registry_effects [unfolded list_all_iff, THEN bspec, OF e_in]
  from facts e show ?thesis
    by (auto simp: safetyPolicyForTool_def approvalRequirementForTool_def
        approvalEffectPolicyForTool_def is_capability_def)
qed

end
