(* ===== verification/Policy.thy ===== *)
theory Policy
  imports Capabilities "HOL-Library.Sublist"
begin

text \<open>
  The task policy of \<open>packages/policy/src/index.ts\<close>: how a policy is assembled from its
  overrides, the decision on a task, the preview of a delegated execution and the invariants
  on commands, approvals and file-system roots.

  Values that come from configuration or from a request are \<^typ>\<open>jsval\<close>.  The process's
  working directory and the comparison \<open>localeCompare\<close> are arguments.
\<close>

section \<open>Policies\<close>

record security_surface =
  ss_enabled :: bool
  ss_allowPrivateNetwork :: bool
  ss_allowedDomains :: "string list"
  ss_blockedDomains :: "string list"
  ss_requireApproval :: "bool option"
  ss_allowDownloads :: "bool option"
  ss_allowUploads :: "bool option"

record workspace_surface =
  ws_deniedPatterns :: "string list"
  ws_ignoreFiles :: "string list"

datatype enforcement = En_log | En_warn | En_pause | En_block | En_rollback | En_terminate

record policy_invariant =
  pi_id :: string
  pi_type :: jsval
  pi_values :: "string list"
  pi_enforcement :: enforcement

record runtime_policy =
  rp_id :: "string option"
  rp_deniedTools :: "string list"
  rp_capabilityRegistryVersion :: int
  rp_allowedCapabilities :: "string list"
  rp_scopedCapabilities :: "grant list"
  rp_capabilityMigration :: migration_report
  rp_maxInputBytes :: int
  rp_web :: security_surface
  rp_browser :: security_surface
  rp_workspace :: workspace_surface
  rp_invariants :: "policy_invariant list"

record policy_tool =
  pt_capability :: jsval
  pt_capabilities :: jsval

record policy_request =
  rq_tool :: string
  rq_input :: "(string \<times> jsval) list"

datatype decision = Decision_allow | Decision_enforce enforcement

record invariant_evaluation =
  ie_invariantId :: string
  ie_violated :: bool
  ie_decision :: decision
  ie_enforcement :: enforcement
  ie_reason :: string

type_synonym details = "(string \<times> jsval) list"

datatype policy_decision =
    is_Allow: Allow (al_capability: string) (al_capabilities: "string list")
  | Deny (de_reason: string) (de_details: details)

datatype policy_failure =
    Capability_failure cap_error
  | Policy_error string details

fun liftC :: "cap_error + 'a \<Rightarrow> policy_failure + 'a" where
  "liftC (Inl e) = Inl (Capability_failure e)"
| "liftC (Inr a) = Inr a"

lemma liftC_Inr [simp]: "liftC m = Inr a \<longleftrightarrow> m = Inr a"
  by (cases m) simp_all

section \<open>Assembling a policy\<close>

record surface_patch =
  sq_enabled :: "bool option"
  sq_allowPrivateNetwork :: "bool option"
  sq_allowedDomains :: "string list option"
  sq_blockedDomains :: "string list option"
  sq_requireApproval :: "bool option"
  sq_allowDownloads :: "bool option"
  sq_allowUploads :: "bool option"

record policy_overrides =
  ov_id :: "string option"
  ov_deniedTools :: "string list option"
  ov_capabilityRegistryVersion :: jsval
  ov_allowedCapabilities :: jsval
  ov_scopedCapabilities :: jsval
  ov_maxInputBytes :: "int option"
  ov_web :: surface_patch
  ov_browser :: surface_patch
  ov_deniedPatterns :: jsval
  ov_ignoreFiles :: jsval
  ov_invariants :: jsval

fun or_default :: "'a option \<Rightarrow> 'a \<Rightarrow> 'a" where
  "or_default None d = d"
| "or_default (Some x) d = x"

fun or_keep :: "'a option \<Rightarrow> 'a option \<Rightarrow> 'a option" where
  "or_keep None d = d"
| "or_keep (Some x) d = Some x"

definition merge_surface :: "security_surface \<Rightarrow> surface_patch \<Rightarrow> security_surface" where
  "merge_surface d p =
     \<lparr>ss_enabled = or_default (sq_enabled p) (ss_enabled d),
      ss_allowPrivateNetwork = or_default (sq_allowPrivateNetwork p) (ss_allowPrivateNetwork d),
      ss_allowedDomains = or_default (sq_allowedDomains p) (ss_allowedDomains d),
      ss_blockedDomains = or_default (sq_blockedDomains p) (ss_blockedDomains d),
      ss_requireApproval = or_keep (sq_requireApproval p) (ss_requireApproval d),
      ss_allowDownloads = or_keep (sq_allowDownloads p) (ss_allowDownloads d),
      ss_allowUploads = or_keep (sq_allowUploads p) (ss_allowUploads d)\<rparr>"

definition defaults_web :: security_surface where
  "defaults_web =
     \<lparr>ss_enabled = True, ss_allowPrivateNetwork = False, ss_allowedDomains = [],
      ss_blockedDomains = [], ss_requireApproval = None, ss_allowDownloads = None,
      ss_allowUploads = None\<rparr>"

definition defaults_browser :: security_surface where
  "defaults_browser =
     \<lparr>ss_enabled = True, ss_allowPrivateNetwork = False, ss_allowedDomains = [],
      ss_blockedDomains = [], ss_requireApproval = Some True, ss_allowDownloads = Some False,
      ss_allowUploads = Some False\<rparr>"

definition defaults_workspace :: workspace_surface where
  "defaults_workspace =
     \<lparr>ws_deniedPatterns = [''.env'', ''.env.*'', ''**/.env'', ''**/.env.*'', ''**/*.key'', ''**/*.pem'',
        ''**/.ssh/**'', ''.git/**'', ''.odinn/**''],
      ws_ignoreFiles = [''.gitignore'', ''.odinnignore'']\<rparr>"

definition bad_pattern :: "jsval \<Rightarrow> bool" where
  "bad_pattern v \<longleftrightarrow>
     \<not> is_str v \<or> js_trim (the_str v) = [] \<or> 256 < js_length (the_str v) \<or> CHR 0x00 \<in> set (the_str v)"

definition normalizeWorkspacePatterns ::
    "jsval \<Rightarrow> string list \<Rightarrow> string \<Rightarrow> nat \<Rightarrow> policy_failure + string list" where
  "normalizeWorkspacePatterns value fallback label maximum =
     (case value of
        JUndef \<Rightarrow> Inr fallback
      | JArr vs \<Rightarrow>
          if maximum < length vs \<or> list_ex bad_pattern vs
          then Inl (Policy_error (label @ '' must be an array of at most '' @ nat_digits maximum @ '' bounded strings'') [])
          else Inr (uniq (map (\<lambda>v. js_trim (the_str v)) vs))
      | _ \<Rightarrow> Inl (Policy_error (label @ '' must be an array of at most '' @ nat_digits maximum @ '' bounded strings'') []))"

text \<open>\<open>String(v ?? fallback)\<close>.\<close>

fun js_String_or :: "string \<Rightarrow> jsval \<Rightarrow> string" where
  "js_String_or d JUndef = d"
| "js_String_or d JNull = d"
| "js_String_or d v = js_String v"

definition merge_grant :: "grant_map \<Rightarrow> jsval \<Rightarrow> policy_failure + grant_map" where
  "merge_grant grants value =
     (case value of
        JObj fs \<Rightarrow>
          let t = js_trim (js_String_or [] (js_field fs ''tool'')) in
          bindR (liftC (assertCapabilityIds (JArr [js_field fs ''capability'']) ''scoped capability grant'')) (\<lambda>capabilities.
          if t = []
          then Inl (Policy_error (''scoped capability grant does not match trusted tool declaration: '' @ t) [])
          else bindR (liftC (capabilitiesForTool t)) (\<lambda>declared.
            if hd capabilities \<notin> set declared
            then Inl (Policy_error (''scoped capability grant does not match trusted tool declaration: '' @ t) [])
            else Inr (put_grant t (hd capabilities) grants)))
      | _ \<Rightarrow> Inl (Policy_error ''scoped capability grants must be objects'' []))"

definition mergeScopedCapabilityGrants ::
    "(string \<Rightarrow> string \<Rightarrow> int) \<Rightarrow> grant list \<Rightarrow> jsval \<Rightarrow> policy_failure + grant list" where
  "mergeScopedCapabilityGrants lc migrated configured =
     (let grants = fold (\<lambda>g. put_grant (g_tool g) (g_capability g)) migrated [] in
      bindR (case configured of
          JUndef \<Rightarrow> Inr grants
        | JArr vs \<Rightarrow>
            if 512 < length vs
            then Inl (Policy_error ''scopedCapabilities must be an array of at most 512 grants'' [])
            else foldR merge_grant grants vs
        | _ \<Rightarrow> Inl (Policy_error ''scopedCapabilities must be an array of at most 512 grants'' []))
      (\<lambda>m. Inr (sort_cmp (grant_cmp lc) (map snd m))))"

section \<open>Invariants of a policy\<close>

definition invariant_types :: "string list" where
  "invariant_types = [''command.deny-pattern'', ''tool.requires-approval'', ''filesystem.allowed-roots'']"

definition enforcement_name :: "enforcement \<Rightarrow> string" where
  "enforcement_name e =
     (case e of En_log \<Rightarrow> ''log'' | En_warn \<Rightarrow> ''warn'' | En_pause \<Rightarrow> ''pause'' | En_block \<Rightarrow> ''block''
      | En_rollback \<Rightarrow> ''rollback'' | En_terminate \<Rightarrow> ''terminate'')"

definition parse_enforcement :: "string \<Rightarrow> enforcement option" where
  "parse_enforcement s =
     List.find (\<lambda>e. enforcement_name e = s) [En_log, En_warn, En_pause, En_block, En_rollback, En_terminate]"

definition normalize_invariant ::
    "string list \<times> policy_invariant list \<Rightarrow> jsval \<Rightarrow> policy_failure + (string list \<times> policy_invariant list)" where
  "normalize_invariant = (\<lambda>(ids, done) item.
     case item of
       JObj fs \<Rightarrow>
         let i = js_trim (js_String_or [] (js_field fs ''id'')) in
         if i = [] \<or> i \<in> set ids
         then Inl (Policy_error ''policy invariant ids must be unique non-empty strings'' [])
         else if js_String (js_field fs ''type'') \<notin> set invariant_types
         then Inl (Policy_error (''unsupported policy invariant type: '' @
                js_String_or ''missing'' (js_field fs ''type'')) [])
         else (case js_field fs ''values'' of
             JArr vs \<Rightarrow>
               if vs = [] \<or> list_ex (\<lambda>v. \<not> nonblank_str v) vs
               then Inl (Policy_error (''policy invariant '' @ i @ '' requires non-empty string values'') [])
               else (case parse_enforcement (js_String_or ''block'' (js_field fs ''enforcement'')) of
                   None \<Rightarrow> Inl (Policy_error (''invalid enforcement for policy invariant '' @ i) [])
                 | Some e \<Rightarrow> Inr (ids @ [i], done @ [\<lparr>pi_id = i, pi_type = js_field fs ''type'',
                     pi_values = map (\<lambda>v. js_trim (the_str v)) vs, pi_enforcement = e\<rparr>]))
           | _ \<Rightarrow> Inl (Policy_error (''policy invariant '' @ i @ '' requires non-empty string values'') []))
     | _ \<Rightarrow> Inl (Policy_error (''policy invariant '' @ nat_digits (Suc (length done)) @ '' must be an object'') []))"

definition normalizePolicyInvariants :: "jsval \<Rightarrow> policy_failure + policy_invariant list" where
  "normalizePolicyInvariants value =
     (case value of
        JArr items \<Rightarrow> bindR (foldR normalize_invariant ([], []) items) (\<lambda>(ids, done). Inr done)
      | _ \<Rightarrow> Inl (Policy_error ''policy invariants must be an array'' []))"

definition or_empty :: "jsval \<Rightarrow> jsval" where
  "or_empty v = (if v = JUndef \<or> v = JNull then JArr [] else v)"

definition createDefaultPolicy ::
    "(string \<Rightarrow> string \<Rightarrow> int) \<Rightarrow> policy_overrides \<Rightarrow> policy_failure + runtime_policy" where
  "createDefaultPolicy lc ov =
     (let configured = (case ov_allowedCapabilities ov of JArr vs \<Rightarrow> Some (JArr vs) | _ \<Rightarrow> None) in
      if ov_capabilityRegistryVersion ov \<noteq> JUndef \<and> ov_capabilityRegistryVersion ov \<noteq> JInt CAPABILITY_REGISTRY_VERSION
      then Inl (Capability_failure (CapabilityRegistryError INVALID_CAPABILITY_SET
        (''unsupported capability registry version: '' @ js_String (ov_capabilityRegistryVersion ov)) []))
      else
      bindR (liftC (migrateLegacyCapabilityPolicy lc (or_default configured (jstrs DEFAULT_ALLOWED_CAPABILITIES))
               (configured \<noteq> None \<and> ov_capabilityRegistryVersion ov = JUndef))) (\<lambda>migrated.
      bindR (mergeScopedCapabilityGrants lc (mp_scopedCapabilities migrated) (ov_scopedCapabilities ov)) (\<lambda>scoped.
      bindR (normalizePolicyInvariants (or_empty (ov_invariants ov))) (\<lambda>invariants.
      bindR (normalizeWorkspacePatterns (ov_deniedPatterns ov) (ws_deniedPatterns defaults_workspace)
               ''security.workspace.deniedPatterns'' 128) (\<lambda>denied.
      bindR (normalizeWorkspacePatterns (ov_ignoreFiles ov) (ws_ignoreFiles defaults_workspace)
               ''security.workspace.ignoreFiles'' 16) (\<lambda>ignored.
      Inr \<lparr>rp_id = ov_id ov,
           rp_deniedTools = or_default (ov_deniedTools ov) [],
           rp_capabilityRegistryVersion = CAPABILITY_REGISTRY_VERSION,
           rp_allowedCapabilities = mp_allowedCapabilities migrated,
           rp_scopedCapabilities = scoped,
           rp_capabilityMigration = mp_report migrated,
           rp_maxInputBytes = or_default (ov_maxInputBytes ov) 16384,
           rp_web = merge_surface defaults_web (ov_web ov),
           rp_browser = merge_surface defaults_browser (ov_browser ov),
           rp_workspace = \<lparr>ws_deniedPatterns = denied, ws_ignoreFiles = ignored\<rparr>,
           rp_invariants = invariants\<rparr>))))))"

text \<open>Path resolution of \<open>node:path\<close> on POSIX: the normalised segments of an absolute path.\<close>

definition path_segments :: "string \<Rightarrow> string list" where
  "path_segments p = filter (\<lambda>s. s \<noteq> [] \<and> s \<noteq> ''.'') (split_at (\<lambda>c. c = CHR ''/'') p)"

definition push_segment :: "string list \<Rightarrow> string \<Rightarrow> string list" where
  "push_segment st s = (if s = ''..'' then butlast st else st @ [s])"

definition resolve_segs :: "string list \<Rightarrow> string \<Rightarrow> string list" where
  "resolve_segs base p =
     foldl push_segment (if starts_with p ''/'' then [] else base) (path_segments p)"

definition abs_text :: "string list \<Rightarrow> string" where
  "abs_text segs = CHR ''/'' # js_join ''/'' segs"

text \<open>
  The test \<open>/(?:^|[._-])(exec|process|shell|command)(?:$|[._-])/iu\<close>: a segment between
  separators is one of the words, up to the case folding of the \<open>iu\<close> flags, which also
  folds the long s (U+017F) to s.
\<close>

fun fold_word :: "string \<Rightarrow> string" where
  "fold_word [] = []"
| "fold_word [c] = [ascii_lower c]"
| "fold_word (c # d # s) =
     (if c = CHR 0xC5 \<and> d = CHR 0xBF then CHR ''s'' # fold_word s
      else ascii_lower c # fold_word (d # s))"

definition is_command_tool :: "string \<Rightarrow> bool" where
  "is_command_tool t \<longleftrightarrow>
     list_ex (\<lambda>w. fold_word w \<in> set [''exec'', ''process'', ''shell'', ''command''])
       (split_at (\<lambda>c. c = CHR ''.'' \<or> c = CHR ''_'' \<or> c = CHR ''-'') t)"

definition js_flat :: "jsval list \<Rightarrow> jsval list" where
  "js_flat vs = concat (map (\<lambda>v. case v of JArr ws \<Rightarrow> ws | _ \<Rightarrow> [v]) vs)"

definition command_text :: "(string \<times> jsval) list \<Rightarrow> string" where
  "command_text input =
     (case js_field input ''command'' of
        JArr vs \<Rightarrow> js_join '' '' (map js_String vs)
      | c \<Rightarrow> js_join '' '' (map js_String (filter js_truthy (js_flat [c, js_field input ''args'']))))"

definition request_paths :: "(string \<times> jsval) list \<Rightarrow> string list" where
  "request_paths input =
     filter (\<lambda>s. s \<noteq> [])
       ((case js_field input ''path'' of JStr s \<Rightarrow> [s] | _ \<Rightarrow> []) @
        (case js_field input ''paths'' of JArr vs \<Rightarrow> map the_str (filter is_str vs) | _ \<Rightarrow> []))"

definition within_root :: "string list \<Rightarrow> string list \<Rightarrow> bool" where
  "within_root target root \<longleftrightarrow>
     abs_text target = abs_text root \<or> starts_with (abs_text target) (abs_text root @ ''/'')"

definition invariantViolated ::
    "string list \<Rightarrow> policy_invariant \<Rightarrow> policy_request \<Rightarrow> string \<Rightarrow> bool" where
  "invariantViolated cwd iv request workspaceRoot =
     (if pi_type iv = JStr ''tool.requires-approval'' then rq_tool request \<in> set (pi_values iv)
      else if pi_type iv = JStr ''command.deny-pattern'' then
        is_command_tool (rq_tool request) \<and>
        list_ex (\<lambda>pattern. js_includes (command_text (rq_input request)) pattern) (pi_values iv)
      else
        let paths = request_paths (rq_input request);
            base = resolve_segs cwd workspaceRoot;
            roots = map (resolve_segs base) (pi_values iv) in
        list_ex (\<lambda>path. \<not> list_ex (within_root (resolve_segs base path)) roots) paths)"

definition invariant_json :: "policy_invariant \<Rightarrow> jsval" where
  "invariant_json iv =
     JObj [(''id'', JStr (pi_id iv)), (''type'', pi_type iv), (''values'', jstrs (pi_values iv)),
           (''enforcement'', JStr (enforcement_name (pi_enforcement iv)))]"

definition evaluatePolicyInvariants ::
    "string list \<Rightarrow> runtime_policy \<Rightarrow> policy_request \<Rightarrow> string \<Rightarrow> policy_failure + invariant_evaluation list" where
  "evaluatePolicyInvariants cwd policy request workspaceRoot =
     bindR (normalizePolicyInvariants (JArr (map invariant_json (rp_invariants policy)))) (\<lambda>invariants.
     Inr (map (\<lambda>iv.
       let violated = invariantViolated cwd iv request workspaceRoot in
       \<lparr>ie_invariantId = pi_id iv,
        ie_violated = violated,
        ie_decision = (if violated then Decision_enforce (pi_enforcement iv) else Decision_allow),
        ie_enforcement = pi_enforcement iv,
        ie_reason = (if violated then ''invariant violated: '' @ pi_id iv else ''invariant satisfied'')\<rparr>)
       invariants))"

section \<open>The decision on a task\<close>

definition resolveToolCapabilities ::
    "string \<Rightarrow> policy_tool \<Rightarrow> (string \<times> details) + string list" where
  "resolveToolCapabilities toolName td =
     (let registered = (case capabilitiesForTool toolName of Inl _ \<Rightarrow> None | Inr cs \<Rightarrow> Some cs) in
      if pt_capabilities td \<noteq> JUndef then
        (case assertCapabilityIds (pt_capabilities td) (''tool '' @ toolName @ '' capabilities'') of
           Inl e \<Rightarrow> Inl (ce_message e, [(''code'', JStr ''UNKNOWN_CAPABILITY''), (''tool'', JStr toolName)])
         | Inr declared \<Rightarrow>
             if declared = []
             then Inl (''tool has no declared capabilities: '' @ toolName,
               [(''code'', JStr ''CAPABILITY_DECLARATION_MISSING''), (''tool'', JStr toolName)])
             else (case registered of
                 None \<Rightarrow> Inr declared
               | Some cs \<Rightarrow>
                   if length declared \<noteq> length cs \<or> list_ex (\<lambda>c. c \<notin> set cs) declared
                   then Inl (''tool capability declaration does not match trusted registry: '' @ toolName,
                     [(''code'', JStr ''CAPABILITY_DECLARATION_MISMATCH''), (''tool'', JStr toolName),
                      (''declared'', jstrs declared), (''registered'', jstrs cs)])
                   else Inr cs))
      else (case registered of
          Some cs \<Rightarrow> Inr cs
        | None \<Rightarrow>
            if isCapabilityId (pt_capability td) then Inr [the_str (pt_capability td)]
            else Inl (''tool has no trusted capability declaration: '' @ toolName,
              [(''code'', JStr ''CAPABILITY_DECLARATION_MISSING''), (''tool'', JStr toolName)])))"

definition policyAllowsCapability :: "runtime_policy \<Rightarrow> string \<Rightarrow> string \<Rightarrow> bool" where
  "policyAllowsCapability policy t c \<longleftrightarrow>
     c \<in> set (rp_allowedCapabilities policy) \<or>
     list_ex (\<lambda>g. g_tool g = t \<and> g_capability g = c) (rp_scopedCapabilities policy)"

definition input_bytes :: "policy_request \<Rightarrow> nat" where
  "input_bytes request = (case json_stringify (JObj (rq_input request)) of Some t \<Rightarrow> length t | None \<Rightarrow> 0)"

definition evaluateTaskPolicy ::
    "runtime_policy \<Rightarrow> policy_request \<Rightarrow> policy_tool option \<Rightarrow> policy_decision" where
  "evaluateTaskPolicy policy request td =
     (let t = rq_tool request in
      case td of
        None \<Rightarrow> Deny (''unknown tool: '' @ t) [(''code'', JStr ''UNKNOWN_TOOL'')]
      | Some td \<Rightarrow>
          if t \<in> set (rp_deniedTools policy)
          then Deny (''tool is denied by policy: '' @ t) [(''code'', JStr ''TOOL_DENIED'')]
          else (case resolveToolCapabilities t td of
            Inl (err, details) \<Rightarrow> Deny err details
          | Inr capabilities \<Rightarrow>
              let missing = filter (\<lambda>c. \<not> policyAllowsCapability policy t c) capabilities in
              if missing \<noteq> []
              then Deny (''capability is not allowed: '' @ js_join '', '' missing)
                [(''code'', JStr ''CAPABILITY_DENIED''), (''capabilities'', jstrs missing)]
              else if (starts_with t ''web.'' \<or> starts_with t ''browser.'') \<and>
                \<not> ss_enabled (if starts_with t ''web.'' then rp_web policy else rp_browser policy)
              then Deny (''security policy disabled '' @ t) [(''code'', JStr ''SECURITY_SURFACE_DISABLED'')]
              else if int (input_bytes request) > rp_maxInputBytes policy
              then Deny (''input exceeds policy limit: '' @ nat_digits (input_bytes request) @ '' bytes'')
                [(''code'', JStr ''INPUT_TOO_LARGE''), (''inputBytes'', JInt (int (input_bytes request)))]
              else Allow (hd capabilities) capabilities))"

fun assertAllowed :: "policy_decision \<Rightarrow> policy_failure + unit" where
  "assertAllowed (Allow c cs) = Inr ()"
| "assertAllowed (Deny reason details) = Inl (Policy_error reason details)"

section \<open>The preview of an execution\<close>

record gatewatch_preview =
  gp_allowed :: bool
  gp_decision :: string
  gp_reason :: string
  gp_tool :: string
  gp_declaredCapabilities :: "string list"
  gp_policyCapabilities :: "string list"
  gp_parentCapabilities :: "string list"
  gp_requestedCapabilities :: "string list"
  gp_effectiveCapabilities :: "string list"
  gp_skill :: "string list"
  gp_mcp :: "string list"
  gp_invariants :: "invariant_evaluation list"
  gp_migration :: migration_report
  gp_details :: details

fun is_blocking :: "decision \<Rightarrow> bool" where
  "is_blocking Decision_allow = False"
| "is_blocking (Decision_enforce e) \<longleftrightarrow> e \<in> {En_pause, En_block, En_rollback, En_terminate}"

definition assert_or :: "jsval \<Rightarrow> string list \<Rightarrow> string \<Rightarrow> policy_failure + string list" where
  "assert_or v d label = (if v = JUndef then Inr d else liftC (assertCapabilityIds v label))"

text \<open>\<open>{...base, ...more}\<close>: a later field replaces the value of an earlier one.\<close>

definition spread :: "details \<Rightarrow> details \<Rightarrow> details" where
  "spread base extra = fold (\<lambda>(k, v). jm_set k v) extra base"

definition preview_details :: "string list \<Rightarrow> string list \<Rightarrow> string list \<Rightarrow> string list
    \<Rightarrow> invariant_evaluation option \<Rightarrow> details" where
  "preview_details outsideParent outsideTool missingForTool missingFromPolicy blocking =
     foldl spread [] [
       (if outsideParent \<noteq> [] then [(''code'', JStr ''CHILD_CAPABILITY_ESCALATION''), (''outsideParent'', jstrs outsideParent)] else []),
       (if outsideTool \<noteq> [] then [(''code'', JStr ''TOOL_CAPABILITY_MISMATCH''), (''outsideTool'', jstrs outsideTool)] else []),
       (if missingForTool \<noteq> [] then [(''code'', JStr ''REQUIRED_CAPABILITY_MISSING''), (''missingForTool'', jstrs missingForTool)] else []),
       (if missingFromPolicy \<noteq> [] then [(''missingFromPolicy'', jstrs missingFromPolicy)] else []),
       (case blocking of None \<Rightarrow> []
        | Some b \<Rightarrow> [(''code'', JStr ''POLICY_INVARIANT_BLOCKED''), (''invariantId'', JStr (ie_invariantId b))])]"

definition preview_declared :: "string \<Rightarrow> policy_tool option \<Rightarrow> string list" where
  "preview_declared t td =
     (case td of None \<Rightarrow> []
      | Some d \<Rightarrow> (case resolveToolCapabilities t d of Inl _ \<Rightarrow> [] | Inr cs \<Rightarrow> cs))"

definition previewGatewatchDecision :: "string list \<Rightarrow> runtime_policy \<Rightarrow> policy_request
    \<Rightarrow> policy_tool option \<Rightarrow> jsval \<Rightarrow> jsval \<Rightarrow> jsval \<Rightarrow> jsval \<Rightarrow> string
    \<Rightarrow> policy_failure + gatewatch_preview" where
  "previewGatewatchDecision cwd policy request td parentCapabilities requestedCapabilities
       skillCapabilities mcpCapabilities workspaceRoot =
     (let base = evaluateTaskPolicy policy request td;
          t = rq_tool request;
          declared = preview_declared t td;
          policyCaps = filter (policyAllowsCapability policy t) declared in
      bindR (assert_or parentCapabilities policyCaps ''parentCapabilities'') (\<lambda>parent.
      bindR (assert_or requestedCapabilities declared ''requestedCapabilities'') (\<lambda>requested.
      bindR (assert_or skillCapabilities [] ''skillCapabilities'') (\<lambda>skill.
      bindR (assert_or mcpCapabilities [] ''mcpCapabilities'') (\<lambda>mcp.
      let outsideParent = filter (\<lambda>c. c \<notin> set parent) requested;
          outsideTool = filter (\<lambda>c. c \<notin> set declared) requested;
          missingForTool = filter (\<lambda>c. c \<notin> set requested) declared;
          missingFromPolicy = filter (\<lambda>c. c \<notin> set policyCaps) declared in
      bindR (evaluatePolicyInvariants cwd policy request workspaceRoot) (\<lambda>invariants.
      let blocking = List.find (\<lambda>i. is_blocking (ie_decision i)) invariants;
          escalation = outsideParent \<noteq> [] \<or> outsideTool \<noteq> [] \<or> missingForTool \<noteq> [];
          allowed = (is_Allow base \<and> \<not> escalation \<and> blocking = None) in
      Inr \<lparr>gp_allowed = allowed,
           gp_decision = (if allowed then ''allow'' else ''deny''),
           gp_reason = (case base of
               Deny reason _ \<Rightarrow> reason
             | Allow _ _ \<Rightarrow>
                 if outsideParent \<noteq> [] then ''child capability request exceeds parent grants''
                 else if outsideTool \<noteq> [] then ''requested capability exceeds the trusted tool declaration''
                 else if missingForTool \<noteq> [] then ''requested capabilities omit authority required by the tool''
                 else (case blocking of Some b \<Rightarrow> ie_reason b
                       | None \<Rightarrow> ''Gatewatch would allow this execution'')),
           gp_tool = t,
           gp_declaredCapabilities = declared,
           gp_policyCapabilities = policyCaps,
           gp_parentCapabilities = parent,
           gp_requestedCapabilities = requested,
           gp_effectiveCapabilities = (if allowed
             then filter (\<lambda>c. c \<in> set policyCaps \<and> c \<in> set parent \<and> c \<in> set requested) declared else []),
           gp_skill = skill,
           gp_mcp = mcp,
           gp_invariants = invariants,
           gp_migration = rp_capabilityMigration policy,
           gp_details = (case base of Deny _ details \<Rightarrow> details
             | Allow _ _ \<Rightarrow> preview_details outsideParent outsideTool missingForTool missingFromPolicy blocking)\<rparr>))))))"

section \<open>Facts on assembled policies\<close>

lemma merge_grant_ok:
  assumes "merge_grant m v = Inr m'" and "grant_map_ok m"
    and "\<forall>g\<in>snd ` set m. g_capability g \<in> tool_needs (g_tool g)"
  shows "grant_map_ok m' \<and> (\<forall>g\<in>snd ` set m'. g_capability g \<in> tool_needs (g_tool g))"
proof -
  from assms(1) obtain t c e where t: "toolCapabilities t = Some e" "c \<in> set (te_capabilities e)"
    and m': "m' = put_grant t c m"
    by (cases v) (auto simp: merge_grant_def Let_def bindR_Inr_iff capabilitiesForTool_iff split: if_splits)
  have "CHR 0x00 \<notin> set t"
    using t(1) registry_names by (auto simp: toolCapabilities_Some list_all_iff)
  with put_grant_ok [OF assms(2) this, of c] assms(3) t show ?thesis
    unfolding m' by (auto simp: tool_needs_def)
qed

lemma merge_grants_ok:
  "foldR merge_grant m vs = Inr m' \<Longrightarrow> grant_map_ok m \<Longrightarrow>
     \<forall>g\<in>snd ` set m. g_capability g \<in> tool_needs (g_tool g) \<Longrightarrow>
     \<forall>g\<in>snd ` set m'. g_capability g \<in> tool_needs (g_tool g)"
proof (induction vs arbitrary: m)
  case (Cons v vs)
  then obtain m1 where "merge_grant m v = Inr m1" "foldR merge_grant m1 vs = Inr m'"
    by (auto simp: bindR_Inr_iff)
  with Cons.IH merge_grant_ok [of m v m1] Cons.prems(2,3) show ?case by blast
qed simp

lemma fold_put_grants_ok:
  "grant_map_ok m \<Longrightarrow> \<forall>g\<in>snd ` set m. g_capability g \<in> tool_needs (g_tool g) \<Longrightarrow>
     \<forall>g\<in>set gs. g_capability g \<in> tool_needs (g_tool g) \<Longrightarrow>
     m' = fold (\<lambda>g. put_grant (g_tool g) (g_capability g)) gs m \<Longrightarrow>
     grant_map_ok m' \<and> (\<forall>g\<in>snd ` set m'. g_capability g \<in> tool_needs (g_tool g))"
proof (induction gs arbitrary: m)
  case (Cons g gs)
  then have "toolCapabilities (g_tool g) \<noteq> None" by (auto simp: tool_needs_def split: option.splits)
  then have "CHR 0x00 \<notin> set (g_tool g)"
    using registry_names by (auto simp: toolCapabilities_Some list_all_iff)
  note put = put_grant_ok [OF Cons.prems(1) this, of "g_capability g"]
  show ?case
    by (rule Cons.IH [OF put(1)]) (use Cons.prems put(2) in auto)
qed auto

lemma mergeScoped_ok:
  assumes "mergeScopedCapabilityGrants lc gs v = Inr r"
    and "\<forall>g\<in>set gs. g_capability g \<in> tool_needs (g_tool g)"
  shows "\<forall>g\<in>set r. g_capability g \<in> tool_needs (g_tool g)"
proof -
  let ?m = "fold (\<lambda>g. put_grant (g_tool g) (g_capability g)) gs []"
  have ok: "grant_map_ok ?m \<and> (\<forall>g\<in>snd ` set ?m. g_capability g \<in> tool_needs (g_tool g))"
    using assms(2) by (intro fold_put_grants_ok) (auto simp: grant_map_ok_def)
  from assms(1) obtain m where m: "r = sort_cmp (grant_cmp lc) (map snd m)"
    and cases: "m = ?m \<or> (\<exists>vs. foldR merge_grant ?m vs = Inr m)"
    by (cases v) (auto simp: mergeScopedCapabilityGrants_def Let_def bindR_Inr_iff split: if_splits)
  from cases have "\<forall>g\<in>snd ` set m. g_capability g \<in> tool_needs (g_tool g)"
  proof
    assume "\<exists>vs. foldR merge_grant ?m vs = Inr m"
    then obtain vs where "foldR merge_grant ?m vs = Inr m" ..
    from merge_grants_ok [OF this] ok show ?thesis by blast
  qed (use ok in blast)
  with m show ?thesis by simp
qed

text \<open>An invariant list in the normal form \<open>normalizePolicyInvariants\<close> produces.\<close>

definition normal_invariant :: "policy_invariant \<Rightarrow> bool" where
  "normal_invariant iv \<longleftrightarrow>
     pi_id iv \<noteq> [] \<and> js_trim (pi_id iv) = pi_id iv \<and> js_String (pi_type iv) \<in> set invariant_types \<and>
     pi_values iv \<noteq> [] \<and> list_all (\<lambda>v. v \<noteq> [] \<and> js_trim v = v) (pi_values iv)"

definition normal_invariants :: "policy_invariant list \<Rightarrow> bool" where
  "normal_invariants ivs \<longleftrightarrow> list_all normal_invariant ivs \<and> distinct (map pi_id ivs)"

lemma normalize_invariant_ok:
  assumes "normalize_invariant (ids, ivs) v = Inr (ids', ivs')"
    and "normal_invariants ivs" and "ids = map pi_id ivs"
  shows "normal_invariants ivs' \<and> ids' = map pi_id ivs'"
proof -
  from assms(1) obtain fs vs e where v: "v = JObj fs" "js_field fs ''values'' = JArr vs"
    and new: "js_trim (js_String_or [] (js_field fs ''id'')) \<notin> set ids"
      "js_trim (js_String_or [] (js_field fs ''id'')) \<noteq> []"
      "js_String (js_field fs ''type'') \<in> set invariant_types" "vs \<noteq> []" "list_all nonblank_str vs"
    and "ids' = ids @ [js_trim (js_String_or [] (js_field fs ''id''))]"
      "ivs' = ivs @ [\<lparr>pi_id = js_trim (js_String_or [] (js_field fs ''id'')), pi_type = js_field fs ''type'',
        pi_values = map (\<lambda>v. js_trim (the_str v)) vs, pi_enforcement = e\<rparr>]"
    by (cases v)
      (auto simp: normalize_invariant_def Let_def list_ex_iff list_all_iff
        split: if_splits jsval.splits option.splits)
  then obtain iv where iv: "ids' = ids @ [pi_id iv]" "ivs' = ivs @ [iv]"
    and new: "pi_id iv \<notin> set ids" and "normal_invariant iv"
    by (atomize_elim, intro exI) (force simp: normal_invariant_def list_all_iff nonblank_str_def)
  with assms show ?thesis by (auto simp: normal_invariants_def)
qed

lemma normalize_fold_ok:
  "foldR normalize_invariant (ids, ivs) vs = Inr (ids', ivs') \<Longrightarrow> normal_invariants ivs \<Longrightarrow>
     ids = map pi_id ivs \<Longrightarrow> normal_invariants ivs'"
proof (induction vs arbitrary: ids ivs)
  case (Cons v vs)
  then obtain ids1 ivs1 where "normalize_invariant (ids, ivs) v = Inr (ids1, ivs1)"
      "foldR normalize_invariant (ids1, ivs1) vs = Inr (ids', ivs')"
    by (auto simp: bindR_Inr_iff)
  with Cons normalize_invariant_ok show ?case by blast
qed simp

lemma normalize_ok: "normalizePolicyInvariants v = Inr ivs \<Longrightarrow> normal_invariants ivs"
  using normalize_fold_ok [of "[]" "[]"]
  by (cases v) (fastforce simp: normalizePolicyInvariants_def bindR_Inr_iff normal_invariants_def
      split: prod.splits)+

lemma parse_enforcement_name [simp]: "parse_enforcement (enforcement_name e) = Some e"
  by (cases e) (simp_all add: parse_enforcement_def enforcement_name_def)

lemma normalize_normal_fold:
  "list_all normal_invariant ivs \<Longrightarrow> distinct (ids @ map pi_id ivs) \<Longrightarrow>
     foldR normalize_invariant (ids, pre) (map invariant_json ivs) =
       Inr (ids @ map pi_id ivs, pre @ ivs)"
proof (induction ivs arbitrary: ids pre)
  case (Cons iv ivs)
  then have "normalize_invariant (ids, pre) (invariant_json iv) = Inr (ids @ [pi_id iv], pre @ [iv])"
    by (auto simp: normalize_invariant_def invariant_json_def normal_invariant_def jstrs_def
        list_ex_iff list_all_iff Let_def comp_def intro!: policy_invariant.equality map_idI)
  with Cons show ?case by simp
qed simp

lemma normalize_normal:
  "normal_invariants ivs \<Longrightarrow> normalizePolicyInvariants (JArr (map invariant_json ivs)) = Inr ivs"
  by (simp add: normalizePolicyInvariants_def normal_invariants_def normalize_normal_fold [of ivs "[]"])

lemma createDefaultPolicy_ok:
  assumes "createDefaultPolicy lc ov = Inr policy"
  shows "set (rp_allowedCapabilities policy) \<subseteq> set CAPABILITY_IDS"
    and "\<forall>g\<in>set (rp_scopedCapabilities policy). g_capability g \<in> tool_needs (g_tool g)"
    and "normal_invariants (rp_invariants policy)"
proof -
  let ?in = "or_default (case ov_allowedCapabilities ov of JArr vs \<Rightarrow> Some (JArr vs) | _ \<Rightarrow> None)
      (jstrs DEFAULT_ALLOWED_CAPABILITIES)"
  obtain items where items: "?in = JArr items"
    by (cases "ov_allowedCapabilities ov") (auto simp: jstrs_def)
  from assms obtain vl mp where
    mp: "migrateLegacyCapabilityPolicy lc (JArr items) vl = Inr mp"
    and allowed: "rp_allowedCapabilities policy = mp_allowedCapabilities mp"
    and scoped: "mergeScopedCapabilityGrants lc (mp_scopedCapabilities mp) (ov_scopedCapabilities ov) =
        Inr (rp_scopedCapabilities policy)"
    and invs: "normalizePolicyInvariants (or_empty (ov_invariants ov)) = Inr (rp_invariants policy)"
    unfolding createDefaultPolicy_def Let_def items by (auto simp: bindR_Inr_iff split: if_splits)
  show "set (rp_allowedCapabilities policy) \<subseteq> set CAPABILITY_IDS"
    using migrate_ok(1) [OF mp] by (auto simp: allowed isLegacy_def is_capability_def)
  show "\<forall>g\<in>set (rp_scopedCapabilities policy). g_capability g \<in> tool_needs (g_tool g)"
    using migrate_ok(2) [OF mp] by (intro mergeScoped_ok [OF scoped]) (auto dest: legacy_grants_needed)
  show "normal_invariants (rp_invariants policy)" using normalize_ok [OF invs] .
qed

section \<open>Facts on decisions\<close>

lemma evaluate_Allow_iff:
  "evaluateTaskPolicy policy request td = Allow c cs \<longleftrightarrow>
     rq_tool request \<notin> set (rp_deniedTools policy) \<and>
     (\<exists>d. td = Some d \<and> resolveToolCapabilities (rq_tool request) d = Inr cs) \<and>
     list_all (policyAllowsCapability policy (rq_tool request)) cs \<and> c = hd cs \<and>
     (starts_with (rq_tool request) ''web.'' \<longrightarrow> ss_enabled (rp_web policy)) \<and>
     (starts_with (rq_tool request) ''browser.'' \<longrightarrow>
        \<not> starts_with (rq_tool request) ''web.'' \<longrightarrow> ss_enabled (rp_browser policy)) \<and>
     int (input_bytes request) \<le> rp_maxInputBytes policy"
  by (cases td)
    (auto simp: evaluateTaskPolicy_def Let_def list_all_iff filter_empty_conv
      split: if_splits sum.splits)

lemma web_browser_disjoint: "starts_with t ''web.'' \<Longrightarrow> \<not> starts_with t ''browser.''"
  by (cases t) (auto simp: starts_with_def)

lemma resolve_registered:
  assumes "resolveToolCapabilities t d = Inr cs" and "registered t"
  shows "set cs = tool_needs t \<and> cs \<noteq> []"
proof -
  from assms(2) obtain e where e: "toolCapabilities t = Some e" by (auto simp: registered_def)
  then have cap: "capabilitiesForTool t = Inr (te_capabilities e)" by (simp add: capabilitiesForTool_def)
  have "te_capabilities e \<noteq> []"
    using e registry_capabilities by (auto simp: toolCapabilities_Some list_all_iff)
  with assms(1) e cap show ?thesis
    by (auto simp: resolveToolCapabilities_def Let_def tool_needs_def split: if_splits sum.splits)
qed

lemma resolve_valid:
  assumes "resolveToolCapabilities t d = Inr cs"
  shows "cs \<noteq> [] \<and> list_all is_capability cs"
proof (cases "registered t")
  case True
  with resolve_registered [OF assms] show ?thesis
    by (auto simp: list_all_iff dest: tool_needs_capability)
next
  case False
  then have "capabilitiesForTool t = Inl (unknown_tool t)"
    by (simp add: capabilitiesForTool_def registered_def)
  with assms show ?thesis
    by (cases "pt_capability d")
      (auto simp: resolveToolCapabilities_def Let_def assertCapabilityIds_iff list_all_iff
        split: if_splits sum.splits)
qed

section \<open>Facts on paths\<close>

definition seg_ok :: "string \<Rightarrow> bool" where
  "seg_ok s \<longleftrightarrow> s \<noteq> [] \<and> s \<noteq> ''.'' \<and> s \<noteq> ''..'' \<and> CHR ''/'' \<notin> set s"

lemma split_join:
  "ss \<noteq> [] \<Longrightarrow> list_all seg_ok ss \<Longrightarrow> split_at (\<lambda>c. c = CHR ''/'') (js_join ''/'' ss) = ss"
proof (induction ss)
  case (Cons s ss)
  have s: "split_at (\<lambda>c. c = CHR ''/'') s = [s]"
    using Cons.prems by (intro split_at_none) (auto simp: seg_ok_def)
  show ?case
  proof (cases ss)
    case Nil
    with s show ?thesis by simp
  next
    case (Cons t ts)
    with Cons.IH Cons.prems s show ?thesis
      using split_at_append [of "\<lambda>c. c = CHR ''/''" "CHR ''/''" s "js_join ''/'' ss"] by simp
  qed
qed simp

lemma join_nonempty: "ss \<noteq> [] \<Longrightarrow> list_all seg_ok ss \<Longrightarrow> js_join ''/'' ss \<noteq> []"
  by (cases ss; cases "tl ss = []") (auto simp: seg_ok_def js_join_Cons)

lemma abs_text_inject:
  assumes "list_all seg_ok a" and "list_all seg_ok b"
  shows "abs_text a = abs_text b \<longleftrightarrow> a = b"
proof
  assume eq: "abs_text a = abs_text b"
  show "a = b"
  proof (cases "a = [] \<or> b = []")
    case True
    from eq have "js_join ''/'' a = js_join ''/'' b" by (simp add: abs_text_def)
    then have "a = [] \<longleftrightarrow> b = []"
      using join_nonempty assms by (metis js_join.simps(1))
    with True show ?thesis by auto
  next
    case False
    then have "a = split_at (\<lambda>c. c = CHR ''/'') (js_join ''/'' a)" "b = split_at (\<lambda>c. c = CHR ''/'') (js_join ''/'' b)"
      using split_join assms by simp_all
    moreover from eq have "js_join ''/'' a = js_join ''/'' b" by (simp add: abs_text_def)
    ultimately show ?thesis by metis
  qed
qed simp

lemma within_root_iff:
  assumes t: "list_all seg_ok t" and r: "list_all seg_ok r"
  shows "within_root t r \<longleftrightarrow> prefix r t \<and> (r = [] \<longrightarrow> t = [])"
proof (cases "r = []")
  case True
  have "\<not> starts_with (abs_text t) ''//''"
  proof
    assume "starts_with (abs_text t) ''//''"
    then obtain s where s: "js_join ''/'' t = [] @ CHR ''/'' # s"
      by (auto simp: starts_with_iff abs_text_def)
    then have "t \<noteq> []" by auto
    from split_join [OF this t] have "t = [] # split_at (\<lambda>c. c = CHR ''/'') s"
      unfolding s by simp
    with t show False by (simp add: seg_ok_def)
  qed
  with True show ?thesis
    using abs_text_inject [OF t r] by (auto simp: within_root_def abs_text_def)
next
  case False
  show ?thesis
  proof
    assume "within_root t r"
    then consider "t = r" | w where "js_join ''/'' t = js_join ''/'' r @ CHR ''/'' # w"
      unfolding within_root_def abs_text_inject [OF t r] starts_with_iff
      by (auto simp: abs_text_def)
    then show "prefix r t \<and> (r = [] \<longrightarrow> t = [])"
    proof cases
      case 2
      then have "t \<noteq> []" by (cases t) auto
      from split_join [OF this t] split_join [OF False r] 2
      have "t = r @ split_at (\<lambda>c. c = CHR ''/'') w" by (simp add: split_at_append)
      then have "prefix r t" by (rule prefixI)
      with False show ?thesis by simp
    qed (use False in simp)
  next
    assume "prefix r t \<and> (r = [] \<longrightarrow> t = [])"
    then obtain u where u: "t = r @ u" by (auto simp: prefix_def)
    show "within_root t r"
    proof (cases "u = []")
      case True
      with u show ?thesis by (simp add: within_root_def)
    next
      case ne: False
      then show ?thesis
        by (simp add: u within_root_def starts_with_def abs_text_def js_join_append [OF False ne])
    qed
  qed
qed

lemma path_segments_ok: "s \<in> set (path_segments p) \<Longrightarrow> s = ''..'' \<or> seg_ok s"
  using split_at_pieces [of s "\<lambda>c. c = CHR ''/''" p] by (auto simp: path_segments_def seg_ok_def)

lemma push_segments_ok:
  "list_all seg_ok st \<Longrightarrow> \<forall>s\<in>set ss. s = ''..'' \<or> seg_ok s \<Longrightarrow>
     list_all seg_ok (foldl push_segment st ss)"
proof (induction ss arbitrary: st)
  case (Cons s ss)
  have "list_all seg_ok (push_segment st s)"
    using Cons.prems by (auto simp: push_segment_def list_all_iff dest: in_set_butlastD)
  with Cons show ?case by simp
qed simp

lemma resolve_ok: "list_all seg_ok base \<Longrightarrow> list_all seg_ok (resolve_segs base p)"
  unfolding resolve_segs_def by (rule push_segments_ok) (auto dest: path_segments_ok)

section \<open>Facts on previews\<close>

lemma evaluate_invariants_normal:
  "normal_invariants (rp_invariants policy) \<Longrightarrow>
     \<exists>evs. evaluatePolicyInvariants cwd policy request root = Inr evs \<and>
       map ie_invariantId evs = map pi_id (rp_invariants policy) \<and>
       map ie_violated evs = map (\<lambda>iv. invariantViolated cwd iv request root) (rp_invariants policy)"
  by (simp add: evaluatePolicyInvariants_def normalize_normal Let_def comp_def)

lemma assert_or_cases:
  "assert_or v d l = Inr cs \<Longrightarrow> cs = d \<or> (v \<noteq> JUndef \<and> list_all is_capability cs \<and> distinct cs)"
  by (auto simp: assert_or_def assertCapabilityIds_iff list_all_iff split: if_splits)

lemma find_None_list_all: "List.find P xs = None \<longleftrightarrow> list_all (\<lambda>x. \<not> P x) xs"
  by (induction xs) auto

lemma preview_parts:
  assumes "previewGatewatchDecision cwd policy request td p r s m root = Inr pv"
  shows "gp_allowed pv \<longleftrightarrow> is_Allow (evaluateTaskPolicy policy request td) \<and>
      set (gp_requestedCapabilities pv) = set (gp_declaredCapabilities pv) \<and>
      set (gp_requestedCapabilities pv) \<subseteq> set (gp_parentCapabilities pv) \<and>
      list_all (\<lambda>i. \<not> is_blocking (ie_decision i)) (gp_invariants pv)"
    and "gp_effectiveCapabilities pv =
      (if gp_allowed pv then filter (\<lambda>c. c \<in> set (gp_policyCapabilities pv) \<and>
         c \<in> set (gp_parentCapabilities pv) \<and> c \<in> set (gp_requestedCapabilities pv)) (gp_declaredCapabilities pv)
       else [])"
    and "gp_policyCapabilities pv = filter (policyAllowsCapability policy (rq_tool request)) (gp_declaredCapabilities pv)"
    and "assert_or p (gp_policyCapabilities pv) ''parentCapabilities'' = Inr (gp_parentCapabilities pv)"
    and "assert_or r (gp_declaredCapabilities pv) ''requestedCapabilities'' = Inr (gp_requestedCapabilities pv)"
    and "evaluatePolicyInvariants cwd policy request root = Inr (gp_invariants pv)"
  using assms unfolding previewGatewatchDecision_def Let_def bindR_Inr_iff
  by (auto simp: filter_empty_conv find_None_list_all)

lemma allow_policy_capabilities:
  assumes "previewGatewatchDecision cwd policy request td p r s m root = Inr pv"
    and "evaluateTaskPolicy policy request td = Allow c cs"
  shows "gp_declaredCapabilities pv = cs" and "gp_policyCapabilities pv = cs"
  using assms unfolding previewGatewatchDecision_def Let_def bindR_Inr_iff
  by (auto simp: evaluate_Allow_iff list_all_iff preview_declared_def intro!: filter_True)

section \<open>Properties\<close>

text \<open>
  C4. A policy that could be assembled is sound: it allows registered capabilities only, every
  scoped grant, migrated or configured, is for a capability its tool is declared to need, and
  its invariants evaluate on every request, one result per invariant in order.
\<close>

theorem created_policy_sound:
  assumes "createDefaultPolicy lc overrides = Inr policy"
  shows "set (rp_allowedCapabilities policy) \<subseteq> set CAPABILITY_IDS \<and>
    (\<forall>g\<in>set (rp_scopedCapabilities policy). g_capability g \<in> tool_needs (g_tool g)) \<and>
    distinct (map pi_id (rp_invariants policy)) \<and>
    (\<exists>evs. evaluatePolicyInvariants cwd policy request root = Inr evs \<and>
       map ie_invariantId evs = map pi_id (rp_invariants policy))"
  using createDefaultPolicy_ok [OF assms] evaluate_invariants_normal [of policy cwd request root]
  by (auto simp: normal_invariants_def)

text \<open>The arguments of \<open>createDefaultPolicy({})\<close>.\<close>

definition no_patch :: surface_patch where
  "no_patch = \<lparr>sq_enabled = None, sq_allowPrivateNetwork = None, sq_allowedDomains = None,
     sq_blockedDomains = None, sq_requireApproval = None, sq_allowDownloads = None,
     sq_allowUploads = None\<rparr>"

definition no_overrides :: policy_overrides where
  "no_overrides = \<lparr>ov_id = None, ov_deniedTools = None, ov_capabilityRegistryVersion = JUndef,
     ov_allowedCapabilities = JUndef, ov_scopedCapabilities = JUndef, ov_maxInputBytes = None,
     ov_web = no_patch, ov_browser = no_patch, ov_deniedPatterns = JUndef, ov_ignoreFiles = JUndef,
     ov_invariants = JUndef\<rparr>"

definition scoped_overrides :: policy_overrides where
  "scoped_overrides = no_overrides
     \<lparr>ov_capabilityRegistryVersion := JInt 1,
      ov_scopedCapabilities := JArr [JObj [(''tool'', JStr ''git.log''), (''capability'', JStr ''git.read'')]],
      ov_invariants := JArr [JObj [(''id'', JStr ''r1''), (''type'', JStr ''filesystem.allowed-roots''),
        (''values'', JArr [JStr ''src''])]]\<rparr>"

theorem created_policy_sound_witness:
  "\<exists>policy. createDefaultPolicy lex_cmp scoped_overrides = Inr policy \<and>
     \<lparr>g_capability = ''git.read'', g_tool = ''git.log''\<rparr> \<in> set (rp_scopedCapabilities policy) \<and>
     distinct (map pi_id (rp_invariants policy)) \<and> rp_invariants policy \<noteq> []"
proof -
  have "case createDefaultPolicy lex_cmp scoped_overrides of Inl e \<Rightarrow> False
    | Inr policy \<Rightarrow> rp_invariants policy \<noteq> [] \<and>
        rp_scopedCapabilities policy = [\<lparr>g_capability = ''git.read'', g_tool = ''git.log''\<rparr>]"
    by code_simp
  then obtain policy where p: "createDefaultPolicy lex_cmp scoped_overrides = Inr policy"
    "rp_invariants policy \<noteq> []"
    "rp_scopedCapabilities policy = [\<lparr>g_capability = ''git.read'', g_tool = ''git.log''\<rparr>]"
    by (auto split: sum.splits)
  from created_policy_sound [OF p(1)] p show ?thesis by auto
qed

text \<open>
  C5. A task is allowed exactly when its tool is known and not denied, its declaration
  resolves, every declared capability is allowed (in general or by a grant scoped to that
  very tool), the web or browser surface of the tool is enabled and the input is within the
  limit; the declaration of a registered tool is the trusted one, whatever the tool object says.
\<close>

theorem task_allowed_iff:
  "evaluateTaskPolicy policy request td = Allow c cs \<longleftrightarrow>
     rq_tool request \<notin> set (rp_deniedTools policy) \<and>
     (\<exists>d. td = Some d \<and> resolveToolCapabilities (rq_tool request) d = Inr cs \<and>
        (registered (rq_tool request) \<longrightarrow> set cs = tool_needs (rq_tool request))) \<and>
     (\<forall>x\<in>set cs. x \<in> set (rp_allowedCapabilities policy) \<or>
        \<lparr>g_capability = x, g_tool = rq_tool request\<rparr> \<in> set (rp_scopedCapabilities policy)) \<and>
     c = hd cs \<and>
     (starts_with (rq_tool request) ''web.'' \<longrightarrow> ss_enabled (rp_web policy)) \<and>
     (starts_with (rq_tool request) ''browser.'' \<longrightarrow> ss_enabled (rp_browser policy)) \<and>
     int (input_bytes request) \<le> rp_maxInputBytes policy"
proof -
  have scoped: "policyAllowsCapability policy t x \<longleftrightarrow>
      x \<in> set (rp_allowedCapabilities policy) \<or> \<lparr>g_capability = x, g_tool = t\<rparr> \<in> set (rp_scopedCapabilities policy)"
    for t x
  proof -
    have "g_tool g = t \<and> g_capability g = x \<longleftrightarrow> g = \<lparr>g_capability = x, g_tool = t\<rparr>" for g :: grant
      by (cases g) auto
    then show ?thesis by (auto simp: policyAllowsCapability_def list_ex_iff)
  qed
  show ?thesis
    unfolding evaluate_Allow_iff list_all_iff scoped
    using web_browser_disjoint [of "rq_tool request"] resolve_registered [of "rq_tool request"]
    by blast
qed

definition echo_request :: policy_request where
  "echo_request = \<lparr>rq_tool = ''text.echo'', rq_input = [(''text'', JStr ''hi'')]\<rparr>"

definition echo_tool :: policy_tool where
  "echo_tool = \<lparr>pt_capability = JStr ''git.read'', pt_capabilities = JUndef\<rparr>"

theorem task_allowed_iff_witness:
  "\<exists>policy. createDefaultPolicy lex_cmp no_overrides = Inr policy \<and>
     evaluateTaskPolicy policy echo_request (Some echo_tool) = Allow ''workspace.inspect'' [''workspace.inspect''] \<and>
     tool_needs ''text.echo'' = {''workspace.inspect''}"
proof -
  have "case createDefaultPolicy lex_cmp no_overrides of Inl e \<Rightarrow> False
    | Inr policy \<Rightarrow>
        evaluateTaskPolicy policy echo_request (Some echo_tool) = Allow ''workspace.inspect'' [''workspace.inspect'']"
    by code_simp
  then obtain policy where p: "createDefaultPolicy lex_cmp no_overrides = Inr policy"
    "evaluateTaskPolicy policy echo_request (Some echo_tool) = Allow ''workspace.inspect'' [''workspace.inspect'']"
    by (auto split: sum.splits)
  have "registered ''text.echo''" by code_simp
  with p(2) [unfolded task_allowed_iff] have "tool_needs ''text.echo'' = {''workspace.inspect''}"
    by (auto simp: echo_request_def)
  with p show ?thesis by blast
qed

text \<open>
  A preview allows an execution exactly when the task policy does, the request is exactly
  the declaration and within the parent, and no blocking invariant is violated; the effective
  capabilities are then exactly the declared ones, all held by the parent and allowed by the
  policy, and otherwise there are none.
\<close>

lemma preview_effective_bounded:
  assumes "previewGatewatchDecision cwd policy request td p r s m root = Inr pv"
  shows "(gp_allowed pv \<longleftrightarrow> is_Allow (evaluateTaskPolicy policy request td) \<and>
      set (gp_requestedCapabilities pv) = set (gp_declaredCapabilities pv) \<and>
      set (gp_requestedCapabilities pv) \<subseteq> set (gp_parentCapabilities pv) \<and>
      list_all (\<lambda>i. \<not> is_blocking (ie_decision i)) (gp_invariants pv)) \<and>
    set (gp_effectiveCapabilities pv) = (if gp_allowed pv then set (gp_declaredCapabilities pv) else {}) \<and>
    set (gp_effectiveCapabilities pv) \<subseteq> set (gp_parentCapabilities pv) \<inter> set (gp_requestedCapabilities pv) \<and>
    list_all (policyAllowsCapability policy (rq_tool request)) (gp_effectiveCapabilities pv)"
proof -
  note parts = preview_parts [OF assms]
  show ?thesis
  proof (cases "gp_allowed pv")
    case False
    with parts(1,2) show ?thesis by simp
  next
    case True
    then obtain c cs where base: "evaluateTaskPolicy policy request td = Allow c cs"
      using parts(1) by (auto simp: is_Allow_def)
    note eq = allow_policy_capabilities [OF assms base]
    have "set (gp_effectiveCapabilities pv) = set (gp_declaredCapabilities pv)"
      using parts(1,2) True eq by auto
    moreover have "list_all (policyAllowsCapability policy (rq_tool request)) cs"
      using base by (simp add: evaluate_Allow_iff)
    ultimately show ?thesis using parts(1) True eq by (auto simp: list_all_iff)
  qed
qed

text \<open>
  What a skill package or an MCP server declares for itself grants nothing: previews that
  differ in those declarations alone differ in nothing but their record of them.
\<close>

theorem declarations_grant_no_authority:
  assumes "previewGatewatchDecision cwd policy request td p r s m root = Inr pv"
    and "previewGatewatchDecision cwd policy request td p r s' m' root = Inr pv'"
  shows "pv\<lparr>gp_skill := gp_skill pv', gp_mcp := gp_mcp pv'\<rparr> = pv'"
  using assms unfolding previewGatewatchDecision_def Let_def bindR_Inr_iff by auto

theorem declarations_grant_no_authority_witness:
  "\<exists>policy pv pv'. createDefaultPolicy lex_cmp no_overrides = Inr policy \<and>
     previewGatewatchDecision [''w''] policy echo_request (Some echo_tool)
       JUndef JUndef JUndef JUndef ''.'' = Inr pv \<and>
     previewGatewatchDecision [''w''] policy echo_request (Some echo_tool)
       JUndef JUndef (jstrs [''process.execute'']) (jstrs [''mcp.invoke'']) ''.'' = Inr pv' \<and>
     gp_effectiveCapabilities pv' = gp_effectiveCapabilities pv \<and> gp_skill pv' \<noteq> gp_skill pv"
proof -
  have "case createDefaultPolicy lex_cmp no_overrides of Inl e \<Rightarrow> False
    | Inr policy \<Rightarrow> (case (previewGatewatchDecision [''w''] policy echo_request (Some echo_tool)
         JUndef JUndef JUndef JUndef ''.'',
        previewGatewatchDecision [''w''] policy echo_request (Some echo_tool)
         JUndef JUndef (jstrs [''process.execute'']) (jstrs [''mcp.invoke'']) ''.'') of
       (Inr pv, Inr pv') \<Rightarrow> gp_skill pv' \<noteq> gp_skill pv | _ \<Rightarrow> False)"
    by code_simp
  then obtain policy pv pv' where p: "createDefaultPolicy lex_cmp no_overrides = Inr policy"
    "previewGatewatchDecision [''w''] policy echo_request (Some echo_tool)
       JUndef JUndef JUndef JUndef ''.'' = Inr pv"
    "previewGatewatchDecision [''w''] policy echo_request (Some echo_tool)
       JUndef JUndef (jstrs [''process.execute'']) (jstrs [''mcp.invoke'']) ''.'' = Inr pv'"
    "gp_skill pv' \<noteq> gp_skill pv"
    by (auto split: sum.splits)
  from declarations_grant_no_authority [OF p(2,3)]
  have "gp_effectiveCapabilities pv' = gp_effectiveCapabilities pv"
    by (metis gatewatch_preview.select_convs(9) gatewatch_preview.surjective gatewatch_preview.update_convs(10,11))
  with p show ?thesis by blast
qed

text \<open>
  C6. An invariant on file-system roots is violated exactly when some path of the request,
  resolved with all its dot segments, is not below any of the resolved roots at a segment
  boundary; a resolved path has proper segments only.  (For the root \<open>/\<close> the test of the
  source accepts the path \<open>/\<close> alone.)
\<close>

theorem allowed_roots_confine:
  assumes "pi_type iv = JStr ''filesystem.allowed-roots''" and "list_all seg_ok cwd"
  shows "(invariantViolated cwd iv request workspace \<longleftrightarrow>
      (\<exists>p\<in>set (request_paths (rq_input request)). \<forall>r\<in>set (pi_values iv).
         let base = resolve_segs cwd workspace;
             target = resolve_segs base p;
             allowed = resolve_segs base r in
         \<not> (prefix allowed target \<and> (allowed = [] \<longrightarrow> target = [])))) \<and>
    (\<forall>p. list_all seg_ok (resolve_segs (resolve_segs cwd workspace) p))"
proof -
  have ok: "list_all seg_ok (resolve_segs (resolve_segs cwd workspace) p)" for p
    by (intro resolve_ok assms(2))
  with assms(1) show ?thesis
    by (auto simp: invariantViolated_def Let_def list_ex_iff within_root_iff)
qed

theorem allowed_roots_confine_witness:
  "invariantViolated [''home''] \<lparr>pi_id = ''r'', pi_type = JStr ''filesystem.allowed-roots'',
       pi_values = [''src''], pi_enforcement = En_block\<rparr>
     \<lparr>rq_tool = ''workspace.read'', rq_input = [(''path'', JStr ''src/../srcs/x'')]\<rparr> ''w''"
proof -
  let ?iv = "\<lparr>pi_id = ''r'', pi_type = JStr ''filesystem.allowed-roots'',
       pi_values = [''src''], pi_enforcement = En_block\<rparr>"
  have "pi_type ?iv = JStr ''filesystem.allowed-roots''" "list_all seg_ok [''home'']"
    by (simp_all add: seg_ok_def)
  note eq = allowed_roots_confine [OF this, THEN conjunct1]
  show ?thesis unfolding eq by code_simp
qed

end
