(* ===== verification/Workflow.thy ===== *)
theory Workflow
  imports Prelude
begin

text \<open>
  The workflow definitions of \<open>packages/protocol/src/workflow.ts\<close>: validation and
  normalisation of definitions and run requests, the bounded JSON values they carry, the check
  that step dependencies have no cycle, digests and the table of status transitions.

  The hash \<open>sha256\<close> is an argument \<open>H\<close>.  Frozen objects are ordinary values here.
\<close>

section \<open>Statuses and records\<close>

datatype retry_safety = Retry_safe | Effectful

datatype wf_status =
    Queued | Running | Awaiting_approval | Stopping | Cancelling
  | Completed | Failed | Cancelled | Needs_review

record wf_step_def =
  sd_id :: string
  sd_actionRef :: string
  sd_dependsOn :: "string list"
  sd_input :: jsval
  sd_retrySafety :: retry_safety
  sd_maxAttempts :: int
  sd_requiresApproval :: bool

record wf_definition =
  wd_id :: string
  wd_revision :: int
  wd_name :: string
  wd_steps :: "wf_step_def list"
  wd_definitionDigest :: string

record wf_run_request =
  wr_runId :: string
  wr_principalId :: string
  wr_idempotencyKey :: string
  wr_definition :: wf_definition
  wr_input :: jsval

datatype wf_error =
    TypeError string
  | RangeError string
  | Error string

definition WORKFLOW_SCHEMA_VERSION :: int where "WORKFLOW_SCHEMA_VERSION = 1"
definition WORKFLOW_MAX_STEPS :: nat where "WORKFLOW_MAX_STEPS = 64"
definition WORKFLOW_MAX_DEFINITION_BYTES :: int where "WORKFLOW_MAX_DEFINITION_BYTES = 131072"
definition WORKFLOW_MAX_INPUT_BYTES :: int where "WORKFLOW_MAX_INPUT_BYTES = 65536"
definition WORKFLOW_MAX_OUTPUT_BYTES :: int where "WORKFLOW_MAX_OUTPUT_BYTES = 65536"

section \<open>Bounded values\<close>

definition IDENTIFIER :: "string \<Rightarrow> bool" where
  "IDENTIFIER = matches (\<lambda>c. is_upper c \<or> is_lower c)
     (\<lambda>c. is_upper c \<or> is_lower c \<or> is_digit c \<or> c \<in> set ''._:-'') 127"

definition ACTION :: "string \<Rightarrow> bool" where
  "ACTION = matches (\<lambda>c. is_upper c \<or> is_lower c)
     (\<lambda>c. is_upper c \<or> is_lower c \<or> is_digit c \<or> c \<in> set ''._:/-'') 127"

definition ERROR_CODE :: "string \<Rightarrow> bool" where
  "ERROR_CODE = matches is_upper (\<lambda>c. is_upper c \<or> is_digit c \<or> c = CHR ''_'') 63"

definition LIVE_ONLY_AUTOMATION_TOOLS :: "string list" where
  "LIVE_ONLY_AUTOMATION_TOOLS = [''email.accounts'', ''email.search'', ''email.read'', ''email.thread'',
     ''calendar.calendars'', ''calendar.events'', ''calendar.read'']"

definition isLiveOnlyAutomationTool :: "string \<Rightarrow> bool" where
  "isLiveOnlyAutomationTool s \<longleftrightarrow> s \<in> set LIVE_ONLY_AUTOMATION_TOOLS"

definition plain :: "jsval \<Rightarrow> string \<Rightarrow> wf_error + (string \<times> jsval) list" where
  "plain value label =
     (case value of JObj fs \<Rightarrow> Inr fs | _ \<Rightarrow> Inl (TypeError (label @ '' must be an object'')))"

definition exact :: "(string \<times> jsval) list \<Rightarrow> string list \<Rightarrow> string \<Rightarrow> wf_error + unit" where
  "exact fs keys label =
     (case List.find (\<lambda>f. fst f \<notin> set keys) fs of
        None \<Rightarrow> Inr ()
      | Some f \<Rightarrow> Inl (TypeError (label @ '' has unknown field: '' @ fst f)))"

definition identifier_value :: "jsval \<Rightarrow> string \<Rightarrow> wf_error + string" where
  "identifier_value value label =
     (if is_str value \<and> IDENTIFIER (the_str value) then Inr (the_str value)
      else Inl (TypeError (label @ '' must be a bounded identifier'')))"

definition action :: "jsval \<Rightarrow> string \<Rightarrow> wf_error + string" where
  "action value label =
     (if is_str value \<and> ACTION (the_str value) then Inr (the_str value)
      else Inl (TypeError (label @ '' must be a bounded action reference'')))"

definition validateWorkflowErrorCode :: "string \<Rightarrow> wf_error + string" where
  "validateWorkflowErrorCode s =
     (if ERROR_CODE s then Inr s
      else Inl (TypeError ''workflow errorCode must match ^[A-Z][A-Z0-9_]{0,63}$''))"

fun is_int :: "jsval \<Rightarrow> bool" where
  "is_int (JInt n) = True"
| "is_int _ = False"

fun the_int :: "jsval \<Rightarrow> int" where
  "the_int (JInt n) = n"
| "the_int _ = 0"

definition integer :: "jsval \<Rightarrow> string \<Rightarrow> int \<Rightarrow> int \<Rightarrow> wf_error + int" where
  "integer value label lo hi =
     (if is_int value \<and> is_safe_int (the_int value) \<and> lo \<le> the_int value \<and> the_int value \<le> hi then Inr (the_int value)
      else Inl (TypeError (label @ '' must be an integer from '' @ int_text lo @ '' through '' @ int_text hi)))"

text \<open>
  The visitor of \<open>boundedJson\<close>: the count of nodes so far goes through the whole value, and
  the value is rebuilt.
\<close>

definition utf8_bytes :: "string \<Rightarrow> int" where
  "utf8_bytes s = int (length s)"

definition reserved_key :: "string \<Rightarrow> bool" where
  "reserved_key k \<longleftrightarrow> k \<in> set [''__proto__'', ''constructor'', ''prototype'']"

fun visit_json :: "string \<Rightarrow> nat \<Rightarrow> jsval \<Rightarrow> wf_error + (nat \<times> jsval)"
  and visit_list :: "string \<Rightarrow> nat \<Rightarrow> jsval list \<Rightarrow> wf_error + (nat \<times> jsval list)"
  and visit_fields :: "string \<Rightarrow> nat \<Rightarrow> (string \<times> jsval) list \<Rightarrow> wf_error + (nat \<times> (string \<times> jsval) list)"
where
  "visit_json label n v =
     (if 512 < Suc n then Inl (RangeError (label @ '' contains too many JSON nodes''))
      else case v of
        JNull \<Rightarrow> Inr (Suc n, v)
      | JStr s \<Rightarrow> Inr (Suc n, v)
      | JBool b \<Rightarrow> Inr (Suc n, v)
      | JInt i \<Rightarrow> if is_safe_int i then Inr (Suc n, v) else Inl (TypeError (label @ '' contains an unsafe number''))
      | JFlt _ _ \<Rightarrow> Inl (TypeError (label @ '' contains an unsafe number''))
      | JNaN \<Rightarrow> Inl (TypeError (label @ '' contains an unsafe number''))
      | JInf _ \<Rightarrow> Inl (TypeError (label @ '' contains an unsafe number''))
      | JArr vs \<Rightarrow> bindR (visit_list label (Suc n) vs) (\<lambda>(n', vs'). Inr (n', JArr vs'))
      | JObj fs \<Rightarrow> bindR (visit_fields label (Suc n) fs) (\<lambda>(n', fs'). Inr (n', JObj fs'))
      | JUndef \<Rightarrow> Inl (TypeError (label @ '' must be an object'')))"
| "visit_list label n [] = Inr (n, [])"
| "visit_list label n (v # vs) =
     bindR (visit_json label n v) (\<lambda>(n1, v').
     bindR (visit_list label n1 vs) (\<lambda>(n2, vs'). Inr (n2, v' # vs')))"
| "visit_fields label n [] = Inr (n, [])"
| "visit_fields label n ((k, v) # fs) =
     (if reserved_key k then Inl (TypeError (label @ '' contains a reserved key''))
      else bindR (visit_json label n v) (\<lambda>(n1, v').
           bindR (visit_fields label n1 fs) (\<lambda>(n2, fs'). Inr (n2, (k, v') # fs'))))"

declare visit_json.simps [simp del]

definition boundedJson :: "jsval \<Rightarrow> string \<Rightarrow> int \<Rightarrow> wf_error + jsval" where
  "boundedJson value label maxBytes =
     bindR (visit_json label 0 value) (\<lambda>(n, normalized).
     if maxBytes < utf8_bytes (canonicalJson normalized)
     then Inl (RangeError (label @ '' exceeds '' @ int_text maxBytes @ '' UTF-8 bytes''))
     else Inr normalized)"

definition or_object :: "jsval \<Rightarrow> jsval" where
  "or_object v = (if v = JUndef \<or> v = JNull then JObj [] else v)"

section \<open>Definitions\<close>

fun retry_text :: "retry_safety \<Rightarrow> string" where
  "retry_text Retry_safe = ''retry-safe''"
| "retry_text Effectful = ''effectful''"

definition step_json :: "wf_step_def \<Rightarrow> jsval" where
  "step_json s = JObj [(''id'', JStr (sd_id s)), (''actionRef'', JStr (sd_actionRef s)),
     (''dependsOn'', JArr (map JStr (sd_dependsOn s))), (''input'', sd_input s),
     (''retrySafety'', JStr (retry_text (sd_retrySafety s))), (''maxAttempts'', JInt (sd_maxAttempts s)),
     (''requiresApproval'', JBool (sd_requiresApproval s))]"

definition normalized_fields :: "string \<Rightarrow> int \<Rightarrow> string \<Rightarrow> wf_step_def list \<Rightarrow> (string \<times> jsval) list" where
  "normalized_fields i revision name steps =
     [(''schemaVersion'', JInt WORKFLOW_SCHEMA_VERSION), (''id'', JStr i), (''revision'', JInt revision),
      (''name'', JStr name), (''steps'', JArr (map step_json steps))]"

definition definition_json :: "wf_definition \<Rightarrow> jsval" where
  "definition_json d =
     JObj (normalized_fields (wd_id d) (wd_revision d) (wd_name d) (wd_steps d) @
       [(''definitionDigest'', JStr (wd_definitionDigest d))])"

definition workflowDefinitionDigest :: "(string \<Rightarrow> string) \<Rightarrow> (string \<times> jsval) list \<Rightarrow> string" where
  "workflowDefinitionDigest H normalized = H (canonicalJson (JObj normalized))"

definition step_label :: "nat \<Rightarrow> string" where
  "step_label index = ''workflow step '' @ nat_digits (Suc index)"

definition parse_dependencies :: "string \<Rightarrow> jsval \<Rightarrow> wf_error + string list" where
  "parse_dependencies stepId v =
     (case v of
        JArr ds \<Rightarrow>
          if WORKFLOW_MAX_STEPS < length ds
          then Inl (TypeError (''workflow step '' @ stepId @ '' dependsOn must be an array''))
          else bindR (mapR (\<lambda>(i, d). identifier_value d (''workflow step '' @ stepId @ '' dependency '' @ nat_digits (Suc i)))
                 (enumerate 0 ds)) (\<lambda>dependsOn.
            if distinct dependsOn then Inr dependsOn
            else Inl (TypeError (''workflow step '' @ stepId @ '' contains duplicate dependencies'')))
      | _ \<Rightarrow> Inl (TypeError (''workflow step '' @ stepId @ '' dependsOn must be an array'')))"

definition parse_retry_safety :: "string \<Rightarrow> jsval \<Rightarrow> wf_error + retry_safety" where
  "parse_retry_safety stepId v =
     (if v = JStr ''retry-safe'' then Inr Retry_safe
      else if v = JStr ''effectful'' then Inr Effectful
      else Inl (TypeError (''workflow step '' @ stepId @ '' retrySafety is invalid'')))"

definition parse_requires_approval :: "string \<Rightarrow> jsval \<Rightarrow> wf_error + bool" where
  "parse_requires_approval stepId v =
     (case v of JBool b \<Rightarrow> Inr b
      | _ \<Rightarrow> Inl (TypeError (''workflow step '' @ stepId @ '' requiresApproval is invalid'')))"

definition parse_step :: "string list \<times> wf_step_def list \<Rightarrow> jsval \<Rightarrow> wf_error + (string list \<times> wf_step_def list)" where
  "parse_step = (\<lambda>(ids, steps) raw.
     let label = step_label (length steps) in
     bindR (plain raw label) (\<lambda>step.
     bindR (exact step [''id'', ''actionRef'', ''dependsOn'', ''input'', ''retrySafety'', ''maxAttempts'', ''requiresApproval'']
              label) (\<lambda>_.
     bindR (identifier_value (js_field step ''id'') (label @ '' id'')) (\<lambda>stepId.
     bindR (guardR (stepId \<notin> set ids) (TypeError (''workflow contains duplicate step id: '' @ stepId))) (\<lambda>_.
     bindR (parse_dependencies stepId (js_field step ''dependsOn'')) (\<lambda>dependsOn.
     bindR (parse_retry_safety stepId (js_field step ''retrySafety'')) (\<lambda>retrySafety.
     bindR (integer (js_field step ''maxAttempts'') (''workflow step '' @ stepId @ '' maxAttempts'') 1 8) (\<lambda>maxAttempts.
     bindR (parse_requires_approval stepId (js_field step ''requiresApproval'')) (\<lambda>requiresApproval.
     bindR (action (js_field step ''actionRef'') (''workflow step '' @ stepId @ '' actionRef'')) (\<lambda>actionRef.
     bindR (guardR (\<not> isLiveOnlyAutomationTool actionRef)
              (TypeError (''workflow step '' @ stepId @ '' actionRef is live-only and cannot be persisted''))) (\<lambda>_.
     bindR (boundedJson (or_object (js_field step ''input'')) (''workflow step '' @ stepId @ '' input'')
              WORKFLOW_MAX_INPUT_BYTES) (\<lambda>input.
     Inr (ids @ [stepId], steps @
       [\<lparr>sd_id = stepId, sd_actionRef = actionRef, sd_dependsOn = dependsOn, sd_input = input,
         sd_retrySafety = retrySafety, sd_maxAttempts = maxAttempts, sd_requiresApproval = requiresApproval\<rparr>])))))))))))))"

text \<open>
  The depth-first check for cycles.  The path \<open>visiting\<close> is a list, extended on entry and
  dropped on return; the depth is bounded by a fuel that is shown to suffice.
\<close>

datatype dfs_result = Cycle | Out_of_fuel | Visited "string list"

fun visit_step :: "nat \<Rightarrow> (string \<Rightarrow> string list) \<Rightarrow> string list \<Rightarrow> string list \<Rightarrow> string \<Rightarrow> dfs_result"
  and visit_steps :: "nat \<Rightarrow> (string \<Rightarrow> string list) \<Rightarrow> string list \<Rightarrow> string list \<Rightarrow> string list \<Rightarrow> dfs_result"
where
  "visit_step fuel deps visiting visited i =
     (case fuel of
        0 \<Rightarrow> Out_of_fuel
      | Suc f \<Rightarrow>
          if i \<in> set visiting then Cycle
          else if i \<in> set visited then Visited visited
          else (case visit_steps f deps (i # visiting) visited (deps i) of
              Visited visited' \<Rightarrow> Visited (i # visited')
            | r \<Rightarrow> r))"
| "visit_steps fuel deps visiting visited [] = Visited visited"
| "visit_steps fuel deps visiting visited (d # ds) =
     (case visit_step fuel deps visiting visited d of
        Visited visited' \<Rightarrow> visit_steps fuel deps visiting visited' ds
      | r \<Rightarrow> r)"

declare visit_step.simps [simp del]

definition step_deps :: "wf_step_def list \<Rightarrow> string \<Rightarrow> string list" where
  "step_deps steps i = (case map_of (map (\<lambda>s. (sd_id s, sd_dependsOn s)) steps) i of None \<Rightarrow> [] | Some ds \<Rightarrow> ds)"

definition dependency_check :: "wf_step_def list \<Rightarrow> dfs_result" where
  "dependency_check steps = visit_steps (Suc (length steps)) (step_deps steps) [] [] (map sd_id steps)"

definition check_name :: "jsval \<Rightarrow> wf_error + string" where
  "check_name v =
     (if is_str v \<and> js_trim (the_str v) \<noteq> [] \<and> length (the_str v) \<le> 256 then Inr (js_trim (the_str v))
      else Inl (TypeError ''workflow name is invalid''))"

definition unknown_dependency :: "string list \<Rightarrow> wf_step_def list \<Rightarrow> (string \<times> string) option" where
  "unknown_dependency ids steps =
     List.find (\<lambda>(s, d). d \<notin> set ids) (concat (map (\<lambda>s. map (\<lambda>d. (sd_id s, d)) (sd_dependsOn s)) steps))"

definition parse_steps :: "jsval \<Rightarrow> wf_error + wf_step_def list" where
  "parse_steps v =
     (case v of
        JArr raws \<Rightarrow>
          if length raws < 1 \<or> WORKFLOW_MAX_STEPS < length raws
          then Inl (RangeError (''workflow steps must contain 1-'' @ nat_digits WORKFLOW_MAX_STEPS @ '' entries''))
          else
            bindR (foldR parse_step ([], []) raws) (\<lambda>(ids, steps).
            case unknown_dependency ids steps of
              Some (s, d) \<Rightarrow> Inl (TypeError (''workflow step '' @ s @ '' depends on unknown step: '' @ d))
            | None \<Rightarrow> (case dependency_check steps of
                  Visited _ \<Rightarrow> Inr steps
                | _ \<Rightarrow> Inl (TypeError ''workflow dependencies contain a cycle'')))
      | _ \<Rightarrow> Inl (RangeError (''workflow steps must contain 1-'' @ nat_digits WORKFLOW_MAX_STEPS @ '' entries'')))"

definition validateWorkflowDefinition :: "(string \<Rightarrow> string) \<Rightarrow> jsval \<Rightarrow> wf_error + wf_definition" where
  "validateWorkflowDefinition H input =
     bindR (plain input ''workflow definition'') (\<lambda>value.
     bindR (exact value [''schemaVersion'', ''id'', ''revision'', ''name'', ''steps'', ''definitionDigest'']
              ''workflow definition'') (\<lambda>_.
     bindR (guardR (js_field value ''schemaVersion'' = JInt WORKFLOW_SCHEMA_VERSION)
              (TypeError ''workflow definition has an unsupported schema version'')) (\<lambda>_.
     bindR (identifier_value (js_field value ''id'') ''workflow id'') (\<lambda>i.
     bindR (check_name (js_field value ''name'')) (\<lambda>name.
     bindR (integer (js_field value ''revision'') ''workflow revision'' 1 1000000) (\<lambda>revision.
     bindR (parse_steps (js_field value ''steps'')) (\<lambda>steps.
     let digest = workflowDefinitionDigest H (normalized_fields i revision name steps);
         def = \<lparr>wd_id = i, wd_revision = revision, wd_name = name, wd_steps = steps,
                wd_definitionDigest = digest\<rparr> in
     bindR (guardR (js_field value ''definitionDigest'' \<in> {JUndef, JStr digest})
              (TypeError ''workflow definition digest is invalid'')) (\<lambda>_.
     if WORKFLOW_MAX_DEFINITION_BYTES < utf8_bytes (canonicalJson (definition_json def))
     then Inl (RangeError (''workflow definition exceeds '' @ int_text WORKFLOW_MAX_DEFINITION_BYTES @ '' UTF-8 bytes''))
     else Inr def))))))))"

definition validateWorkflowRunRequest :: "(string \<Rightarrow> string) \<Rightarrow> jsval \<Rightarrow> wf_error + wf_run_request" where
  "validateWorkflowRunRequest H input =
     bindR (plain input ''workflow run request'') (\<lambda>value.
     bindR (exact value [''schemaVersion'', ''runId'', ''principalId'', ''idempotencyKey'', ''definition'', ''input'']
              ''workflow run request'') (\<lambda>_.
     bindR (guardR (js_field value ''schemaVersion'' = JInt WORKFLOW_SCHEMA_VERSION)
              (TypeError ''workflow run request has an unsupported schema version'')) (\<lambda>_.
     bindR (identifier_value (js_field value ''runId'') ''workflow run id'') (\<lambda>runId.
     bindR (identifier_value (js_field value ''principalId'') ''workflow principal id'') (\<lambda>principalId.
     bindR (identifier_value (js_field value ''idempotencyKey'') ''workflow idempotency key'') (\<lambda>key.
     bindR (validateWorkflowDefinition H (js_field value ''definition'')) (\<lambda>def.
     bindR (boundedJson (or_object (js_field value ''input'')) ''workflow run input'' WORKFLOW_MAX_INPUT_BYTES) (\<lambda>inp.
     Inr \<lparr>wr_runId = runId, wr_principalId = principalId, wr_idempotencyKey = key,
          wr_definition = def, wr_input = inp\<rparr>))))))))"

definition projectWorkflowInput :: "(string \<Rightarrow> string) \<Rightarrow> jsval \<Rightarrow> wf_error + jsval \<times> string" where
  "projectWorkflowInput H value =
     bindR (boundedJson value ''workflow durable input'' WORKFLOW_MAX_INPUT_BYTES) (\<lambda>normalized.
     Inr (normalized, H (canonicalJson normalized)))"

definition projectWorkflowOutput :: "(string \<Rightarrow> string) \<Rightarrow> jsval \<Rightarrow> wf_error + jsval \<times> string" where
  "projectWorkflowOutput H value =
     bindR (boundedJson value ''workflow durable output'' WORKFLOW_MAX_OUTPUT_BYTES) (\<lambda>normalized.
     Inr (normalized, H (canonicalJson normalized)))"

fun workflow_transitions :: "wf_status \<Rightarrow> wf_status set" where
  "workflow_transitions Queued = {Running, Awaiting_approval, Stopping, Cancelling, Cancelled, Needs_review}"
| "workflow_transitions Awaiting_approval = {Running, Stopping, Cancelling, Cancelled, Failed, Needs_review}"
| "workflow_transitions Running = {Completed, Failed, Stopping, Cancelling, Cancelled, Needs_review, Awaiting_approval}"
| "workflow_transitions Stopping = {Failed, Needs_review, Cancelling}"
| "workflow_transitions Cancelling = {Cancelled, Needs_review}"
| "workflow_transitions Completed = {}"
| "workflow_transitions Failed = {Queued, Needs_review}"
| "workflow_transitions Cancelled = {}"
| "workflow_transitions Needs_review = {Cancelled, Queued}"

fun status_text :: "wf_status \<Rightarrow> string" where
  "status_text Queued = ''queued''"
| "status_text Running = ''running''"
| "status_text Awaiting_approval = ''awaiting-approval''"
| "status_text Stopping = ''stopping''"
| "status_text Cancelling = ''cancelling''"
| "status_text Completed = ''completed''"
| "status_text Failed = ''failed''"
| "status_text Cancelled = ''cancelled''"
| "status_text Needs_review = ''needs-review''"

definition validateWorkflowTransition :: "wf_status \<Rightarrow> wf_status \<Rightarrow> wf_error + unit" where
  "validateWorkflowTransition frm to =
     (if frm = to \<or> to \<in> workflow_transitions frm then Inr ()
      else Inl (Error (''invalid workflow transition '' @ status_text frm @ '' -> '' @ status_text to)))"

definition workflowDefinitionForDigest :: "(string \<Rightarrow> string) \<Rightarrow> wf_definition \<Rightarrow> wf_error + wf_definition" where
  "workflowDefinitionForDigest H input =
     bindR (validateWorkflowDefinition H (definition_json input)) (\<lambda>def.
     bindR (guardR (wd_definitionDigest def = wd_definitionDigest input)
              (Error ''workflow definition is not canonical for its digest'')) (\<lambda>_. Inr def))"

section \<open>Bounded JSON values\<close>

lemma visit_json_unfold:
  "visit_json l n (JArr vs) =
     (if 511 < n then Inl (RangeError (l @ '' contains too many JSON nodes''))
      else bindR (visit_list l (Suc n) vs) (\<lambda>(n', vs'). Inr (n', JArr vs')))"
  "visit_json l n (JObj fs) =
     (if 511 < n then Inl (RangeError (l @ '' contains too many JSON nodes''))
      else bindR (visit_fields l (Suc n) fs) (\<lambda>(n', fs'). Inr (n', JObj fs')))"
  by (subst visit_json.simps, simp)+

lemma visit_json_leaf:
  "\<forall>vs. v \<noteq> JArr vs \<Longrightarrow> \<forall>fs. v \<noteq> JObj fs \<Longrightarrow> visit_json l n v = Inr r \<longleftrightarrow>
     n < 512 \<and> r = (Suc n, v) \<and>
     (v = JNull \<or> (\<exists>s. v = JStr s) \<or> (\<exists>b. v = JBool b) \<or> (\<exists>i. v = JInt i \<and> is_safe_int i))"
  by (subst visit_json.simps) (cases v, auto)

lemma visit_same:
  shows "visit_json l n v = Inr (m, v') \<Longrightarrow> v' = v \<and> n < m \<and> m \<le> 512"
    and "visit_list l n vs = Inr (m, vs') \<Longrightarrow> n \<le> 512 \<Longrightarrow> vs' = vs \<and> n \<le> m \<and> m \<le> 512"
    and "visit_fields l n fs = Inr (m, fs') \<Longrightarrow> n \<le> 512 \<Longrightarrow> fs' = fs \<and> n \<le> m \<and> m \<le> 512"
proof (induction l n v and l n vs and l n fs arbitrary: m v' and m vs' and m fs'
    rule: visit_json_visit_list_visit_fields.induct)
  case (1 l n v)
  consider vs where "v = JArr vs" | fs where "v = JObj fs"
    | "\<forall>vs. v \<noteq> JArr vs" "\<forall>fs. v \<noteq> JObj fs" by blast
  then show ?case
  proof cases
    case 1
    with "1.prems" "1.IH"(1) show ?thesis
      by (fastforce simp: visit_json_unfold bindR_Inr_iff split: if_splits)
  next
    case 2
    with "1.prems" "1.IH"(2) show ?thesis
      by (fastforce simp: visit_json_unfold bindR_Inr_iff split: if_splits)
  next
    case 3
    with "1.prems" show ?thesis by (auto simp: visit_json_leaf)
  qed
qed (fastforce simp: bindR_Inr_iff split: if_splits)+

lemma visit_label:
  shows "visit_json l n v = Inr r \<Longrightarrow> visit_json l' n v = Inr r"
    and "visit_list l n vs = Inr s \<Longrightarrow> visit_list l' n vs = Inr s"
    and "visit_fields l n fs = Inr t \<Longrightarrow> visit_fields l' n fs = Inr t"
proof (induction l n v and l n vs and l n fs arbitrary: r and s and t
    rule: visit_json_visit_list_visit_fields.induct)
  case (1 l n v)
  consider vs where "v = JArr vs" | fs where "v = JObj fs"
    | "\<forall>vs. v \<noteq> JArr vs" "\<forall>fs. v \<noteq> JObj fs" by blast
  then show ?case
  proof cases
    case 1
    with "1.prems" "1.IH"(1) show ?thesis
      by (fastforce simp: visit_json_unfold bindR_Inr_iff split: if_splits)
  next
    case 2
    with "1.prems" "1.IH"(2) show ?thesis
      by (fastforce simp: visit_json_unfold bindR_Inr_iff split: if_splits)
  next
    case 3
    with "1.prems" show ?thesis by (auto simp: visit_json_leaf)
  qed
qed (fastforce simp: bindR_Inr_iff split: if_splits)+

lemma boundedJson_iff:
  "boundedJson v l m = Inr v' \<longleftrightarrow>
     v' = v \<and> (\<exists>n. visit_json l 0 v = Inr (n, v)) \<and> utf8_bytes (canonicalJson v) \<le> m"
  by (fastforce simp: boundedJson_def bindR_Inr_iff dest: visit_same(1) split: if_splits)

lemma boundedJson_label: "boundedJson v l m = Inr v' \<Longrightarrow> boundedJson v l' m = Inr v'"
  unfolding boundedJson_iff using visit_label(1) by blast

lemma boundedJson_or_object:
  "boundedJson (or_object v) l m = Inr v' \<Longrightarrow> or_object v' = v' \<and> boundedJson v' l m = Inr v'"
  by (auto simp: boundedJson_iff or_object_def split: if_splits)

section \<open>The cycle check\<close>

text \<open>The edges from a step of \<open>ids\<close> to the steps it depends on.\<close>

definition edges :: "string set \<Rightarrow> (string \<Rightarrow> string list) \<Rightarrow> (string \<times> string) set" where
  "edges ids deps = {(s, d). s \<in> ids \<and> d \<in> set (deps s)}"

text \<open>Steps already visited: closed under dependencies, on no cycle.\<close>

definition settled :: "(string \<times> string) set \<Rightarrow> string set \<Rightarrow> bool" where
  "settled E V \<longleftrightarrow> E `` V \<subseteq> V \<and> (\<forall>v\<in>V. (v, v) \<notin> E\<^sup>+)"

lemma settled_reach: "(v, w) \<in> E\<^sup>* \<Longrightarrow> settled E V \<Longrightarrow> v \<in> V \<Longrightarrow> w \<in> V"
  by (induction rule: rtrancl_induct) (auto simp: settled_def)

lemma settled_insert:
  assumes V: "settled E V" and deps: "E `` {i} \<subseteq> V"
  shows "settled E (insert i V)"
proof (cases "i \<in> V")
  case False
  have "(i, i) \<notin> E\<^sup>+"
  proof
    assume "(i, i) \<in> E\<^sup>+"
    then obtain d where "(i, d) \<in> E" "(d, i) \<in> E\<^sup>*" by (meson tranclD)
    with deps settled_reach [OF _ V] have "i \<in> V" by blast
    with False show False by simp
  qed
  with V deps show ?thesis by (auto simp: settled_def)
qed (use V in \<open>simp add: insert_absorb\<close>)

lemma visit_step_unfold:
  "visit_step 0 deps P V i = Out_of_fuel"
  "visit_step (Suc f) deps P V i =
     (if i \<in> set P then Cycle else if i \<in> set V then Visited V
      else (case visit_steps f deps (i # P) V (deps i) of Visited V' \<Rightarrow> Visited (i # V') | r \<Rightarrow> r))"
  by (subst visit_step.simps, simp)+

definition dep_closed :: "string set \<Rightarrow> (string \<Rightarrow> string list) \<Rightarrow> bool" where
  "dep_closed ids deps \<longleftrightarrow> (\<forall>s\<in>ids. set (deps s) \<subseteq> ids)"

lemma visit_sound:
  shows "visit_step f deps P V i = Visited V' \<Longrightarrow> dep_closed ids deps \<Longrightarrow> i \<in> ids \<Longrightarrow>
      settled (edges ids deps) (set V) \<Longrightarrow>
      settled (edges ids deps) (set V') \<and> insert i (set V) \<subseteq> set V'"
    and "visit_steps f deps P V ds = Visited V' \<Longrightarrow> dep_closed ids deps \<Longrightarrow> set ds \<subseteq> ids \<Longrightarrow>
      settled (edges ids deps) (set V) \<Longrightarrow>
      settled (edges ids deps) (set V') \<and> set ds \<union> set V \<subseteq> set V'"
proof (induction f deps P V i and f deps P V ds arbitrary: V' and V'
    rule: visit_step_visit_steps.induct)
  case (1 f deps P V i)
  from "1.prems"(1) obtain g where f: "f = Suc g" "i \<notin> set P"
    by (cases f) (auto simp: visit_step_unfold split: if_splits)
  show ?case
  proof (cases "i \<in> set V")
    case True
    with "1.prems" f show ?thesis by (auto simp: visit_step_unfold)
  next
    case False
    with "1.prems"(1) f obtain W where W: "visit_steps g deps (i # P) V (deps i) = Visited W" "V' = i # W"
      by (auto simp: visit_step_unfold split: dfs_result.splits)
    have "settled (edges ids deps) (set W) \<and> set (deps i) \<union> set V \<subseteq> set W"
      using "1.IH" [OF f False W(1)] "1.prems" by (auto simp: dep_closed_def)
    then show ?thesis
      using settled_insert [of "edges ids deps" "set W" i] W(2) by (auto simp: edges_def)
  qed
next
  case (3 f deps P V d ds)
  from "3.prems"(1) obtain W where
    W: "visit_step f deps P V d = Visited W" "visit_steps f deps P W ds = Visited V'"
    by (auto split: dfs_result.splits)
  from "3.IH"(1) [OF W(1)] "3.IH"(2) [OF W(1) W(2)] "3.prems" show ?case by auto
qed auto

lemma visit_cycle:
  shows "visit_step f deps P V i = Cycle \<Longrightarrow> dep_closed ids deps \<Longrightarrow> i \<in> ids \<Longrightarrow>
      \<forall>p\<in>set P. (p, i) \<in> (edges ids deps)\<^sup>+ \<Longrightarrow> \<exists>x. (x, x) \<in> (edges ids deps)\<^sup>+"
    and "visit_steps f deps P V ds = Cycle \<Longrightarrow> dep_closed ids deps \<Longrightarrow> set ds \<subseteq> ids \<Longrightarrow>
      \<forall>p\<in>set P. \<forall>d\<in>set ds. (p, d) \<in> (edges ids deps)\<^sup>+ \<Longrightarrow> \<exists>x. (x, x) \<in> (edges ids deps)\<^sup>+"
proof (induction f deps P V i and f deps P V ds rule: visit_step_visit_steps.induct)
  case (1 f deps P V i)
  from "1.prems"(1) obtain g where f: "f = Suc g"
    by (cases f) (auto simp: visit_step_unfold)
  show ?case
  proof (cases "i \<in> set P")
    case True
    with "1.prems" show ?thesis by blast
  next
    case False
    with "1.prems"(1) f have V: "i \<notin> set V" and C: "visit_steps g deps (i # P) V (deps i) = Cycle"
      by (auto simp: visit_step_unfold split: if_splits dfs_result.splits)
    have edge: "(i, d) \<in> edges ids deps" if "d \<in> set (deps i)" for d
      using that "1.prems"(3) by (simp add: edges_def)
    then have "\<forall>p\<in>set (i # P). \<forall>d\<in>set (deps i). (p, d) \<in> (edges ids deps)\<^sup>+"
      using "1.prems"(4) by (auto intro: trancl_into_trancl)
    moreover have "set (deps i) \<subseteq> ids" using "1.prems"(2,3) by (auto simp: dep_closed_def)
    ultimately show ?thesis using "1.IH" [OF f False V C "1.prems"(2)] by blast
  qed
next
  case (3 f deps P V d ds)
  show ?case
  proof (cases "visit_step f deps P V d")
    case Cycle
    then show ?thesis using "3.IH"(1) "3.prems" by auto
  next
    case (Visited W)
    then show ?thesis using "3.IH"(2) "3.prems" by auto
  qed (use "3.prems" in auto)
qed auto

lemma visit_fuel:
  shows "dep_closed ids deps \<Longrightarrow> i \<in> ids \<Longrightarrow> finite ids \<Longrightarrow> distinct P \<Longrightarrow> set P \<subseteq> ids \<Longrightarrow>
      card ids < f + length P \<Longrightarrow> visit_step f deps P V i \<noteq> Out_of_fuel"
    and "dep_closed ids deps \<Longrightarrow> set ds \<subseteq> ids \<Longrightarrow> finite ids \<Longrightarrow> distinct P \<Longrightarrow> set P \<subseteq> ids \<Longrightarrow>
      card ids < f + length P \<Longrightarrow> visit_steps f deps P V ds \<noteq> Out_of_fuel"
proof (induction f deps P V i and f deps P V ds rule: visit_step_visit_steps.induct)
  case (1 f deps P V i)
  show ?case
  proof (cases f)
    case 0
    have "length P \<le> card ids"
      using "1.prems" by (metis card_mono distinct_card)
    with "1.prems" 0 show ?thesis by simp
  next
    case (Suc g)
    show ?thesis
    proof (cases "i \<in> set P \<or> i \<in> set V")
      case False
      then have "visit_steps g deps (i # P) V (deps i) \<noteq> Out_of_fuel"
        using "1.IH" [OF Suc] "1.prems" Suc by (auto simp: dep_closed_def)
      with False Suc show ?thesis by (auto simp: visit_step_unfold split: dfs_result.splits)
    qed (use Suc in \<open>auto simp: visit_step_unfold\<close>)
  qed
next
  case (3 f deps P V d ds)
  then show ?case by (cases "visit_step f deps P V d") auto
qed auto

lemma edges_subset: "dep_closed ids deps \<Longrightarrow> edges ids deps \<subseteq> ids \<times> ids"
  by (auto simp: edges_def dep_closed_def)

lemma visit_all_iff:
  assumes "dep_closed (set is) deps" and fuel: "length is < f"
  shows "visit_steps f deps [] [] is \<noteq> Out_of_fuel"
    and "visit_steps f deps [] [] is = Cycle \<longleftrightarrow> \<not> acyclic (edges (set is) deps)"
proof -
  let ?E = "edges (set is) deps"
  have "card (set is) < f" using fuel card_length [of "is"] by linarith
  then show nf: "visit_steps f deps [] [] is \<noteq> Out_of_fuel"
    using assms(1) by (intro visit_fuel(2) [of "set is"]) auto
  show "visit_steps f deps [] [] is = Cycle \<longleftrightarrow> \<not> acyclic ?E"
  proof
    assume "visit_steps f deps [] [] is = Cycle"
    from visit_cycle(2) [OF this assms(1)] show "\<not> acyclic ?E" by (auto simp: acyclic_def)
  next
    assume cyc: "\<not> acyclic ?E"
    then obtain x where x: "(x, x) \<in> ?E\<^sup>+" by (auto simp: acyclic_def)
    have "x \<in> set is"
      using x trancl_subset_Sigma [OF edges_subset [OF assms(1)]] by auto
    show "visit_steps f deps [] [] is = Cycle"
    proof (cases "visit_steps f deps [] [] is")
      case (Visited V)
      from visit_sound(2) [OF this assms(1)] have "settled ?E (set V)" "set is \<subseteq> set V"
        by (auto simp: settled_def)
      with x \<open>x \<in> set is\<close> have False by (auto simp: settled_def)
      then show ?thesis ..
    qed (use nf in auto)
  qed
qed

section \<open>What an accepted definition satisfies\<close>

definition step_ok :: "wf_step_def \<Rightarrow> bool" where
  "step_ok s \<longleftrightarrow> IDENTIFIER (sd_id s) \<and> ACTION (sd_actionRef s) \<and> \<not> isLiveOnlyAutomationTool (sd_actionRef s) \<and>
     length (sd_dependsOn s) \<le> 64 \<and> distinct (sd_dependsOn s) \<and> list_all IDENTIFIER (sd_dependsOn s) \<and>
     1 \<le> sd_maxAttempts s \<and> sd_maxAttempts s \<le> 8 \<and> or_object (sd_input s) = sd_input s \<and>
     boundedJson (sd_input s) [] 65536 = Inr (sd_input s)"

definition dependency_edges :: "wf_step_def list \<Rightarrow> (string \<times> string) set" where
  "dependency_edges steps = {(sd_id s, d) |s d. s \<in> set steps \<and> d \<in> set (sd_dependsOn s)}"

definition steps_ok :: "wf_step_def list \<Rightarrow> bool" where
  "steps_ok steps \<longleftrightarrow> steps \<noteq> [] \<and> length steps \<le> 64 \<and> list_all step_ok steps \<and>
     distinct (map sd_id steps) \<and> snd ` dependency_edges steps \<subseteq> sd_id ` set steps \<and>
     acyclic (dependency_edges steps)"

lemma small_safe: "lo \<le> n \<Longrightarrow> n \<le> hi \<Longrightarrow> 0 \<le> lo \<Longrightarrow> hi \<le> 1000000 \<Longrightarrow> is_safe_int n"
  by (simp add: is_safe_int_def MAX_SAFE_INTEGER_def)

lemma integer_iff: "integer v l lo hi = Inr n \<longleftrightarrow> v = JInt n \<and> is_safe_int n \<and> lo \<le> n \<and> n \<le> hi"
  by (cases v) (auto simp: integer_def Let_def)

lemma identifier_iff: "identifier_value v l = Inr s \<longleftrightarrow> v = JStr s \<and> IDENTIFIER s"
  by (cases v) (auto simp: identifier_value_def)

lemma action_iff: "action v l = Inr s \<longleftrightarrow> v = JStr s \<and> ACTION s"
  by (cases v) (auto simp: action_def)

lemma identifiers_iff:
  "mapR (\<lambda>(i, d). identifier_value d (lab i)) (enumerate n ds) = Inr xs \<longleftrightarrow>
     ds = map JStr xs \<and> list_all IDENTIFIER xs"
proof (induction ds arbitrary: n xs)
  case (Cons d ds)
  then show ?case by (cases xs) (auto simp: bindR_Inr_iff identifier_iff)
qed auto

lemma dependencies_iff:
  "parse_dependencies i v = Inr ds \<longleftrightarrow>
     v = JArr (map JStr ds) \<and> length ds \<le> 64 \<and> distinct ds \<and> list_all IDENTIFIER ds"
  by (cases v) (auto simp: parse_dependencies_def bindR_Inr_iff identifiers_iff WORKFLOW_MAX_STEPS_def
      split: if_splits)

lemma retry_iff: "parse_retry_safety i v = Inr r \<longleftrightarrow> v = JStr (retry_text r)"
  by (cases r) (auto simp: parse_retry_safety_def)

lemma approval_iff: "parse_requires_approval i v = Inr b \<longleftrightarrow> v = JBool b"
  by (cases v) (auto simp: parse_requires_approval_def)

lemmas step_iffs = integer_iff identifier_iff action_iff dependencies_iff retry_iff approval_iff
  guardR_Inr_iff bindR_Inr_iff

lemma parse_step_ok:
  assumes "parse_step (ids, steps) raw = Inr (ids', steps')"
  obtains s where "ids' = ids @ [sd_id s]" "steps' = steps @ [s]" "sd_id s \<notin> set ids" "step_ok s"
proof -
  from assms obtain fs stepId ds rs ma ra ar inp where
    1: "identifier_value (js_field fs ''id'') (step_label (length steps) @ '' id'') = Inr stepId" "stepId \<notin> set ids"
      "parse_dependencies stepId (js_field fs ''dependsOn'') = Inr ds" "1 \<le> ma" "ma \<le> 8"
      "action (js_field fs ''actionRef'') (''workflow step '' @ stepId @ '' actionRef'') = Inr ar"
      "\<not> isLiveOnlyAutomationTool ar"
    and b: "boundedJson (or_object (js_field fs ''input'')) (''workflow step '' @ stepId @ '' input'') 65536 = Inr inp"
    and 2: "ids' = ids @ [stepId]" "steps' = steps @
       [\<lparr>sd_id = stepId, sd_actionRef = ar, sd_dependsOn = ds, sd_input = inp,
         sd_retrySafety = rs, sd_maxAttempts = ma, sd_requiresApproval = ra\<rparr>]"
    unfolding parse_step_def Let_def prod.case bindR_Inr_iff guardR_Inr_iff integer_iff WORKFLOW_MAX_INPUT_BYTES_def
    by blast
  from boundedJson_or_object [OF b] have "or_object inp = inp" "boundedJson inp [] 65536 = Inr inp"
    by (auto intro: boundedJson_label)
  with 1 2 show thesis
    by (intro that [of "\<lparr>sd_id = stepId, sd_actionRef = ar, sd_dependsOn = ds, sd_input = inp,
         sd_retrySafety = rs, sd_maxAttempts = ma, sd_requiresApproval = ra\<rparr>"])
      (simp_all add: step_ok_def step_iffs)
qed

lemma parse_step_json:
  assumes "step_ok s" and "sd_id s \<notin> set ids"
  shows "parse_step (ids, steps) (step_json s) = Inr (ids @ [sd_id s], steps @ [s])"
proof -
  have b: "boundedJson (sd_input s) (''workflow step '' @ sd_id s @ '' input'') 65536 = Inr (sd_input s)"
    using assms(1) unfolding step_ok_def by (blast intro: boundedJson_label)
  have i: "identifier_value (JStr (sd_id s)) l = Inr (sd_id s)" for l
    using assms(1) by (simp add: step_iffs step_ok_def)
  have d: "parse_dependencies (sd_id s) (JArr (map JStr (sd_dependsOn s))) = Inr (sd_dependsOn s)"
    using assms(1) by (simp add: step_iffs step_ok_def)
  have r: "parse_retry_safety (sd_id s) (JStr (retry_text (sd_retrySafety s))) = Inr (sd_retrySafety s)"
    by (simp add: step_iffs)
  have m: "integer (JInt (sd_maxAttempts s)) l 1 8 = Inr (sd_maxAttempts s)" for l
    using assms(1) small_safe [of 1 _ 8] by (simp add: step_iffs step_ok_def)
  have a: "action (JStr (sd_actionRef s)) l = Inr (sd_actionRef s)" for l
    using assms(1) by (simp add: step_iffs step_ok_def)
  let ?fs = "[(''id'', JStr (sd_id s)), (''actionRef'', JStr (sd_actionRef s)),
     (''dependsOn'', JArr (map JStr (sd_dependsOn s))), (''input'', sd_input s),
     (''retrySafety'', JStr (retry_text (sd_retrySafety s))), (''maxAttempts'', JInt (sd_maxAttempts s)),
     (''requiresApproval'', JBool (sd_requiresApproval s))]"
  have f: "js_field ?fs ''id'' = JStr (sd_id s)" "js_field ?fs ''actionRef'' = JStr (sd_actionRef s)"
    "js_field ?fs ''dependsOn'' = JArr (map JStr (sd_dependsOn s))" "js_field ?fs ''input'' = sd_input s"
    "js_field ?fs ''retrySafety'' = JStr (retry_text (sd_retrySafety s))"
    "js_field ?fs ''maxAttempts'' = JInt (sd_maxAttempts s)"
    "js_field ?fs ''requiresApproval'' = JBool (sd_requiresApproval s)"
    "exact ?fs [''id'', ''actionRef'', ''dependsOn'', ''input'', ''retrySafety'', ''maxAttempts'', ''requiresApproval''] l = Inr ()"
    for l
    by (simp_all add: exact_def)
  have p: "plain (step_json s) l = Inr ?fs" for l
    by (simp add: step_json_def plain_def)
  have q: "parse_requires_approval (sd_id s) (JBool (sd_requiresApproval s)) = Inr (sd_requiresApproval s)"
    by (simp add: step_iffs)
  have o: "or_object (sd_input s) = sd_input s" "\<not> isLiveOnlyAutomationTool (sd_actionRef s)"
    using assms(1) by (simp_all add: step_ok_def)
  show ?thesis
    unfolding parse_step_def Let_def prod.case p bindR_simps f i d r m a q o(1) b
      WORKFLOW_MAX_INPUT_BYTES_def
    using assms(2) o(2) by (simp add: guardR_def)
qed

lemma parse_fold_ok:
  "foldR parse_step (ids, steps) raws = Inr (ids', steps') \<Longrightarrow> ids = map sd_id steps \<Longrightarrow>
     list_all step_ok steps \<Longrightarrow> distinct ids \<Longrightarrow>
     ids' = map sd_id steps' \<and> list_all step_ok steps' \<and> distinct ids' \<and>
     length steps' = length steps + length raws"
proof (induction raws arbitrary: ids steps)
  case (Cons raw raws)
  then obtain ids1 steps1 where s: "parse_step (ids, steps) raw = Inr (ids1, steps1)"
    "foldR parse_step (ids1, steps1) raws = Inr (ids', steps')"
    by (auto simp: bindR_Inr_iff)
  from parse_step_ok [OF s(1)] obtain st where
    "ids1 = ids @ [sd_id st]" "steps1 = steps @ [st]" "sd_id st \<notin> set ids" "step_ok st" by blast
  with Cons.IH [OF s(2)] Cons.prems show ?case by force
qed simp

lemma parse_fold_json:
  "list_all step_ok steps \<Longrightarrow> distinct (ids @ map sd_id steps) \<Longrightarrow>
     foldR parse_step (ids, pre) (map step_json steps) = Inr (ids @ map sd_id steps, pre @ steps)"
  by (induction steps arbitrary: ids pre) (simp_all add: parse_step_json)

lemma step_deps_edges:
  assumes "distinct (map sd_id steps)"
  shows "edges (sd_id ` set steps) (step_deps steps) = dependency_edges steps"
proof -
  have "step_deps steps (sd_id s) = sd_dependsOn s" if "s \<in> set steps" for s
  proof -
    have "map_of (map (\<lambda>s. (sd_id s, sd_dependsOn s)) steps) (sd_id s) = Some (sd_dependsOn s)"
      using assms that by (intro map_of_is_SomeI) (auto simp: comp_def)
    then show ?thesis by (simp add: step_deps_def)
  qed
  then show ?thesis by (auto simp: edges_def dependency_edges_def)
qed

lemma dependency_targets: "snd ` dependency_edges steps = (\<Union>s\<in>set steps. set (sd_dependsOn s))"
  by (force simp: dependency_edges_def image_iff)

lemma unknown_dependency_iff:
  "unknown_dependency (map sd_id steps) steps = None \<longleftrightarrow>
     snd ` dependency_edges steps \<subseteq> sd_id ` set steps"
proof -
  have "unknown_dependency (map sd_id steps) steps = None \<longleftrightarrow>
      (\<forall>s\<in>set steps. \<forall>d\<in>set (sd_dependsOn s). d \<in> sd_id ` set steps)"
    unfolding unknown_dependency_def find_None_iff by force
  then show ?thesis unfolding dependency_targets by blast
qed

lemma dependency_check_iff:
  assumes "distinct (map sd_id steps)" and "snd ` dependency_edges steps \<subseteq> sd_id ` set steps"
  shows "dependency_check steps \<noteq> Out_of_fuel"
    and "dependency_check steps = Cycle \<longleftrightarrow> \<not> acyclic (dependency_edges steps)"
proof -
  have "dep_closed (set (map sd_id steps)) (step_deps steps)"
  proof -
    have "d \<in> sd_id ` set steps" if "s \<in> sd_id ` set steps" "d \<in> set (step_deps steps s)" for s d
    proof -
      from that have "(s, d) \<in> dependency_edges steps"
        unfolding step_deps_edges [OF assms(1), symmetric] by (simp add: edges_def)
      then have "d \<in> snd ` dependency_edges steps" by force
      with assms(2) show ?thesis by blast
    qed
    then show ?thesis by (auto simp: dep_closed_def)
  qed
  from visit_all_iff [OF this, of "Suc (length steps)"]
  show "dependency_check steps \<noteq> Out_of_fuel"
    and "dependency_check steps = Cycle \<longleftrightarrow> \<not> acyclic (dependency_edges steps)"
    by (simp_all add: dependency_check_def step_deps_edges [OF assms(1)])
qed

lemma parse_steps_ok: "parse_steps v = Inr steps \<Longrightarrow> steps_ok steps"
proof -
  assume p: "parse_steps v = Inr steps"
  then obtain raws where v: "v = JArr raws" "raws \<noteq> []" "length raws \<le> 64"
    by (cases v) (auto simp: parse_steps_def WORKFLOW_MAX_STEPS_def split: if_splits)
  with p obtain ids where r: "foldR parse_step ([], []) raws = Inr (ids, steps)"
    "unknown_dependency ids steps = None" "\<exists>V. dependency_check steps = Visited V"
    by (fastforce simp: parse_steps_def bindR_Inr_iff WORKFLOW_MAX_STEPS_def
        split: option.splits dfs_result.splits)
  from parse_fold_ok [OF r(1)] have f: "ids = map sd_id steps" "list_all step_ok steps" "distinct ids"
    "length steps = length raws" by auto
  with r(2) have "snd ` dependency_edges steps \<subseteq> sd_id ` set steps"
    by (simp add: unknown_dependency_iff)
  with dependency_check_iff(2) [of steps] f r v show "steps_ok steps"
    by (auto simp: steps_ok_def)
qed

lemma parse_steps_json: "steps_ok steps \<Longrightarrow> parse_steps (JArr (map step_json steps)) = Inr steps"
proof -
  assume s: "steps_ok steps"
  then have d: "distinct (map sd_id steps)" "snd ` dependency_edges steps \<subseteq> sd_id ` set steps"
    "acyclic (dependency_edges steps)" by (simp_all add: steps_ok_def)
  have "\<exists>V. dependency_check steps = Visited V"
    using dependency_check_iff [OF d(1,2)] d(3) by (cases "dependency_check steps") auto
  then obtain V where V: "dependency_check steps = Visited V" ..
  have u: "unknown_dependency (map sd_id steps) steps = None"
    using d(2) by (simp add: unknown_dependency_iff)
  have f: "foldR parse_step ([], []) (map step_json steps) = Inr (map sd_id steps, steps)"
    using parse_fold_json [of steps "[]" "[]"] s d(1) by (simp add: steps_ok_def)
  have "\<not> (length (map step_json steps) < 1 \<or> WORKFLOW_MAX_STEPS < length (map step_json steps))"
    using s by (cases steps) (auto simp: steps_ok_def WORKFLOW_MAX_STEPS_def)
  then show ?thesis
    unfolding parse_steps_def by (simp add: f u V)
qed

definition definition_ok :: "(string \<Rightarrow> string) \<Rightarrow> wf_definition \<Rightarrow> bool" where
  "definition_ok H d \<longleftrightarrow> IDENTIFIER (wd_id d) \<and> wd_name d \<noteq> [] \<and> js_trim (wd_name d) = wd_name d \<and>
     length (wd_name d) \<le> 256 \<and> 1 \<le> wd_revision d \<and> wd_revision d \<le> 1000000 \<and> steps_ok (wd_steps d) \<and>
     wd_definitionDigest d = H (canonicalJson (JObj (normalized_fields (wd_id d) (wd_revision d) (wd_name d) (wd_steps d)))) \<and>
     utf8_bytes (canonicalJson (definition_json d)) \<le> 131072"

lemma check_name_iff:
  "check_name v = Inr n \<Longrightarrow> n \<noteq> [] \<and> js_trim n = n \<and> length n \<le> 256"
  using js_trim_length [of "the_str v"] by (auto simp: check_name_def split: if_splits)

lemma validate_definition_ok:
  "validateWorkflowDefinition H v = Inr d \<Longrightarrow> definition_ok H d"
  unfolding validateWorkflowDefinition_def Let_def bindR_Inr_iff guardR_Inr_iff integer_iff
  by (auto split: if_splits simp: definition_ok_def identifier_iff workflowDefinitionDigest_def
      WORKFLOW_MAX_DEFINITION_BYTES_def dest: check_name_iff parse_steps_ok)

lemma validate_definition_json:
  assumes "definition_ok H d"
  shows "validateWorkflowDefinition H (definition_json d) = Inr d"
proof -
  from assms have n: "check_name (JStr (wd_name d)) = Inr (wd_name d)"
    and i: "identifier_value (JStr (wd_id d)) ''workflow id'' = Inr (wd_id d)"
    and r: "integer (JInt (wd_revision d)) ''workflow revision'' 1 1000000 = Inr (wd_revision d)"
    and s: "parse_steps (JArr (map step_json (wd_steps d))) = Inr (wd_steps d)"
    using small_safe [of 1 "wd_revision d" 1000000]
    by (simp_all add: definition_ok_def check_name_def identifier_iff integer_iff parse_steps_json)
  have e: "\<lparr>wd_id = wd_id d, wd_revision = wd_revision d, wd_name = wd_name d, wd_steps = wd_steps d,
      wd_definitionDigest = wd_definitionDigest d\<rparr> = d" by simp
  have dg: "workflowDefinitionDigest H (normalized_fields (wd_id d) (wd_revision d) (wd_name d) (wd_steps d)) =
      wd_definitionDigest d"
    using assms by (simp add: definition_ok_def workflowDefinitionDigest_def)
  let ?fs = "normalized_fields (wd_id d) (wd_revision d) (wd_name d) (wd_steps d) @
       [(''definitionDigest'', JStr (wd_definitionDigest d))]"
  have f: "js_field ?fs ''schemaVersion'' = JInt WORKFLOW_SCHEMA_VERSION" "js_field ?fs ''id'' = JStr (wd_id d)"
    "js_field ?fs ''name'' = JStr (wd_name d)" "js_field ?fs ''revision'' = JInt (wd_revision d)"
    "js_field ?fs ''steps'' = JArr (map step_json (wd_steps d))"
    "js_field ?fs ''definitionDigest'' = JStr (wd_definitionDigest d)"
    "exact ?fs [''schemaVersion'', ''id'', ''revision'', ''name'', ''steps'', ''definitionDigest''] ''workflow definition'' = Inr ()"
    by (simp_all add: normalized_fields_def exact_def)
  have p: "plain (definition_json d) ''workflow definition'' = Inr ?fs"
    by (simp add: definition_json_def plain_def)
  have b: "utf8_bytes (canonicalJson (definition_json d)) \<le> WORKFLOW_MAX_DEFINITION_BYTES"
    using assms by (simp add: definition_ok_def WORKFLOW_MAX_DEFINITION_BYTES_def)
  show ?thesis
    unfolding validateWorkflowDefinition_def p bindR_simps f i n r s dg Let_def e
    using b by (simp add: guardR_def)
qed

section \<open>Nodes of a value\<close>

text \<open>The values that may be stored: safe integers only, no reserved keys, nothing undefined.\<close>

fun storable :: "jsval \<Rightarrow> bool" where
  "storable (JArr vs) = list_all storable vs"
| "storable (JObj fs) = list_all (\<lambda>(k, v). \<not> reserved_key k \<and> storable v) fs"
| "storable (JInt i) = is_safe_int i"
| "storable v = (v = JNull \<or> is_str v \<or> (\<exists>b. v = JBool b))"

lemma leaf_storable:
  "\<forall>vs. v \<noteq> JArr vs \<Longrightarrow> \<forall>fs. v \<noteq> JObj fs \<Longrightarrow> json_nodes v = 1 \<and>
     (storable v \<longleftrightarrow> v = JNull \<or> (\<exists>s. v = JStr s) \<or> (\<exists>b. v = JBool b) \<or> (\<exists>i. v = JInt i \<and> is_safe_int i))"
  by (cases v) auto

lemma visit_iff:
  shows "n \<le> 512 \<Longrightarrow> visit_json l n v = Inr r \<longleftrightarrow> storable v \<and> n + json_nodes v \<le> 512 \<and> r = (n + json_nodes v, v)"
    and "n \<le> 512 \<Longrightarrow> visit_list l n vs = Inr s \<longleftrightarrow> list_all storable vs \<and>
      n + sum_list (map json_nodes vs) \<le> 512 \<and> s = (n + sum_list (map json_nodes vs), vs)"
    and "n \<le> 512 \<Longrightarrow> visit_fields l n fs = Inr t \<longleftrightarrow> list_all (\<lambda>(k, v). \<not> reserved_key k \<and> storable v) fs \<and>
      n + sum_list (map (\<lambda>(k, v). json_nodes v) fs) \<le> 512 \<and>
      t = (n + sum_list (map (\<lambda>(k, v). json_nodes v) fs), fs)"
proof (induction l n v and l n vs and l n fs arbitrary: r and s and t
    rule: visit_json_visit_list_visit_fields.induct)
  case (1 l n v)
  consider vs where "v = JArr vs" | fs where "v = JObj fs"
    | "\<forall>vs. v \<noteq> JArr vs" "\<forall>fs. v \<noteq> JObj fs" by blast
  then show ?case
  proof cases
    case 1
    with "1.IH"(1) show ?thesis
      by (cases "n < 512") (auto simp: visit_json_unfold bindR_Inr_iff)
  next
    case 2
    with "1.IH"(2) show ?thesis
      by (cases "n < 512") (auto simp: visit_json_unfold bindR_Inr_iff)
  next
    case 3
    with leaf_storable [OF 3] show ?thesis by (auto simp: visit_json_leaf [OF 3])
  qed
next
  case (3 l n v vs)
  show ?case
  proof (cases "storable v \<and> n + json_nodes v \<le> 512")
    case True
    with 3 show ?thesis by (auto simp: bindR_Inr_iff)
  next
    case False
    with 3 show ?thesis by (auto simp: bindR_Inr_iff)
  qed
next
  case (5 l n k v fs)
  show ?case
  proof (cases "\<not> reserved_key k \<and> storable v \<and> n + json_nodes v \<le> 512")
    case True
    with 5 show ?thesis by (auto simp: bindR_Inr_iff)
  next
    case False
    with 5 show ?thesis by (auto simp: bindR_Inr_iff)
  qed
qed auto

section \<open>Properties\<close>

text \<open>
  C7. A definition is accepted only when it has between 1 and 64 steps with unique bounded
  identifiers, every dependency names a step and the dependencies have no cycle, every step
  has 1 to 8 attempts and an action that may be persisted, the digest is the hash of the
  canonical text and the whole stays within its byte limit.
\<close>

theorem accepted_definition_wellformed:
  assumes "validateWorkflowDefinition H v = Inr d"
  shows "wd_steps d \<noteq> [] \<and> length (wd_steps d) \<le> WORKFLOW_MAX_STEPS \<and>
    distinct (map sd_id (wd_steps d)) \<and>
    (\<forall>s\<in>set (wd_steps d). IDENTIFIER (sd_id s) \<and> distinct (sd_dependsOn s) \<and>
       set (sd_dependsOn s) \<subseteq> sd_id ` set (wd_steps d) \<and>
       1 \<le> sd_maxAttempts s \<and> sd_maxAttempts s \<le> 8 \<and> \<not> isLiveOnlyAutomationTool (sd_actionRef s) \<and>
       utf8_bytes (canonicalJson (sd_input s)) \<le> WORKFLOW_MAX_INPUT_BYTES) \<and>
    acyclic (dependency_edges (wd_steps d)) \<and>
    wd_definitionDigest d =
      workflowDefinitionDigest H (normalized_fields (wd_id d) (wd_revision d) (wd_name d) (wd_steps d)) \<and>
    utf8_bytes (canonicalJson (definition_json d)) \<le> WORKFLOW_MAX_DEFINITION_BYTES"
proof -
  have ok: "definition_ok H d" using assms by (rule validate_definition_ok)
  then have steps: "steps_ok (wd_steps d)" by (simp add: definition_ok_def)
  have "IDENTIFIER (sd_id s) \<and> distinct (sd_dependsOn s) \<and>
       set (sd_dependsOn s) \<subseteq> sd_id ` set (wd_steps d) \<and>
       1 \<le> sd_maxAttempts s \<and> sd_maxAttempts s \<le> 8 \<and> \<not> isLiveOnlyAutomationTool (sd_actionRef s) \<and>
       utf8_bytes (canonicalJson (sd_input s)) \<le> WORKFLOW_MAX_INPUT_BYTES" if "s \<in> set (wd_steps d)" for s
  proof -
    have "step_ok s" using steps that by (simp add: steps_ok_def list_all_iff)
    moreover have "set (sd_dependsOn s) \<subseteq> sd_id ` set (wd_steps d)"
      using steps that unfolding steps_ok_def dependency_targets by blast
    ultimately show ?thesis
      by (simp add: step_ok_def boundedJson_iff WORKFLOW_MAX_INPUT_BYTES_def)
  qed
  with ok steps show ?thesis
    by (simp add: definition_ok_def steps_ok_def workflowDefinitionDigest_def
        WORKFLOW_MAX_STEPS_def WORKFLOW_MAX_DEFINITION_BYTES_def)
qed

definition sample_step :: "string \<Rightarrow> string list \<Rightarrow> wf_step_def" where
  "sample_step i ds = \<lparr>sd_id = i, sd_actionRef = ''web.fetch'', sd_dependsOn = ds, sd_input = JObj [],
     sd_retrySafety = Retry_safe, sd_maxAttempts = 2, sd_requiresApproval = False\<rparr>"

definition sample_source :: jsval where
  "sample_source = JObj (normalized_fields ''wf'' 1 '' demo '' [sample_step ''a'' [], sample_step ''b'' [''a'']])"

definition sample_hash :: "string \<Rightarrow> string" where
  "sample_hash s = take 8 s"

lemma sample_accepted:
  "\<exists>d. validateWorkflowDefinition sample_hash sample_source = Inr d \<and> wd_name d = ''demo'' \<and>
     map sd_dependsOn (wd_steps d) = [[], [''a'']]"
proof -
  have "case validateWorkflowDefinition sample_hash sample_source of Inl e \<Rightarrow> False
    | Inr d \<Rightarrow> wd_name d = ''demo'' \<and> map sd_dependsOn (wd_steps d) = [[], [''a'']]"
    by code_simp
  then show ?thesis by (auto split: sum.splits)
qed

theorem accepted_definition_wellformed_witness:
  "\<exists>d. validateWorkflowDefinition sample_hash sample_source = Inr d \<and>
     map sd_dependsOn (wd_steps d) = [[], [''a'']] \<and> acyclic (dependency_edges (wd_steps d))"
proof -
  from sample_accepted obtain d where d: "validateWorkflowDefinition sample_hash sample_source = Inr d"
    and deps: "map sd_dependsOn (wd_steps d) = [[], [''a'']]"
    by (elim exE conjE)
  have "acyclic (dependency_edges (wd_steps d))"
    using accepted_definition_wellformed [OF d] by (elim conjE)
  with d deps show ?thesis by (intro exI conjI)
qed

text \<open>
  C8. The depth-first check decides acyclicity: on steps with unique identifiers and known
  dependencies it never runs out of its depth bound, and it reports a cycle exactly when the
  dependency relation has one.
\<close>

theorem cycle_check_exact:
  assumes "distinct (map sd_id steps)" and "snd ` dependency_edges steps \<subseteq> sd_id ` set steps"
  shows "dependency_check steps \<noteq> Out_of_fuel \<and>
    (dependency_check steps = Cycle \<longleftrightarrow> \<not> acyclic (dependency_edges steps))"
  using dependency_check_iff [OF assms] by blast

theorem cycle_check_exact_witness:
  "\<not> acyclic (dependency_edges [sample_step ''a'' [''b''], sample_step ''b'' [''c''], sample_step ''c'' [''a'']])"
proof -
  let ?s = "[sample_step ''a'' [''b''], sample_step ''b'' [''c''], sample_step ''c'' [''a'']]"
  have "distinct (map sd_id ?s)" "snd ` dependency_edges ?s \<subseteq> sd_id ` set ?s"
    unfolding dependency_targets by (simp_all add: sample_step_def)
  note iff = cycle_check_exact [OF this, THEN conjunct2]
  have "dependency_check ?s = Cycle" by code_simp
  with iff show ?thesis by blast
qed

text \<open>
  C9. Validation is a normal form: an accepted definition, written out again as an object with
  its digest, is accepted and yields itself, so the stored form of a definition always reads
  back as the definition that was stored.
\<close>

theorem definition_revalidates:
  assumes "validateWorkflowDefinition H v = Inr d"
  shows "validateWorkflowDefinition H (definition_json d) = Inr d \<and> workflowDefinitionForDigest H d = Inr d"
proof -
  have "validateWorkflowDefinition H (definition_json d) = Inr d"
    using assms by (intro validate_definition_json validate_definition_ok)
  then show ?thesis by (simp add: workflowDefinitionForDigest_def guardR_def)
qed

theorem definition_revalidates_witness:
  "\<exists>d. validateWorkflowDefinition sample_hash sample_source = Inr d \<and> wd_name d = ''demo'' \<and>
     workflowDefinitionForDigest sample_hash d = Inr d"
  using sample_accepted definition_revalidates by blast

text \<open>
  A value passes the durable bounds exactly when it has at most 512 nodes, only safe
  integers and no reserved keys or undefined parts, and its canonical text fits; it is then
  stored unchanged.
\<close>

lemma bounded_json_exact:
  "boundedJson v label maxBytes = Inr w \<longleftrightarrow>
     w = v \<and> storable v \<and> json_nodes v \<le> 512 \<and> utf8_bytes (canonicalJson v) \<le> maxBytes"
  by (auto simp: boundedJson_iff visit_iff(1))

end
