(* ===== verification/Workflow_Store.thy ===== *)
theory Workflow_Store
  imports Workflow
begin

text \<open>
  The durable workflow store of \<open>packages/store-sqlite/src/workflows.ts\<close>: its four tables as
  lists of rows in \<open>rowid\<close> order, and one function per method and helper.  An operation is a
  transaction: a thrown error leaves the store as it was, so it returns \<^term>\<open>Inl\<close> without a
  store.  Timestamps are integers (milliseconds; the ISO texts of the source order alike), one
  reading of the clock per operation; the random lease token, the abort flag of the signal, the
  hash \<open>H\<close> and the redaction of durable values are arguments.
\<close>

section \<open>Tables\<close>

record wf_run =
  rn_runId :: string
  rn_principalId :: string
  rn_idempotencyKey :: string
  rn_definitionId :: string
  rn_definitionRevision :: int
  rn_definitionDigest :: string
  rn_status :: wf_status
  rn_input :: jsval
  rn_inputDigest :: string
  rn_recoveryInputAvailable :: bool
  rn_errorCode :: "string option"
  rn_createdAt :: int
  rn_updatedAt :: int
  rn_cancellationRequestedAt :: "int option"
  rn_cancellationDeadlineAt :: "int option"
  rn_failureRequestedAt :: "int option"
  rn_failureDeadlineAt :: "int option"

record wf_step =
  st_runId :: string
  st_stepId :: string
  st_actionRef :: string
  st_dependsOn :: "string list"
  st_input :: jsval
  st_inputDigest :: string
  st_recoveryInputAvailable :: bool
  st_retrySafety :: retry_safety
  st_maxAttempts :: int
  st_status :: wf_status
  st_attempt :: nat
  st_result :: "jsval option"
  st_resultDigest :: "string option"
  st_errorCode :: "string option"
  st_leaseToken :: "string option"
  st_leaseExpiresAt :: "int option"
  st_updatedAt :: int

record wf_event =
  ev_runId :: string
  ev_type :: string
  ev_payload :: "(string \<times> jsval) list"
  ev_createdAt :: int

record wf_store =
  db_definitions :: "wf_definition list"
  db_runs :: "wf_run list"
  db_steps :: "wf_step list"
  db_events :: "wf_event list"

definition empty_store :: wf_store where
  "empty_store = \<lparr>db_definitions = [], db_runs = [], db_steps = [], db_events = []\<rparr>"

definition terminal :: "wf_status \<Rightarrow> bool" where
  "terminal s \<longleftrightarrow> s \<in> {Completed, Failed, Cancelled, Needs_review}"

definition LEASE_MS :: int where "LEASE_MS = 120000"
definition DEFAULT_CANCELLATION_GRACE_MS :: int where "DEFAULT_CANCELLATION_GRACE_MS = 30000"
definition DEFAULT_FAILURE_STOP_GRACE_MS :: int where "DEFAULT_FAILURE_STOP_GRACE_MS = 30000"

text \<open>\<open>UPDATE ... SET ... WHERE ...\<close> on the two mutable tables, and the event log.\<close>

definition update_steps :: "(wf_step \<Rightarrow> bool) \<Rightarrow> (wf_step \<Rightarrow> wf_step) \<Rightarrow> wf_store \<Rightarrow> wf_store" where
  "update_steps P f db = db\<lparr>db_steps := map (\<lambda>s. if P s then f s else s) (db_steps db)\<rparr>"

definition update_runs :: "(wf_run \<Rightarrow> bool) \<Rightarrow> (wf_run \<Rightarrow> wf_run) \<Rightarrow> wf_store \<Rightarrow> wf_store" where
  "update_runs P f db = db\<lparr>db_runs := map (\<lambda>r. if P r then f r else r) (db_runs db)\<rparr>"

definition appendEvent :: "string \<Rightarrow> string \<Rightarrow> (string \<times> jsval) list \<Rightarrow> int \<Rightarrow> wf_store \<Rightarrow> wf_store" where
  "appendEvent runId type payload at db =
     db\<lparr>db_events := db_events db @ [\<lparr>ev_runId = runId, ev_type = type, ev_payload = payload, ev_createdAt = at\<rparr>]\<rparr>"

definition find_run :: "string \<Rightarrow> wf_store \<Rightarrow> wf_run option" where
  "find_run runId db = List.find (\<lambda>r. rn_runId r = runId) (db_runs db)"

definition run_steps :: "string \<Rightarrow> wf_store \<Rightarrow> wf_step list" where
  "run_steps runId db = filter (\<lambda>s. st_runId s = runId) (db_steps db)"

section \<open>Reading\<close>

record wf_step_record =
  sr_stepId :: string
  sr_actionRef :: string
  sr_status :: wf_status
  sr_attempt :: nat
  sr_retrySafety :: retry_safety
  sr_maxAttempts :: int
  sr_inputDigest :: string
  sr_resultDigest :: "string option"
  sr_errorCode :: "string option"
  sr_leaseToken :: "string option"
  sr_updatedAt :: int

record wf_run_record =
  rr_runId :: string
  rr_principalId :: string
  rr_idempotencyKey :: string
  rr_definitionId :: string
  rr_definitionDigest :: string
  rr_status :: wf_status
  rr_inputDigest :: string
  rr_recoveryInputAvailable :: bool
  rr_createdAt :: int
  rr_updatedAt :: int
  rr_steps :: "wf_step_record list"

definition step_record :: "wf_step \<Rightarrow> wf_step_record" where
  "step_record s = \<lparr>sr_stepId = st_stepId s, sr_actionRef = st_actionRef s, sr_status = st_status s,
     sr_attempt = st_attempt s, sr_retrySafety = st_retrySafety s, sr_maxAttempts = st_maxAttempts s,
     sr_inputDigest = st_inputDigest s, sr_resultDigest = st_resultDigest s, sr_errorCode = st_errorCode s,
     sr_leaseToken = st_leaseToken s, sr_updatedAt = st_updatedAt s\<rparr>"

definition stepsFor :: "wf_store \<Rightarrow> string \<Rightarrow> wf_step_record list" where
  "stepsFor db runId = map step_record (run_steps runId db)"

definition effective_status :: "wf_run \<Rightarrow> wf_status" where
  "effective_status r =
     (if rn_cancellationRequestedAt r \<noteq> None \<and> \<not> terminal (rn_status r) then Cancelling
      else if rn_failureRequestedAt r \<noteq> None \<and> \<not> terminal (rn_status r) then Stopping
      else rn_status r)"

definition run_record :: "wf_store \<Rightarrow> wf_run \<Rightarrow> wf_run_record" where
  "run_record db r = \<lparr>rr_runId = rn_runId r, rr_principalId = rn_principalId r,
     rr_idempotencyKey = rn_idempotencyKey r, rr_definitionId = rn_definitionId r,
     rr_definitionDigest = rn_definitionDigest r, rr_status = effective_status r,
     rr_inputDigest = rn_inputDigest r, rr_recoveryInputAvailable = rn_recoveryInputAvailable r,
     rr_createdAt = rn_createdAt r, rr_updatedAt = rn_updatedAt r, rr_steps = stepsFor db (rn_runId r)\<rparr>"

definition get :: "string \<Rightarrow> wf_store \<Rightarrow> wf_run_record option" where
  "get runId db = map_option (run_record db) (find_run runId db)"

text \<open>\<open>ORDER BY updated_at DESC, run_id\<close> is the order of this key.\<close>

definition newest_first :: "wf_store \<Rightarrow> wf_run list" where
  "newest_first db = sort_key (\<lambda>r. (- rn_updatedAt r, rn_runId r)) (db_runs db)"

definition list_runs :: "int \<Rightarrow> wf_store \<Rightarrow> wf_run_record list" where
  "list_runs limit db =
     (let bounded = (if 0 < limit \<and> is_safe_int limit then min limit 200 else 100) in
      map (run_record db) (take (nat bounded) (newest_first db)))"

definition search_text :: "wf_run \<Rightarrow> string" where
  "search_text r = map ascii_lower (''workflow durable workflow run '' @ rn_runId r @ '' '' @
     rn_definitionId r @ '' '' @ rn_definitionDigest r @ '' '' @ status_text (effective_status r))"

definition needs_attention :: "wf_status \<Rightarrow> bool" where
  "needs_attention s \<longleftrightarrow> s \<in> {Failed, Needs_review, Awaiting_approval}"

record wf_query_result =
  wq_items :: "wf_run_record list"
  wq_total :: nat
  wq_attention :: nat
  wq_nextOffset :: "nat option"

definition queryWorkflows :: "int \<Rightarrow> int \<Rightarrow> string \<Rightarrow> string \<Rightarrow> wf_store \<Rightarrow> wf_query_result" where
  "queryWorkflows offset limit query status db =
     (let safeOffset = (if is_safe_int offset \<and> 0 \<le> offset then nat offset else 0);
          safeLimit = (if is_safe_int limit \<and> 0 \<le> limit then nat (min limit 10000) else 100);
          needle = js_trim query;
          wanted = js_trim status;
          rows = filter (\<lambda>r. (wanted = [] \<or> status_text (effective_status r) = wanted) \<and>
            (needle = [] \<or> js_includes (search_text r) (map ascii_lower needle))) (newest_first db);
          items = map (run_record db) (take safeLimit (drop safeOffset rows));
          total = length rows in
      \<lparr>wq_items = items, wq_total = total,
       wq_attention = length (filter (\<lambda>r. needs_attention (effective_status r)) rows),
       wq_nextOffset = (if safeOffset + length items < total then Some (safeOffset + length items) else None)\<rparr>)"

definition counts :: "wf_store \<Rightarrow> nat \<times> nat" where
  "counts db = (length (db_runs db), length (filter (\<lambda>r. needs_attention (rn_status r)) (db_runs db)))"

definition events :: "string \<Rightarrow> int \<Rightarrow> wf_store \<Rightarrow> (nat \<times> wf_event) list" where
  "events runId limit db =
     (let bounded = (if 0 < limit \<and> is_safe_int limit then min limit 500 else 200) in
      take (nat bounded) (filter (\<lambda>(n, e). ev_runId e = runId) (enumerate 1 (db_events db))))"

section \<open>Settling a run\<close>

definition release :: "wf_status \<Rightarrow> int \<Rightarrow> wf_step \<Rightarrow> wf_step" where
  "release status at s = s\<lparr>st_status := status, st_leaseToken := None, st_leaseExpiresAt := None, st_updatedAt := at\<rparr>"

definition cancel_idle :: "string \<Rightarrow> int \<Rightarrow> wf_store \<Rightarrow> wf_store" where
  "cancel_idle runId at =
     update_steps (\<lambda>s. st_runId s = runId \<and> st_status s \<in> {Queued, Awaiting_approval}) (release Cancelled at)"

definition quarantine_running :: "string \<Rightarrow> int \<Rightarrow> string \<Rightarrow> wf_store \<Rightarrow> wf_store" where
  "quarantine_running runId at code =
     update_steps (\<lambda>s. st_runId s = runId \<and> st_status s = Running)
       (\<lambda>s. release Needs_review at s\<lparr>st_errorCode := Some code\<rparr>)"

definition settleCancellation :: "string \<Rightarrow> int \<Rightarrow> bool \<Rightarrow> wf_store \<Rightarrow> wf_store" where
  "settleCancellation runId at quarantineRunning db =
     (let db1 = (if quarantineRunning
                 then quarantine_running runId at ''WORKFLOW_CANCELLATION_OUTCOME_UNCERTAIN'' db else db);
          db2 = cancel_idle runId at db1;
          rows = run_steps runId db2 in
      if list_ex (\<lambda>s. st_status s = Running) rows then db2
      else
        let status = (if list_ex (\<lambda>s. st_status s \<in> {Needs_review, Failed}) rows then Needs_review else Cancelled);
            code = (if status = Needs_review then Some ''WORKFLOW_CANCELLATION_OUTCOME_UNCERTAIN'' else None);
            hit = (\<lambda>r. rn_runId r = runId \<and> rn_cancellationRequestedAt r \<noteq> None \<and> \<not> terminal (rn_status r)) in
        if list_ex hit (db_runs db2)
        then appendEvent runId (''workflow.'' @ status_text status) [] at
          (update_runs hit (\<lambda>r. r\<lparr>rn_status := status, rn_errorCode := code, rn_updatedAt := at\<rparr>) db2)
        else db2)"

definition settleFailure :: "string \<Rightarrow> int \<Rightarrow> bool \<Rightarrow> wf_store \<Rightarrow> wf_store" where
  "settleFailure runId at quarantineRunning db =
     (let db1 = (if quarantineRunning
                 then quarantine_running runId at ''WORKFLOW_STOP_OUTCOME_UNCERTAIN'' db else db);
          db2 = cancel_idle runId at db1;
          rows = run_steps runId db2 in
      if list_ex (\<lambda>s. st_status s = Running) rows then db2
      else
        let status = (if list_ex (\<lambda>s. st_status s = Needs_review) rows then Needs_review else Failed);
            hit = (\<lambda>r. rn_runId r = runId \<and> rn_cancellationRequestedAt r = None \<and>
              rn_failureRequestedAt r \<noteq> None \<and> \<not> terminal (rn_status r)) in
        if list_ex hit (db_runs db2)
        then appendEvent runId (''workflow.'' @ status_text status) [] at
          (update_runs hit (\<lambda>r. r\<lparr>rn_status := status, rn_updatedAt := at\<rparr>) db2)
        else db2)"

fun coalesce :: "'a option \<Rightarrow> 'a \<Rightarrow> 'a option" where
  "coalesce None x = Some x"
| "coalesce (Some y) x = Some y"

definition beginFailureStop :: "string \<Rightarrow> int \<Rightarrow> int \<Rightarrow> string \<Rightarrow> wf_store \<Rightarrow> wf_store" where
  "beginFailureStop runId at deadlineAt errorCode db =
     settleFailure runId at False
       (update_runs (\<lambda>r. rn_runId r = runId \<and> \<not> terminal (rn_status r))
         (\<lambda>r. r\<lparr>rn_status := Running,
           rn_failureRequestedAt := coalesce (rn_failureRequestedAt r) at,
           rn_failureDeadlineAt := coalesce (rn_failureDeadlineAt r) deadlineAt,
           rn_errorCode := coalesce (rn_errorCode r) errorCode, rn_updatedAt := at\<rparr>)
         (cancel_idle runId at db))"

definition settleRun :: "string \<Rightarrow> int \<Rightarrow> wf_store \<Rightarrow> wf_store" where
  "settleRun runId at db =
     (case find_run runId db of
        Some r \<Rightarrow>
          if rn_cancellationRequestedAt r \<noteq> None then settleCancellation runId at False db
          else if rn_failureRequestedAt r \<noteq> None then settleFailure runId at False db
          else
            let rows = run_steps runId db in
            if rows = [] \<or> list_ex (\<lambda>s. \<not> terminal (st_status s)) rows then db
            else
              let status = (if list_ex (\<lambda>s. st_status s = Needs_review) rows then Needs_review
                            else if list_ex (\<lambda>s. st_status s = Failed) rows then Failed
                            else if list_ex (\<lambda>s. st_status s = Cancelled) rows then Cancelled else Completed) in
              appendEvent runId (''workflow.'' @ status_text status) [] at
                (update_runs (\<lambda>r. rn_runId r = runId \<and> rn_status r \<notin> {Cancelled, Needs_review})
                  (\<lambda>r. r\<lparr>rn_status := status, rn_updatedAt := at\<rparr>) db)
      | None \<Rightarrow> db)"

section \<open>Operations\<close>

type_synonym 'a wf_result = "wf_error + (wf_store \<times> 'a)"

definition durableProjection ::
    "(string \<Rightarrow> string) \<Rightarrow> (jsval \<Rightarrow> jsval) \<Rightarrow> jsval \<Rightarrow> wf_error + jsval \<times> string \<times> bool" where
  "durableProjection H redact value =
     (let projected = redact value in
      bindR (projectWorkflowInput H projected) (\<lambda>(clean, _).
      bindR (projectWorkflowInput H value) (\<lambda>(_, digest).
      Inr (clean, digest, canonicalJson projected = canonicalJson value))))"

definition the_record :: "string \<Rightarrow> wf_store \<Rightarrow> wf_run_record wf_result" where
  "the_record runId db =
     (case get runId db of None \<Rightarrow> Inl (Error ''workflow run not found'') | Some r \<Rightarrow> Inr (db, r))"

definition check_abort :: "bool \<Rightarrow> wf_error + unit" where
  "check_abort aborted = guardR (\<not> aborted) (Error ''workflow mutation was aborted'')"

definition new_step :: "(string \<Rightarrow> string) \<Rightarrow> (jsval \<Rightarrow> jsval) \<Rightarrow> string \<Rightarrow> int \<Rightarrow> wf_step_def \<Rightarrow> wf_error + wf_step" where
  "new_step H redact runId at step =
     bindR (durableProjection H redact (sd_input step)) (\<lambda>(value, digest, available).
     Inr \<lparr>st_runId = runId, st_stepId = sd_id step, st_actionRef = sd_actionRef step,
          st_dependsOn = sd_dependsOn step, st_input = value, st_inputDigest = digest,
          st_recoveryInputAvailable = available, st_retrySafety = sd_retrySafety step,
          st_maxAttempts = sd_maxAttempts step, st_status = Queued, st_attempt = 0, st_result = None,
          st_resultDigest = None, st_errorCode = None, st_leaseToken = None, st_leaseExpiresAt = None,
          st_updatedAt = at\<rparr>)"

definition find_definition :: "string \<Rightarrow> int \<Rightarrow> wf_store \<Rightarrow> wf_definition option" where
  "find_definition i revision db =
     List.find (\<lambda>d. wd_id d = i \<and> wd_revision d = revision) (db_definitions db)"

text \<open>\<open>INSERT OR IGNORE\<close> into the definitions: both keys of the table must be new.\<close>

definition insert_definition :: "wf_definition \<Rightarrow> wf_store \<Rightarrow> wf_store" where
  "insert_definition d db =
     (if list_ex (\<lambda>e. (wd_id e = wd_id d \<and> wd_revision e = wd_revision d) \<or>
           wd_definitionDigest e = wd_definitionDigest d) (db_definitions db)
      then db else db\<lparr>db_definitions := db_definitions db @ [d]\<rparr>)"

definition create ::
    "(string \<Rightarrow> string) \<Rightarrow> (jsval \<Rightarrow> jsval) \<Rightarrow> jsval \<Rightarrow> bool \<Rightarrow> int \<Rightarrow> wf_store \<Rightarrow> wf_run_record wf_result" where
  "create H redact input aborted now db =
     bindR (check_abort aborted) (\<lambda>_.
     bindR (validateWorkflowRunRequest H input) (\<lambda>request.
     bindR (validateWorkflowDefinition H (definition_json (wr_definition request))) (\<lambda>def.
     bindR (durableProjection H redact (wr_input request)) (\<lambda>(value, digest, available).
     case List.find (\<lambda>r. rn_principalId r = wr_principalId request \<and>
            rn_idempotencyKey r = wr_idempotencyKey request) (db_runs db) of
       Some existing \<Rightarrow> the_record (rn_runId existing) db
     | None \<Rightarrow>
         bindR (guardR (find_run (wr_runId request) db = None)
                  (Error (''workflow run already exists: '' @ wr_runId request))) (\<lambda>_.
         bindR (case find_definition (wd_id def) (wd_revision def) db of
                  None \<Rightarrow> Inr ()
                | Some prior \<Rightarrow>
                    bindR (validateWorkflowDefinition H (definition_json prior)) (\<lambda>p.
                    if wd_definitionDigest p = wd_definitionDigest def then Inr ()
                      else Inl (Error (''workflow definition revision is immutable: '' @ wd_id def @ ''@'' @
                        int_text (wd_revision def))))) (\<lambda>_.
         let db1 = insert_definition def db in
         bindR (guardR (find_definition (wd_id def) (wd_revision def) db1 \<noteq> None)
                  (Error ''FOREIGN KEY constraint failed'')) (\<lambda>_.
         let run = \<lparr>rn_runId = wr_runId request, rn_principalId = wr_principalId request,
               rn_idempotencyKey = wr_idempotencyKey request, rn_definitionId = wd_id def,
               rn_definitionRevision = wd_revision def, rn_definitionDigest = wd_definitionDigest def,
               rn_status = Queued, rn_input = value, rn_inputDigest = digest,
               rn_recoveryInputAvailable = available, rn_errorCode = None, rn_createdAt = now,
               rn_updatedAt = now, rn_cancellationRequestedAt = None, rn_cancellationDeadlineAt = None,
               rn_failureRequestedAt = None, rn_failureDeadlineAt = None\<rparr> in
         bindR (mapR (new_step H redact (wr_runId request) now) (wd_steps def)) (\<lambda>steps.
         the_record (wr_runId request)
           (appendEvent (wr_runId request) ''workflow.created''
             [(''definitionId'', JStr (wd_id def)), (''definitionRevision'', JInt (wd_revision def)),
              (''definitionDigest'', JStr (wd_definitionDigest def))] now
             (db1\<lparr>db_runs := db_runs db1 @ [run], db_steps := db_steps db1 @ steps\<rparr>))))))))))"

text \<open>The order in which claimable steps are tried.\<close>

datatype claim_key = Claim_key (ck_updatedAt: int) (ck_runId: string) (ck_stepId: string)

instantiation claim_key :: linorder
begin

definition less_eq_claim_key :: "claim_key \<Rightarrow> claim_key \<Rightarrow> bool" where
  "less_eq_claim_key a b \<longleftrightarrow>
     (ck_updatedAt a, ck_runId a, ck_stepId a) \<le> (ck_updatedAt b, ck_runId b, ck_stepId b)"

definition less_claim_key :: "claim_key \<Rightarrow> claim_key \<Rightarrow> bool" where
  "less_claim_key a b \<longleftrightarrow>
     (ck_updatedAt a, ck_runId a, ck_stepId a) < (ck_updatedAt b, ck_runId b, ck_stepId b)"

instance
proof
  fix a b c :: claim_key
  show "a < b \<longleftrightarrow> a \<le> b \<and> \<not> b \<le> a"
    unfolding less_eq_claim_key_def less_claim_key_def by auto
  show "a \<le> a" by (simp add: less_eq_claim_key_def)
  show "a \<le> b \<Longrightarrow> b \<le> c \<Longrightarrow> a \<le> c"
    unfolding less_eq_claim_key_def by (rule order_trans)
  show "a \<le> b \<Longrightarrow> b \<le> a \<Longrightarrow> a = b"
    unfolding less_eq_claim_key_def by (cases a; cases b) (auto dest: antisym)
  show "a \<le> b \<or> b \<le> a" unfolding less_eq_claim_key_def by (rule linear)
qed

end

record wf_claim =
  cl_step :: wf_step
  cl_leaseToken :: string
  cl_leaseExpiresAt :: int
  cl_definition :: wf_definition

definition claimable_run :: "wf_run \<Rightarrow> bool" where
  "claimable_run r \<longleftrightarrow> rn_status r \<in> {Queued, Running} \<and>
     rn_cancellationRequestedAt r = None \<and> rn_failureRequestedAt r = None"

text \<open>The joined candidate rows, with the definition of their run.\<close>

definition candidates :: "string option \<Rightarrow> wf_store \<Rightarrow> (wf_step \<times> wf_definition) list" where
  "candidates runId db =
     sort_key (\<lambda>(s, _). Claim_key (st_updatedAt s) (st_runId s) (st_stepId s))
       (List.map_filter (\<lambda>s.
          if st_status s = Queued \<and> (runId = None \<or> runId = Some (st_runId s)) then
            (case find_run (st_runId s) db of
               Some r \<Rightarrow>
                 if claimable_run r
                 then map_option (Pair s) (find_definition (rn_definitionId r) (rn_definitionRevision r) db)
                 else None
             | None \<Rightarrow> None)
          else None) (db_steps db))"

definition deps_completed :: "wf_store \<Rightarrow> wf_step \<Rightarrow> bool" where
  "deps_completed db s \<longleftrightarrow>
     (let statuses = filter (\<lambda>u. st_runId u = st_runId s \<and> st_stepId u \<in> set (st_dependsOn s)) (db_steps db) in
      length statuses = length (st_dependsOn s) \<and> list_all (\<lambda>u. st_status u = Completed) statuses)"

definition same_row :: "wf_step \<Rightarrow> wf_step \<Rightarrow> bool" where
  "same_row s u \<longleftrightarrow> st_runId u = st_runId s \<and> st_stepId u = st_stepId s"

definition input_unavailable :: "int \<Rightarrow> wf_step \<Rightarrow> wf_store \<Rightarrow> wf_store" where
  "input_unavailable now s db =
     appendEvent (st_runId s) ''workflow.input-unavailable'' [(''stepId'', JStr (st_stepId s))] now
       (update_runs (\<lambda>r. rn_runId r = st_runId s \<and> rn_status r \<in> {Queued, Running})
         (\<lambda>r. r\<lparr>rn_status := Needs_review, rn_errorCode := Some ''WORKFLOW_INPUT_REDACTED'', rn_updatedAt := now\<rparr>)
         (update_steps (\<lambda>u. same_row s u \<and> st_status u = Queued)
           (\<lambda>u. u\<lparr>st_status := Needs_review, st_errorCode := Some ''WORKFLOW_INPUT_REDACTED'', st_updatedAt := now\<rparr>) db))"

definition claimed :: "int \<Rightarrow> string \<Rightarrow> int \<Rightarrow> wf_step \<Rightarrow> wf_step" where
  "claimed now token expires u =
     u\<lparr>st_status := Running, st_attempt := Suc (st_attempt u), st_leaseToken := Some token,
       st_leaseExpiresAt := Some expires, st_updatedAt := now\<rparr>"

definition mark_claimed :: "int \<Rightarrow> string \<Rightarrow> int \<Rightarrow> wf_step \<Rightarrow> wf_store \<Rightarrow> wf_store" where
  "mark_claimed now token expires s db =
     appendEvent (st_runId s) ''workflow.step.claimed''
       [(''stepId'', JStr (st_stepId s)), (''leaseToken'', JStr token), (''attempt'', JInt (int (st_attempt s) + 1))] now
       (update_runs (\<lambda>r. rn_runId r = st_runId s \<and> rn_status r = Queued)
         (\<lambda>r. r\<lparr>rn_status := Running, rn_updatedAt := now\<rparr>)
         (update_steps (\<lambda>u. same_row s u \<and> st_status u = Queued) (claimed now token expires) db))"

fun claim_loop :: "(string \<Rightarrow> string) \<Rightarrow> int \<Rightarrow> string \<Rightarrow> int \<Rightarrow> (wf_step \<times> wf_definition) list
    \<Rightarrow> wf_store \<Rightarrow> wf_claim option wf_result" where
  "claim_loop H now token expires [] db = Inr (db, None)"
| "claim_loop H now token expires ((s, d) # rows) db =
     (if \<not> st_recoveryInputAvailable s then claim_loop H now token expires rows (input_unavailable now s db)
      else if \<not> deps_completed db s then claim_loop H now token expires rows db
      else if \<not> list_ex (\<lambda>u. same_row s u \<and> st_status u = Queued) (db_steps db)
      then claim_loop H now token expires rows db
      else if list_ex (\<lambda>u. st_leaseToken u = Some token) (db_steps db)
      then Inl (Error ''UNIQUE constraint failed: workflow_steps.lease_token'')
      else bindR (validateWorkflowDefinition H (definition_json d)) (\<lambda>def.
        Inr (mark_claimed now token expires s db,
             Some \<lparr>cl_step = claimed now token expires s,
                   cl_leaseToken = token, cl_leaseExpiresAt = expires, cl_definition = def\<rparr>)))"

definition bounded_lease :: "int \<Rightarrow> int" where
  "bounded_lease ms = max 25 (min 600000 (if ms = 0 then LEASE_MS else ms))"

definition claimNext :: "(string \<Rightarrow> string) \<Rightarrow> string option \<Rightarrow> int \<Rightarrow> string \<Rightarrow> int \<Rightarrow> wf_store
    \<Rightarrow> wf_claim option wf_result" where
  "claimNext H runId leaseMs token now db =
     claim_loop H now token (now + bounded_lease leaseMs)
       (candidates (if runId = Some [] then None else runId) db) db"

definition leased_step ::
    "string \<Rightarrow> string \<Rightarrow> string \<Rightarrow> int \<Rightarrow> (wf_run \<Rightarrow> bool) \<Rightarrow> wf_store \<Rightarrow> wf_step option" where
  "leased_step runId stepId token now P db =
     List.find (\<lambda>s. st_runId s = runId \<and> st_stepId s = stepId \<and> st_leaseToken s = Some token \<and>
       (case st_leaseExpiresAt s of None \<Rightarrow> False | Some e \<Rightarrow> now < e) \<and>
       list_ex (\<lambda>r. rn_runId r = runId \<and> P r) (db_runs db)) (db_steps db)"

definition not_pending :: "wf_run \<Rightarrow> bool" where
  "not_pending r \<longleftrightarrow> rn_cancellationRequestedAt r = None \<and> rn_failureRequestedAt r = None"

definition the_leased ::
    "string \<Rightarrow> string \<Rightarrow> string \<Rightarrow> int \<Rightarrow> (wf_run \<Rightarrow> bool) \<Rightarrow> wf_store \<Rightarrow> string \<Rightarrow> wf_error + wf_step" where
  "the_leased runId stepId token now P db msg =
     (case leased_step runId stepId token now P db of None \<Rightarrow> Inl (Error msg) | Some s \<Rightarrow> Inr s)"

definition holds_lease :: "string \<Rightarrow> string \<Rightarrow> string \<Rightarrow> wf_step \<Rightarrow> bool" where
  "holds_lease runId stepId token s \<longleftrightarrow>
     st_runId s = runId \<and> st_stepId s = stepId \<and> st_leaseToken s = Some token"

definition completeStep :: "(string \<Rightarrow> string) \<Rightarrow> string \<Rightarrow> string \<Rightarrow> string \<Rightarrow> jsval \<Rightarrow> int \<Rightarrow> wf_store
    \<Rightarrow> wf_run_record wf_result" where
  "completeStep H runId stepId token result now db =
     bindR (projectWorkflowOutput H result) (\<lambda>(value, digest).
     bindR (the_leased runId stepId token now not_pending db ''workflow step lease is missing or stale'') (\<lambda>row.
     bindR (validateWorkflowTransition (st_status row) Completed) (\<lambda>_.
     the_record runId (settleRun runId now
       (appendEvent runId ''workflow.step.completed'' [(''stepId'', JStr stepId), (''resultDigest'', JStr digest)] now
         (update_steps (holds_lease runId stepId token)
           (\<lambda>s. release Completed now s\<lparr>st_result := Some value, st_resultDigest := Some digest\<rparr>) db))))))"

definition failStep :: "string \<Rightarrow> string \<Rightarrow> string \<Rightarrow> string \<Rightarrow> bool \<Rightarrow> int option \<Rightarrow> int \<Rightarrow> wf_store
    \<Rightarrow> wf_run_record wf_result" where
  "failStep runId stepId token errorCode uncertain stopDeadlineAt now db =
     bindR (validateWorkflowErrorCode errorCode) (\<lambda>code.
     bindR (the_leased runId stepId token now not_pending db ''workflow step lease is missing or stale'') (\<lambda>row.
     let retry = (\<not> uncertain \<and> st_retrySafety row = Retry_safe \<and> int (st_attempt row) < st_maxAttempts row);
         status = (if uncertain then Needs_review else if retry then Queued else Failed) in
     bindR (validateWorkflowTransition (st_status row) status) (\<lambda>_.
     let db1 = appendEvent runId (''workflow.step.'' @ status_text status)
             [(''stepId'', JStr stepId), (''errorCode'', JStr code)] now
             (update_steps (holds_lease runId stepId token)
               (\<lambda>s. release status now s\<lparr>st_errorCode := Some code\<rparr>) db);
         deadline = (case stopDeadlineAt of None \<Rightarrow> now + DEFAULT_FAILURE_STOP_GRACE_MS | Some t \<Rightarrow> t) in
     the_record runId (if status \<noteq> Queued then beginFailureStop runId now deadline code db1 else db1))))"

definition awaitApproval :: "string \<Rightarrow> string \<Rightarrow> string \<Rightarrow> int \<Rightarrow> wf_store \<Rightarrow> wf_run_record wf_result" where
  "awaitApproval runId stepId token now db =
     bindR (the_leased runId stepId token now not_pending db ''workflow step lease is missing or stale'') (\<lambda>row.
     bindR (validateWorkflowTransition (st_status row) Awaiting_approval) (\<lambda>_.
     the_record runId
       (appendEvent runId ''workflow.step.awaiting-approval'' [(''stepId'', JStr stepId)] now
         (update_runs (\<lambda>r. rn_runId r = runId) (\<lambda>r. r\<lparr>rn_status := Awaiting_approval, rn_updatedAt := now\<rparr>)
           (update_steps (holds_lease runId stepId token)
             (\<lambda>s. s\<lparr>st_status := Awaiting_approval, st_updatedAt := now\<rparr>) db)))))"

definition resume :: "string \<Rightarrow> bool \<Rightarrow> int \<Rightarrow> wf_store \<Rightarrow> wf_run_record wf_result" where
  "resume runId aborted now db =
     bindR (check_abort aborted) (\<lambda>_.
     case find_run runId db of
       None \<Rightarrow> Inl (Error (''workflow run not found: '' @ runId))
     | Some r \<Rightarrow>
         if rn_cancellationRequestedAt r \<noteq> None \<and> \<not> terminal (rn_status r)
         then Inl (Error ''workflow cancellation is already pending'')
         else if rn_failureRequestedAt r \<noteq> None \<and> \<not> terminal (rn_status r)
         then Inl (Error ''workflow failure stop is already pending'')
         else if rn_status r = Needs_review
         then Inl (Error ''workflow needs operator resolution before resume'')
         else if rn_status r = Awaiting_approval
         then the_record runId
           (update_runs (\<lambda>r. rn_runId r = runId) (\<lambda>r. r\<lparr>rn_status := Queued, rn_updatedAt := now\<rparr>)
             (update_steps (\<lambda>s. st_runId s = runId \<and> st_status s = Awaiting_approval) (release Queued now) db))
         else the_record runId db)"

definition requestCancellation :: "string \<Rightarrow> int option \<Rightarrow> bool \<Rightarrow> int \<Rightarrow> wf_store \<Rightarrow> wf_run_record wf_result" where
  "requestCancellation runId deadlineAt aborted now db =
     bindR (check_abort aborted) (\<lambda>_.
     let deadline = (case deadlineAt of None \<Rightarrow> now + DEFAULT_CANCELLATION_GRACE_MS | Some t \<Rightarrow> t) in
     case find_run runId db of
       None \<Rightarrow> Inl (Error (''workflow run not found: '' @ runId))
     | Some r \<Rightarrow>
         if terminal (rn_status r) then the_record runId db
         else
           let db1 = update_runs (\<lambda>r. rn_runId r = runId)
                 (\<lambda>r. r\<lparr>rn_cancellationRequestedAt := coalesce (rn_cancellationRequestedAt r) now,
                      rn_cancellationDeadlineAt := coalesce (rn_cancellationDeadlineAt r) deadline,
                      rn_updatedAt := now\<rparr>) (cancel_idle runId now db) in
           the_record runId (if rn_cancellationRequestedAt r = None
             then appendEvent runId ''workflow.cancellation-requested'' [(''deadlineAt'', JInt deadline)] now db1
             else db1))"

definition finalizeCancellation :: "string \<Rightarrow> bool \<Rightarrow> bool \<Rightarrow> int \<Rightarrow> wf_store \<Rightarrow> wf_run_record wf_result" where
  "finalizeCancellation runId quarantineRunning aborted now db =
     bindR (check_abort aborted) (\<lambda>_.
     case find_run runId db of
       None \<Rightarrow> Inl (Error (''workflow run not found: '' @ runId))
     | Some r \<Rightarrow>
         if rn_cancellationRequestedAt r = None \<or> terminal (rn_status r) then the_record runId db
         else the_record runId (settleCancellation runId now quarantineRunning db))"

definition cancel :: "string \<Rightarrow> bool \<Rightarrow> int \<Rightarrow> wf_store \<Rightarrow> wf_run_record wf_result" where
  "cancel runId aborted now db =
     bindR (requestCancellation runId None aborted now db) (\<lambda>(db1, requested).
     if rr_status requested \<noteq> Cancelling then Inr (db1, requested)
     else finalizeCancellation runId True aborted now db1)"

definition acknowledgeCancellation ::
    "string \<Rightarrow> string \<Rightarrow> string \<Rightarrow> bool \<Rightarrow> string option \<Rightarrow> int \<Rightarrow> wf_store \<Rightarrow> wf_run_record wf_result" where
  "acknowledgeCancellation runId stepId token uncertain errorCode now db =
     bindR (the_leased runId stepId token now (\<lambda>r. rn_cancellationRequestedAt r \<noteq> None) db
              ''workflow step cancellation lease is missing or stale'') (\<lambda>row.
     let status = (if uncertain then Needs_review else Cancelled) in
     bindR (validateWorkflowTransition (st_status row) status) (\<lambda>_.
     bindR (validateWorkflowErrorCode (case errorCode of Some c \<Rightarrow> c
              | None \<Rightarrow> if uncertain then ''WORKFLOW_CANCELLATION_OUTCOME_UNCERTAIN'' else ''WORKFLOW_CANCELLED'')) (\<lambda>code.
     the_record runId (settleCancellation runId now False
       (appendEvent runId (''workflow.step.'' @ status_text status)
         [(''stepId'', JStr stepId), (''errorCode'', JStr code)] now
         (update_steps (holds_lease runId stepId token)
           (\<lambda>s. release status now s\<lparr>st_errorCode := Some code\<rparr>) db))))))"

definition acknowledgeStop ::
    "string \<Rightarrow> string \<Rightarrow> string \<Rightarrow> bool \<Rightarrow> string option \<Rightarrow> int \<Rightarrow> wf_store \<Rightarrow> wf_run_record wf_result" where
  "acknowledgeStop runId stepId token uncertain errorCode now db =
     bindR (the_leased runId stepId token now
              (\<lambda>r. rn_failureRequestedAt r \<noteq> None \<and> rn_cancellationRequestedAt r = None) db
              ''workflow step stop lease is missing or stale'') (\<lambda>row.
     let status = (if uncertain then Needs_review else Cancelled) in
     bindR (validateWorkflowTransition (st_status row) status) (\<lambda>_.
     bindR (validateWorkflowErrorCode (case errorCode of Some c \<Rightarrow> c
              | None \<Rightarrow> if uncertain then ''WORKFLOW_STOP_OUTCOME_UNCERTAIN'' else ''WORKFLOW_STOPPED_AFTER_FAILURE'')) (\<lambda>code.
     the_record runId (settleFailure runId now False
       (appendEvent runId (''workflow.step.'' @ status_text status)
         [(''stepId'', JStr stepId), (''errorCode'', JStr code)] now
         (update_steps (holds_lease runId stepId token)
           (\<lambda>s. release status now s\<lparr>st_errorCode := Some code\<rparr>) db))))))"

definition quarantineStep ::
    "string \<Rightarrow> string \<Rightarrow> string \<Rightarrow> string option \<Rightarrow> int option \<Rightarrow> int \<Rightarrow> wf_store \<Rightarrow> wf_run_record wf_result" where
  "quarantineStep runId stepId token errorCode stopDeadlineAt now db =
     bindR (validateWorkflowErrorCode (case errorCode of Some c \<Rightarrow> c | None \<Rightarrow> ''WORKFLOW_OUTCOME_UNCERTAIN'')) (\<lambda>code.
     case List.find (holds_lease runId stepId token) (db_steps db) of
       None \<Rightarrow> Inl (Error ''workflow step quarantine lease is missing or stale'')
     | Some row \<Rightarrow>
         bindR (validateWorkflowTransition (st_status row) Needs_review) (\<lambda>_.
         let db1 = appendEvent runId ''workflow.step.needs-review''
               [(''stepId'', JStr stepId), (''errorCode'', JStr code)] now
               (update_steps (holds_lease runId stepId token)
                 (\<lambda>s. release Needs_review now s\<lparr>st_errorCode := Some code\<rparr>) db);
             deadline = (case stopDeadlineAt of None \<Rightarrow> now + DEFAULT_FAILURE_STOP_GRACE_MS | Some t \<Rightarrow> t) in
         case find_run runId db1 of
           None \<Rightarrow> the_record runId db1
         | Some r \<Rightarrow>
             the_record runId (if rn_cancellationRequestedAt r \<noteq> None
               then settleCancellation runId now False db1
               else settleFailure runId now False (beginFailureStop runId now
                 (case rn_failureDeadlineAt r of Some t \<Rightarrow> t | None \<Rightarrow> deadline) code db1))))"

definition renewable :: "string \<Rightarrow> string \<Rightarrow> string \<Rightarrow> int \<Rightarrow> wf_store \<Rightarrow> wf_step \<Rightarrow> bool" where
  "renewable runId stepId token now db s \<longleftrightarrow>
     holds_lease runId stepId token s \<and> st_status s = Running \<and>
     (case st_leaseExpiresAt s of None \<Rightarrow> False | Some e \<Rightarrow> now < e) \<and>
     list_ex (\<lambda>r. rn_runId r = runId \<and> not_pending r) (db_runs db)"

definition renewStepLease :: "string \<Rightarrow> string \<Rightarrow> string \<Rightarrow> int \<Rightarrow> int \<Rightarrow> wf_store \<Rightarrow> wf_store \<times> bool" where
  "renewStepLease runId stepId token expiresAt now db =
     (if expiresAt \<le> now then (db, False)
      else (update_steps (renewable runId stepId token now db)
              (\<lambda>s. s\<lparr>st_leaseExpiresAt := Some expiresAt, st_updatedAt := now\<rparr>) db,
            list_ex (renewable runId stepId token now db) (db_steps db)))"

section \<open>Recovery\<close>

definition past :: "int \<Rightarrow> int option \<Rightarrow> bool" where
  "past now t = (case t of None \<Rightarrow> False | Some e \<Rightarrow> e \<le> now)"

definition settle_each :: "(string \<Rightarrow> wf_store \<Rightarrow> wf_store) \<Rightarrow> (wf_run \<Rightarrow> bool) \<Rightarrow> wf_store \<Rightarrow> wf_store" where
  "settle_each settle P db = fold (\<lambda>r. settle (rn_runId r)) (filter P (db_runs db)) db"

text \<open>An expired row with the pending flags its run had when the rows were read.\<close>

definition recover_step :: "string list \<Rightarrow> int \<Rightarrow> wf_step \<times> bool \<times> bool \<Rightarrow> wf_store \<Rightarrow> wf_store" where
  "recover_step uncertain now = (\<lambda>(s, cancelling, failing) db.
     let locally = (case st_leaseToken s of Some tok \<Rightarrow> tok \<in> set uncertain | None \<Rightarrow> False);
         retry = (\<not> cancelling \<and> \<not> failing \<and> \<not> locally \<and> st_retrySafety s = Retry_safe \<and>
           int (st_attempt s) < st_maxAttempts s);
         status = (if retry then Queued else Needs_review);
         code = (if cancelling then ''WORKFLOW_CANCELLATION_OUTCOME_UNCERTAIN''
           else if failing then ''WORKFLOW_STOP_OUTCOME_UNCERTAIN''
           else if locally then ''WORKFLOW_ACTIVE_LEASE_EXPIRED''
           else if retry then ''WORKFLOW_WORKER_EXPIRED'' else ''WORKFLOW_EFFECT_OUTCOME_UNCERTAIN'');
         hit = (\<lambda>u. same_row s u \<and> st_status u = Running) in
     if \<not> list_ex hit (db_steps db) then db
     else
       let db1 = update_steps hit (\<lambda>u. release status now u\<lparr>st_errorCode := Some code\<rparr>) db;
           db2 = (if retry then db1
             else if cancelling then settleCancellation (st_runId s) now True db1
             else settleFailure (st_runId s) now True (beginFailureStop (st_runId s) now now code db1)) in
       appendEvent (st_runId s) ''workflow.recovered''
         [(''stepId'', JStr (st_stepId s)), (''status'', JStr (status_text status))] now db2)"

definition expired_rows :: "int \<Rightarrow> wf_store \<Rightarrow> (wf_step \<times> bool \<times> bool) list" where
  "expired_rows now db =
     List.map_filter (\<lambda>s.
       if st_status s = Running \<and> past now (st_leaseExpiresAt s) then
         map_option (\<lambda>r. (s, rn_cancellationRequestedAt r \<noteq> None, rn_failureRequestedAt r \<noteq> None))
           (find_run (st_runId s) db)
       else None) (db_steps db)"

definition recover_store :: "string list \<Rightarrow> int \<Rightarrow> wf_store \<Rightarrow> wf_store" where
  "recover_store uncertain now db =
     (let db1 = settle_each (\<lambda>i. settleCancellation i now True)
            (\<lambda>r. rn_cancellationRequestedAt r \<noteq> None \<and> past now (rn_cancellationDeadlineAt r) \<and>
              \<not> terminal (rn_status r)) db;
          db2 = settle_each (\<lambda>i. settleFailure i now True)
            (\<lambda>r. rn_cancellationRequestedAt r = None \<and> rn_failureRequestedAt r \<noteq> None \<and>
              past now (rn_failureDeadlineAt r) \<and> \<not> terminal (rn_status r)) db1;
          db3 = fold (recover_step uncertain now) (expired_rows now db2) db2 in
      settle_each (\<lambda>i. settleCancellation i now False)
        (\<lambda>r. rn_cancellationRequestedAt r \<noteq> None \<and> \<not> terminal (rn_status r)) db3)"

record wf_recovery =
  re_recovered :: "wf_run_record list"
  re_nextRecoveryAt :: "int option"

definition future_times :: "int \<Rightarrow> int option list \<Rightarrow> int list" where
  "future_times now ts = List.map_filter (\<lambda>t. case t of Some e \<Rightarrow> if now < e then Some e else None | None \<Rightarrow> None) ts"

definition next_recovery :: "int \<Rightarrow> wf_store \<Rightarrow> int option" where
  "next_recovery now db =
     (let times = future_times now
        (map st_leaseExpiresAt (filter (\<lambda>s. st_status s = Running) (db_steps db)) @
         map rn_cancellationDeadlineAt (filter (\<lambda>r. rn_cancellationRequestedAt r \<noteq> None \<and> \<not> terminal (rn_status r)) (db_runs db)) @
         map rn_failureDeadlineAt (filter (\<lambda>r. rn_cancellationRequestedAt r = None \<and> rn_failureRequestedAt r \<noteq> None \<and>
           \<not> terminal (rn_status r)) (db_runs db))) in
      case sort times of [] \<Rightarrow> None | t # _ \<Rightarrow> Some t)"

definition recover :: "string list \<Rightarrow> int \<Rightarrow> wf_store \<Rightarrow> wf_store \<times> wf_recovery" where
  "recover uncertain now db =
     (let db' = recover_store uncertain now db in
      (db', \<lparr>re_recovered = filter (\<lambda>r. rr_status r \<in> {Queued, Needs_review}) (list_runs 100 db'),
             re_nextRecoveryAt = next_recovery now db'\<rparr>))"

section \<open>The invariant\<close>

definition lease_ok :: "wf_step \<Rightarrow> bool" where
  "lease_ok s \<longleftrightarrow> (st_leaseToken s \<noteq> None \<longleftrightarrow> st_status s \<in> {Running, Awaiting_approval}) \<and>
     (st_leaseExpiresAt s \<noteq> None \<longleftrightarrow> st_leaseToken s \<noteq> None) \<and> st_status s \<notin> {Stopping, Cancelling}"

definition run_ok :: "wf_run \<Rightarrow> bool" where
  "run_ok r \<longleftrightarrow> rn_status r \<notin> {Stopping, Cancelling}"

definition compat :: "wf_run \<Rightarrow> wf_step \<Rightarrow> bool" where
  "compat r s \<longleftrightarrow> rn_runId r = st_runId s \<longrightarrow>
     (\<not> not_pending r \<longrightarrow> st_status s \<notin> {Queued, Awaiting_approval}) \<and>
     (rn_status r \<in> {Completed, Failed, Cancelled} \<longrightarrow> terminal (st_status s))"

definition deps_done :: "wf_step list \<Rightarrow> wf_step \<Rightarrow> bool" where
  "deps_done ss s \<longleftrightarrow> 0 < st_attempt s \<longrightarrow>
     (\<forall>d\<in>set (st_dependsOn s). \<exists>u\<in>set ss. st_runId u = st_runId s \<and> st_stepId u = d \<and> st_status u = Completed)"

definition step_key :: "wf_step \<Rightarrow> string \<times> string" where
  "step_key s = (st_runId s, st_stepId s)"

definition wf_inv :: "(string \<Rightarrow> string) \<Rightarrow> wf_store \<Rightarrow> bool" where
  "wf_inv H db \<longleftrightarrow>
     (\<forall>d\<in>set (db_definitions db). definition_ok H d) \<and>
     distinct (map rn_runId (db_runs db)) \<and> distinct (map step_key (db_steps db)) \<and>
     (\<forall>s\<in>set (db_steps db). \<exists>r\<in>set (db_runs db). rn_runId r = st_runId s) \<and>
     (\<forall>r\<in>set (db_runs db). run_ok r) \<and>
     (\<forall>s\<in>set (db_steps db). lease_ok s \<and> deps_done (db_steps db) s) \<and>
     (\<forall>r\<in>set (db_runs db). \<forall>s\<in>set (db_steps db). compat r s)"

lemma wf_inv_lease: "wf_inv H db \<Longrightarrow> s \<in> set (db_steps db) \<Longrightarrow> lease_ok s"
  unfolding wf_inv_def by blast

lemma wf_inv_deps: "wf_inv H db \<Longrightarrow> s \<in> set (db_steps db) \<Longrightarrow> deps_done (db_steps db) s"
  unfolding wf_inv_def by blast

lemma wf_inv_compat: "wf_inv H db \<Longrightarrow> r \<in> set (db_runs db) \<Longrightarrow> s \<in> set (db_steps db) \<Longrightarrow> compat r s"
  unfolding wf_inv_def by blast

lemma wf_inv_run: "wf_inv H db \<Longrightarrow> r \<in> set (db_runs db) \<Longrightarrow> run_ok r"
  unfolding wf_inv_def by blast

lemma wf_inv_parent: "wf_inv H db \<Longrightarrow> s \<in> set (db_steps db) \<Longrightarrow> \<exists>r\<in>set (db_runs db). rn_runId r = st_runId s"
  unfolding wf_inv_def by blast

lemma wf_invI:
  assumes "db_definitions db' = db_definitions db" and "wf_inv H db"
    and "distinct (map rn_runId (db_runs db'))" and "distinct (map step_key (db_steps db'))"
    and "\<And>s. s \<in> set (db_steps db') \<Longrightarrow> \<exists>r\<in>set (db_runs db'). rn_runId r = st_runId s"
    and "\<And>r. r \<in> set (db_runs db') \<Longrightarrow> run_ok r"
    and "\<And>s. s \<in> set (db_steps db') \<Longrightarrow> lease_ok s \<and> deps_done (db_steps db') s"
    and "\<And>r s. r \<in> set (db_runs db') \<Longrightarrow> s \<in> set (db_steps db') \<Longrightarrow> compat r s"
  shows "wf_inv H db'"
  using assms unfolding wf_inv_def by simp

lemma wf_inv_keys:
  "wf_inv H db \<Longrightarrow> distinct (map rn_runId (db_runs db)) \<and> distinct (map step_key (db_steps db))"
  unfolding wf_inv_def by blast

lemma same_row_key: "same_row s u \<longleftrightarrow> step_key u = step_key s"
  by (auto simp: same_row_def step_key_def)

lemma store_simps [simp]:
  "db_steps (update_runs P g db) = db_steps db"
  "db_definitions (update_runs P g db) = db_definitions db"
  "db_runs (update_steps Q f db) = db_runs db"
  "db_definitions (update_steps Q f db) = db_definitions db"
  "db_runs (appendEvent i t p at db) = db_runs db"
  "db_steps (appendEvent i t p at db) = db_steps db"
  "db_definitions (appendEvent i t p at db) = db_definitions db"
  "db_steps (update_steps Q f db) = map (\<lambda>s. if Q s then f s else s) (db_steps db)"
  "db_runs (update_runs P g db) = map (\<lambda>r. if P r then g r else r) (db_runs db)"
  by (simp_all add: update_runs_def update_steps_def appendEvent_def)

lemma wf_inv_event [simp]: "wf_inv H (appendEvent i t p at db) = wf_inv H db"
  by (simp add: wf_inv_def)

text \<open>What a change of steps must respect: identity, dependencies and attempts stay, and
  completed rows are out of its reach.\<close>

definition gentle :: "wf_step \<Rightarrow> wf_step \<Rightarrow> bool" where
  "gentle s s' \<longleftrightarrow> st_runId s' = st_runId s \<and> st_stepId s' = st_stepId s \<and>
     st_dependsOn s' = st_dependsOn s \<and> st_attempt s' = st_attempt s \<and> st_status s \<noteq> Completed"

lemma deps_done_mono:
  assumes "deps_done ss s" and "\<And>u. u \<in> set ss \<Longrightarrow> st_status u = Completed \<Longrightarrow> u \<in> set ss'"
  shows "deps_done ss' s"
  using assms by (fastforce simp: deps_done_def)

lemma inv_update_rows:
  assumes inv: "wf_inv H db"
    and f: "\<And>s. s \<in> set (db_steps db) \<Longrightarrow> P s \<Longrightarrow> st_runId (f s) = st_runId s \<and>
        st_stepId (f s) = st_stepId s \<and> st_status s \<noteq> Completed \<and> lease_ok (f s) \<and> deps_done (db_steps db) (f s)"
    and comp: "\<And>r s. r \<in> set (db_runs db) \<Longrightarrow> s \<in> set (db_steps db) \<Longrightarrow> P s \<Longrightarrow>
        rn_runId r = st_runId s \<Longrightarrow> compat r (f s)"
  shows "wf_inv H (update_steps P f db)"
proof -
  let ?g = "\<lambda>s. if P s then f s else s" and ?ss = "db_steps db"
  have key: "map step_key (map ?g ?ss) = map step_key ?ss"
    using f by (auto simp: step_key_def)
  have completed: "u \<in> set (map ?g ?ss)" if "u \<in> set ?ss" "st_status u = Completed" for u
  proof -
    have "\<not> P u" using f [OF that(1)] that(2) by auto
    then have "?g u = u" by simp
    moreover have "?g u \<in> ?g ` set ?ss" using that(1) by (rule imageI)
    ultimately show ?thesis by simp
  qed
  have a: "lease_ok s' \<and> deps_done (map ?g ?ss) s'" if s': "s' \<in> set (map ?g ?ss)" for s'
  proof -
    from s' obtain s where s: "s \<in> set ?ss" "s' = ?g s" by auto
    have "deps_done ?ss s'" "lease_ok s'"
      using wf_inv_deps [OF inv s(1)] wf_inv_lease [OF inv s(1)] f [OF s(1)] s(2) by (cases "P s"; simp)+
    then show ?thesis using deps_done_mono [OF _ completed] by blast
  qed
  have b: "compat r s'" if "r \<in> set (db_runs db)" "s' \<in> set (map ?g ?ss)" for r s'
  proof -
    from that(2) obtain s where s: "s \<in> set ?ss" "s' = ?g s" by auto
    have "compat r s" using wf_inv_compat [OF inv that(1) s(1)] .
    then show ?thesis
      using comp [OF that(1) s(1)] f [OF s(1)] s(2) by (cases "P s") (auto simp: compat_def)
  qed
  have c: "\<exists>r\<in>set (db_runs db). rn_runId r = st_runId s'" if s': "s' \<in> set (map ?g ?ss)" for s'
  proof -
    from s' obtain s where s: "s \<in> set ?ss" "s' = ?g s" by auto
    then have "st_runId s' = st_runId s" using f [OF s(1)] by auto
    then show ?thesis using wf_inv_parent [OF inv s(1)] by simp
  qed
  show ?thesis
  proof (rule wf_invI [OF _ inv], unfold store_simps)
    show "distinct (map step_key (map ?g ?ss))" "distinct (map rn_runId (db_runs db))"
      using wf_inv_keys [OF inv] by (simp_all only: key)
  qed (use a b c wf_inv_run [OF inv] in blast)+
qed

lemma inv_update_steps:
  assumes inv: "wf_inv H db"
    and f: "\<And>s. s \<in> set (db_steps db) \<Longrightarrow> P s \<Longrightarrow> gentle s (f s) \<and> lease_ok (f s)"
    and comp: "\<And>r s. r \<in> set (db_runs db) \<Longrightarrow> s \<in> set (db_steps db) \<Longrightarrow> P s \<Longrightarrow>
        rn_runId r = st_runId s \<Longrightarrow> compat r (f s)"
  shows "wf_inv H (update_steps P f db)"
  using f wf_inv_deps [OF inv]
  by (intro inv_update_rows [OF inv _ comp]) (auto simp: gentle_def deps_done_def)

lemma inv_update_runs:
  assumes inv: "wf_inv H db"
    and g: "\<And>r. r \<in> set (db_runs db) \<Longrightarrow> P r \<Longrightarrow> rn_runId (g r) = rn_runId r \<and> run_ok (g r)"
    and comp: "\<And>r s. r \<in> set (db_runs db) \<Longrightarrow> s \<in> set (db_steps db) \<Longrightarrow> P r \<Longrightarrow>
        rn_runId r = st_runId s \<Longrightarrow> compat r s \<Longrightarrow> compat (g r) s"
  shows "wf_inv H (update_runs P g db)"
proof -
  let ?h = "\<lambda>r. if P r then g r else r"
  have key: "map rn_runId (map ?h (db_runs db)) = map rn_runId (db_runs db)"
    using g by auto
  have a: "run_ok r'" if "r' \<in> set (map ?h (db_runs db))" for r'
    using that wf_inv_run [OF inv] g by auto
  have b: "compat r' s" if r': "r' \<in> set (map ?h (db_runs db))" and s: "s \<in> set (db_steps db)" for r' s
  proof -
    from r' obtain r where r: "r \<in> set (db_runs db)" "r' = ?h r" by auto
    have "compat r s" using wf_inv_compat [OF inv r(1) s] .
    then show ?thesis
      using comp [OF r(1) s] g [OF r(1)] r(2) by (cases "P r") (auto simp: compat_def)
  qed
  have c: "\<exists>r\<in>set (map ?h (db_runs db)). rn_runId r = st_runId s" if s: "s \<in> set (db_steps db)" for s
  proof -
    from wf_inv_parent [OF inv s] obtain r where "r \<in> set (db_runs db)" "rn_runId r = st_runId s" ..
    then have "rn_runId (?h r) = st_runId s" "?h r \<in> set (map ?h (db_runs db))"
      using g by auto
    then show ?thesis by blast
  qed
  show ?thesis
  proof (rule wf_invI [OF _ inv], unfold store_simps)
    show "distinct (map rn_runId (map ?h (db_runs db)))" "distinct (map step_key (db_steps db))"
      using wf_inv_keys [OF inv] by (simp_all only: key)
  qed (use a b c wf_inv_lease [OF inv] wf_inv_deps [OF inv] in blast)+
qed

section \<open>Settling keeps the invariant\<close>

definition idle_free :: "string \<Rightarrow> wf_store \<Rightarrow> bool" where
  "idle_free i db \<longleftrightarrow>
     (\<forall>s\<in>set (db_steps db). st_runId s = i \<longrightarrow> st_status s \<notin> {Queued, Awaiting_approval})"

definition still :: "string \<Rightarrow> wf_store \<Rightarrow> bool" where
  "still i db \<longleftrightarrow> (\<forall>s\<in>set (db_steps db). st_runId s = i \<longrightarrow> terminal (st_status s))"

lemma lease_status: "wf_inv H db \<Longrightarrow> s \<in> set (db_steps db) \<Longrightarrow> st_status s \<notin> {Stopping, Cancelling}"
  by (drule (1) wf_inv_lease) (simp add: lease_ok_def)

lemma still_iff:
  assumes "wf_inv H db" and "idle_free i db" and "\<not> list_ex (\<lambda>s. st_status s = Running) (run_steps i db)"
  shows "still i db"
  unfolding still_def
proof (intro ballI impI)
  fix s assume s: "s \<in> set (db_steps db)" "st_runId s = i"
  with assms(2,3) lease_status [OF assms(1) s(1)] show "terminal (st_status s)"
    by (cases "st_status s") (auto simp: terminal_def idle_free_def run_steps_def list_ex_iff)
qed

lemma inv_release:
  assumes inv: "wf_inv H db"
    and P: "\<And>s. s \<in> set (db_steps db) \<Longrightarrow> P s \<Longrightarrow> st_status s \<noteq> Completed"
    and f: "\<And>s. st_runId (f s) = st_runId s \<and> st_stepId (f s) = st_stepId s \<and> st_dependsOn (f s) = st_dependsOn s \<and>
        st_attempt (f s) = st_attempt s \<and> st_status (f s) = status \<and> st_leaseToken (f s) = None \<and>
        st_leaseExpiresAt (f s) = None"
    and status: "terminal status"
  shows "wf_inv H (update_steps P f db)"
proof (rule inv_update_steps [OF inv])
  fix s assume s: "s \<in> set (db_steps db)" "P s"
  have "status \<notin> {Running, Awaiting_approval, Stopping, Cancelling}"
    using status by (auto simp: terminal_def)
  with P [OF s] f show "gentle s (f s) \<and> lease_ok (f s)"
    by (simp add: gentle_def lease_ok_def)
next
  fix r s
  have "st_status (f s) = status" using f by blast
  then show "compat r (f s)" using status by (auto simp: compat_def terminal_def)
qed

lemma release_simps [simp]:
  "st_runId (release status at s) = st_runId s" "st_stepId (release status at s) = st_stepId s"
  "st_dependsOn (release status at s) = st_dependsOn s" "st_attempt (release status at s) = st_attempt s"
  "st_status (release status at s) = status" "st_leaseToken (release status at s) = None"
  "st_leaseExpiresAt (release status at s) = None" "st_retrySafety (release status at s) = st_retrySafety s"
  "st_maxAttempts (release status at s) = st_maxAttempts s"
  by (simp_all add: release_def)

lemma terminal_simps [simp]:
  "terminal Completed" "terminal Failed" "terminal Cancelled" "terminal Needs_review"
  "\<not> terminal Queued" "\<not> terminal Running" "\<not> terminal Awaiting_approval"
  by (simp_all add: terminal_def)

lemma inv_cancel_idle: "wf_inv H db \<Longrightarrow> wf_inv H (cancel_idle i at db)"
  unfolding cancel_idle_def
  by (rule inv_release [where f = "release Cancelled at" and status = Cancelled]) auto

lemma idle_free_cancel [simp]: "idle_free i (cancel_idle i at db)"
  unfolding idle_free_def cancel_idle_def store_simps
proof (intro ballI impI)
  fix s assume "s \<in> set (map (\<lambda>s. if st_runId s = i \<and> st_status s \<in> {Queued, Awaiting_approval}
      then release Cancelled at s else s) (db_steps db))" and i: "st_runId s = i"
  then obtain u where "s = (if st_runId u = i \<and> st_status u \<in> {Queued, Awaiting_approval}
      then release Cancelled at u else u)" unfolding set_map by (elim imageE)
  with i show "st_status s \<notin> {Queued, Awaiting_approval}" by (auto split: if_splits)
qed

lemma inv_quarantine: "wf_inv H db \<Longrightarrow> wf_inv H (quarantine_running i at code db)"
  unfolding quarantine_running_def
  by (rule inv_release [where f = "\<lambda>s. release Needs_review at s\<lparr>st_errorCode := Some code\<rparr>" and
      status = Needs_review]) auto

lemma inv_end_run:
  assumes inv: "wf_inv H db" and "still i db"
    and "\<And>r. P r \<Longrightarrow> rn_runId r = i"
    and "\<And>r. rn_runId (g r) = rn_runId r \<and> rn_cancellationRequestedAt (g r) = rn_cancellationRequestedAt r \<and>
      rn_failureRequestedAt (g r) = rn_failureRequestedAt r \<and> terminal (rn_status (g r))"
  shows "wf_inv H (update_runs P g db)"
proof (rule inv_update_runs [OF inv])
  fix r assume "r \<in> set (db_runs db)" "P r"
  with assms(4) [of r] show "rn_runId (g r) = rn_runId r \<and> run_ok (g r)"
    by (auto simp: run_ok_def terminal_def)
next
  fix r s assume *: "r \<in> set (db_runs db)" "s \<in> set (db_steps db)" "P r" "rn_runId r = st_runId s" "compat r s"
  then have "terminal (st_status s)" using assms(2,3) by (auto simp: still_def)
  then show "compat (g r) s" by (auto simp: compat_def terminal_def)
qed

lemma inv_settleCancellation: "wf_inv H db \<Longrightarrow> wf_inv H (settleCancellation i at q db)"
proof -
  assume inv: "wf_inv H db"
  define db2 where "db2 = cancel_idle i at
    (if q then quarantine_running i at ''WORKFLOW_CANCELLATION_OUTCOME_UNCERTAIN'' db else db)"
  have inv2: "wf_inv H db2" "idle_free i db2"
    using inv by (auto simp: db2_def inv_cancel_idle inv_quarantine)
  show ?thesis
  proof (cases "list_ex (\<lambda>s. st_status s = Running) (run_steps i db2)")
    case True
    with inv2 show ?thesis by (simp add: settleCancellation_def Let_def db2_def)
  next
    case False
    from still_iff [OF inv2 this] have "still i db2" .
    then show ?thesis
      using False inv2 unfolding settleCancellation_def Let_def db2_def [symmetric]
      by (auto intro!: inv_end_run simp: terminal_def)
  qed
qed

lemma inv_settleFailure: "wf_inv H db \<Longrightarrow> wf_inv H (settleFailure i at q db)"
proof -
  assume inv: "wf_inv H db"
  define db2 where "db2 = cancel_idle i at
    (if q then quarantine_running i at ''WORKFLOW_STOP_OUTCOME_UNCERTAIN'' db else db)"
  have inv2: "wf_inv H db2" "idle_free i db2"
    using inv by (auto simp: db2_def inv_cancel_idle inv_quarantine)
  show ?thesis
  proof (cases "list_ex (\<lambda>s. st_status s = Running) (run_steps i db2)")
    case True
    with inv2 show ?thesis by (simp add: settleFailure_def Let_def db2_def)
  next
    case False
    from still_iff [OF inv2 this] have "still i db2" .
    then show ?thesis
      using False inv2 unfolding settleFailure_def Let_def db2_def [symmetric]
      by (auto intro!: inv_end_run simp: terminal_def)
  qed
qed

lemma inv_begin_stop_runs:
  assumes inv: "wf_inv H db" and idle: "idle_free i db"
  shows "wf_inv H (update_runs (\<lambda>r. rn_runId r = i \<and> \<not> terminal (rn_status r))
         (\<lambda>r. r\<lparr>rn_status := Running, rn_failureRequestedAt := F r, rn_failureDeadlineAt := D r,
           rn_errorCode := E r, rn_updatedAt := at\<rparr>) db)"
proof (rule inv_update_runs [OF inv])
  fix r :: wf_run and s assume "s \<in> set (db_steps db)" "rn_runId r = i \<and> \<not> terminal (rn_status r)" "rn_runId r = st_runId s"
  with idle show "compat (r\<lparr>rn_status := Running, rn_failureRequestedAt := F r, rn_failureDeadlineAt := D r,
           rn_errorCode := E r, rn_updatedAt := at\<rparr>) s"
    by (auto simp: compat_def idle_free_def)
qed (auto simp: run_ok_def)

lemma inv_beginFailureStop: "wf_inv H db \<Longrightarrow> wf_inv H (beginFailureStop i at deadline code db)"
  unfolding beginFailureStop_def
  by (intro inv_settleFailure inv_begin_stop_runs inv_cancel_idle) simp_all

lemma inv_settleRun: "wf_inv H db \<Longrightarrow> wf_inv H (settleRun i at db)"
proof -
  assume inv: "wf_inv H db"
  have *: "still i db" if "\<not> list_ex (\<lambda>s. \<not> terminal (st_status s)) (run_steps i db)"
    using that by (auto simp: still_def run_steps_def list_ex_iff)
  show ?thesis
    using inv unfolding settleRun_def Let_def
    by (auto intro!: inv_settleCancellation inv_settleFailure inv_end_run * simp: terminal_def
        split: option.splits)
qed

section \<open>What never changes back\<close>

text \<open>Completed rows are immutable, and a requested cancellation or failure stop is permanent.\<close>

definition stays_requested :: "wf_run \<Rightarrow> wf_run \<Rightarrow> bool" where
  "stays_requested r r' \<longleftrightarrow> rn_runId r' = rn_runId r \<and>
     (rn_cancellationRequestedAt r \<noteq> None \<longrightarrow> rn_cancellationRequestedAt r' = rn_cancellationRequestedAt r) \<and>
     (rn_failureRequestedAt r \<noteq> None \<longrightarrow> rn_failureRequestedAt r' = rn_failureRequestedAt r)"

definition evolves :: "wf_store \<Rightarrow> wf_store \<Rightarrow> bool" where
  "evolves db db' \<longleftrightarrow>
     (\<forall>s\<in>set (db_steps db). st_status s = Completed \<longrightarrow> s \<in> set (db_steps db')) \<and>
     (\<forall>r\<in>set (db_runs db). \<exists>r'\<in>set (db_runs db'). stays_requested r r')"

lemma evolves_refl [simp]: "evolves db db"
  by (auto simp: evolves_def stays_requested_def)

lemma evolves_trans: "evolves db db1 \<Longrightarrow> evolves db1 db2 \<Longrightarrow> evolves db db2"
  unfolding evolves_def stays_requested_def by (metis (no_types, opaque_lifting))

lemma evolves_event [simp]: "evolves db (appendEvent i t p at db') = evolves db db'"
  by (simp add: evolves_def)

lemma evolves_update_steps:
  assumes "\<And>s. s \<in> set (db_steps db) \<Longrightarrow> P s \<Longrightarrow> st_status s \<noteq> Completed"
  shows "evolves db (update_steps P f db)"
  unfolding evolves_def store_simps
proof (intro conjI ballI impI)
  fix s assume s: "s \<in> set (db_steps db)" "st_status s = Completed"
  then have "(if P s then f s else s) = s" using assms by auto
  with s(1) show "s \<in> set (map (\<lambda>s. if P s then f s else s) (db_steps db))"
    unfolding set_map by (intro image_eqI [of s _ s]) simp_all
qed (auto simp: stays_requested_def)

lemma evolves_update_runs:
  assumes "\<And>r. P r \<Longrightarrow> stays_requested r (g r)"
  shows "evolves db (update_runs P g db)"
  unfolding evolves_def store_simps
proof (intro conjI ballI impI)
  fix r assume "r \<in> set (db_runs db)"
  then have "(if P r then g r else r) \<in> set (map (\<lambda>r. if P r then g r else r) (db_runs db))"
    unfolding set_map by (rule imageI)
  moreover have "stays_requested r (if P r then g r else r)"
    using assms by (simp add: stays_requested_def)
  ultimately show "\<exists>r'\<in>set (map (\<lambda>r. if P r then g r else r) (db_runs db)). stays_requested r r'" ..
qed simp

lemma evolves_cancel_idle: "evolves db (cancel_idle i at db)"
  unfolding cancel_idle_def by (rule evolves_update_steps) auto

lemma evolves_quarantine: "evolves db (quarantine_running i at code db)"
  unfolding quarantine_running_def by (rule evolves_update_steps) auto

lemma evolves_end_run:
  assumes "\<And>r. rn_runId (g r) = rn_runId r \<and> rn_cancellationRequestedAt (g r) = rn_cancellationRequestedAt r \<and>
      rn_failureRequestedAt (g r) = rn_failureRequestedAt r"
  shows "evolves db (update_runs P g db)"
  by (rule evolves_update_runs) (simp add: stays_requested_def assms)

lemma evolves_settle_first:
  "evolves db (cancel_idle i at (if q then quarantine_running i at code db else db))"
  by (cases q) (auto intro: evolves_cancel_idle evolves_trans [OF evolves_quarantine evolves_cancel_idle])

lemma evolves_settleCancellation: "evolves db (settleCancellation i at q db)"
proof -
  define db2 where "db2 = cancel_idle i at
    (if q then quarantine_running i at ''WORKFLOW_CANCELLATION_OUTCOME_UNCERTAIN'' db else db)"
  have 1: "evolves db db2" unfolding db2_def by (rule evolves_settle_first)
  have 2: "evolves db (update_runs P g db2)" if "\<And>r. rn_runId (g r) = rn_runId r \<and>
      rn_cancellationRequestedAt (g r) = rn_cancellationRequestedAt r \<and>
      rn_failureRequestedAt (g r) = rn_failureRequestedAt r" for P g
    by (rule evolves_trans [OF 1 evolves_end_run]) (rule that)
  show ?thesis
    unfolding settleCancellation_def Let_def db2_def [symmetric] by (simp add: 1 2 del: store_simps)
qed

lemma evolves_settleFailure: "evolves db (settleFailure i at q db)"
proof -
  define db2 where "db2 = cancel_idle i at
    (if q then quarantine_running i at ''WORKFLOW_STOP_OUTCOME_UNCERTAIN'' db else db)"
  have 1: "evolves db db2" unfolding db2_def by (rule evolves_settle_first)
  have 2: "evolves db (update_runs P g db2)" if "\<And>r. rn_runId (g r) = rn_runId r \<and>
      rn_cancellationRequestedAt (g r) = rn_cancellationRequestedAt r \<and>
      rn_failureRequestedAt (g r) = rn_failureRequestedAt r" for P g
    by (rule evolves_trans [OF 1 evolves_end_run]) (rule that)
  show ?thesis
    unfolding settleFailure_def Let_def db2_def [symmetric] by (simp add: 1 2 del: store_simps)
qed

lemma evolves_beginFailureStop: "evolves db (beginFailureStop i at deadline code db)"
  unfolding beginFailureStop_def
  by (rule evolves_trans [OF evolves_trans [OF evolves_cancel_idle evolves_update_runs] evolves_settleFailure])
    (auto simp: stays_requested_def)

lemma evolves_settleRun: "evolves db (settleRun i at db)"
  unfolding settleRun_def Let_def
  by (auto intro: evolves_settleCancellation evolves_settleFailure evolves_end_run split: option.splits)

section \<open>Every operation keeps the invariant\<close>

text \<open>The next store is sound and a later version of the one before.\<close>

definition sound_step :: "(string \<Rightarrow> string) \<Rightarrow> wf_store \<Rightarrow> wf_store \<Rightarrow> bool" where
  "sound_step H db db' \<longleftrightarrow> (wf_inv H db \<longrightarrow> wf_inv H db' \<and> evolves db db')"

lemma sound_refl [simp]: "sound_step H db db"
  by (simp add: sound_step_def)

lemma sound_trans: "sound_step H db db1 \<Longrightarrow> sound_step H db1 db2 \<Longrightarrow> sound_step H db db2"
  unfolding sound_step_def using evolves_trans by blast

lemma sound_event [simp]: "sound_step H db (appendEvent i t p at db') = sound_step H db db'"
  by (simp add: sound_step_def)

lemma sound_settles [intro]:
  "sound_step H db (settleCancellation i at q db)"
  "sound_step H db (settleFailure i at q db)"
  "sound_step H db (beginFailureStop i at deadline code db)"
  "sound_step H db (settleRun i at db)"
  "sound_step H db (cancel_idle i at db)"
  by (simp_all add: sound_step_def inv_settleCancellation inv_settleFailure inv_beginFailureStop inv_settleRun
      inv_cancel_idle evolves_settleCancellation evolves_settleFailure evolves_beginFailureStop
      evolves_settleRun evolves_cancel_idle)

lemma the_record_iff: "the_record i db = Inr (db', x) \<longleftrightarrow> db' = db \<and> get i db = Some x"
  by (auto simp: the_record_def split: option.splits)

lemma holds_lease_status: "wf_inv H db \<Longrightarrow> s \<in> set (db_steps db) \<Longrightarrow> holds_lease i j tok s \<Longrightarrow>
    st_status s \<in> {Running, Awaiting_approval}"
  by (drule (1) wf_inv_lease) (auto simp: lease_ok_def holds_lease_def)

lemma sound_release_lease:
  assumes f: "\<And>s. st_runId (f s) = st_runId s \<and> st_stepId (f s) = st_stepId s \<and> st_dependsOn (f s) = st_dependsOn s \<and>
        st_attempt (f s) = st_attempt s \<and> st_status (f s) = status \<and> st_leaseToken (f s) = None \<and>
        st_leaseExpiresAt (f s) = None"
    and "terminal status"
  shows "sound_step H db (update_steps (holds_lease i j tok) f db)"
  unfolding sound_step_def
proof (intro impI conjI)
  assume inv: "wf_inv H db"
  have P: "st_status s \<noteq> Completed" if "s \<in> set (db_steps db)" "holds_lease i j tok s" for s
    using holds_lease_status [OF inv that] by auto
  show "wf_inv H (update_steps (holds_lease i j tok) f db)"
    by (rule inv_release [OF inv P f assms(2)])
  show "evolves db (update_steps (holds_lease i j tok) f db)"
    by (rule evolves_update_steps) (rule P)
qed

lemma sound_release_error:
  "terminal status \<Longrightarrow> sound_step H db (update_steps (holds_lease i j tok)
     (\<lambda>s. release status at s\<lparr>st_errorCode := c\<rparr>) db)"
  by (rule sound_release_lease [where status = status]) simp_all

lemmas sound_thens = sound_settles [THEN sound_trans [rotated]]

lemma sound_completeStep: "completeStep H' i j tok v now db = Inr (db', x) \<Longrightarrow> sound_step H db db'"
  unfolding completeStep_def bindR_Inr_iff
  by (auto simp: the_record_iff bindR_Inr_iff intro!: sound_thens sound_release_lease [where status = Completed]
      simp del: store_simps)

lemma sound_acknowledgeCancellation:
  "acknowledgeCancellation i j tok u c now db = Inr (db', x) \<Longrightarrow> sound_step H db db'"
  unfolding acknowledgeCancellation_def Let_def
  by (cases u) (auto simp: the_record_iff bindR_Inr_iff simp del: store_simps
      intro!: sound_thens sound_release_error)

lemma sound_acknowledgeStop:
  "acknowledgeStop i j tok u c now db = Inr (db', x) \<Longrightarrow> sound_step H db db'"
  unfolding acknowledgeStop_def Let_def
  by (cases u) (auto simp: the_record_iff bindR_Inr_iff simp del: store_simps
      intro!: sound_thens sound_release_error)

lemma sound_quarantineStep:
  "quarantineStep i j tok c dl now db = Inr (db', x) \<Longrightarrow> sound_step H db db'"
  unfolding quarantineStep_def Let_def
  by (auto simp: the_record_iff bindR_Inr_iff simp del: store_simps split: option.splits if_splits
      intro!: sound_thens sound_release_error)

lemma leased_step_Some:
  "leased_step i j tok now P db = Some s \<Longrightarrow>
     s \<in> set (db_steps db) \<and> holds_lease i j tok s \<and> (\<exists>e. st_leaseExpiresAt s = Some e \<and> now < e) \<and>
     (\<exists>r\<in>set (db_runs db). rn_runId r = i \<and> P r)"
  unfolding leased_step_def
  by (auto simp: find_Some_iff holds_lease_def list_ex_iff split: option.splits)

lemma the_leased_Inr:
  "the_leased i j tok now P db m = Inr s \<Longrightarrow>
     s \<in> set (db_steps db) \<and> holds_lease i j tok s \<and> (\<exists>e. st_leaseExpiresAt s = Some e \<and> now < e) \<and>
     (\<exists>r\<in>set (db_runs db). rn_runId r = i \<and> P r)"
  unfolding the_leased_def by (auto dest: leased_step_Some split: option.splits)

text \<open>A leased step cannot go back to the queue: the table of transitions has no such entry.\<close>

lemma no_requeue:
  assumes "wf_inv H db" and "the_leased i j tok now P db m = Inr s"
  shows "validateWorkflowTransition (st_status s) Queued =
     Inl (Error (''invalid workflow transition '' @ status_text (st_status s) @ '' -> queued''))"
proof -
  have "st_status s \<in> {Running, Awaiting_approval}"
    using the_leased_Inr [OF assms(2)] holds_lease_status [OF assms(1)] by blast
  then show ?thesis by (auto simp: validateWorkflowTransition_def)
qed

lemma sound_failStep: "failStep i j tok c u dl now db = Inr (db', x) \<Longrightarrow> sound_step H db db'"
proof -
  assume f: "failStep i j tok c u dl now db = Inr (db', x)"
  then obtain code row where c: "validateWorkflowErrorCode c = Inr code"
    and row: "the_leased i j tok now not_pending db ''workflow step lease is missing or stale'' = Inr row"
    unfolding failStep_def bindR_Inr_iff by blast
  let ?status = "if u then Needs_review
    else if \<not> u \<and> st_retrySafety row = Retry_safe \<and> int (st_attempt row) < st_maxAttempts row then Queued else Failed"
  show ?thesis
  proof (cases "wf_inv H db")
    case True
    from f c row no_requeue [OF True row] have "?status \<noteq> Queued"
      by (auto simp: failStep_def Let_def split: if_splits)
    then have t: "terminal ?status" by (auto split: if_splits)
    with f c row show ?thesis
      by (auto simp: failStep_def Let_def the_record_iff bindR_Inr_iff simp del: store_simps split: if_splits
          intro!: sound_thens sound_release_error)
  qed (simp add: sound_step_def)
qed

lemma find_run_Some: "find_run i db = Some r \<Longrightarrow> r \<in> set (db_runs db) \<and> rn_runId r = i"
  by (auto simp: find_run_def find_Some_iff)

lemma find_run_unique:
  assumes "wf_inv H db" and "r \<in> set (db_runs db)"
  shows "find_run (rn_runId r) db = Some r"
proof -
  obtain r' where r': "find_run (rn_runId r) db = Some r'"
    using assms(2) unfolding find_run_def
    by (cases "List.find (\<lambda>r'. rn_runId r' = rn_runId r) (db_runs db)") (auto simp: find_None_iff)
  with find_run_Some [OF r'] assms wf_inv_keys [OF assms(1)] show ?thesis
    by (auto simp: distinct_map inj_on_def)
qed

lemma sound_awaitApproval: "awaitApproval i j tok now db = Inr (db', x) \<Longrightarrow> sound_step H db db'"
  unfolding sound_step_def
proof (intro impI)
  assume a: "awaitApproval i j tok now db = Inr (db', x)" and inv: "wf_inv H db"
  let ?f = "\<lambda>s. s\<lparr>st_status := Awaiting_approval, st_updatedAt := now\<rparr>"
  let ?g = "\<lambda>r. r\<lparr>rn_status := Awaiting_approval, rn_updatedAt := now\<rparr>"
  let ?db1 = "update_steps (holds_lease i j tok) ?f db"
  from a obtain row where row: "the_leased i j tok now not_pending db ''workflow step lease is missing or stale'' = Inr row"
    and db': "db' = appendEvent i ''workflow.step.awaiting-approval'' [(''stepId'', JStr j)] now
       (update_runs (\<lambda>r. rn_runId r = i) ?g ?db1)"
    unfolding awaitApproval_def by (auto simp: bindR_Inr_iff the_record_iff simp del: store_simps)
  from the_leased_Inr [OF row] obtain r where r: "r \<in> set (db_runs db)" "rn_runId r = i" "not_pending r" by blast
  have np: "not_pending r'" if "r' \<in> set (db_runs db)" "rn_runId r' = i" for r'
    using that r find_run_unique [OF inv] by (metis option.inject)
  have 1: "wf_inv H ?db1"
  proof (rule inv_update_steps [OF inv])
    fix s assume s: "s \<in> set (db_steps db)" "holds_lease i j tok s"
    with holds_lease_status [OF inv s] wf_inv_lease [OF inv s(1)]
    show "gentle s (?f s) \<and> lease_ok (?f s)" by (auto simp: gentle_def lease_ok_def)
  next
    fix r' s assume s: "r' \<in> set (db_runs db)" "s \<in> set (db_steps db)" "holds_lease i j tok s" "rn_runId r' = st_runId s"
    then have "not_pending r'" using np by (simp add: holds_lease_def)
    with wf_inv_compat [OF inv s(1,2)] holds_lease_status [OF inv s(2,3)] s(4)
    show "compat r' (?f s)" by (auto simp: compat_def)
  qed
  have "wf_inv H (update_runs (\<lambda>r. rn_runId r = i) ?g ?db1)"
    by (rule inv_update_runs [OF 1]) (auto simp: run_ok_def compat_def not_pending_def)
  moreover have "evolves db (update_runs (\<lambda>r. rn_runId r = i) ?g ?db1)"
  proof (rule evolves_trans)
    show "evolves db ?db1" by (intro evolves_update_steps) (auto dest: holds_lease_status [OF inv])
    show "evolves ?db1 (update_runs (\<lambda>r. rn_runId r = i) ?g ?db1)" by (rule evolves_end_run) simp
  qed
  ultimately show "wf_inv H db' \<and> evolves db db'" by (simp add: db' del: store_simps)
qed

lemma sound_resume: "resume i ab now db = Inr (db', x) \<Longrightarrow> sound_step H db db'"
  unfolding sound_step_def
proof (intro impI)
  assume a: "resume i ab now db = Inr (db', x)" and inv: "wf_inv H db"
  let ?P = "\<lambda>s. st_runId s = i \<and> st_status s = Awaiting_approval"
  let ?g = "\<lambda>r. r\<lparr>rn_status := Queued, rn_updatedAt := now\<rparr>"
  let ?db1 = "update_steps ?P (release Queued now) db"
  from a obtain r where r: "find_run i db = Some r" by (auto simp: resume_def bindR_Inr_iff split: option.splits)
  show "wf_inv H db' \<and> evolves db db'"
  proof (cases "rn_status r = Awaiting_approval")
    case False
    with a r inv show ?thesis
      by (auto simp: resume_def bindR_Inr_iff the_record_iff split: if_splits)
  next
    case True
    with a r have db': "db' = update_runs (\<lambda>r. rn_runId r = i) ?g ?db1" and np: "not_pending r"
      by (auto simp: resume_def bindR_Inr_iff the_record_iff not_pending_def simp del: store_simps split: if_splits)
    have same: "r' = r" if "r' \<in> set (db_runs db)" "rn_runId r' = i" for r'
      using find_run_unique [OF inv that(1)] that(2) r by simp
    have 1: "wf_inv H ?db1"
    proof (rule inv_update_steps [OF inv])
      fix s assume "s \<in> set (db_steps db)" "?P s"
      then show "gentle s (release Queued now s) \<and> lease_ok (release Queued now s)"
        by (auto simp: gentle_def lease_ok_def)
    next
      fix r' :: wf_run and s :: wf_step assume "r' \<in> set (db_runs db)" "?P s" "rn_runId r' = st_runId s"
      then have "r' = r" using same by auto
      with np True show "compat r' (release Queued now s)" by (simp add: compat_def)
    qed
    have "wf_inv H (update_runs (\<lambda>r. rn_runId r = i) ?g ?db1)"
      by (rule inv_update_runs [OF 1]) (auto simp: run_ok_def compat_def not_pending_def)
    moreover have "evolves db (update_runs (\<lambda>r. rn_runId r = i) ?g ?db1)"
    proof (rule evolves_trans)
      show "evolves db ?db1" by (intro evolves_update_steps) auto
      show "evolves ?db1 (update_runs (\<lambda>r. rn_runId r = i) ?g ?db1)" by (rule evolves_end_run) simp
    qed
    ultimately show ?thesis by (simp add: db' del: store_simps)
  qed
qed

lemma sound_request:
  "sound_step H db (update_runs (\<lambda>r. rn_runId r = i)
     (\<lambda>r. r\<lparr>rn_cancellationRequestedAt := coalesce (rn_cancellationRequestedAt r) now,
        rn_cancellationDeadlineAt := coalesce (rn_cancellationDeadlineAt r) deadline,
        rn_updatedAt := now\<rparr>) (cancel_idle i now db))"
  unfolding sound_step_def
proof (intro impI conjI)
  let ?g = "\<lambda>r. r\<lparr>rn_cancellationRequestedAt := coalesce (rn_cancellationRequestedAt r) now,
        rn_cancellationDeadlineAt := coalesce (rn_cancellationDeadlineAt r) deadline,
        rn_updatedAt := now\<rparr>"
  assume inv: "wf_inv H db"
  have idle: "idle_free i (cancel_idle i now db)" by simp
  show "wf_inv H (update_runs (\<lambda>r. rn_runId r = i) ?g (cancel_idle i now db))"
  proof (rule inv_update_runs [OF inv_cancel_idle [OF inv]])
    fix r assume "r \<in> set (db_runs (cancel_idle i now db))" "rn_runId r = i"
    then show "rn_runId (?g r) = rn_runId r \<and> run_ok (?g r)"
      using wf_inv_run [OF inv_cancel_idle [OF inv]] by (simp add: run_ok_def)
  next
    fix r s assume "s \<in> set (db_steps (cancel_idle i now db))" "rn_runId r = i" "rn_runId r = st_runId s" "compat r s"
    then show "compat (?g r) s" using idle by (auto simp: compat_def idle_free_def)
  qed
  show "evolves db (update_runs (\<lambda>r. rn_runId r = i) ?g (cancel_idle i now db))"
    by (rule evolves_trans [OF evolves_cancel_idle evolves_update_runs]) (auto simp: stays_requested_def)
qed

lemma sound_requestCancellation:
  "requestCancellation i dl ab now db = Inr (db', x) \<Longrightarrow> sound_step H db db'"
  unfolding requestCancellation_def Let_def
  by (auto simp: bindR_Inr_iff the_record_iff sound_request simp del: store_simps split: option.splits if_splits)

lemma sound_finalizeCancellation:
  "finalizeCancellation i q ab now db = Inr (db', x) \<Longrightarrow> sound_step H db db'"
  unfolding finalizeCancellation_def
  by (auto simp: bindR_Inr_iff the_record_iff simp del: store_simps split: option.splits if_splits)

lemma sound_cancel: "cancel i ab now db = Inr (db', x) \<Longrightarrow> sound_step H db db'"
  unfolding cancel_def
  by (auto simp: bindR_Inr_iff split: if_splits
      intro: sound_requestCancellation sound_trans [OF sound_requestCancellation sound_finalizeCancellation])

lemma sound_renewStepLease: "renewStepLease i j tok e now db = (db', b) \<Longrightarrow> sound_step H db db'"
proof -
  let ?f = "\<lambda>s. s\<lparr>st_leaseExpiresAt := Some e, st_updatedAt := now\<rparr>"
  let ?P = "renewable i j tok now db"
  assume "renewStepLease i j tok e now db = (db', b)"
  then have "db' = db \<or> db' = update_steps ?P ?f db" by (auto simp: renewStepLease_def split: if_splits)
  moreover have "sound_step H db (update_steps ?P ?f db)"
    unfolding sound_step_def
  proof (intro impI conjI)
    assume inv: "wf_inv H db"
    show "wf_inv H (update_steps ?P ?f db)"
    proof (rule inv_update_steps [OF inv])
      fix s assume s: "s \<in> set (db_steps db)" "?P s"
      with wf_inv_lease [OF inv s(1)] show "gentle s (?f s) \<and> lease_ok (?f s)"
        by (auto simp: gentle_def lease_ok_def renewable_def holds_lease_def)
    next
      fix r s assume "r \<in> set (db_runs db)" "s \<in> set (db_steps db)"
      from wf_inv_compat [OF inv this] show "compat r (?f s)" by (simp add: compat_def)
    qed
    show "evolves db (update_steps ?P ?f db)"
      by (rule evolves_update_steps) (auto simp: renewable_def)
  qed
  ultimately show ?thesis by auto
qed

section \<open>Creation\<close>

lemma new_step_Inr:
  "new_step H redact i now s = Inr t \<Longrightarrow> st_runId t = i \<and> st_stepId t = sd_id s \<and> st_status t = Queued \<and>
     st_attempt t = 0 \<and> st_leaseToken t = None \<and> st_leaseExpiresAt t = None \<and> st_dependsOn t = sd_dependsOn s"
  by (auto simp: new_step_def bindR_Inr_iff split: prod.splits)

lemma new_steps_keys:
  "mapR (new_step H redact i now) ss = Inr ts \<Longrightarrow> map st_stepId ts = map sd_id ss \<and>
     (\<forall>t\<in>set ts. st_runId t = i \<and> st_status t = Queued \<and> st_attempt t = 0 \<and> st_leaseToken t = None \<and>
       st_leaseExpiresAt t = None)"
proof (induction ss arbitrary: ts)
  case (Cons s ss)
  then obtain t ts' where "new_step H redact i now s = Inr t" "mapR (new_step H redact i now) ss = Inr ts'"
    "ts = t # ts'" by (auto simp: bindR_Inr_iff)
  with Cons.IH [of ts'] new_step_Inr [of H redact i now s t] show ?case by simp
qed simp

lemma find_run_None: "find_run i db = None \<longleftrightarrow> i \<notin> rn_runId ` set (db_runs db)"
  by (auto simp: find_run_def find_None_iff)

lemma inv_insert:
  assumes inv: "wf_inv H db" and new: "find_run (rn_runId r) db = None"
    and r: "rn_status r = Queued" "not_pending r"
    and steps: "\<forall>t\<in>set ts. st_runId t = rn_runId r \<and> st_status t = Queued \<and> st_attempt t = 0 \<and>
      st_leaseToken t = None \<and> st_leaseExpiresAt t = None"
    and keys: "distinct (map st_stepId ts)"
    and defs: "\<forall>d\<in>set ds. definition_ok H d"
    and db': "db_definitions db' = ds" "db_runs db' = db_runs db @ [r]" "db_steps db' = db_steps db @ ts"
  shows "wf_inv H db'"
proof -
  have fresh: "rn_runId r \<notin> rn_runId ` set (db_runs db)" using new by (simp add: find_run_None)
  have old: "st_runId s \<noteq> rn_runId r" if s: "s \<in> set (db_steps db)" for s
    using wf_inv_parent [OF inv s] fresh by (metis image_eqI)
  have inj: "distinct (map step_key ts)"
    using keys steps by (auto simp: distinct_map inj_on_def step_key_def)
  have disj: "step_key ` set (db_steps db) \<inter> step_key ` set ts = {}"
    using old steps by (force simp: step_key_def)
  have "deps_done (db_steps db @ ts) s" if "s \<in> set (db_steps db)" for s
    using wf_inv_deps [OF inv that] by (rule deps_done_mono) simp
  moreover have "deps_done (db_steps db @ ts) t" "lease_ok t" if "t \<in> set ts" for t
    using steps that by (auto simp: deps_done_def lease_ok_def)
  moreover have "compat r' s" if "r' \<in> set (db_runs db) \<union> {r}" "s \<in> set (db_steps db) \<union> set ts" for r' s
  proof (cases "r' = r")
    case True
    then show ?thesis using r old steps that(2) by (auto simp: compat_def)
  next
    case False
    with that(1) have r': "r' \<in> set (db_runs db)" by simp
    show ?thesis
    proof (cases "s \<in> set (db_steps db)")
      case False
      with that(2) steps have "st_runId s = rn_runId r" by simp
      moreover have "rn_runId r' \<noteq> rn_runId r" using fresh r' by (metis image_eqI)
      ultimately show ?thesis by (simp add: compat_def)
    qed (rule wf_inv_compat [OF inv r'])
  qed
  ultimately show ?thesis
    unfolding wf_inv_def db'
    using wf_inv_keys [OF inv] fresh inj disj wf_inv_parent [OF inv] wf_inv_run [OF inv] wf_inv_lease [OF inv]
      steps defs r(1)
    by (auto simp: run_ok_def) 
qed

lemma sound_create: "create H redact v ab now db = Inr (db', x) \<Longrightarrow> sound_step H db db'"
  unfolding sound_step_def
proof (intro impI)
  assume c: "create H redact v ab now db = Inr (db', x)" and inv: "wf_inv H db"
  from c obtain request def val digest avail where
    1: "validateWorkflowRunRequest H v = Inr request"
      "validateWorkflowDefinition H (definition_json (wr_definition request)) = Inr def"
      "durableProjection H redact (wr_input request) = Inr (val, digest, avail)"
    unfolding create_def bindR_Inr_iff by (auto split: prod.splits)
  have ok: "definition_ok H def" using validate_definition_ok [OF 1(2)] .
  show "wf_inv H db' \<and> evolves db db'"
  proof (cases "List.find (\<lambda>r. rn_principalId r = wr_principalId request \<and>
            rn_idempotencyKey r = wr_idempotencyKey request) (db_runs db)")
    case (Some existing)
    with c 1 inv show ?thesis unfolding create_def by (auto simp: bindR_Inr_iff the_record_iff)
  next
    case None
    from c 1 None obtain run steps where
      new: "find_run (wr_runId request) db = None"
      and steps: "mapR (new_step H redact (wr_runId request) now) (wd_steps def) = Inr steps"
      and run: "rn_runId run = wr_runId request" "rn_status run = Queued" "not_pending run"
      and db': "db_runs db' = db_runs db @ [run]" "db_steps db' = db_steps db @ steps"
        "db_definitions db' = db_definitions (insert_definition def db)"
      unfolding create_def bindR_Inr_iff Let_def
      by (fastforce simp: the_record_iff guardR_Inr_iff bindR_Inr_iff not_pending_def insert_definition_def
          split: prod.splits)
    have "\<forall>d\<in>set (db_definitions (insert_definition def db)). definition_ok H d"
      using ok inv by (auto simp: insert_definition_def wf_inv_def)
    moreover have "distinct (map st_stepId steps)"
      using new_steps_keys [OF steps] ok by (simp add: definition_ok_def steps_ok_def)
    ultimately have "wf_inv H db'"
      using new_steps_keys [OF steps] new run db' by (intro inv_insert [OF inv, of run steps]) auto
    moreover have "evolves db db'"
      unfolding evolves_def db' by (auto simp: stays_requested_def)
    ultimately show ?thesis by simp
  qed
qed

section \<open>Claiming\<close>

definition rows_ok :: "(wf_step \<times> wf_definition) list \<Rightarrow> wf_store \<Rightarrow> bool" where
  "rows_ok rows db \<longleftrightarrow>
     (\<forall>(s, d)\<in>set rows. \<forall>u\<in>set (db_steps db). same_row s u \<longrightarrow> st_dependsOn u = st_dependsOn s)"

lemma rows_ok_update:
  assumes "rows_ok rows db"
    and "\<And>u. st_runId (f u) = st_runId u \<and> st_stepId (f u) = st_stepId u \<and> st_dependsOn (f u) = st_dependsOn u"
  shows "rows_ok rows (update_steps P f db)"
  using assms by (fastforce simp: rows_ok_def same_row_def)

lemma deps_completed_all:
  assumes inv: "wf_inv H db" and c: "deps_completed db s" and d: "d \<in> set (st_dependsOn s)"
  shows "\<exists>u\<in>set (db_steps db). st_runId u = st_runId s \<and> st_stepId u = d \<and> st_status u = Completed"
proof -
  let ?F = "filter (\<lambda>u. st_runId u = st_runId s \<and> st_stepId u \<in> set (st_dependsOn s)) (db_steps db)"
  have d0: "distinct (db_steps db)" and inj: "inj_on step_key (set (db_steps db))"
    using wf_inv_keys [OF inv] unfolding distinct_map by blast+
  have "inj_on st_stepId (set ?F)"
  proof (rule inj_onI)
    fix u v assume "u \<in> set ?F" "v \<in> set ?F" "st_stepId u = st_stepId v"
    then show "u = v" using inj by (intro inj_onD [OF inj]) (auto simp: step_key_def)
  qed
  with d0 have "distinct (map st_stepId ?F)" unfolding distinct_map by simp
  then have "card (set (map st_stepId ?F)) = length (st_dependsOn s)"
    using distinct_card [of "map st_stepId ?F"] c by (simp add: deps_completed_def Let_def)
  then have "card (set (st_dependsOn s)) \<le> card (set (map st_stepId ?F))"
    using card_length [of "st_dependsOn s"] by simp
  moreover have "set (map st_stepId ?F) \<subseteq> set (st_dependsOn s)" by auto
  ultimately have "set (map st_stepId ?F) = set (st_dependsOn s)"
    by (intro card_seteq) simp_all
  with d have "d \<in> st_stepId ` set ?F" unfolding set_map by simp
  then obtain u where "u \<in> set ?F" "st_stepId u = d" by (elim imageE) blast
  moreover from this(1) c have "st_status u = Completed"
    by (auto simp: deps_completed_def Let_def list_all_iff)
  ultimately show ?thesis by auto
qed

lemma sound_input_unavailable: "sound_step H db (input_unavailable now s db)"
  unfolding sound_step_def
proof (intro impI)
  assume inv: "wf_inv H db"
  let ?P = "\<lambda>u. same_row s u \<and> st_status u = Queued"
  let ?f = "\<lambda>u. u\<lparr>st_status := Needs_review, st_errorCode := Some ''WORKFLOW_INPUT_REDACTED'', st_updatedAt := now\<rparr>"
  let ?Q = "\<lambda>r. rn_runId r = st_runId s \<and> rn_status r \<in> {Queued, Running}"
  let ?g = "\<lambda>r. r\<lparr>rn_status := Needs_review, rn_errorCode := Some ''WORKFLOW_INPUT_REDACTED'', rn_updatedAt := now\<rparr>"
  have 1: "wf_inv H (update_steps ?P ?f db)"
  proof (rule inv_update_steps [OF inv])
    fix u assume u: "u \<in> set (db_steps db)" "?P u"
    with wf_inv_lease [OF inv u(1)] show "gentle u (?f u) \<and> lease_ok (?f u)"
      by (simp add: gentle_def lease_ok_def)
  qed (simp add: compat_def)
  have "wf_inv H (update_runs ?Q ?g (update_steps ?P ?f db))"
    by (rule inv_update_runs [OF 1]) (auto simp: run_ok_def compat_def not_pending_def)
  moreover have "evolves db (update_runs ?Q ?g (update_steps ?P ?f db))"
    by (rule evolves_trans [OF evolves_update_steps evolves_end_run]) auto
  ultimately show "wf_inv H (input_unavailable now s db) \<and> evolves db (input_unavailable now s db)"
    by (simp add: input_unavailable_def del: store_simps)
qed

lemma sound_mark_claimed:
  assumes c: "deps_completed db s"
    and rows: "\<forall>u\<in>set (db_steps db). same_row s u \<longrightarrow> st_dependsOn u = st_dependsOn s"
  shows "sound_step H db (mark_claimed now tok ex s db)"
  unfolding sound_step_def
proof (intro impI)
  assume inv: "wf_inv H db"
  let ?P = "\<lambda>u. same_row s u \<and> st_status u = Queued"
  let ?Q = "\<lambda>r. rn_runId r = st_runId s \<and> rn_status r = Queued"
  let ?g = "\<lambda>r. r\<lparr>rn_status := Running, rn_updatedAt := now\<rparr>"
  have 1: "wf_inv H (update_steps ?P (claimed now tok ex) db)"
  proof (rule inv_update_rows [OF inv])
    fix u assume u: "u \<in> set (db_steps db)" "?P u"
    have "deps_done (db_steps db) (claimed now tok ex u)"
      using deps_completed_all [OF inv c] rows u by (auto simp: deps_done_def claimed_def same_row_def)
    with u show "st_runId (claimed now tok ex u) = st_runId u \<and> st_stepId (claimed now tok ex u) = st_stepId u \<and>
        st_status u \<noteq> Completed \<and> lease_ok (claimed now tok ex u) \<and>
        deps_done (db_steps db) (claimed now tok ex u)"
      by (simp add: claimed_def lease_ok_def)
  next
    fix r u assume u: "r \<in> set (db_runs db)" "u \<in> set (db_steps db)" "?P u" "rn_runId r = st_runId u"
    from wf_inv_compat [OF inv u(1,2)] u(3,4) show "compat r (claimed now tok ex u)"
      by (auto simp: compat_def claimed_def)
  qed
  have "wf_inv H (update_runs ?Q ?g (update_steps ?P (claimed now tok ex) db))"
    by (rule inv_update_runs [OF 1]) (auto simp: run_ok_def compat_def not_pending_def)
  moreover have "evolves db (update_runs ?Q ?g (update_steps ?P (claimed now tok ex) db))"
    by (rule evolves_trans [OF evolves_update_steps evolves_end_run]) auto
  ultimately show "wf_inv H (mark_claimed now tok ex s db) \<and> evolves db (mark_claimed now tok ex s db)"
    by (simp add: mark_claimed_def del: store_simps)
qed

lemma rows_ok_Cons: "rows_ok ((s, d) # rows) db \<Longrightarrow>
    rows_ok rows db \<and> (\<forall>u\<in>set (db_steps db). same_row s u \<longrightarrow> st_dependsOn u = st_dependsOn s)"
  by (auto simp: rows_ok_def)

lemma rows_ok_unavailable: "rows_ok rows db \<Longrightarrow> rows_ok rows (input_unavailable now s db)"
proof -
  let ?P = "\<lambda>u. same_row s u \<and> st_status u = Queued"
  let ?f = "\<lambda>u. u\<lparr>st_status := Needs_review, st_errorCode := Some ''WORKFLOW_INPUT_REDACTED'', st_updatedAt := now\<rparr>"
  assume "rows_ok rows db"
  then have "rows_ok rows (update_steps ?P ?f db)" by (rule rows_ok_update) simp
  then show ?thesis unfolding rows_ok_def input_unavailable_def by simp
qed

lemma sound_claim_loop:
  "claim_loop H' now tok ex rows db = Inr (db', c) \<Longrightarrow> rows_ok rows db \<Longrightarrow> sound_step H db db'"
proof (induction rows arbitrary: db)
  case (Cons row rows)
  obtain s d where row: "row = (s, d)" by (cases row)
  note r = rows_ok_Cons [OF Cons.prems(2) [unfolded row]]
  show ?case
  proof (cases "st_recoveryInputAvailable s")
    case False
    with Cons.prems(1) row have "claim_loop H' now tok ex rows (input_unavailable now s db) = Inr (db', c)" by simp
    from Cons.IH [OF this rows_ok_unavailable] r show ?thesis
      using sound_trans [OF sound_input_unavailable] by blast
  next
    case True
    note avail = this
    show ?thesis
    proof (cases "deps_completed db s \<and> list_ex (\<lambda>u. same_row s u \<and> st_status u = Queued) (db_steps db)")
      case False
      with Cons.prems(1) row avail have "claim_loop H' now tok ex rows db = Inr (db', c)"
        by (auto split: if_splits)
      from Cons.IH [OF this] r show ?thesis by blast
    next
      case True
      with Cons.prems(1) row avail have "db' = mark_claimed now tok ex s db"
        by (auto simp: bindR_Inr_iff split: if_splits)
      with True r show ?thesis by (simp add: sound_mark_claimed)
    qed
  qed
qed simp

lemma candidates_in:
  "(s, d) \<in> set (candidates i db) \<Longrightarrow> s \<in> set (db_steps db) \<and> st_status s = Queued \<and>
     (i = None \<or> i = Some (st_runId s)) \<and>
     (\<exists>r. find_run (st_runId s) db = Some r \<and> claimable_run r \<and>
        find_definition (rn_definitionId r) (rn_definitionRevision r) db = Some d)"
  unfolding candidates_def by (auto simp: List.map_filter_def split: if_splits option.splits)

lemma same_row_unique:
  "wf_inv H db \<Longrightarrow> s \<in> set (db_steps db) \<Longrightarrow> u \<in> set (db_steps db) \<Longrightarrow> same_row s u \<Longrightarrow> u = s"
  using wf_inv_keys [of H db] by (auto simp: same_row_key distinct_map inj_on_def)

lemma candidates_rows_ok: "wf_inv H db \<Longrightarrow> rows_ok (candidates i db) db"
  unfolding rows_ok_def using candidates_in same_row_unique by fast

lemma sound_claimNext: "claimNext H' i ms tok now db = Inr (db', c) \<Longrightarrow> sound_step H db db'"
proof -
  assume c: "claimNext H' i ms tok now db = Inr (db', c)"
  show ?thesis
  proof (cases "wf_inv H db")
    case True
    from sound_claim_loop [OF c [unfolded claimNext_def] candidates_rows_ok [OF True]] show ?thesis .
  qed (simp add: sound_step_def)
qed

text \<open>What a claim hands out.\<close>

lemma claim_loop_claimed:
  "claim_loop H' now tok ex rows db = Inr (db', Some cl) \<Longrightarrow> rows_ok rows db \<Longrightarrow> wf_inv H db \<Longrightarrow>
     \<exists>s d. (s, d) \<in> set rows \<and> cl_step cl = claimed now tok ex s \<and> st_recoveryInputAvailable s \<and>
       (\<exists>u\<in>set (db_steps db). same_row s u \<and> st_status u = Queued) \<and>
       cl_leaseToken cl = tok \<and> cl_leaseExpiresAt cl = ex \<and>
       (\<forall>u\<in>set (db_steps db). st_leaseToken u \<noteq> Some tok) \<and>
       (\<forall>x\<in>set (st_dependsOn s). \<exists>u\<in>set (db_steps db). st_runId u = st_runId s \<and> st_stepId u = x \<and>
          st_status u = Completed) \<and>
       (\<exists>u\<in>set (db_steps db'). same_row s u \<and> st_status u = Running \<and> st_leaseToken u = Some tok \<and>
          st_leaseExpiresAt u = Some ex)"
proof (induction rows arbitrary: db)
  case (Cons row rows)
  obtain s d where row: "row = (s, d)" by (cases row)
  note r = rows_ok_Cons [OF Cons.prems(2) [unfolded row]]
  show ?case
  proof (cases "st_recoveryInputAvailable s")
    case False
    let ?db = "input_unavailable now s db"
    from False Cons.prems(1) row have l: "claim_loop H' now tok ex rows ?db = Inr (db', Some cl)" by simp
    have inv: "wf_inv H ?db" using sound_input_unavailable [of H db] Cons.prems(3) by (simp add: sound_step_def)
    have before: "\<exists>u0\<in>set (db_steps db). same_row u u0 \<and> st_leaseToken u0 = st_leaseToken u \<and>
        (st_status u \<in> {Queued, Completed} \<longrightarrow> u0 = u)" if "u \<in> set (db_steps ?db)" for u
      using that by (force simp: input_unavailable_def same_row_def)
    from Cons.IH [OF l rows_ok_unavailable inv] r obtain s' d' where
      *: "(s', d') \<in> set rows" "cl_step cl = claimed now tok ex s'" "st_recoveryInputAvailable s'"
        "\<exists>u\<in>set (db_steps ?db). same_row s' u \<and> st_status u = Queued"
        "cl_leaseToken cl = tok" "cl_leaseExpiresAt cl = ex"
        "\<forall>u\<in>set (db_steps ?db). st_leaseToken u \<noteq> Some tok"
        "\<forall>x\<in>set (st_dependsOn s'). \<exists>u\<in>set (db_steps ?db). st_runId u = st_runId s' \<and> st_stepId u = x \<and>
          st_status u = Completed"
        "\<exists>u\<in>set (db_steps db'). same_row s' u \<and> st_status u = Running \<and> st_leaseToken u = Some tok \<and>
          st_leaseExpiresAt u = Some ex"
      by blast
    have toks: "st_leaseToken ` set (db_steps ?db) = st_leaseToken ` set (db_steps db)"
    proof -
      have "map st_leaseToken (db_steps ?db) = map st_leaseToken (db_steps db)"
        by (simp add: input_unavailable_def)
      then show ?thesis by (metis set_map)
    qed
    have "\<exists>u\<in>set (db_steps db). same_row s' u \<and> st_status u = Queued" using *(4) before by fast
    moreover have "\<forall>x\<in>set (st_dependsOn s'). \<exists>u\<in>set (db_steps db). st_runId u = st_runId s' \<and> st_stepId u = x \<and>
          st_status u = Completed" using *(8) before by fast
    moreover have "\<forall>u\<in>set (db_steps db). st_leaseToken u \<noteq> Some tok"
      using toks *(7) by (metis (no_types, lifting) imageE imageI)
    moreover have "(s', d') \<in> set (row # rows)" using *(1) by simp
    ultimately show ?thesis using *(2,3,5,6,9) by (intro exI conjI)
  next
    case True
    note avail = this
    show ?thesis
    proof (cases "deps_completed db s \<and> list_ex (\<lambda>u. same_row s u \<and> st_status u = Queued) (db_steps db)")
      case False
      with Cons.prems(1) row avail have "claim_loop H' now tok ex rows db = Inr (db', Some cl)"
        by (auto split: if_splits)
      from Cons.IH [OF this] r Cons.prems(3) row show ?thesis by fastforce
    next
      case True
      with Cons.prems(1) row avail have m: "db' = mark_claimed now tok ex s db"
        "cl_step cl = claimed now tok ex s" "cl_leaseToken cl = tok" "cl_leaseExpiresAt cl = ex"
        "\<not> list_ex (\<lambda>u. st_leaseToken u = Some tok) (db_steps db)"
        by (auto simp: bindR_Inr_iff split: if_splits)
      from True obtain u where u: "u \<in> set (db_steps db)" "same_row s u" "st_status u = Queued"
        by (auto simp: list_ex_iff)
      have "claimed now tok ex u \<in> set (db_steps db')"
        using u unfolding m(1) mark_claimed_def store_simps set_map by (intro image_eqI [of _ _ u]) simp_all
      moreover have "same_row s (claimed now tok ex u)" "st_status (claimed now tok ex u) = Running"
        "st_leaseToken (claimed now tok ex u) = Some tok" "st_leaseExpiresAt (claimed now tok ex u) = Some ex"
        using u(2) by (simp_all add: claimed_def same_row_def)
      ultimately show ?thesis
        using m True avail row deps_completed_all [OF Cons.prems(3), of s] u
        by (intro exI [of _ s] exI [of _ d]) (auto simp: list_ex_iff)
    qed
  qed
qed simp

section \<open>Recovery\<close>

text \<open>No step starts to run, and only runs named \<open>i\<close> may become pending.\<close>

definition calm :: "string \<Rightarrow> wf_store \<Rightarrow> wf_store \<Rightarrow> bool" where
  "calm i db db' \<longleftrightarrow>
     (\<forall>u\<in>set (db_steps db'). st_status u = Running \<longrightarrow> u \<in> set (db_steps db)) \<and>
     (\<forall>r'\<in>set (db_runs db'). \<exists>r\<in>set (db_runs db). rn_runId r = rn_runId r' \<and>
        (rn_runId r \<noteq> i \<longrightarrow> not_pending r' = not_pending r))"

lemma calm_refl [simp]: "calm i db db"
  by (auto simp: calm_def)

lemma calm_trans: "calm i db db1 \<Longrightarrow> calm i db1 db2 \<Longrightarrow> calm i db db2"
  unfolding calm_def by (metis (no_types, lifting))

lemma calm_event [simp]: "calm i db (appendEvent j t p at db') = calm i db db'"
  by (simp add: calm_def)

lemma calm_update_steps:
  assumes "\<And>s. st_status (f s) \<noteq> Running"
  shows "calm i db (update_steps P f db)"
  using assms by (auto simp: calm_def split: if_splits)

lemma calm_update_runs:
  assumes "\<And>r. rn_runId (g r) = rn_runId r" and "\<And>r. P r \<Longrightarrow> rn_runId r = i \<or> not_pending (g r) = not_pending r"
  shows "calm i db (update_runs P g db)"
  unfolding calm_def store_simps
proof (intro conjI ballI)
  fix r' assume "r' \<in> set (map (\<lambda>r. if P r then g r else r) (db_runs db))"
  then obtain r where r: "r \<in> set (db_runs db)" "r' = (if P r then g r else r)" by auto
  have "rn_runId r = rn_runId r' \<and> (rn_runId r \<noteq> i \<longrightarrow> not_pending r' = not_pending r)"
    using assms(1) [of r] assms(2) [of r] unfolding r(2) by (cases "P r") auto
  with r(1) show "\<exists>r\<in>set (db_runs db). rn_runId r = rn_runId r' \<and>
      (rn_runId r \<noteq> i \<longrightarrow> not_pending r' = not_pending r)" by blast
qed simp

lemma calm_end_run:
  assumes "\<And>r. rn_runId (g r) = rn_runId r \<and> rn_cancellationRequestedAt (g r) = rn_cancellationRequestedAt r \<and>
      rn_failureRequestedAt (g r) = rn_failureRequestedAt r"
  shows "calm i db (update_runs P g db)"
  by (rule calm_update_runs) (simp_all add: not_pending_def assms)

lemma calm_settle_first:
  "calm j db (cancel_idle i at (if q then quarantine_running i at code db else db))"
proof -
  have 1: "calm j db (cancel_idle i at db)" for db
    unfolding cancel_idle_def by (rule calm_update_steps) simp
  have "calm j db (quarantine_running i at code db)"
    unfolding quarantine_running_def by (rule calm_update_steps) simp
  with 1 show ?thesis using calm_trans by (cases q) auto
qed

lemma calm_settleCancellation: "calm j db (settleCancellation i at q db)"
proof -
  define db2 where "db2 = cancel_idle i at
    (if q then quarantine_running i at ''WORKFLOW_CANCELLATION_OUTCOME_UNCERTAIN'' db else db)"
  have 1: "calm j db db2" unfolding db2_def by (rule calm_settle_first)
  have 2: "calm j db (update_runs P g db2)" if "\<And>r. rn_runId (g r) = rn_runId r \<and>
      rn_cancellationRequestedAt (g r) = rn_cancellationRequestedAt r \<and>
      rn_failureRequestedAt (g r) = rn_failureRequestedAt r" for P g
    by (rule calm_trans [OF 1 calm_end_run]) (rule that)
  show ?thesis
    unfolding settleCancellation_def Let_def db2_def [symmetric] by (simp add: 1 2 del: store_simps)
qed

lemma calm_settleFailure: "calm j db (settleFailure i at q db)"
proof -
  define db2 where "db2 = cancel_idle i at
    (if q then quarantine_running i at ''WORKFLOW_STOP_OUTCOME_UNCERTAIN'' db else db)"
  have 1: "calm j db db2" unfolding db2_def by (rule calm_settle_first)
  have 2: "calm j db (update_runs P g db2)" if "\<And>r. rn_runId (g r) = rn_runId r \<and>
      rn_cancellationRequestedAt (g r) = rn_cancellationRequestedAt r \<and>
      rn_failureRequestedAt (g r) = rn_failureRequestedAt r" for P g
    by (rule calm_trans [OF 1 calm_end_run]) (rule that)
  show ?thesis
    unfolding settleFailure_def Let_def db2_def [symmetric] by (simp add: 1 2 del: store_simps)
qed

lemma calm_beginFailureStop: "calm i db (beginFailureStop i at deadline code db)"
proof -
  have "calm i db (cancel_idle i at db)"
    using calm_settle_first [of i db i at False] by simp
  then show ?thesis
    unfolding beginFailureStop_def
    by (rule calm_trans [OF calm_trans [OF _ calm_update_runs] calm_settleFailure]) auto
qed

text \<open>After a settlement that quarantines, no step of the run is left running.\<close>

definition halted :: "string \<Rightarrow> wf_store \<Rightarrow> bool" where
  "halted i db \<longleftrightarrow> (\<forall>u\<in>set (db_steps db). st_runId u = i \<longrightarrow> st_status u \<noteq> Running)"

lemma halted_update:
  assumes "halted i db" and "\<And>s. st_runId (f s) = st_runId s" and "\<And>s. st_status (f s) \<noteq> Running"
  shows "halted i (update_steps P f db)"
  unfolding halted_def store_simps
proof (intro ballI impI)
  fix u assume "u \<in> set (map (\<lambda>s. if P s then f s else s) (db_steps db))" and i: "st_runId u = i"
  then obtain s where s: "s \<in> set (db_steps db)" and u: "u = (if P s then f s else s)"
    unfolding set_map by (elim imageE)
  show "st_status u \<noteq> Running"
  proof (cases "P s")
    case False
    with assms(1) s u i show ?thesis by (simp add: halted_def)
  qed (use u assms(3) in simp)
qed

lemma halted_quarantine: "halted i (cancel_idle i at (quarantine_running i at code db))"
proof -
  have "halted i (quarantine_running i at code db)"
    unfolding halted_def quarantine_running_def store_simps
  proof (intro ballI impI)
    let ?P = "\<lambda>s. st_runId s = i \<and> st_status s = Running"
    let ?f = "\<lambda>s. release Needs_review at s\<lparr>st_errorCode := Some code\<rparr>"
    fix u assume "u \<in> set (map (\<lambda>s. if ?P s then ?f s else s) (db_steps db))" and i: "st_runId u = i"
    then obtain s where u: "u = (if ?P s then ?f s else s)" unfolding set_map by (elim imageE)
    then show "st_status u \<noteq> Running" using i by (cases "?P s") (simp, metis)
  qed
  then show ?thesis
    unfolding cancel_idle_def by (rule halted_update) simp_all
qed

lemma halted_settleFailure: "halted i (settleFailure i at True db)"
proof -
  have h: "halted i db' \<Longrightarrow> halted i (appendEvent j t p at (update_runs P g db'))" for j t p P g db'
    by (simp add: halted_def)
  show ?thesis
    unfolding settleFailure_def Let_def by (simp add: h halted_quarantine del: store_simps)
qed

definition rows_sync :: "(wf_step \<times> bool \<times> bool) list \<Rightarrow> wf_store \<Rightarrow> bool" where
  "rows_sync rows db \<longleftrightarrow> (\<forall>(s, c, f)\<in>set rows. \<forall>u\<in>set (db_steps db). \<forall>r\<in>set (db_runs db).
     same_row s u \<and> st_status u = Running \<and> rn_runId r = st_runId s \<and> \<not> c \<and> \<not> f \<longrightarrow> not_pending r)"

lemma rows_sync_calm:
  assumes "rows_sync rows db" and "calm i db db'" and "halted i db' \<or> (\<forall>j. calm j db db')"
  shows "rows_sync rows db'"
  unfolding rows_sync_def
proof (clarify)
  fix s c f u r assume *: "(s, c, f) \<in> set rows" "u \<in> set (db_steps db')" "r \<in> set (db_runs db')"
    "same_row s u" "st_status u = Running" "rn_runId r = st_runId s" "\<not> c" "\<not> f"
  have u: "u \<in> set (db_steps db)" using assms(2) * by (auto simp: calm_def)
  have "\<exists>j. calm j db db' \<and> rn_runId r \<noteq> j"
  proof (cases "halted i db'")
    case True
    with * have "rn_runId r \<noteq> i" by (auto simp: halted_def same_row_def)
    with assms(2) show ?thesis by blast
  next
    case False
    with assms(3) have "calm (CHR ''x'' # rn_runId r) db db'" by blast
    then show ?thesis by (intro exI [of _ "CHR ''x'' # rn_runId r"]) simp
  qed
  then obtain j r0 where "r0 \<in> set (db_runs db)" "rn_runId r0 = rn_runId r" "not_pending r = not_pending r0"
    using *(3) unfolding calm_def by metis
  with assms(1) u * show "not_pending r" unfolding rows_sync_def by fastforce
qed

lemma sound_recover_step:
  assumes "rows_sync ((s, c, f) # rows) db"
  shows "sound_step H db (recover_step uncertain now (s, c, f) db)"
    and "rows_sync rows (recover_step uncertain now (s, c, f) db)"
proof -
  define retry where "retry = (\<not> c \<and> \<not> f \<and>
      \<not> (case st_leaseToken s of Some tok \<Rightarrow> tok \<in> set uncertain | None \<Rightarrow> False) \<and>
      st_retrySafety s = Retry_safe \<and> int (st_attempt s) < st_maxAttempts s)"
  define code where "code = (if c then ''WORKFLOW_CANCELLATION_OUTCOME_UNCERTAIN''
           else if f then ''WORKFLOW_STOP_OUTCOME_UNCERTAIN''
           else if (case st_leaseToken s of Some tok \<Rightarrow> tok \<in> set uncertain | None \<Rightarrow> False) then ''WORKFLOW_ACTIVE_LEASE_EXPIRED''
           else if retry then ''WORKFLOW_WORKER_EXPIRED'' else ''WORKFLOW_EFFECT_OUTCOME_UNCERTAIN'')"
  let ?status = "if retry then Queued else Needs_review"
  let ?hit = "\<lambda>u. same_row s u \<and> st_status u = Running"
  let ?f = "\<lambda>u. release ?status now u\<lparr>st_errorCode := Some code\<rparr>"
  define db1 where "db1 = update_steps ?hit ?f db"
  define db2 where "db2 = (if retry then db1
      else if c then settleCancellation (st_runId s) now True db1
      else settleFailure (st_runId s) now True (beginFailureStop (st_runId s) now now code db1))"
  define db' where "db' = recover_step uncertain now (s, c, f) db"
  have db': "db' = db \<or> db' = appendEvent (st_runId s) ''workflow.recovered''
        [(''stepId'', JStr (st_stepId s)), (''status'', JStr (status_text ?status))] now db2"
    unfolding db'_def recover_step_def prod.case Let_def db2_def db1_def code_def retry_def by auto
  have sync: "rows_sync rows db" using assms by (simp add: rows_sync_def)
  have 1: "sound_step H db db1"
    unfolding sound_step_def
  proof (intro impI conjI)
    assume inv: "wf_inv H db"
    show "wf_inv H db1"
      unfolding db1_def
    proof (rule inv_update_steps [OF inv])
      fix u assume "u \<in> set (db_steps db)" "?hit u"
      then show "gentle u (?f u) \<and> lease_ok (?f u)" by (auto simp: gentle_def lease_ok_def)
    next
      fix r u assume u: "r \<in> set (db_runs db)" "u \<in> set (db_steps db)" "?hit u" "rn_runId r = st_runId u"
      show "compat r (?f u)"
      proof (cases retry)
        case True
        with u assms have "not_pending r" by (auto simp: rows_sync_def retry_def same_row_def)
        with True wf_inv_compat [OF inv u(1,2)] u(3,4) show ?thesis by (auto simp: compat_def)
      qed (simp add: compat_def)
    qed
    show "evolves db db1" unfolding db1_def by (rule evolves_update_steps) auto
  qed
  have "sound_step H db1 db2" unfolding db2_def by (auto intro: sound_thens)
  with 1 have "sound_step H db db2" by (rule sound_trans)
  with db' show "sound_step H db (recover_step uncertain now (s, c, f) db)"
    unfolding db'_def [symmetric] by auto
  have c1: "calm j db db1" for j unfolding db1_def by (rule calm_update_steps) simp
  have "rows_sync rows db2"
  proof (cases "retry \<or> c")
    case True
    then have "calm j db db2" for j
      unfolding db2_def using c1 calm_trans [OF c1 calm_settleCancellation] by auto
    with rows_sync_calm [OF sync] show ?thesis by blast
  next
    case False
    have "calm (st_runId s) db db2"
      using False unfolding db2_def
      by (auto intro: calm_trans [OF c1 calm_trans [OF calm_beginFailureStop calm_settleFailure]])
    moreover have "halted (st_runId s) db2" using False by (simp add: db2_def halted_settleFailure)
    ultimately show ?thesis using rows_sync_calm [OF sync] by blast
  qed
  then have "rows_sync rows (appendEvent i t p now db2)" for i t p by (simp add: rows_sync_def)
  with db' sync show "rows_sync rows (recover_step uncertain now (s, c, f) db)"
    unfolding db'_def [symmetric] by metis
qed

lemma sound_recover_rows:
  "rows_sync rows db \<Longrightarrow> sound_step H db (fold (recover_step uncertain now) rows db)"
proof (induction rows arbitrary: db)
  case (Cons row rows)
  obtain s c f where row: "row = (s, c, f)" by (cases row)
  from sound_recover_step [OF Cons.prems [unfolded row]] Cons.IH show ?case
    using sound_trans unfolding row by (metis fold_simps(2))
qed simp

lemma expired_rows_sync: "wf_inv H db \<Longrightarrow> rows_sync (expired_rows now db) db"
  unfolding rows_sync_def
proof (clarify)
  fix s c f u r assume inv: "wf_inv H db" and *: "(s, c, f) \<in> set (expired_rows now db)"
    "r \<in> set (db_runs db)" "rn_runId r = st_runId s" "\<not> c" "\<not> f"
  from *(1) obtain r' where "find_run (st_runId s) db = Some r'" "c = (rn_cancellationRequestedAt r' \<noteq> None)"
    "f = (rn_failureRequestedAt r' \<noteq> None)"
    by (auto simp: expired_rows_def List.map_filter_def split: if_splits)
  with * find_run_unique [OF inv *(2)] show "not_pending r" by (simp add: not_pending_def)
qed

lemma sound_settle_each:
  assumes "\<And>i db. sound_step H db (settle i db)"
  shows "sound_step H db (settle_each settle P db)"
proof -
  have "sound_step H db (fold (\<lambda>r. settle (rn_runId r)) rs db)" for rs
    by (induction rs arbitrary: db) (auto intro: sound_trans assms)
  then show ?thesis by (simp add: settle_each_def)
qed

lemma sound_recover_store: "sound_step H db (recover_store uncertain now db)"
proof (cases "wf_inv H db")
  case True
  define db1 where "db1 = settle_each (\<lambda>i. settleCancellation i now True)
     (\<lambda>r. rn_cancellationRequestedAt r \<noteq> None \<and> past now (rn_cancellationDeadlineAt r) \<and> \<not> terminal (rn_status r)) db"
  define db2 where "db2 = settle_each (\<lambda>i. settleFailure i now True)
     (\<lambda>r. rn_cancellationRequestedAt r = None \<and> rn_failureRequestedAt r \<noteq> None \<and>
        past now (rn_failureDeadlineAt r) \<and> \<not> terminal (rn_status r)) db1"
  have 1: "sound_step H db db1" unfolding db1_def by (rule sound_settle_each) (rule sound_settles)
  have 2: "sound_step H db1 db2" unfolding db2_def by (rule sound_settle_each) (rule sound_settles)
  from True 1 2 have "wf_inv H db2" by (simp add: sound_step_def)
  from sound_recover_rows [OF expired_rows_sync [OF this]]
  have 3: "sound_step H db2 (fold (recover_step uncertain now) (expired_rows now db2) db2)" .
  have 4: "sound_step H db (fold (recover_step uncertain now) (expired_rows now db2) db2)"
    using 1 2 3 sound_trans by blast
  show ?thesis
    unfolding recover_store_def Let_def db1_def [symmetric] db2_def [symmetric]
    by (rule sound_trans [OF 4 sound_settle_each]) (rule sound_settles)
qed (simp add: sound_step_def)

section \<open>Runs of the store\<close>

datatype wf_op =
    Op_create jsval bool
  | Op_claim "string option" int string
  | Op_complete string string string jsval
  | Op_fail string string string string bool "int option"
  | Op_await string string string
  | Op_resume string bool
  | Op_request_cancellation string "int option" bool
  | Op_cancel string bool
  | Op_acknowledge_cancellation string string string bool "string option"
  | Op_acknowledge_stop string string string bool "string option"
  | Op_finalize_cancellation string bool bool
  | Op_quarantine string string string "string option" "int option"
  | Op_renew string string string int
  | Op_recover "string list"

text \<open>A transaction that throws leaves the store as it was.\<close>

fun commit :: "wf_store \<Rightarrow> 'a wf_result \<Rightarrow> wf_store" where
  "commit db (Inl e) = db"
| "commit db (Inr (db', x)) = db'"

fun store_op :: "(string \<Rightarrow> string) \<Rightarrow> (jsval \<Rightarrow> jsval) \<Rightarrow> int \<Rightarrow> wf_op \<Rightarrow> wf_store \<Rightarrow> wf_store" where
  "store_op H red now (Op_create v ab) db = commit db (create H red v ab now db)"
| "store_op H red now (Op_claim i ms tok) db = commit db (claimNext H i ms tok now db)"
| "store_op H red now (Op_complete i j tok v) db = commit db (completeStep H i j tok v now db)"
| "store_op H red now (Op_fail i j tok c u dl) db = commit db (failStep i j tok c u dl now db)"
| "store_op H red now (Op_await i j tok) db = commit db (awaitApproval i j tok now db)"
| "store_op H red now (Op_resume i ab) db = commit db (resume i ab now db)"
| "store_op H red now (Op_request_cancellation i dl ab) db = commit db (requestCancellation i dl ab now db)"
| "store_op H red now (Op_cancel i ab) db = commit db (cancel i ab now db)"
| "store_op H red now (Op_acknowledge_cancellation i j tok u c) db = commit db (acknowledgeCancellation i j tok u c now db)"
| "store_op H red now (Op_acknowledge_stop i j tok u c) db = commit db (acknowledgeStop i j tok u c now db)"
| "store_op H red now (Op_finalize_cancellation i q ab) db = commit db (finalizeCancellation i q ab now db)"
| "store_op H red now (Op_quarantine i j tok c dl) db = commit db (quarantineStep i j tok c dl now db)"
| "store_op H red now (Op_renew i j tok e) db = fst (renewStepLease i j tok e now db)"
| "store_op H red now (Op_recover toks) db = fst (recover toks now db)"

lemma sound_commit: "(\<And>db' x. m = Inr (db', x) \<Longrightarrow> sound_step H db db') \<Longrightarrow> sound_step H db (commit db m)"
  by (cases m) auto

lemma sound_store_op: "sound_step H db (store_op H red now x db)"
proof (cases x)
  case (Op_renew i j tok e)
  then show ?thesis using sound_renewStepLease by (metis store_op.simps(13) prod.collapse)
next
  case (Op_recover toks)
  then show ?thesis by (simp add: recover_def Let_def sound_recover_store)
qed (simp_all, (rule sound_commit, erule sound_create sound_claimNext sound_completeStep sound_failStep
      sound_awaitApproval sound_resume sound_requestCancellation sound_cancel sound_acknowledgeCancellation
      sound_acknowledgeStop sound_finalizeCancellation sound_quarantineStep)+)

definition store_step :: "(string \<Rightarrow> string) \<Rightarrow> (jsval \<Rightarrow> jsval) \<Rightarrow> wf_store \<Rightarrow> int \<times> wf_op \<Rightarrow> wf_store" where
  "store_step H red db x = store_op H red (fst x) (snd x) db"

interpretation store: op_system "store_step H red" "wf_inv H"
  using sound_store_op by unfold_locales (auto simp: store_step_def sound_step_def)

lemma wf_inv_empty [simp]: "wf_inv H empty_store"
  by (simp add: wf_inv_def empty_store_def)

end
