(* ===== verification/Workflow_Runs.thy ===== *)
theory Workflow_Runs
  imports Workflow_Store
begin

text \<open>
  Runs of the durable workflow store: every store reached from the empty one by any sequence of
  operations at any times, and what holds in all of them.  The step relation and its invariant
  come from the theory of the store through the interpretation \<open>store\<close>.
\<close>

section \<open>Reached stores\<close>

definition reached :: "(string \<Rightarrow> string) \<Rightarrow> (jsval \<Rightarrow> jsval) \<Rightarrow> (int \<times> wf_op) list \<Rightarrow> wf_store" where
  "reached H red ops = run_ops (store_step H red) empty_store ops"

lemma reached_inv: "wf_inv H (reached H red ops)"
  unfolding reached_def by (rule store.run_inv) simp

lemma reached_append: "reached H red (ops @ ops') = run_ops (store_step H red) (reached H red ops) ops'"
  by (simp add: reached_def run_ops_append)

lemma step_evolves: "wf_inv H s \<Longrightarrow> evolves db s \<Longrightarrow> evolves db (store_step H red s x)"
  using sound_store_op [of H s red "fst x" "snd x"]
  by (auto simp: store_step_def sound_step_def intro: evolves_trans)

lemma run_evolves:
  assumes "wf_inv H db"
  shows "evolves db (run_ops (store_step H red) db ops)"
  by (rule store.run_stays [OF assms evolves_refl]) (rule step_evolves)

lemma reached_evolves: "evolves (reached H red ops) (reached H red (ops @ ops'))"
  unfolding reached_append by (rule run_evolves) (rule reached_inv)

text \<open>A pending cancellation or failure stop is never taken back.\<close>

lemma pending_stays:
  assumes "find_run i (reached H red ops) = Some r" and "\<not> not_pending r"
    and "find_run i (reached H red (ops @ ops')) = Some r'"
  shows "\<not> not_pending r'"
proof -
  from reached_evolves assms(1) obtain q where q: "q \<in> set (db_runs (reached H red (ops @ ops')))"
    and s: "stays_requested r q"
    unfolding evolves_def by (meson find_run_Some)
  have "rn_runId q = i" using s find_run_Some [OF assms(1)] by (simp add: stays_requested_def)
  then have "q = r'" using find_run_unique [OF reached_inv q] assms(3) by simp
  with s assms(2) show ?thesis by (auto simp: stays_requested_def not_pending_def)
qed

section \<open>Recovery ends expired leases\<close>

definition started :: "wf_store \<Rightarrow> wf_step set" where
  "started db = {u \<in> set (db_steps db). st_status u = Running}"

lemma started_event [simp]: "started (appendEvent i t p at db) = started db"
  by (simp add: started_def)

lemma started_calm: "calm i db db' \<Longrightarrow> started db' \<subseteq> started db"
  by (auto simp: started_def calm_def)

lemmas started_settles =
  started_calm [OF calm_settleCancellation] started_calm [OF calm_settleFailure]
  started_calm [OF calm_beginFailureStop]

lemma started_hit:
  "started (update_steps (\<lambda>u. same_row s u \<and> st_status u = Running)
     (\<lambda>u. release st now u\<lparr>st_errorCode := c\<rparr>) db) \<subseteq> {u \<in> started db. \<not> same_row s u}"
  if "st \<noteq> Running"
  using that by (auto simp: started_def split: if_splits)

lemma started_recover_step:
  "started (recover_step toks now (s, c, f) db) \<subseteq> {u \<in> started db. \<not> same_row s u}"
proof (cases "list_ex (\<lambda>u. same_row s u \<and> st_status u = Running) (db_steps db)")
  case False
  then show ?thesis by (auto simp: recover_step_def started_def list_ex_iff)
next
  case True
  define retry where "retry \<longleftrightarrow> \<not> c \<and> \<not> f \<and>
     \<not> (case st_leaseToken s of Some tok \<Rightarrow> tok \<in> set toks | None \<Rightarrow> False) \<and>
     st_retrySafety s = Retry_safe \<and> int (st_attempt s) < st_maxAttempts s"
  define code where "code = (if c then ''WORKFLOW_CANCELLATION_OUTCOME_UNCERTAIN''
     else if f then ''WORKFLOW_STOP_OUTCOME_UNCERTAIN''
     else if (case st_leaseToken s of Some tok \<Rightarrow> tok \<in> set toks | None \<Rightarrow> False) then ''WORKFLOW_ACTIVE_LEASE_EXPIRED''
     else if retry then ''WORKFLOW_WORKER_EXPIRED'' else ''WORKFLOW_EFFECT_OUTCOME_UNCERTAIN'')"
  define db1 where "db1 = update_steps (\<lambda>u. same_row s u \<and> st_status u = Running)
     (\<lambda>u. release (if retry then Queued else Needs_review) now u\<lparr>st_errorCode := Some code\<rparr>) db"
  define db2 where "db2 = (if retry then db1
     else if c then settleCancellation (st_runId s) now True db1
     else settleFailure (st_runId s) now True (beginFailureStop (st_runId s) now now code db1))"
  have "started (recover_step toks now (s, c, f) db) = started db2"
    using True unfolding recover_step_def Let_def db2_def db1_def retry_def code_def
    by (simp del: store_simps)
  moreover have "started db2 \<subseteq> started db1"
    unfolding db2_def
    by (cases retry; cases c)
      (simp_all add: started_settles subset_trans [OF started_settles(2) started_settles(3)] del: store_simps)
  moreover have "started db1 \<subseteq> {u \<in> started db. \<not> same_row s u}"
    unfolding db1_def by (rule started_hit) simp
  ultimately show ?thesis by simp
qed

lemma started_recover_rows:
  "started (fold (recover_step toks now) rows db) \<subseteq> {u \<in> started db. \<forall>(s, c, f)\<in>set rows. \<not> same_row s u}"
proof (induction rows arbitrary: db)
  case (Cons row rows)
  obtain s c f where row: "row = (s, c, f)" by (cases row)
  from Cons.IH [of "recover_step toks now row db"] started_recover_step [of toks now s c f db]
  show ?case unfolding row fold_simps by auto
qed simp

lemma started_settle_each:
  assumes "\<And>i db. started (settle i db) \<subseteq> started db"
  shows "started (settle_each settle P db) \<subseteq> started db"
proof -
  have "started (fold (\<lambda>r. settle (rn_runId r)) rs db) \<subseteq> started db" for rs
    by (induction rs arbitrary: db) (auto dest: subsetD [OF assms])
  then show ?thesis by (simp add: settle_each_def)
qed

lemma expired_rows_all:
  assumes "wf_inv H db" and "u \<in> started db" and "past now (st_leaseExpiresAt u)"
  shows "\<exists>c f. (u, c, f) \<in> set (expired_rows now db)"
proof -
  from assms(2) have u: "u \<in> set (db_steps db)" "st_status u = Running" by (auto simp: started_def)
  from wf_inv_parent [OF assms(1) u(1)] obtain r where "find_run (st_runId u) db = Some r"
    using find_run_None [of "st_runId u" db] by (metis image_eqI not_None_eq)
  with u assms(3) show ?thesis by (force simp: expired_rows_def List.map_filter_def)
qed

section \<open>A concrete run\<close>

text \<open>Two runs of the sample definition; the first step of \<open>r\<close> is done, the rest is queued.\<close>

definition sample_request :: "string \<Rightarrow> jsval" where
  "sample_request i = JObj [(''schemaVersion'', JInt 1), (''runId'', JStr i), (''principalId'', JStr ''p''),
     (''idempotencyKey'', JStr i), (''definition'', sample_source)]"

definition sample_ops :: "(int \<times> wf_op) list" where
  "sample_ops = [(0, Op_create (sample_request ''r'') False), (1, Op_create (sample_request ''q'') False),
     (2, Op_claim (Some ''r'') 0 ''t1''), (3, Op_complete ''r'' ''a'' ''t1'' JNull)]"

definition sample_run :: "string \<Rightarrow> wf_status \<Rightarrow> int \<Rightarrow> int \<Rightarrow> wf_run" where
  "sample_run i st at upd = \<lparr>rn_runId = i, rn_principalId = ''p'', rn_idempotencyKey = i, rn_definitionId = ''wf'',
     rn_definitionRevision = 1, rn_definitionDigest = sample_hash ''{\"id\":\"w'', rn_status = st,
     rn_input = JObj [], rn_inputDigest = ''{}'', rn_recoveryInputAvailable = True, rn_errorCode = None,
     rn_createdAt = at, rn_updatedAt = upd, rn_cancellationRequestedAt = None,
     rn_cancellationDeadlineAt = None, rn_failureRequestedAt = None, rn_failureDeadlineAt = None\<rparr>"

definition sample_row :: "string \<Rightarrow> string \<Rightarrow> string list \<Rightarrow> int \<Rightarrow> wf_step" where
  "sample_row i j deps at = \<lparr>st_runId = i, st_stepId = j, st_actionRef = ''web.fetch'', st_dependsOn = deps,
     st_input = JObj [], st_inputDigest = ''{}'', st_recoveryInputAvailable = True,
     st_retrySafety = Retry_safe, st_maxAttempts = 2, st_status = Queued, st_attempt = 0,
     st_result = None, st_resultDigest = None, st_errorCode = None, st_leaseToken = None,
     st_leaseExpiresAt = None, st_updatedAt = at\<rparr>"

definition sample_definition :: wf_definition where
  "sample_definition = \<lparr>wd_id = ''wf'', wd_revision = 1, wd_name = ''demo'',
     wd_steps = map (\<lambda>(i, deps). \<lparr>sd_id = i, sd_actionRef = ''web.fetch'', sd_dependsOn = deps,
       sd_input = JObj [], sd_retrySafety = Retry_safe, sd_maxAttempts = 2,
       sd_requiresApproval = False\<rparr>) [(''a'', []), (''b'', [''a''])],
     wd_definitionDigest = ''{\"id\":\"w''\<rparr>"

definition sample_created :: "string \<Rightarrow> int \<Rightarrow> wf_event" where
  "sample_created i at = \<lparr>ev_runId = i, ev_type = ''workflow.created'',
     ev_payload = [(''definitionId'', JStr ''wf''), (''definitionRevision'', JInt 1),
       (''definitionDigest'', JStr ''{\"id\":\"w'')], ev_createdAt = at\<rparr>"

definition sample_store :: wf_store where
  "sample_store = \<lparr>db_definitions = [sample_definition],
     db_runs = [sample_run ''r'' Running 0 2, sample_run ''q'' Queued 1 1],
     db_steps = [(sample_row ''r'' ''a'' [] 3)\<lparr>st_status := Completed, st_attempt := 1,
         st_result := Some JNull, st_resultDigest := Some ''null''\<rparr>,
       sample_row ''r'' ''b'' [''a''] 0, sample_row ''q'' ''a'' [] 1, sample_row ''q'' ''b'' [''a''] 1],
     db_events = [sample_created ''r'' 0, sample_created ''q'' 1,
       \<lparr>ev_runId = ''r'', ev_type = ''workflow.step.claimed'', ev_payload = [(''stepId'', JStr ''a''),
         (''leaseToken'', JStr ''t1''), (''attempt'', JInt 1)], ev_createdAt = 2\<rparr>,
       \<lparr>ev_runId = ''r'', ev_type = ''workflow.step.completed'', ev_payload = [(''stepId'', JStr ''a''),
         (''resultDigest'', JStr ''null'')], ev_createdAt = 3\<rparr>]\<rparr>"

lemma sample_reached: "reached sample_hash id sample_ops = sample_store"
  by code_simp

section \<open>Properties\<close>

text \<open>
  C10. In every store the operations can reach, keys are unique, a step holds a lease exactly
  while it runs or awaits approval, a pending stop leaves no idle step, a run that ended without
  review has only finished steps, and a step that was ever claimed has completed dependencies.
\<close>

theorem store_invariant: "wf_inv H (reached H red ops)"
  by (rule reached_inv)

text \<open>
  C11. A row that is completed is never changed by any later operation.
\<close>

theorem completed_rows_final:
  assumes "s \<in> set (db_steps (reached H red ops))" and "st_status s = Completed"
  shows "s \<in> set (db_steps (reached H red (ops @ ops')))"
  using reached_evolves [of H red ops ops'] assms by (auto simp: evolves_def)

theorem completed_rows_final_witness:
  "\<exists>s. s \<in> set (db_steps (reached sample_hash id sample_ops)) \<and> st_status s = Completed \<and>
     s \<in> set (db_steps (reached sample_hash id (sample_ops @ [(9, Op_cancel ''r'' False)])))"
proof -
  let ?s = "hd (db_steps sample_store)"
  have "?s \<in> set (db_steps (reached sample_hash id sample_ops))" "st_status ?s = Completed"
    unfolding sample_reached by (simp_all add: sample_store_def)
  with completed_rows_final [OF this] show ?thesis by (intro exI conjI)
qed

lemma claimed_row:
  assumes inv: "wf_inv H db" and c: "claimNext H i ms tok now db = Inr (db', Some cl)"
  obtains s r where "s \<in> set (db_steps db)" "st_status s = Queued" "st_recoveryInputAvailable s"
    "find_run (st_runId s) db = Some r" "claimable_run r"
    "\<forall>d\<in>set (st_dependsOn s). \<exists>u\<in>set (db_steps db). st_runId u = st_runId s \<and> st_stepId u = d \<and>
        st_status u = Completed"
    "\<forall>u\<in>set (db_steps db). st_leaseToken u \<noteq> Some tok"
    "cl_step cl = claimed now tok (now + bounded_lease ms) s" "cl_leaseExpiresAt cl = now + bounded_lease ms"
    "\<exists>u\<in>set (db_steps db'). same_row s u \<and> st_status u = Running \<and> st_leaseToken u = Some tok"
proof -
  from claim_loop_claimed [OF c [unfolded claimNext_def] candidates_rows_ok [OF inv] inv] obtain s d where
    s: "(s, d) \<in> set (candidates (if i = Some [] then None else i) db)"
    and rest: "cl_step cl = claimed now tok (now + bounded_lease ms) s" "st_recoveryInputAvailable s"
      "cl_leaseExpiresAt cl = now + bounded_lease ms" "\<forall>u\<in>set (db_steps db). st_leaseToken u \<noteq> Some tok"
      "\<forall>x\<in>set (st_dependsOn s). \<exists>u\<in>set (db_steps db). st_runId u = st_runId s \<and> st_stepId u = x \<and>
          st_status u = Completed"
      "\<exists>u\<in>set (db_steps db'). same_row s u \<and> st_status u = Running \<and> st_leaseToken u = Some tok \<and>
          st_leaseExpiresAt u = Some (now + bounded_lease ms)"
    by (elim exE conjE)
  from candidates_in [OF s] obtain r where "s \<in> set (db_steps db)" "st_status s = Queued"
    "find_run (st_runId s) db = Some r" "claimable_run r" by blast
  with rest show thesis by (intro that [of s r]) auto
qed

text \<open>
  C12. A claim hands out a queued step whose dependencies are all completed, of a run that is
  queued or running with no stop pending, under a token no other row holds, with a lease of 25
  to 600,000 ms, and counts the attempt.
\<close>

theorem claim_safe:
  assumes db: "db = reached H red ops" and c: "claimNext H i ms tok now db = Inr (db', Some cl)"
  shows "\<exists>s r. s \<in> set (db_steps db) \<and> st_status s = Queued \<and> st_recoveryInputAvailable s \<and>
     find_run (st_runId s) db = Some r \<and> claimable_run r \<and>
     (\<forall>d\<in>set (st_dependsOn s). \<exists>u\<in>set (db_steps db). st_runId u = st_runId s \<and> st_stepId u = d \<and>
        st_status u = Completed) \<and>
     (\<forall>u\<in>set (db_steps db). st_leaseToken u \<noteq> Some tok) \<and>
     cl_step cl = s\<lparr>st_status := Running, st_attempt := Suc (st_attempt s), st_leaseToken := Some tok,
       st_leaseExpiresAt := Some (cl_leaseExpiresAt cl), st_updatedAt := now\<rparr> \<and>
     now + 25 \<le> cl_leaseExpiresAt cl \<and> cl_leaseExpiresAt cl \<le> now + 600000 \<and>
     (\<exists>u\<in>set (db_steps db'). same_row s u \<and> st_status u = Running \<and> st_leaseToken u = Some tok)"
proof -
  have "wf_inv H db" unfolding db by (rule reached_inv)
  from claimed_row [OF this c] obtain s r where "s \<in> set (db_steps db)" "st_status s = Queued"
    "st_recoveryInputAvailable s" "find_run (st_runId s) db = Some r" "claimable_run r"
    "\<forall>d\<in>set (st_dependsOn s). \<exists>u\<in>set (db_steps db). st_runId u = st_runId s \<and> st_stepId u = d \<and>
        st_status u = Completed"
    "\<forall>u\<in>set (db_steps db). st_leaseToken u \<noteq> Some tok"
    "cl_step cl = claimed now tok (now + bounded_lease ms) s" "cl_leaseExpiresAt cl = now + bounded_lease ms"
    "\<exists>u\<in>set (db_steps db'). same_row s u \<and> st_status u = Running \<and> st_leaseToken u = Some tok" .
  moreover have "25 \<le> bounded_lease ms" "bounded_lease ms \<le> 600000" by (auto simp: bounded_lease_def)
  ultimately show ?thesis by (intro exI [of _ s] exI [of _ r]) (auto simp: claimed_def)
qed

lemma sample_claim:
  "case claimNext sample_hash (Some ''r'') 0 ''t2'' 4 sample_store of Inl e \<Rightarrow> False
   | Inr (db', c) \<Rightarrow> (case c of None \<Rightarrow> False | Some cl \<Rightarrow> st_stepId (cl_step cl) = ''b'' \<and>
       st_dependsOn (cl_step cl) = [''a''])"
  by code_simp

theorem claim_safe_witness:
  "\<exists>db' cl. claimNext sample_hash (Some ''r'') 0 ''t2'' 4 (reached sample_hash id sample_ops) = Inr (db', Some cl) \<and>
     st_dependsOn (cl_step cl) = [''a''] \<and> 29 \<le> cl_leaseExpiresAt cl"
proof -
  from sample_claim obtain db' cl where
    c: "claimNext sample_hash (Some ''r'') 0 ''t2'' 4 (reached sample_hash id sample_ops) = Inr (db', Some cl)"
    and d: "st_dependsOn (cl_step cl) = [''a'']"
    unfolding sample_reached by (auto split: sum.splits option.splits prod.splits)
  from claim_safe [OF refl c] have "29 \<le> cl_leaseExpiresAt cl" by auto
  with c d show ?thesis by (intro exI conjI)
qed

text \<open>
  C13. Once a cancellation or a failure stop of a run is pending, no later claim ever hands out
  one of its steps.
\<close>

theorem pending_run_never_claimed:
  assumes "find_run i (reached H red ops) = Some r" and "\<not> not_pending r"
    and c: "claimNext H f ms tok now (reached H red (ops @ ops')) = Inr (db', Some cl)"
  shows "st_runId (cl_step cl) \<noteq> i"
proof -
  from claimed_row [OF reached_inv c] obtain s r' where s: "cl_step cl = claimed now tok (now + bounded_lease ms) s"
      "claimable_run r'"
    and r': "find_run (st_runId s) (reached H red (ops @ ops')) = Some r'" .
  from s have "st_runId (cl_step cl) = st_runId s" "not_pending r'"
    by (simp_all add: claimed_def claimable_run_def not_pending_def)
  with pending_stays [OF assms(1,2), of ops' r'] r' show ?thesis by auto
qed

definition sample_stop :: "(int \<times> wf_op) list" where
  "sample_stop = [(4, Op_claim (Some ''r'') 0 ''t2''), (5, Op_request_cancellation ''r'' None False)]"

lemma sample_stopping:
  "let db = run_ops (store_step sample_hash id) sample_store sample_stop in
   (case find_run ''r'' db of None \<Rightarrow> False | Some r \<Rightarrow> rn_cancellationRequestedAt r = Some 5) \<and>
   (case claimNext sample_hash None 0 ''t3'' 6 db of Inl e \<Rightarrow> False
    | Inr (db', c) \<Rightarrow> (case c of None \<Rightarrow> False | Some cl \<Rightarrow> st_stepId (cl_step cl) = ''a''))"
  by code_simp

theorem pending_run_never_claimed_witness:
  "\<exists>db' cl. claimNext sample_hash None 0 ''t3'' 6 (reached sample_hash id (sample_ops @ sample_stop)) = Inr (db', Some cl) \<and>
     st_stepId (cl_step cl) = ''a'' \<and> st_runId (cl_step cl) \<noteq> ''r''"
proof -
  have e: "reached sample_hash id ((sample_ops @ sample_stop) @ []) =
      run_ops (store_step sample_hash id) sample_store sample_stop"
    by (simp add: reached_append sample_reached)
  from sample_stopping obtain r db' cl where
    r: "find_run ''r'' (reached sample_hash id (sample_ops @ sample_stop)) = Some r" "\<not> not_pending r"
    and c: "claimNext sample_hash None 0 ''t3'' 6 (reached sample_hash id ((sample_ops @ sample_stop) @ [])) = Inr (db', Some cl)"
      "st_stepId (cl_step cl) = ''a''"
    unfolding e [symmetric] Let_def not_pending_def by (auto split: sum.splits option.splits prod.splits)
  from pending_run_never_claimed [OF r c(1)] c show ?thesis by (intro exI conjI) simp_all
qed

text \<open>
  C14. Reporting a failure that is known, of a step declared safe to retry with attempts left,
  never requeues it: the transition table has no way back from a running step, so the call is
  refused and, being a transaction, changes nothing.
\<close>

theorem failed_step_never_requeued:
  assumes "the_leased i j tok now not_pending (reached H red ops) ''workflow step lease is missing or stale'' = Inr s"
    and "st_retrySafety s = Retry_safe" and "int (st_attempt s) < st_maxAttempts s"
    and "validateWorkflowErrorCode c = Inr code"
  shows "failStep i j tok c False dl now (reached H red ops) =
     Inl (Error (''invalid workflow transition '' @ status_text (st_status s) @ '' -> queued''))"
  using assms no_requeue [OF reached_inv assms(1)] by (simp add: failStep_def)

definition sample_running :: "(int \<times> wf_op) list" where
  "sample_running = [(4, Op_claim (Some ''r'') 0 ''t2'')]"

lemma sample_leased:
  "let db = run_ops (store_step sample_hash id) sample_store sample_running in
   (case the_leased ''r'' ''b'' ''t2'' 5 not_pending db ''workflow step lease is missing or stale'' of
      Inl e \<Rightarrow> False | Inr s \<Rightarrow> st_retrySafety s = Retry_safe \<and> st_attempt s = 1 \<and> st_maxAttempts s = 2 \<and> st_status s = Running) \<and>
   (case validateWorkflowErrorCode ''E_NETWORK'' of Inl e \<Rightarrow> False | Inr c \<Rightarrow> True)"
  by code_simp

theorem failed_step_never_requeued_witness:
  "failStep ''r'' ''b'' ''t2'' ''E_NETWORK'' False None 5 (reached sample_hash id (sample_ops @ sample_running)) =
     Inl (Error ''invalid workflow transition running -> queued'')"
proof -
  have e: "reached sample_hash id (sample_ops @ sample_running) =
      run_ops (store_step sample_hash id) sample_store sample_running"
    by (simp add: reached_append sample_reached)
  from sample_leased obtain s code where
    s: "the_leased ''r'' ''b'' ''t2'' 5 not_pending (reached sample_hash id (sample_ops @ sample_running))
          ''workflow step lease is missing or stale'' = Inr s"
      "st_retrySafety s = Retry_safe" "st_attempt s = 1" "st_maxAttempts s = 2" "st_status s = Running"
    and code: "validateWorkflowErrorCode ''E_NETWORK'' = Inr code"
    unfolding e [symmetric] Let_def by (auto split: sum.splits)
  show ?thesis using failed_step_never_requeued [OF s(1,2) _ code] by (simp add: s)
qed

text \<open>
  After a recovery no running step has an expired lease, whatever the store was before.
\<close>

lemma recovery_ends_leases:
  "\<not> list_ex (\<lambda>s. st_status s = Running \<and> past now (st_leaseExpiresAt s))
     (db_steps (fst (recover toks now (reached H red ops))))"
proof -
  define db where "db = reached H red ops"
  define db1 where "db1 = settle_each (\<lambda>i. settleCancellation i now True)
     (\<lambda>r. rn_cancellationRequestedAt r \<noteq> None \<and> past now (rn_cancellationDeadlineAt r) \<and> \<not> terminal (rn_status r)) db"
  define db2 where "db2 = settle_each (\<lambda>i. settleFailure i now True)
     (\<lambda>r. rn_cancellationRequestedAt r = None \<and> rn_failureRequestedAt r \<noteq> None \<and>
        past now (rn_failureDeadlineAt r) \<and> \<not> terminal (rn_status r)) db1"
  define db3 where "db3 = fold (recover_step toks now) (expired_rows now db2) db2"
  have final: "fst (recover toks now db) = settle_each (\<lambda>i. settleCancellation i now False)
        (\<lambda>r. rn_cancellationRequestedAt r \<noteq> None \<and> \<not> terminal (rn_status r)) db3"
    unfolding recover_def recover_store_def Let_def db1_def db2_def db3_def by simp
  have "sound_step H db db1" "sound_step H db1 db2"
    unfolding db1_def db2_def by (rule sound_settle_each, rule sound_settles)+
  then have inv: "wf_inv H db2" using reached_inv [of H red ops] by (simp add: sound_step_def db_def)
  have "started (fst (recover toks now db)) \<subseteq> started db3"
    unfolding final by (rule started_settle_each) (rule started_settles)
  also have "started db3 \<subseteq> {u \<in> started db2. \<forall>(s, c, f)\<in>set (expired_rows now db2). \<not> same_row s u}"
    unfolding db3_def by (rule started_recover_rows)
  also have "\<dots> \<subseteq> {u. \<not> past now (st_leaseExpiresAt u)}"
    using expired_rows_all [OF inv] by (fastforce simp: same_row_def)
  finally show ?thesis unfolding db_def [symmetric] by (auto simp: started_def list_ex_iff)
qed

end
