(* ===== verification/Iso_Time.thy ===== *)
theory Iso_Time
  imports Prelude
begin

text \<open>
  The timestamps of the program: milliseconds since the epoch, the text \<open>toISOString\<close> gives
  them in the proleptic Gregorian calendar, and the texts that \<open>Date.parse\<close> reads back to the
  same text, the only ones the stores accept.  The main result is that parsing and printing
  are inverse to each other.
\<close>

section \<open>Years and months\<close>

definition leap :: "int \<Rightarrow> bool" where
  "leap y \<longleftrightarrow> y mod 4 = 0 \<and> (y mod 100 \<noteq> 0 \<or> y mod 400 = 0)"

definition days_before_year :: "int \<Rightarrow> int" where
  "days_before_year y = 365 * (y - 1970) + (y - 1) div 4 - (y - 1) div 100 + (y - 1) div 400 - 477"

definition year_of :: "int \<Rightarrow> int" where
  "year_of d =
     (let y = 1970 + d * 400 div 146097 in
      if d < days_before_year y then y - 1 else if days_before_year (y + 1) \<le> d then y + 1 else y)"

lemma div_pred:
  fixes y k :: int assumes "0 < k"
  shows "(y - 1) div k = y div k - (if y mod k = 0 then 1 else 0)"
proof (cases "y mod k = 0")
  case True
  have "y - 1 = k * (y div k - 1) + (k - 1)" using True mult_div_mod_eq [of k y] by (simp add: algebra_simps)
  then have "(y - 1) div k = y div k - 1" by (rule int_div_pos_eq) (use assms in auto)
  with True show ?thesis by simp
next
  case False
  have "y - 1 = k * (y div k) + (y mod k - 1)" by (simp add: algebra_simps)
  then have "(y - 1) div k = y div k"
    by (rule int_div_pos_eq)
      (use False pos_mod_bound [OF assms, of y] pos_mod_sign [OF assms, of y] in linarith)+
  with False show ?thesis by simp
qed

lemma mod_cases: "(y::int) mod 400 = 0 \<Longrightarrow> y mod 100 = 0" "(y::int) mod 100 = 0 \<Longrightarrow> y mod 4 = 0"
  by (auto simp: mod_eq_0_iff_dvd intro: dvd_trans [rotated])

lemma days_before_year_Suc: "days_before_year (y + 1) = days_before_year y + (if leap y then 366 else 365)"
  using mod_cases [of y] by (auto simp: days_before_year_def leap_def div_pred)

lemma div_bounds: "0 < (k::int) \<Longrightarrow> k * (x div k) \<le> x" "0 < (k::int) \<Longrightarrow> x < k * (x div k) + k"
  using pos_mod_bound [of k x] pos_mod_sign [of k x] mult_div_mod_eq [of k x] by linarith+

lemma days_before_year_bounds:
  "146097 * (y - 1970) - 800 \<le> 400 * days_before_year y"
  "400 * days_before_year y \<le> 146097 * (y - 1970) + 800"
proof -
  define a b c where abc: "a = (y - 1) div 4" "b = (y - 1) div 100" "c = (y - 1) div 400"
  have "4 * a \<le> y - 1" "y - 1 < 4 * a + 4" "100 * b \<le> y - 1" "y - 1 < 100 * b + 100"
    "400 * c \<le> y - 1" "y - 1 < 400 * c + 400"
    unfolding abc by (rule div_bounds; simp)+
  then show "146097 * (y - 1970) - 800 \<le> 400 * days_before_year y"
    "400 * days_before_year y \<le> 146097 * (y - 1970) + 800"
    unfolding days_before_year_def abc [symmetric] by (simp_all add: algebra_simps)
qed

lemma year_of_bounds: "days_before_year (year_of d) \<le> d \<and> d < days_before_year (year_of d + 1)"
proof -
  define y where "y = 1970 + d * 400 div 146097"
  have y: "146097 * (y - 1970) \<le> d * 400" "d * 400 < 146097 * (y - 1970) + 146097"
    using div_bounds [of 146097 "d * 400"] by (simp_all add: y_def)
  have below: "days_before_year (y - 1) \<le> d"
    using days_before_year_bounds(2) [of "y - 1"] y by (simp add: algebra_simps)
  have above: "d < days_before_year (y + 2)"
    using days_before_year_bounds(1) [of "y + 2"] y by (simp add: algebra_simps)
  show ?thesis
  proof (cases "d < days_before_year y")
    case True
    with below show ?thesis by (simp add: year_of_def y_def [symmetric] Let_def)
  next
    case False
    with above show ?thesis by (simp add: year_of_def y_def [symmetric] Let_def add.assoc)
  qed
qed

definition month_starts :: "bool \<Rightarrow> int list" where
  "month_starts l = [0, 31, if l then 60 else 59, if l then 91 else 90, if l then 121 else 120,
     if l then 152 else 151, if l then 182 else 181, if l then 213 else 212, if l then 244 else 243,
     if l then 274 else 273, if l then 305 else 304, if l then 335 else 334, if l then 366 else 365]"

definition month_of :: "bool \<Rightarrow> int \<Rightarrow> nat" where
  "month_of l n = length (filter (\<lambda>s. s \<le> n) (month_starts l)) - 1"

lemma month_of_bounds:
  assumes "0 \<le> n" and "n < (if l then 366 else 365)"
  shows "month_of l n < 12 \<and> month_starts l ! month_of l n \<le> n \<and> n < month_starts l ! Suc (month_of l n)"
  using assms by (auto simp: month_of_def month_starts_def split: if_splits)

lemma month_of_unique:
  assumes "m < 12" and "month_starts l ! m \<le> n" and "n < month_starts l ! Suc m"
  shows "month_of l n = m"
proof -
  from assms(1) have "m = 0 \<or> m = 1 \<or> m = 2 \<or> m = 3 \<or> m = 4 \<or> m = 5 \<or> m = 6 \<or> m = 7 \<or>
    m = 8 \<or> m = 9 \<or> m = 10 \<or> m = 11" by arith
  with assms show ?thesis by (cases l) (auto simp: month_of_def month_starts_def)
qed

lemma year_of_unique: "days_before_year y \<le> d \<Longrightarrow> d < days_before_year (y + 1) \<Longrightarrow> year_of d = y"
proof (rule ccontr)
  assume y: "days_before_year y \<le> d" "d < days_before_year (y + 1)" and n: "year_of d \<noteq> y"
  have mono: "days_before_year a \<le> days_before_year b" if "a \<le> b" for a b
    using that
  proof (induction b rule: int_ge_induct)
    case (step i)
    then show ?case using days_before_year_Suc [of i] by (simp split: if_splits)
  qed simp
  from n consider "year_of d + 1 \<le> y" | "y + 1 \<le> year_of d" by linarith
  then show False
    using mono year_of_bounds [of d] y by cases fastforce+
qed

section \<open>Decimal fields\<close>

fun pad :: "nat \<Rightarrow> int \<Rightarrow> string" where
  "pad 0 n = []"
| "pad (Suc w) n = pad w (n div 10) @ [char_of (48 + n mod 10)]"

definition digit_of :: "char \<Rightarrow> int" where
  "digit_of c = of_char c - 48"

definition digits_value :: "string \<Rightarrow> int" where
  "digits_value s = foldl (\<lambda>n c. 10 * n + digit_of c) 0 s"

definition field :: "string \<Rightarrow> nat \<Rightarrow> nat \<Rightarrow> string" where
  "field s i w = take w (drop i s)"

lemma of_char_char_of: "0 \<le> n \<Longrightarrow> n < 256 \<Longrightarrow> of_char (char_of n :: char) = (n :: int)"
  by (simp add: of_char_of)

lemma pad_digits: "list_all is_digit (pad w n)"
proof (induction w arbitrary: n)
  case (Suc w)
  have "0 \<le> n mod 10" "n mod 10 < 10" by simp_all
  then show ?case using Suc by (simp add: is_digit_def)
qed simp

lemma length_pad [simp]: "length (pad w n) = w"
  by (induction w arbitrary: n) auto

lemma digits_value_snoc: "digits_value (s @ [c]) = 10 * digits_value s + digit_of c"
  by (simp add: digits_value_def)

lemma digits_value_pad: "0 \<le> n \<Longrightarrow> n < 10 ^ w \<Longrightarrow> digits_value (pad w n) = n"
proof (induction w arbitrary: n)
  case (Suc w)
  have "0 \<le> n mod 10" "n mod 10 < 10" by simp_all
  moreover have "n div 10 < 10 ^ w" using Suc.prems by (simp add: div_less_iff_less_mult)
  ultimately show ?case
    using Suc.IH [of "n div 10"] Suc.prems by (simp add: digits_value_snoc digit_of_def)
qed (simp add: digits_value_def)

lemma pad_digits_value: "list_all is_digit s \<Longrightarrow> length s = w \<Longrightarrow> pad w (digits_value s) = s"
proof (induction w arbitrary: s)
  case (Suc w)
  then obtain t c where s: "s = t @ [c]" by (cases s rule: rev_cases) auto
  with Suc.prems have c: "0 \<le> digit_of c" "digit_of c < 10" by (auto simp: is_digit_def digit_of_def Let_def)
  have "char_of (48 + digit_of c) = c" by (simp add: digit_of_def)
  with c Suc show ?case unfolding s digits_value_snoc by simp
qed simp

lemma digits_value_bounds: "list_all is_digit s \<Longrightarrow> 0 \<le> digits_value s \<and> digits_value s < 10 ^ length s"
proof (induction s rule: rev_induct)
  case (snoc c s)
  then have "0 \<le> digit_of c" "digit_of c < 10" by (auto simp: is_digit_def digit_of_def Let_def)
  with snoc show ?case by (simp add: digits_value_snoc)
qed (simp add: digits_value_def)



section \<open>Timestamps\<close>

definition DAY_MS :: int where "DAY_MS = 86400000"
definition MAX_TIME :: int where "MAX_TIME = 8640000000000000"

definition year_text :: "int \<Rightarrow> string" where
  "year_text y = (if 0 \<le> y \<and> y \<le> 9999 then pad 4 y
     else (if y < 0 then CHR ''-'' else CHR ''+'') # pad 6 \<bar>y\<bar>)"

definition clock_text :: "int \<Rightarrow> int \<Rightarrow> int \<Rightarrow> int \<Rightarrow> int \<Rightarrow> int \<Rightarrow> string" where
  "clock_text mo d h mi s ms = ''-'' @ pad 2 mo @ ''-'' @ pad 2 d @ ''T'' @ pad 2 h @ '':'' @ pad 2 mi @ '':'' @
     pad 2 s @ ''.'' @ pad 3 ms @ ''Z''"

text \<open>\<open>new Date(t).toISOString()\<close>\<close>

definition iso_text :: "int \<Rightarrow> string" where
  "iso_text t =
     (let day = t div DAY_MS; r = t mod DAY_MS; y = year_of day; n = day - days_before_year y;
          m = month_of (leap y) n in
      year_text y @ clock_text (int m + 1) (n - month_starts (leap y) ! m + 1)
        (r div 3600000) (r div 60000 mod 60) (r div 1000 mod 60) (r mod 1000))"

definition parse_year :: "string \<Rightarrow> int option" where
  "parse_year s =
     (if length s = 4 \<and> list_all is_digit s then Some (digits_value s)
      else if length s = 7 \<and> list_all is_digit (drop 1 s) \<and> (hd s = CHR ''-'' \<or> hd s = CHR ''+'') then
        (let v = digits_value (drop 1 s); y = (if hd s = CHR ''-'' then - v else v) in
         if 0 \<le> y \<and> y \<le> 9999 then None else if hd s = CHR ''-'' \<and> v = 0 then None else Some y)
      else None)"

text \<open>\<^term>\<open>Some\<close> the milliseconds of a text that \<open>Date.parse\<close> accepts and that is its own \<open>toISOString\<close>.\<close>

definition parse_iso :: "string \<Rightarrow> int option" where
  "parse_iso s =
     (let k = length s - 20; c = drop k s;
          mo = digits_value (field c 1 2); d = digits_value (field c 4 2); h = digits_value (field c 7 2);
          mi = digits_value (field c 10 2); se = digits_value (field c 13 2); ms = digits_value (field c 16 3) in
      case parse_year (take k s) of
        None \<Rightarrow> None
      | Some y \<Rightarrow>
          if length c = 20 \<and>
             list_all is_digit (field c 1 2 @ field c 4 2 @ field c 7 2 @ field c 10 2 @ field c 13 2 @ field c 16 3) \<and>
             c = clock_text mo d h mi se ms \<and>
             1 \<le> mo \<and> mo \<le> 12 \<and> 1 \<le> d \<and>
             d \<le> month_starts (leap y) ! nat mo - month_starts (leap y) ! nat (mo - 1) \<and>
             h \<le> 23 \<and> mi \<le> 59 \<and> se \<le> 59
          then
            (let t = (days_before_year y + month_starts (leap y) ! nat (mo - 1) + d - 1) * DAY_MS +
                     h * 3600000 + mi * 60000 + se * 1000 + ms in
             if \<bar>t\<bar> \<le> MAX_TIME then Some t else None)
          else None)"


lemma length_clock [simp]: "length (clock_text mo d h mi s ms) = 20"
  by (simp add: clock_text_def)

lemma field_append: "i = length a \<Longrightarrow> w = length b \<Longrightarrow> field (a @ b @ c) i w = b"
  by (simp add: field_def)

lemma clock_fields:
  "field (clock_text mo d h mi s ms) 1 2 = pad 2 mo" "field (clock_text mo d h mi s ms) 4 2 = pad 2 d"
  "field (clock_text mo d h mi s ms) 7 2 = pad 2 h" "field (clock_text mo d h mi s ms) 10 2 = pad 2 mi"
  "field (clock_text mo d h mi s ms) 13 2 = pad 2 s" "field (clock_text mo d h mi s ms) 16 3 = pad 3 ms"
  by (simp_all add: clock_text_def field_def)

lemma length_year_text: "length (year_text y) = (if 0 \<le> y \<and> y \<le> 9999 then 4 else 7)"
  by (simp add: year_text_def)

lemma parse_year_text: "\<bar>y\<bar> < 1000000 \<Longrightarrow> parse_year (year_text y) = Some y"
  using digits_value_pad [of y 4] digits_value_pad [of "\<bar>y\<bar>" 6]
  by (auto simp: parse_year_def year_text_def pad_digits split: if_splits)

lemma parse_year_Some: "parse_year s = Some y \<Longrightarrow> s = year_text y"
proof -
  assume p: "parse_year s = Some y"
  show ?thesis
  proof (cases "length s = 4")
    case True
    with p have d: "list_all is_digit s" "y = digits_value s" by (auto simp: parse_year_def split: if_splits)
    with digits_value_bounds [OF d(1)] True pad_digits_value [OF d(1) True] show ?thesis
      by (simp add: year_text_def)
  next
    case False
    with p have l: "length s = 7" and d: "list_all is_digit (drop 1 s)" and
      h: "hd s = CHR ''-'' \<or> hd s = CHR ''+''" and
      y: "y = (if hd s = CHR ''-'' then - digits_value (drop 1 s) else digits_value (drop 1 s))"
        "\<not> (0 \<le> y \<and> y \<le> 9999)"
      by (auto simp: parse_year_def Let_def split: if_splits)
    have s: "s = hd s # drop 1 s" using l by (cases s) auto
    have "pad 6 (digits_value (drop 1 s)) = drop 1 s" by (rule pad_digits_value [OF d]) (simp add: l)
    moreover have "0 \<le> digits_value (drop 1 s)" using digits_value_bounds [OF d] by simp
    ultimately show ?thesis using y h s by (cases "hd s = CHR ''-''") (auto simp: year_text_def)
  qed
qed

text \<open>A day and a time of day, and their milliseconds.\<close>

definition civil_ms :: "int \<Rightarrow> nat \<Rightarrow> int \<Rightarrow> int \<Rightarrow> int \<Rightarrow> int \<Rightarrow> int \<Rightarrow> int" where
  "civil_ms y m d h mi s ms =
     (days_before_year y + month_starts (leap y) ! m + d - 1) * DAY_MS + h * 3600000 + mi * 60000 + s * 1000 + ms"

definition civil_ok :: "int \<Rightarrow> nat \<Rightarrow> int \<Rightarrow> int \<Rightarrow> int \<Rightarrow> int \<Rightarrow> int \<Rightarrow> bool" where
  "civil_ok y m d h mi s ms \<longleftrightarrow> m < 12 \<and> 1 \<le> d \<and> d \<le> month_starts (leap y) ! Suc m - month_starts (leap y) ! m \<and>
     0 \<le> h \<and> h \<le> 23 \<and> 0 \<le> mi \<and> mi \<le> 59 \<and> 0 \<le> s \<and> s \<le> 59 \<and> 0 \<le> ms \<and> ms \<le> 999"

lemma recombine: "r = 1000 * q + c \<Longrightarrow> q = 60 * p + b \<Longrightarrow> p = 60 * h + a \<Longrightarrow>
    h * 3600000 + a * 60000 + b * 1000 + c = (r :: int)"
  by simp

lemma clock_split:
  assumes "0 \<le> r" and "r < (86400000 :: int)"
  shows "r div 3600000 * 3600000 + r div 60000 mod 60 * 60000 + r div 1000 mod 60 * 1000 + r mod 1000 = r"
    and "0 \<le> r div 3600000" and "r div 3600000 \<le> 23"
proof -
  define q where "q = r div 1000"
  define p where "p = q div 60"
  have "r div 60000 = p" "r div 3600000 = p div 60"
    by (simp_all add: p_def q_def zdiv_zmult2_eq [symmetric])
  moreover have "r = 1000 * q + r mod 1000" "q = 60 * p + q mod 60" "p = 60 * (p div 60) + p mod 60"
    by (simp_all add: q_def p_def)
  ultimately show "r div 3600000 * 3600000 + r div 60000 mod 60 * 60000 + r div 1000 mod 60 * 1000 + r mod 1000 = r"
    unfolding q_def [symmetric] by (simp only: recombine)
  show "0 \<le> r div 3600000" using assms by simp
  show "r div 3600000 \<le> 23" using zdiv_mono1 [of r 86399999 3600000] assms by simp
qed

lemma month_starts_bounds: "m < 12 \<Longrightarrow> 0 \<le> month_starts l ! m \<and> month_starts l ! Suc m \<le> (if l then 366 else 365) \<and>
    month_starts l ! Suc m - month_starts l ! m \<le> 31"
proof -
  assume "m < 12"
  then have "m = 0 \<or> m = 1 \<or> m = 2 \<or> m = 3 \<or> m = 4 \<or> m = 5 \<or> m = 6 \<or> m = 7 \<or>
    m = 8 \<or> m = 9 \<or> m = 10 \<or> m = 11" by arith
  then show ?thesis by (cases l) (auto simp: month_starts_def)
qed

lemma mod_le: "x mod 60 \<le> (59 :: int)" "x mod 1000 \<le> (999 :: int)"
  using pos_mod_bound [of 60 x] pos_mod_bound [of 1000 x] by simp_all

lemma civil_ms_eq:
  "days_before_year y + month_starts (leap y) ! m + d - 1 = day \<Longrightarrow>
     civil_ms y m d h mi s ms = day * DAY_MS + (h * 3600000 + mi * 60000 + s * 1000 + ms)"
  by (simp add: civil_ms_def)

lemma civil_of:
  obtains y m d h mi s ms where "civil_ok y m d h mi s ms" "t = civil_ms y m d h mi s ms"
    "iso_text t = year_text y @ clock_text (int m + 1) d h mi s ms"
proof -
  define day r where "day = t div DAY_MS" and "r = t mod DAY_MS"
  define y where "y = year_of day"
  define n where "n = day - days_before_year y"
  define m where "m = month_of (leap y) n"
  have r: "0 \<le> r" "r < 86400000" by (simp_all add: r_def DAY_MS_def)
  have n: "0 \<le> n" "n < (if leap y then 366 else 365)"
    using year_of_bounds [of day] days_before_year_Suc [of y] by (simp_all add: n_def y_def)
  note m = month_of_bounds [OF n, folded m_def]
  have ok: "civil_ok y m (n - month_starts (leap y) ! m + 1)
      (r div 3600000) (r div 60000 mod 60) (r div 1000 mod 60) (r mod 1000)"
    unfolding civil_ok_def using m clock_split(2,3) [OF r] by (intro conjI) (simp_all add: mod_le)
  have date: "days_before_year y + month_starts (leap y) ! m + (n - month_starts (leap y) ! m + 1) - 1 = day"
    by (simp add: n_def)
  have "t = day * DAY_MS + r" by (simp add: day_def r_def)
  have "civil_ms y m (n - month_starts (leap y) ! m + 1)
      (r div 3600000) (r div 60000 mod 60) (r div 1000 mod 60) (r mod 1000) =
      day * DAY_MS + (r div 3600000 * 3600000 + r div 60000 mod 60 * 60000 + r div 1000 mod 60 * 1000 + r mod 1000)"
    by (rule civil_ms_eq [OF date])
  also have "\<dots> = t" unfolding clock_split(1) [OF r] by (rule \<open>t = _\<close> [symmetric])
  finally have "t = civil_ms y m (n - month_starts (leap y) ! m + 1)
      (r div 3600000) (r div 60000 mod 60) (r div 1000 mod 60) (r mod 1000)" by (rule sym)
  moreover have "iso_text t = year_text y @ clock_text (int m + 1) (n - month_starts (leap y) ! m + 1)
      (r div 3600000) (r div 60000 mod 60) (r div 1000 mod 60) (r mod 1000)"
    by (simp add: iso_text_def Let_def day_def [symmetric] r_def [symmetric] y_def [symmetric] n_def [symmetric]
        m_def [symmetric])
  ultimately show thesis using that ok by blast
qed

lemma iso_text_civil:
  assumes ok: "civil_ok y m d h mi s ms"
  shows "iso_text (civil_ms y m d h mi s ms) = year_text y @ clock_text (int m + 1) d h mi s ms"
proof -
  define x where "x = days_before_year y + month_starts (leap y) ! m + d - 1"
  define r where "r = h * 3600000 + mi * 60000 + s * 1000 + ms"
  have t: "civil_ms y m d h mi s ms = r + x * 86400000"
    by (simp add: civil_ms_def x_def r_def DAY_MS_def)
  from ok have r: "0 \<le> r" "r < 86400000" by (simp_all add: civil_ok_def r_def)
  have day: "civil_ms y m d h mi s ms div DAY_MS = x" "civil_ms y m d h mi s ms mod DAY_MS = r"
    unfolding t DAY_MS_def using r by simp_all
  have mb: "m < 12" "1 \<le> d" "d \<le> month_starts (leap y) ! Suc m - month_starts (leap y) ! m"
    using ok by (auto simp: civil_ok_def)
  have y: "year_of x = y"
    using mb month_starts_bounds [OF mb(1), of "leap y"] days_before_year_Suc [of y]
    by (intro year_of_unique) (auto simp: x_def split: if_splits)
  have m: "month_of (leap y) (x - days_before_year y) = m"
    using mb by (intro month_of_unique) (auto simp: x_def)
  have c: "r div 3600000 = h" "r div 60000 mod 60 = mi" "r div 1000 mod 60 = s" "r mod 1000 = ms"
  proof -
    have 1: "r div 1000 = h * 3600 + mi * 60 + s"
      by (rule int_div_pos_eq [of _ _ _ ms]) (use ok in \<open>auto simp: civil_ok_def r_def\<close>)
    have 2: "r div 60000 = h * 60 + mi"
      by (rule int_div_pos_eq [of _ _ _ "s * 1000 + ms"]) (use ok in \<open>auto simp: civil_ok_def r_def\<close>)
    show "r div 3600000 = h"
      by (rule int_div_pos_eq [of _ _ _ "mi * 60000 + s * 1000 + ms"]) (use ok in \<open>auto simp: civil_ok_def r_def\<close>)
    show "r div 60000 mod 60 = mi" unfolding 2
      by (rule int_mod_pos_eq [of _ _ h]) (use ok in \<open>auto simp: civil_ok_def\<close>)
    show "r div 1000 mod 60 = s" unfolding 1
      by (rule int_mod_pos_eq [of _ _ "h * 60 + mi"]) (use ok in \<open>auto simp: civil_ok_def\<close>)
    show "r mod 1000 = ms"
      by (rule int_mod_pos_eq [of _ _ "h * 3600 + mi * 60 + s"]) (use ok in \<open>auto simp: civil_ok_def r_def\<close>)
  qed
  show ?thesis
    by (simp add: iso_text_def Let_def day y m c) (simp add: x_def)
qed

lemma parse_iso_civil:
  assumes ok: "civil_ok y m d h mi s ms" and y: "\<bar>y\<bar> < 1000000"
    and t: "\<bar>civil_ms y m d h mi s ms\<bar> \<le> MAX_TIME"
  shows "parse_iso (year_text y @ clock_text (int m + 1) d h mi s ms) = Some (civil_ms y m d h mi s ms)"
proof -
  have d: "0 \<le> d" "d < 100" using ok month_starts_bounds [of m "leap y"] by (auto simp: civil_ok_def)
  have v: "digits_value (pad 2 (int m + 1)) = int m + 1" "digits_value (pad 2 d) = d"
    "digits_value (pad 2 h) = h" "digits_value (pad 2 mi) = mi" "digits_value (pad 2 s) = s"
    "digits_value (pad 3 ms) = ms"
    using ok d by (auto simp: civil_ok_def intro!: digits_value_pad)
  have m: "nat (int m + 1) = Suc m" "nat (int m + 1 - 1) = m" by simp_all
  show ?thesis
    unfolding parse_iso_def Let_def
    using ok t
    by (simp add: parse_year_text [OF y] clock_fields v pad_digits m civil_ok_def del: One_nat_def)
      (simp add: civil_ms_def)
qed

lemma parse_iso_Some:
  assumes p: "parse_iso x = Some t"
  obtains y m d h mi s ms where "civil_ok y m d h mi s ms" "t = civil_ms y m d h mi s ms"
    "x = year_text y @ clock_text (int m + 1) d h mi s ms" "\<bar>t\<bar> \<le> MAX_TIME"
proof -
  define k where "k = length x - 20"
  define c where "c = drop k x"
  define mo where "mo = digits_value (field c 1 2)"
  define d where "d = digits_value (field c 4 2)"
  define h where "h = digits_value (field c 7 2)"
  define mi where "mi = digits_value (field c 10 2)"
  define s where "s = digits_value (field c 13 2)"
  define ms where "ms = digits_value (field c 16 3)"
  note defs = k_def c_def mo_def d_def h_def mi_def s_def ms_def
  obtain y where y: "parse_year (take k x) = Some y"
    using p unfolding parse_iso_def Let_def defs by (auto split: option.splits)
  have q: "length c = 20" "list_all is_digit (field c 1 2 @ field c 4 2 @ field c 7 2 @ field c 10 2 @ field c 13 2 @ field c 16 3)"
    "c = clock_text mo d h mi s ms" "1 \<le> mo" "mo \<le> 12" "1 \<le> d"
    "d \<le> month_starts (leap y) ! nat mo - month_starts (leap y) ! nat (mo - 1)" "h \<le> 23" "mi \<le> 59" "s \<le> 59"
    "t = (days_before_year y + month_starts (leap y) ! nat (mo - 1) + d - 1) * DAY_MS +
       h * 3600000 + mi * 60000 + s * 1000 + ms" "\<bar>t\<bar> \<le> MAX_TIME"
    using p y unfolding parse_iso_def Let_def defs [symmetric] by (auto split: if_splits)
  define m where "m = nat (mo - 1)"
  have m: "mo = int m + 1" "nat mo = Suc m" using q(4) by (simp_all add: m_def)
  have dig: "list_all is_digit (field c 7 2)" "list_all is_digit (field c 10 2)"
    "list_all is_digit (field c 13 2)" "list_all is_digit (field c 16 3)"
    using q(2) by simp_all
  have "length (field c 16 3) = 3" using q(1) by (simp add: field_def)
  then have b: "0 \<le> h" "0 \<le> mi" "0 \<le> s" "0 \<le> ms" "ms < 1000"
    using dig [THEN digits_value_bounds] unfolding h_def mi_def s_def ms_def by simp_all
  have "m < 12" using q(5) m(1) by linarith
  moreover have "d \<le> month_starts (leap y) ! Suc m - month_starts (leap y) ! m"
    using q(7) unfolding m(2) m_def [symmetric] .
  ultimately have "civil_ok y m d h mi s ms"
    unfolding civil_ok_def using q(6,8-10) b by (intro conjI) simp_all
  moreover have "t = civil_ms y m d h mi s ms" unfolding civil_ms_def m_def by (rule q(11))
  moreover have "x = year_text y @ clock_text (int m + 1) d h mi s ms"
    using parse_year_Some [OF y] q(3) m(1) append_take_drop_id [of k x] by (simp add: c_def)
  ultimately show thesis using that q(12) by blast
qed

lemma civil_year_bounds:
  assumes "civil_ok y m d h mi s ms" and "\<bar>civil_ms y m d h mi s ms\<bar> \<le> MAX_TIME"
  shows "\<bar>y\<bar> < 1000000"
proof -
  define x where "x = days_before_year y + month_starts (leap y) ! m + d - 1"
  have "civil_ms y m d h mi s ms = x * 86400000 + (h * 3600000 + mi * 60000 + s * 1000 + ms)"
    by (simp add: civil_ms_def x_def DAY_MS_def)
  moreover have "0 \<le> h * 3600000 + mi * 60000 + s * 1000 + ms"
    "h * 3600000 + mi * 60000 + s * 1000 + ms < 86400000"
    using assms(1) by (simp_all add: civil_ok_def)
  ultimately have "\<bar>x\<bar> \<le> 100000001" using assms(2) unfolding MAX_TIME_def by linarith
  moreover have "m < 12" "1 \<le> d" "d \<le> month_starts (leap y) ! Suc m - month_starts (leap y) ! m"
    using assms(1) by (auto simp: civil_ok_def)
  moreover from this month_starts_bounds [of m "leap y"] have "0 \<le> x - days_before_year y"
    "x - days_before_year y < 366"
    by (auto simp: x_def split: if_splits)
  ultimately have "\<bar>days_before_year y\<bar> \<le> 100000400" by linarith
  with days_before_year_bounds [of y] show ?thesis by (simp add: abs_le_iff abs_less_iff algebra_simps)
qed

text \<open>A text is accepted exactly when it is the text of a time.\<close>

lemma parse_iso_iff: "parse_iso x = Some t \<longleftrightarrow> x = iso_text t \<and> \<bar>t\<bar> \<le> MAX_TIME"
proof
  assume "parse_iso x = Some t"
  then show "x = iso_text t \<and> \<bar>t\<bar> \<le> MAX_TIME"
    by (rule parse_iso_Some) (simp add: iso_text_civil)
next
  assume x: "x = iso_text t \<and> \<bar>t\<bar> \<le> MAX_TIME"
  obtain y m d h mi s ms where "civil_ok y m d h mi s ms" "t = civil_ms y m d h mi s ms"
    "iso_text t = year_text y @ clock_text (int m + 1) d h mi s ms"
    by (rule civil_of)
  with x civil_year_bounds parse_iso_civil show "parse_iso x = Some t" by metis
qed

end
