(* ===== verification/Job_Store.thy ===== *)
theory Job_Store
  imports Iso_Time
begin

text \<open>
  The durable job store of \<open>packages/store-file/src/index.ts\<close> (class \<open>FileJobStore\<close>): the
  object \<open>jobs\<close> of the state file as a map in insertion order, one function per method.  A
  method that throws writes nothing.  What is written is what \<open>JSON.stringify\<close> keeps; what a
  mutation returns is the object before that.  The clock is an argument in milliseconds, and
  \<open>localeCompare\<close> is the argument \<open>lc\<close>.  Reading and writing the file, its lock and its
  backups are not modelled; every entry of \<open>jobs\<close> is an object, as the store writes it.
\<close>

section \<open>Objects\<close>

type_synonym job = "(string \<times> jsval) list"
type_synonym job_map = "(string \<times> job) list"

text \<open>
  \<open>Number(v)\<close>; of the numeric texts only the decimal integers are read, since the numbers of a
  job are numbers already when they reach the store.
\<close>

definition text_number :: "string \<Rightarrow> jsval" where
  "text_number s =
     (let t = js_trim s; neg = (t \<noteq> [] \<and> hd t = CHR ''-'');
          ds = (if t \<noteq> [] \<and> (hd t = CHR ''-'' \<or> hd t = CHR ''+'') then drop 1 t else t) in
      if t = [] then JInt 0
      else if ds \<noteq> [] \<and> list_all is_digit ds then JInt (if neg then - digits_value ds else digits_value ds)
      else if ds = ''Infinity'' then JInf neg
      else JNaN)"

fun js_Number :: "jsval \<Rightarrow> jsval" where
  "js_Number JUndef = JNaN"
| "js_Number JNull = JInt 0"
| "js_Number (JBool b) = JInt (if b then 1 else 0)"
| "js_Number (JInt n) = JInt n"
| "js_Number (JFlt n t) = JFlt n t"
| "js_Number JNaN = JNaN"
| "js_Number (JInf neg) = JInf neg"
| "js_Number (JStr s) = text_number s"
| "js_Number (JArr vs) = text_number (js_String (JArr vs))"
| "js_Number (JObj fs) = JNaN"

text \<open>\<open>JSON.parse(JSON.stringify(v))\<close> on a value that has a text.\<close>

fun json_clone :: "jsval \<Rightarrow> jsval" where
  "json_clone (JArr vs) = JArr (map (\<lambda>v. if v = JUndef then JNull else json_clone v) vs)"
| "json_clone (JObj fs) =
     JObj (concat (map (\<lambda>(k, v). if v = JUndef then [] else [(k, json_clone v)]) fs))"
| "json_clone JNaN = JNull"
| "json_clone (JInf neg) = JNull"
| "json_clone v = v"

definition written :: "job \<Rightarrow> job" where
  "written j = the_obj (json_clone (JObj j))"

text \<open>
  A field of \<open>jobs\<close> by name: the object inherits from \<open>Object.prototype\<close>, so the names below
  are found without being own fields, and setting \<open>__proto__\<close> where it is no own field changes
  the prototype, which is not written.
\<close>

definition object_names :: "string list" where
  "object_names = [''constructor'', ''__defineGetter__'', ''__defineSetter__'', ''hasOwnProperty'',
     ''__lookupGetter__'', ''__lookupSetter__'', ''isPrototypeOf'', ''propertyIsEnumerable'',
     ''toString'', ''valueOf'', ''__proto__'', ''toLocaleString'']"

datatype stored = Missing | Inherited | Stored job

definition find_job :: "job_map \<Rightarrow> string \<Rightarrow> stored" where
  "find_job st i =
     (case jm_get st i of
        Some j \<Rightarrow> Stored j
      | None \<Rightarrow> if i \<in> set object_names then Inherited else Missing)"

definition put_job :: "string \<Rightarrow> job \<Rightarrow> job_map \<Rightarrow> job_map" where
  "put_job i j st = (if i = ''__proto__'' \<and> jm_get st i = None then st else jm_set i (written j) st)"

section \<open>Normal jobs\<close>

definition str_or :: "jsval \<Rightarrow> string \<Rightarrow> jsval" where
  "str_or v d = (if is_str v then v else JStr d)"

definition normalizeJob :: "int \<Rightarrow> job \<Rightarrow> job" where
  "normalizeJob now j =
     [(''schemaVersion'', JInt 1),
      (''id'', JStr (js_String (js_field j ''id''))),
      (''status'', JStr (js_String (nullish (js_field j ''status'') (JStr ''queued'')))),
      (''payload'', if is_obj (js_field j ''payload'') then js_field j ''payload'' else JObj []),
      (''requestHash'', js_field j ''requestHash''),
      (''retrySafe'', JBool (js_field j ''retrySafe'' = JBool True)),
      (''createdAt'', str_or (js_field j ''createdAt'') (iso_text now)),
      (''updatedAt'', str_or (js_field j ''updatedAt'') (iso_text now)),
      (''startedAt'', js_field j ''startedAt''),
      (''completedAt'', js_field j ''completedAt''),
      (''attempts'', js_Number (nullish (js_field j ''attempts'') (JInt 0))),
      (''timeoutMs'', js_Number (nullish (js_field j ''timeoutMs'') (JInt 120000))),
      (''result'', js_field j ''result''),
      (''error'', js_field j ''error''),
      (''recoveredAt'', js_field j ''recoveredAt'')] @
     (if is_str (js_field j ''occurrenceKey'') then [(''occurrenceKey'', js_field j ''occurrenceKey'')] else []) @
     (if is_str (js_field j ''scheduledFor'') then [(''scheduledFor'', js_field j ''scheduledFor'')] else []) @
     (if is_str (js_field j ''nextRunAt'') \<or> js_field j ''nextRunAt'' = JNull
      then [(''nextRunAt'', js_field j ''nextRunAt'')] else []) @
     (if is_obj (js_field j ''dispatchLease'') then [(''dispatchLease'', js_field j ''dispatchLease'')] else [])"

section \<open>Operations\<close>

type_synonym 'a job_result = "job_map \<times> (string + 'a)"

definition read_status :: "job \<Rightarrow> jsval" where
  "read_status j = js_field j ''status''"

definition job_text :: "job \<Rightarrow> string \<Rightarrow> string" where
  "job_text j k = js_String (js_field j k)"

definition create_job :: "int \<Rightarrow> job \<Rightarrow> job_map \<Rightarrow> job job_result" where
  "create_job now j st =
     (let i = job_text j ''id'' in
      if find_job st i \<noteq> Missing then (st, Inl (''job already exists: '' @ i))
      else (put_job i (normalizeJob now j) st, Inr (normalizeJob now j)))"

definition patched :: "int \<Rightarrow> string \<Rightarrow> job \<Rightarrow> job \<Rightarrow> job" where
  "patched now i j patch =
     normalizeJob now (js_assign (js_assign j patch) [(''id'', JStr i), (''updatedAt'', JStr (iso_text now))])"

definition claim_job :: "int \<Rightarrow> string \<Rightarrow> job \<Rightarrow> job_map \<Rightarrow> job option job_result" where
  "claim_job now i patch st =
     (case find_job st i of
        Stored j \<Rightarrow>
          if read_status j = JStr ''queued''
          then (put_job i (patched now i j patch) st, Inr (Some (patched now i j patch)))
          else (st, Inr None)
      | _ \<Rightarrow> (st, Inr None))"

text \<open>The functions and objects inherited from \<open>Object.prototype\<close> have no own enumerable fields.\<close>

definition update_job :: "int \<Rightarrow> string \<Rightarrow> job \<Rightarrow> job_map \<Rightarrow> job job_result" where
  "update_job now i patch st =
     (case find_job st i of
        Missing \<Rightarrow> (st, Inl (''job not found: '' @ i))
      | Inherited \<Rightarrow> (put_job i (patched now i [] patch) st, Inr (patched now i [] patch))
      | Stored j \<Rightarrow> (put_job i (patched now i j patch) st, Inr (patched now i j patch)))"

definition list_jobs :: "(string \<Rightarrow> string \<Rightarrow> int) \<Rightarrow> job_map \<Rightarrow> job list" where
  "list_jobs lc st = sort_cmp (\<lambda>l r. lc (job_text r ''updatedAt'') (job_text l ''updatedAt'')) (map snd st)"

definition oldest_first :: "(string \<Rightarrow> string \<Rightarrow> int) \<Rightarrow> job \<Rightarrow> job \<Rightarrow> int" where
  "oldest_first lc l r =
     (let c = lc (job_text l ''createdAt'') (job_text r ''createdAt'') in
      if c \<noteq> 0 then c else lc (job_text l ''id'') (job_text r ''id''))"

fun number_floor :: "jsval \<Rightarrow> int" where
  "number_floor (JInt n) = n"
| "number_floor (JFlt n t) = n"
| "number_floor _ = 0"

definition lease_fields :: "int \<Rightarrow> job \<Rightarrow> job \<Rightarrow> job" where
  "lease_fields now j requested =
     (let timeout = js_field j ''timeoutMs'';
          span = max (number_floor (js_Number (if js_truthy timeout then timeout else JInt 120000)) + 30000) 120000 in
      js_assign (js_assign requested
        (if js_truthy (js_field j ''occurrenceKey'') then [(''occurrenceKey'', js_field j ''occurrenceKey'')] else []))
        [(''acquiredAt'', str_or (js_field requested ''acquiredAt'') (iso_text now)),
         (''expiresAt'', str_or (js_field requested ''expiresAt'') (iso_text (now + span)))])"

definition claimNextQueued ::
    "(string \<Rightarrow> string \<Rightarrow> int) \<Rightarrow> int \<Rightarrow> job \<Rightarrow> job_map \<Rightarrow> job option job_result" where
  "claimNextQueued lc now patch st =
     (case sort_cmp (oldest_first lc) (filter (\<lambda>j. read_status j = JStr ''queued'') (map snd st)) of
        [] \<Rightarrow> (st, Inr None)
      | j # _ \<Rightarrow>
          let i = job_text j ''id'';
              attempts = (case js_field j ''attempts'' of JInt n \<Rightarrow> JInt (n + 1) | v \<Rightarrow> v);
              lease = js_field patch ''dispatchLease'';
              claimed = normalizeJob now (js_assign (js_assign j patch)
                ([(''id'', js_field j ''id''), (''status'', JStr ''running''), (''attempts'', attempts),
                  (''createdAt'', js_field j ''createdAt''), (''updatedAt'', JStr (iso_text now))] @
                 (if is_obj lease then [(''dispatchLease'', JObj (lease_fields now j (the_obj lease)))] else []))) in
          (put_job i claimed st, Inr (Some claimed)))"

definition recover_job :: "int \<Rightarrow> int \<Rightarrow> job \<Rightarrow> job_map \<Rightarrow> job_map" where
  "recover_job maxAttempts now j st =
     (if read_status j \<noteq> JStr ''running'' then st
      else
        let attempts = number_floor (js_Number (nullish (js_field j ''attempts'') (JInt 0))) + 1;
            safe = (js_field j ''retrySafe'' = JBool True);
            retry = (safe \<and> attempts < maxAttempts) in
        put_job (job_text j ''id'') (normalizeJob now (js_assign j
          [(''attempts'', JInt attempts),
           (''status'', JStr (if retry then ''queued'' else if safe then ''failed'' else ''needs-review'')),
           (''error'', if retry then JUndef else
              JStr ''worker crashed or gateway stopped during execution; outcome requires operator review''),
           (''recoveredAt'', JStr (iso_text now)), (''updatedAt'', JStr (iso_text now))])) st)"

definition recover_jobs :: "int \<Rightarrow> int \<Rightarrow> job_map \<Rightarrow> job_map \<times> job list" where
  "recover_jobs maxAttempts now st =
     (let st' = fold (recover_job maxAttempts now) (map snd st) st in (st', map snd st'))"

record job_page =
  jp_items :: "job list"
  jp_total :: nat
  jp_attention :: nat
  jp_nextOffset :: "nat option"

definition queryJobs ::
    "(string \<Rightarrow> string \<Rightarrow> int) \<Rightarrow> int \<Rightarrow> int \<Rightarrow> string \<Rightarrow> string \<Rightarrow> job_map \<Rightarrow> job_page" where
  "queryJobs lc limit offset query status st =
     (let needle = map ascii_lower (js_trim query);
          hit = (\<lambda>j. (status = [] \<or> read_status j = JStr status) \<and>
            (needle = [] \<or> (case json_stringify (JObj j) of None \<Rightarrow> False | Some t \<Rightarrow> js_includes (map ascii_lower t) needle)));
          filtered = filter hit (list_jobs lc st);
          safeOffset = (if is_safe_int offset \<and> 0 \<le> offset then nat offset else 0);
          safeLimit = (if is_safe_int limit \<and> 0 \<le> limit then nat limit else 50);
          items = take safeLimit (drop safeOffset filtered) in
      \<lparr>jp_items = items, jp_total = length filtered,
        jp_attention = length (filter (\<lambda>j. read_status j \<in> {JStr ''failed'', JStr ''needs-review''}) filtered),
        jp_nextOffset = (if safeOffset + length items < length filtered then Some (safeOffset + length items) else None)\<rparr>)"

section \<open>Fields\<close>

lemma json_clone_undef [simp]: "json_clone v = JUndef \<longleftrightarrow> v = JUndef"
  by (cases v) auto

lemma js_field_written:
  "distinct (map fst j) \<Longrightarrow> js_field (written j) k = json_clone (js_field j k)"
proof (induction j)
  case (Cons p j)
  obtain k' v where p: "p = (k', v)" by (cases p)
  have w: "written (p # j) = (if v = JUndef then [] else [(k', json_clone v)]) @ written j"
    by (simp add: written_def p)
  from Cons show ?case
    unfolding w by (auto simp: p js_field_none)
qed (simp add: written_def)

lemma keys_normalizeJob [simp]: "distinct (map fst (normalizeJob now j))"
  by (simp add: normalizeJob_def)

lemma read_status_normalizeJob [simp]:
  "read_status (normalizeJob now j) = JStr (js_String (nullish (js_field j ''status'') (JStr ''queued'')))"
  by (simp add: read_status_def normalizeJob_def)

lemma attempts_normalizeJob [simp]:
  "js_field (normalizeJob now j) ''attempts'' = js_Number (nullish (js_field j ''attempts'') (JInt 0))"
  by (simp add: normalizeJob_def)

section \<open>The interface of a job store\<close>

text \<open>
  What the schedulers rely on: a job is created queued once, is claimed only while it is queued,
  and an operation on one job leaves all others alone.
\<close>

definition sets_status :: "job \<Rightarrow> string \<Rightarrow> bool" where
  "sets_status patch s \<longleftrightarrow> js_field patch ''status'' = JStr s \<and> distinct (map fst patch)"

locale job_store =
  fixes get :: "'st \<Rightarrow> string \<Rightarrow> job option"
    and create :: "int \<Rightarrow> job \<Rightarrow> 'st \<Rightarrow> 'st \<times> (string + job)"
    and claim :: "int \<Rightarrow> string \<Rightarrow> job \<Rightarrow> 'st \<Rightarrow> 'st \<times> (string + job option)"
    and update :: "int \<Rightarrow> string \<Rightarrow> job \<Rightarrow> 'st \<Rightarrow> 'st \<times> (string + job)"
  assumes create_error: "create now j st = (st', Inl e) \<Longrightarrow> st' = st"
    and create_get: "create now j st = (st', Inr j') \<Longrightarrow>
      get st (job_text j ''id'') = None \<and> get st' = (get st)(job_text j ''id'' \<mapsto> written j')"
    and claim_none: "claim now i patch st = (st', r) \<Longrightarrow> (\<forall>j. r \<noteq> Inr (Some j)) \<Longrightarrow> st' = st"
    and claim_get: "claim now i patch st = (st', Inr (Some j')) \<Longrightarrow>
      (\<exists>j. get st i = Some j \<and> read_status j = JStr ''queued'' \<and> j' = patched now i j patch) \<and>
      get st' = (get st)(i \<mapsto> written j')"
    and update_error: "update now i patch st = (st', Inl e) \<Longrightarrow> st' = st"
    and update_get: "update now i patch st = (st', Inr j') \<Longrightarrow>
      (get st' = get st \<or> get st' = (get st)(i \<mapsto> written j')) \<and>
      (\<exists>j. (get st i = Some j \<or> get st i = None \<and> j = []) \<and> j' = patched now i j patch)"
begin

definition queued_ids :: "'st \<Rightarrow> string set" where
  "queued_ids st = {i. \<exists>j. get st i = Some j \<and> read_status j = JStr ''queued''}"

definition started_ids :: "'st \<Rightarrow> string set" where
  "started_ids st = {i. \<exists>j. get st i = Some j \<and> read_status j \<noteq> JStr ''queued''}"

lemma status_written: "read_status (written (normalizeJob now j)) = read_status (normalizeJob now j)"
  by (simp add: read_status_def js_field_written normalizeJob_def)

lemma read_status_patched: "sets_status patch s \<Longrightarrow> read_status (patched now i j patch) = JStr s"
proof -
  assume "sets_status patch s"
  then have "js_field (js_assign j patch) ''status'' = JStr s"
  proof (induction patch arbitrary: j)
    case (Cons p patch)
    obtain k v where p: "p = (k, v)" by (cases p)
    show ?case
    proof (cases "k = ''status''")
      case True
      with Cons.prems have "v = JStr s" "''status'' \<notin> fst ` set patch" by (auto simp: sets_status_def p)
      with True show ?thesis by (simp add: p js_field_assign)
    next
      case False
      with Cons show ?thesis by (simp add: p sets_status_def)
    qed
  qed (simp add: sets_status_def)
  then show ?thesis by (simp add: patched_def nullish_def)
qed

lemma ids_upd:
  assumes "get st' = (get st)(i \<mapsto> j)"
  shows "started_ids st' = (if read_status j = JStr ''queued'' then started_ids st - {i} else insert i (started_ids st))"
    and "queued_ids st' = (if read_status j = JStr ''queued'' then insert i (queued_ids st) else queued_ids st - {i})"
  unfolding started_ids_def queued_ids_def assms by (auto split: if_splits)

lemma ids_same: "get st' = get st \<Longrightarrow> started_ids st' = started_ids st \<and> queued_ids st' = queued_ids st"
  by (simp add: started_ids_def queued_ids_def)

lemma create_ids:
  assumes "create now j st = (st', r)"
  shows "started_ids st \<subseteq> started_ids st' \<and> queued_ids st' \<subseteq> insert (job_text j ''id'') (queued_ids st)"
proof (cases r)
  case (Inl e)
  with create_error assms have "st' = st" by blast
  then show ?thesis by auto
next
  case (Inr j')
  from create_get [OF assms [unfolded Inr]] have "get st (job_text j ''id'') = None"
    and g: "get st' = (get st)(job_text j ''id'' \<mapsto> written j')" by auto
  then have "job_text j ''id'' \<notin> started_ids st" by (simp add: started_ids_def)
  with ids_upd [OF g] show ?thesis by auto
qed

lemma claim_started:
  assumes "claim now i patch st = (st', r)" and "sets_status patch s" and "s \<noteq> ''queued''"
  shows "started_ids st \<subseteq> started_ids st' \<and> queued_ids st' \<subseteq> queued_ids st \<and>
     (\<forall>j. r = Inr (Some j) \<longrightarrow> i \<in> queued_ids st \<and> i \<in> started_ids st')"
proof (cases "\<exists>j. r = Inr (Some j)")
  case True
  then obtain j' where r: "r = Inr (Some j')" ..
  from claim_get [OF assms(1) [unfolded r]] obtain j where
    j: "get st i = Some j" "read_status j = JStr ''queued''" "j' = patched now i j patch"
    and st': "get st' = (get st)(i \<mapsto> written j')" by blast
  have "read_status (written j') = JStr s"
    using read_status_patched [OF assms(2)] status_written by (simp add: j(3) patched_def)
  with ids_upd [OF st'] assms(3) r j(1,2) show ?thesis by (auto simp: queued_ids_def)
next
  case False
  with claim_none [OF assms(1)] have "st' = st" by blast
  with False show ?thesis by auto
qed

lemma update_started:
  assumes "update now i patch st = (st', r)" and "sets_status patch s" and "s \<noteq> ''queued''"
  shows "started_ids st \<subseteq> started_ids st' \<and> queued_ids st' \<subseteq> queued_ids st"
proof (cases r)
  case (Inl e)
  with update_error assms(1) have "st' = st" by blast
  then show ?thesis by simp
next
  case (Inr j')
  from update_get [OF assms(1) [unfolded Inr]] obtain j where j: "j' = patched now i j patch"
    and st': "get st' = get st \<or> get st' = (get st)(i \<mapsto> written j')" by blast
  have "read_status (written j') = JStr s"
    using read_status_patched [OF assms(2)] status_written by (simp add: j patched_def)
  with st' assms(3) ids_upd [of st' st i] ids_same [of st' st] show ?thesis by auto
qed

end

lemma get_put_job:
  "jm_get (put_job i j st) = (if i = ''__proto__'' \<and> jm_get st i = None then jm_get st else (jm_get st)(i \<mapsto> written j))"
  by (auto simp: put_job_def jm_get_set fun_eq_iff)

lemma find_job_cases:
  "find_job st i = Stored j \<longleftrightarrow> jm_get st i = Some j"
  "find_job st i = Missing \<longleftrightarrow> jm_get st i = None \<and> i \<notin> set object_names"
  by (auto simp: find_job_def split: option.splits)

interpretation files: job_store "\<lambda>st. jm_get st" create_job claim_job update_job
proof unfold_locales
  fix now j st st' j' assume "create_job now j st = (st', Inr j')"
  then show "jm_get st (job_text j ''id'') = None \<and> jm_get st' = (jm_get st)(job_text j ''id'' \<mapsto> written j')"
    by (auto simp: create_job_def Let_def find_job_cases get_put_job object_names_def split: if_splits)
next
  fix now i patch st st' j' assume c: "claim_job now i patch st = (st', Inr (Some j'))"
  then show "(\<exists>j. jm_get st i = Some j \<and> read_status j = JStr ''queued'' \<and> j' = patched now i j patch) \<and>
      jm_get st' = (jm_get st)(i \<mapsto> written j')"
    by (auto simp: claim_job_def find_job_cases get_put_job split: stored.splits if_splits)
next
  fix now i patch st st' j' assume "update_job now i patch st = (st', Inr j')"
  then show "(jm_get st' = jm_get st \<or> jm_get st' = (jm_get st)(i \<mapsto> written j')) \<and>
      (\<exists>j. (jm_get st i = Some j \<or> jm_get st i = None \<and> j = []) \<and> j' = patched now i j patch)"
    by (auto simp: update_job_def find_job_def get_put_job split: stored.splits if_splits option.splits)
qed (auto simp: create_job_def claim_job_def update_job_def Let_def split: stored.splits if_splits)

end
