(* ===== verification/Session_Lanes.thy ===== *)
theory Session_Lanes
  imports Job_Store
begin

text \<open>
  The durable session-lane scheduler of \<open>packages/kernel/src/session-lanes.ts\<close> on the job store
  of \<open>Job_Store\<close>.  Every operation that the class runs under its state chain is one function on
  the record \<open>lanes\<close>, in a monad of state and errors: a store failure degrades the scheduler and
  throws.  The asynchronous parts (timers, promises of \<open>execute\<close>, the race in \<open>runClaimed\<close>) are
  events of a step function, in any order their guards allow.  An \<open>ActiveLaneJob\<close> is an entry of
  a list that only grows, so that a settled one keeps its identity.

  The clock is read once per operation.  Texts are compared by the argument \<open>lc\<close>, standing for
  \<open>localeCompare\<close>.
\<close>


section \<open>Constants and errors\<close>

definition SESSION_LANE_STATE_VERSION :: int where "SESSION_LANE_STATE_VERSION = 1"
definition MAX_SESSION_LANE_KEY_BYTES :: nat where "MAX_SESSION_LANE_KEY_BYTES = 128"
definition MAX_SESSION_LANE_JOB_ID_BYTES :: nat where "MAX_SESSION_LANE_JOB_ID_BYTES = 128"
definition MAX_SESSION_LANE_REQUEST_HASH_BYTES :: nat where "MAX_SESSION_LANE_REQUEST_HASH_BYTES = 256"
definition MAX_TIMEOUT_MS :: int where "MAX_TIMEOUT_MS = 86400000"
definition MAX_ATTEMPTS :: int where "MAX_ATTEMPTS = 1000000"
definition MAX_ERROR_BYTES :: int where "MAX_ERROR_BYTES = 8192"

definition TERMINAL_STATUSES :: "string list" where
  "TERMINAL_STATUSES = [''completed'', ''failed'', ''cancelled'', ''needs-review'']"

definition ALLOWED_STATUSES :: "string list" where
  "ALLOWED_STATUSES = TERMINAL_STATUSES @ [''queued'', ''running'']"

definition ENVELOPE_KEYS :: "string list" where
  "ENVELOPE_KEYS = [''schemaVersion'', ''id'', ''status'', ''payload'', ''attempts'', ''timeoutMs'', ''requestHash'',
     ''retrySafe'', ''result'', ''error'', ''createdAt'', ''updatedAt'', ''startedAt'', ''completedAt'', ''recoveredAt'']"

definition PAYLOAD_KEYS :: "string list" where
  "PAYLOAD_KEYS = [''sessionLaneVersion'', ''laneKey'', ''laneSequence'', ''input'']"

datatype lane_error =
    Lane_validation string string
  | Lane_ownership string
  | Lane_admission string string
  | Lane_degraded string
  | Lane_error string

fun errorMessage :: "lane_error \<Rightarrow> string" where
  "errorMessage (Lane_validation c m) = m"
| "errorMessage (Lane_ownership m) = m"
| "errorMessage (Lane_admission c m) = m"
| "errorMessage (Lane_degraded m) = m"
| "errorMessage (Lane_error m) = m"

datatype abort_kind = Abort_cancel | Abort_timeout | Abort_shutdown

fun abort_message :: "abort_kind \<Rightarrow> string" where
  "abort_message Abort_cancel = ''session lane job cancelled by user''"
| "abort_message Abort_timeout = ''session lane job timed out''"
| "abort_message Abort_shutdown = ''session lane job aborted during shutdown''"

section \<open>Validation\<close>

abbreviation invalid_option :: "string \<Rightarrow> lane_error" where
  "invalid_option \<equiv> Lane_validation ''INVALID_OPTION''"

abbreviation invalid_stored :: "string \<Rightarrow> lane_error" where
  "invalid_stored \<equiv> Lane_validation ''INVALID_STORED_JOB''"

fun safe_int :: "jsval \<Rightarrow> bool" where
  "safe_int (JInt n) = is_safe_int n"
| "safe_int _ = False"

fun int_of :: "jsval \<Rightarrow> int" where
  "int_of (JInt n) = n"
| "int_of _ = 0"

text \<open>A text cut to at most \<open>n\<close> bytes, at the start of a character.\<close>

definition continuation :: "char \<Rightarrow> bool" where
  "continuation c \<longleftrightarrow> (let b = (of_char c :: int) in 128 \<le> b \<and> b < 192)"

fun cut_back :: "string \<Rightarrow> nat \<Rightarrow> nat" where
  "cut_back s 0 = 0"
| "cut_back s (Suc n) = (if continuation (s ! Suc n) then cut_back s n else Suc n)"

definition truncateUtf8 :: "string \<Rightarrow> int \<Rightarrow> string" where
  "truncateUtf8 value maximum =
     (if int (length value) \<le> maximum then value else take (cut_back value (nat maximum)) value)"

definition positiveInteger :: "jsval \<Rightarrow> string \<Rightarrow> int \<Rightarrow> lane_error + int" where
  "positiveInteger value name maximum =
     (if safe_int value \<and> 1 \<le> int_of value \<and> int_of value \<le> maximum then Inr (int_of value)
      else Inl (invalid_option (name @ '' must be an integer between 1 and '' @ int_text maximum)))"

text \<open>The pattern \<open>^[A-Za-z0-9][A-Za-z0-9._:-]*$\<close> of lane keys and job ids.\<close>

definition alnum :: "char \<Rightarrow> bool" where
  "alnum c \<longleftrightarrow> is_upper c \<or> is_lower c \<or> is_digit c"

definition LANE_KEY_PATTERN :: "string \<Rightarrow> bool" where
  "LANE_KEY_PATTERN s \<longleftrightarrow> s \<noteq> [] \<and> alnum (hd s) \<and> list_all (\<lambda>c. alnum c \<or> c \<in> set ''._:-'') s"

definition REQUEST_HASH_PATTERN :: "string \<Rightarrow> bool" where
  "REQUEST_HASH_PATTERN s \<longleftrightarrow> s \<noteq> [] \<and> list_all (\<lambda>c. let b = (of_char c :: int) in 33 \<le> b \<and> b \<le> 126) s"

definition strictAsciiIdentifier :: "jsval \<Rightarrow> nat \<Rightarrow> string \<Rightarrow> lane_error + string" where
  "strictAsciiIdentifier value maximum label =
     (if is_str value \<and> length (the_str value) \<le> maximum \<and> LANE_KEY_PATTERN (the_str value) then Inr (the_str value)
      else Inl (invalid_option (label @ '' must be 1-'' @ nat_digits maximum @
        '' ASCII bytes and contain only letters, digits, dot, underscore, colon, or hyphen'')))"

text \<open>\<open>try { ... } catch (error) { throw ... }\<close>\<close>

definition rethrow :: "(lane_error \<Rightarrow> lane_error) \<Rightarrow> lane_error + 'a \<Rightarrow> lane_error + 'a" where
  "rethrow f r = (case r of Inl e \<Rightarrow> Inl (f e) | Inr a \<Rightarrow> Inr a)"

definition validateSessionLaneKey :: "jsval \<Rightarrow> lane_error + string" where
  "validateSessionLaneKey v =
     rethrow (\<lambda>e. Lane_validation ''INVALID_LANE_KEY'' (errorMessage e))
       (strictAsciiIdentifier v MAX_SESSION_LANE_KEY_BYTES ''lane key'')"

definition validateJobId :: "jsval \<Rightarrow> lane_error + string" where
  "validateJobId v = strictAsciiIdentifier v MAX_SESSION_LANE_JOB_ID_BYTES ''job id''"

definition validateRequestHash :: "jsval \<Rightarrow> lane_error + jsval" where
  "validateRequestHash v =
     (if v = JUndef then Inr JUndef
      else if is_str v \<and> length (the_str v) \<le> MAX_SESSION_LANE_REQUEST_HASH_BYTES \<and> REQUEST_HASH_PATTERN (the_str v)
      then Inr v
      else Inl (invalid_option ''requestHash must be 1-256 printable ASCII bytes without spaces''))"

definition jsonBytes :: "jsval \<Rightarrow> string \<Rightarrow> lane_error + int" where
  "jsonBytes v label =
     (case json_stringify v of
        None \<Rightarrow> Inl (invalid_option (label @ '' must be JSON serializable''))
      | Some t \<Rightarrow> Inr (int (length t)))"

definition time_of :: "jsval \<Rightarrow> int option" where
  "time_of v = (if is_str v then parse_iso (the_str v) else None)"

definition validateTimestamp :: "jsval \<Rightarrow> string \<Rightarrow> bool \<Rightarrow> lane_error + unit" where
  "validateTimestamp v name required =
     (if v = JUndef \<and> \<not> required then Inr ()
      else if time_of v = None then Inl (invalid_stored (name @ '' must be a canonical ISO timestamp''))
      else Inr ())"

definition persistedPayload :: "string \<Rightarrow> int \<Rightarrow> job \<Rightarrow> lane_error + job" where
  "persistedPayload laneKey laneSequence input =
     bindR (validateSessionLaneKey (JStr laneKey)) (\<lambda>key.
     bindR (positiveInteger (JInt laneSequence) ''laneSequence'' MAX_SAFE_INTEGER) (\<lambda>n.
     Inr [(''sessionLaneVersion'', JInt SESSION_LANE_STATE_VERSION), (''laneKey'', JStr key),
          (''laneSequence'', JInt n), (''input'', JObj input)]))"

section \<open>Stored jobs\<close>

record lane_job =
  lj_job :: job
  lj_laneKey :: string
  lj_laneSequence :: int
  lj_input :: job
  lj_bytes :: int

definition known_fields :: "string list \<Rightarrow> job \<Rightarrow> (string \<Rightarrow> lane_error) \<Rightarrow> lane_error + unit" where
  "known_fields keys j err =
     (case List.find (\<lambda>f. fst f \<notin> set keys) j of None \<Rightarrow> Inr () | Some f \<Rightarrow> Inl (err (fst f)))"

definition check_stored :: "bool \<Rightarrow> string \<Rightarrow> lane_error + unit" where
  "check_stored ok msg = (if ok then Inr () else Inl (invalid_stored msg))"

definition predates :: "job \<Rightarrow> string \<Rightarrow> bool" where
  "predates j name \<longleftrightarrow>
     (case (time_of (js_field j name), time_of (js_field j ''createdAt'')) of
        (Some t, Some c) \<Rightarrow> t < c | _ \<Rightarrow> False)"

definition stored_label :: "job \<Rightarrow> string" where
  "stored_label j = ''job '' @ job_text j ''id''"

definition validate_envelope :: "job \<Rightarrow> lane_error + unit" where
  "validate_envelope j =
     (let status = js_field j ''status''; label = stored_label j in
     bindR (known_fields ENVELOPE_KEYS j (\<lambda>k. invalid_stored (label @ '' contains unsupported field '' @ k))) (\<lambda>_.
     bindR (rethrow (\<lambda>e. invalid_stored (errorMessage e))
       (bindR (validateJobId (js_field j ''id'')) (\<lambda>_. validateRequestHash (js_field j ''requestHash'')))) (\<lambda>_.
     bindR (check_stored (is_str status \<and> the_str status \<in> set ALLOWED_STATUSES)
       (label @ '' has invalid status '' @ js_String status)) (\<lambda>_.
     bindR (check_stored (js_field j ''schemaVersion'' = JInt 1) (label @ '' has invalid schemaVersion'')) (\<lambda>_.
     bindR (check_stored (safe_int (js_field j ''attempts'') \<and> 0 \<le> int_of (js_field j ''attempts'') \<and>
         int_of (js_field j ''attempts'') \<le> MAX_ATTEMPTS) (label @ '' has invalid attempts'')) (\<lambda>_.
     bindR (check_stored (\<not> (status = JStr ''queued'' \<and> int_of (js_field j ''attempts'') \<noteq> 0))
       (''queued '' @ label @ '' must not contain a prior attempt'')) (\<lambda>_.
     bindR (check_stored (safe_int (js_field j ''timeoutMs'') \<and> 1 \<le> int_of (js_field j ''timeoutMs'') \<and>
         int_of (js_field j ''timeoutMs'') \<le> MAX_TIMEOUT_MS) (label @ '' has invalid timeoutMs'')) (\<lambda>_.
     bindR (check_stored (case js_field j ''retrySafe'' of JBool b \<Rightarrow> True | _ \<Rightarrow> False)
       (label @ '' has invalid retrySafe'')) (\<lambda>_.
     bindR (validateTimestamp (js_field j ''createdAt'') (label @ '' createdAt'') True) (\<lambda>_.
     bindR (validateTimestamp (js_field j ''updatedAt'') (label @ '' updatedAt'') True) (\<lambda>_.
     bindR (validateTimestamp (js_field j ''startedAt'') (label @ '' startedAt'') (status = JStr ''running'')) (\<lambda>_.
     bindR (check_stored (\<not> (status = JStr ''queued'' \<and> js_field j ''startedAt'' \<noteq> JUndef))
       (''queued '' @ label @ '' must not contain startedAt'')) (\<lambda>_.
     bindR (validateTimestamp (js_field j ''completedAt'') (label @ '' completedAt'')
       (the_str status \<in> set TERMINAL_STATUSES)) (\<lambda>_.
     bindR (check_stored (\<not> (the_str status \<notin> set TERMINAL_STATUSES \<and> js_field j ''completedAt'' \<noteq> JUndef))
       (label @ '' has completedAt before a terminal state'')) (\<lambda>_.
     bindR (validateTimestamp (js_field j ''recoveredAt'') (label @ '' recoveredAt'') False) (\<lambda>_.
     bindR (check_stored (\<not> predates j ''updatedAt'') (label @ '' updatedAt predates createdAt'')) (\<lambda>_.
     bindR (check_stored (\<not> predates j ''startedAt'') (label @ '' startedAt predates createdAt'')) (\<lambda>_.
     bindR (check_stored (\<not> predates j ''completedAt'') (label @ '' completedAt predates createdAt'')) (\<lambda>_.
     check_stored (js_field j ''error'' = JUndef \<or>
         (is_str (js_field j ''error'') \<and> int (length (the_str (js_field j ''error''))) \<le> MAX_ERROR_BYTES))
       (label @ '' has invalid error''))))))))))))))))))))"

definition validateStoredJob :: "stored \<Rightarrow> int \<Rightarrow> lane_error + lane_job" where
  "validateStoredJob job maxPayloadBytes =
     (case job of
        Stored j \<Rightarrow>
          (let label = stored_label j; p = the_obj (js_field j ''payload'') in
           bindR (validate_envelope j) (\<lambda>_.
           bindR (check_stored (is_obj (js_field j ''payload'')) (label @ '' has invalid lane payload'')) (\<lambda>_.
           bindR (known_fields PAYLOAD_KEYS p (\<lambda>k. invalid_stored (label @ '' lane payload contains unsupported field '' @ k))) (\<lambda>_.
           bindR (check_stored (js_field p ''sessionLaneVersion'' = JInt SESSION_LANE_STATE_VERSION \<and>
               is_str (js_field p ''laneKey'') \<and> safe_int (js_field p ''laneSequence'') \<and>
               1 \<le> int_of (js_field p ''laneSequence'') \<and> is_obj (js_field p ''input''))
             (label @ '' is not a valid session-lane record'')) (\<lambda>_.
           bindR (rethrow (\<lambda>e. invalid_stored (errorMessage e)) (validateSessionLaneKey (js_field p ''laneKey''))) (\<lambda>key.
           bindR (jsonBytes (js_field j ''payload'') (label @ '' payload'')) (\<lambda>bytes.
           if maxPayloadBytes < bytes then Inl (invalid_stored (label @ '' payload exceeds '' @ int_text maxPayloadBytes @ '' bytes''))
           else Inr \<lparr>lj_job = j, lj_laneKey = key, lj_laneSequence = int_of (js_field p ''laneSequence''),
             lj_input = the_obj (js_field p ''input''), lj_bytes = bytes\<rparr>)))))))
      | _ \<Rightarrow> Inl (invalid_stored ''stored lane job must be an object''))"


section \<open>The scheduler\<close>

datatype lane_lifecycle = Lane_stopped | Lane_started | Lane_stopping

datatype lane_outcome = Lane_success jsval | Lane_failure string

text \<open>
  An \<open>ActiveLaneJob\<close>.  Its position in the list of all that were ever made is its identity.
  \<open>lt_phase\<close> says whether \<open>runClaimed\<close> has run and whether it called \<open>execute\<close>;
  \<open>lt_outcome\<close> is what the promise of \<open>execute\<close> settled to.
\<close>

datatype lane_phase = Lane_reserved | Lane_executing | Lane_skipped

record lane_task =
  lt_job :: job
  lt_id :: string
  lt_laneKey :: string
  lt_input :: job
  lt_abort :: "abort_kind option"
  lt_phase :: lane_phase
  lt_outcome :: "lane_outcome option"
  lt_logicalSettled :: bool
  lt_executionSettled :: bool

record lane_options =
  lo_concurrency :: int
  lo_maxPending :: int
  lo_maxPendingPerLane :: int
  lo_maxPayloadBytes :: int
  lo_maxPendingBytes :: int
  lo_defaultTimeoutMs :: int

record lanes =
  ln_options :: lane_options
  ln_jobs :: job_map
  ln_tasks :: "lane_task list"
  ln_active :: "(string \<times> nat) list"
  ln_locked :: "string list"
  ln_lifecycle :: lane_lifecycle
  ln_degraded :: "string option"

type_synonym 'a lane_m = "(lanes, lane_error, 'a) stateR"

definition lane_options_of ::
    "jsval \<Rightarrow> jsval \<Rightarrow> jsval \<Rightarrow> jsval \<Rightarrow> jsval \<Rightarrow> jsval \<Rightarrow> lane_error + lane_options" where
  "lane_options_of concurrency maxPending maxPendingPerLane maxPayloadBytes maxPendingBytes defaultTimeoutMs =
     bindR (positiveInteger (nullish concurrency (JInt 4)) ''concurrency'' 256) (\<lambda>c.
     bindR (positiveInteger (nullish maxPending (JInt 1000)) ''maxPending'' 1000000) (\<lambda>p.
     bindR (positiveInteger (nullish maxPendingPerLane (JInt 100)) ''maxPendingPerLane'' p) (\<lambda>l.
     bindR (positiveInteger (nullish maxPayloadBytes (JInt 262144)) ''maxPayloadBytes'' 16777216) (\<lambda>b.
     bindR (positiveInteger (nullish maxPendingBytes (JInt 8388608)) ''maxPendingBytes'' 1073741824) (\<lambda>q.
     bindR (guardR (b \<le> q) (invalid_option ''maxPendingBytes must be at least maxPayloadBytes'')) (\<lambda>_.
     bindR (positiveInteger (nullish defaultTimeoutMs (JInt 120000)) ''defaultTimeoutMs'' MAX_TIMEOUT_MS) (\<lambda>t.
     Inr \<lparr>lo_concurrency = c, lo_maxPending = p, lo_maxPendingPerLane = l, lo_maxPayloadBytes = b,
          lo_maxPendingBytes = q, lo_defaultTimeoutMs = t\<rparr>)))))))"

definition new_lanes :: "lane_options \<Rightarrow> job_map \<Rightarrow> lanes" where
  "new_lanes opts jobs = \<lparr>ln_options = opts, ln_jobs = jobs, ln_tasks = [], ln_active = [], ln_locked = [],
     ln_lifecycle = Lane_stopped, ln_degraded = None\<rparr>"

section \<open>The store behind it\<close>

text \<open>
  A call of the store may fail before or after its effect; which it does is an input of the
  operation, one entry per call.
\<close>

datatype io = Io_ok | Io_lost string | Io_late string

definition nth_io :: "io list \<Rightarrow> nat \<Rightarrow> io" where
  "nth_io ios k = (if k < length ios then ios ! k else Io_ok)"

definition enterDegraded :: "string \<Rightarrow> lane_error \<Rightarrow> 'a lane_m" where
  "enterDegraded operation cause = (\<lambda>s.
     let m = (case ln_degraded s of
         Some m \<Rightarrow> m
       | None \<Rightarrow> (case cause of
           Lane_degraded m \<Rightarrow> m
         | _ \<Rightarrow> ''session lane scheduler degraded after durable store '' @ operation @ '' failed: '' @ errorMessage cause)) in
     (s\<lparr>ln_degraded := Some m\<rparr>, Inl (Lane_degraded m)))"

definition assertHealthy :: "unit lane_m" where
  "assertHealthy = (\<lambda>s. case ln_degraded s of None \<Rightarrow> (s, Inr ()) | Some m \<Rightarrow> (s, Inl (Lane_degraded m)))"

definition storeRead :: "string \<Rightarrow> io \<Rightarrow> (job_map \<Rightarrow> 'a) \<Rightarrow> 'a lane_m" where
  "storeRead operation x f =
     (case x of
        Io_ok \<Rightarrow> getS (\<lambda>s. f (ln_jobs s))
      | Io_lost m \<Rightarrow> enterDegraded operation (Lane_error m)
      | Io_late m \<Rightarrow> enterDegraded operation (Lane_error m))"

definition store_call :: "(job_map \<Rightarrow> job_map \<times> (string + 'a)) \<Rightarrow> (string + 'a) lane_m" where
  "store_call f = (\<lambda>s. case f (ln_jobs s) of (st, r) \<Rightarrow> (s\<lparr>ln_jobs := st\<rparr>, Inr r))"

definition storeWrite :: "string \<Rightarrow> io \<Rightarrow> (job_map \<Rightarrow> job_map \<times> (string + 'a)) \<Rightarrow> 'a lane_m" where
  "storeWrite operation x f =
     (case x of
        Io_lost m \<Rightarrow> enterDegraded operation (Lane_error m)
      | Io_late m \<Rightarrow> bindS (store_call f) (\<lambda>_. enterDegraded operation (Lane_error m))
      | Io_ok \<Rightarrow> bindS (store_call f) (\<lambda>r. case r of
            Inl m \<Rightarrow> enterDegraded operation (Lane_error m)
          | Inr a \<Rightarrow> returnS a))"

definition add_sequence :: "(string \<times> int) list \<Rightarrow> lane_job \<Rightarrow> lane_error + (string \<times> int) list" where
  "add_sequence seen r =
     (if (lj_laneKey r, lj_laneSequence r) \<in> set seen
      then Inl (invalid_stored (''lane '' @ lj_laneKey r @ '' contains duplicate sequence '' @ int_text (lj_laneSequence r)))
      else Inr (seen @ [(lj_laneKey r, lj_laneSequence r)]))"

definition validateDedicatedStore :: "int \<Rightarrow> job list \<Rightarrow> lane_error + lane_job list" where
  "validateDedicatedStore maxPayloadBytes jobs =
     rethrow (\<lambda>e. Lane_ownership (''session lane scheduler requires a dedicated store; no records were changed: '' @ errorMessage e))
       (bindR (mapR (\<lambda>j. validateStoredJob (Stored j) maxPayloadBytes) jobs) (\<lambda>validated.
        bindR (foldR add_sequence [] validated) (\<lambda>_. Inr validated)))"

text \<open>\<open>isDeepStrictEqual\<close>: equal up to the order of the fields of objects.\<close>

fun key_sorted :: "jsval \<Rightarrow> jsval" where
  "key_sorted (JArr vs) = JArr (map key_sorted vs)"
| "key_sorted (JObj fs) = JObj (sort_key fst (map (\<lambda>(k, v). (k, key_sorted v)) fs))"
| "key_sorted v = v"

definition isDeepStrictEqual :: "jsval \<Rightarrow> jsval \<Rightarrow> bool" where
  "isDeepStrictEqual a b \<longleftrightarrow> key_sorted a = key_sorted b"

record lane_expectation =
  le_id :: string
  le_status :: string
  le_attempts :: int
  le_prior :: "job option"
  le_payload :: jsval
  le_timeoutMs :: jsval
  le_retrySafe :: jsval
  le_requestHash :: jsval
  le_patch :: job

definition from_prior :: "job \<Rightarrow> job \<Rightarrow> string \<Rightarrow> jsval" where
  "from_prior patch prior k = (if k \<in> fst ` set patch then js_field patch k else js_field prior k)"

definition check_transition ::
    "(string \<Rightarrow> string \<Rightarrow> int) \<Rightarrow> int \<Rightarrow> stored \<Rightarrow> string \<Rightarrow> lane_expectation \<Rightarrow> lane_error + lane_job" where
  "check_transition lc maxPayloadBytes job operation ex =
     bindR (validateStoredJob job maxPayloadBytes) (\<lambda>validated.
     let j = lj_job validated; prior = (case le_prior ex of None \<Rightarrow> [] | Some p \<Rightarrow> p) in
     bindR (check_stored (js_field j ''id'' = JStr (le_id ex) \<and> js_field j ''status'' = JStr (le_status ex) \<and>
         js_field j ''attempts'' = JInt (le_attempts ex))
       (operation @ '' returned '' @ job_text j ''id'' @ ''/'' @ job_text j ''status'' @ ''/'' @ job_text j ''attempts'' @
        ''; expected '' @ le_id ex @ ''/'' @ le_status ex @ ''/'' @ int_text (le_attempts ex))) (\<lambda>_.
     bindR (check_stored (js_field j ''schemaVersion'' = JInt 1) (operation @ '' changed schemaVersion'')) (\<lambda>_.
     bindR (check_stored
       (isDeepStrictEqual (js_field j ''payload'') (nullish (js_field prior ''payload'') (le_payload ex)) \<and>
        js_field j ''timeoutMs'' = nullish (js_field prior ''timeoutMs'') (le_timeoutMs ex) \<and>
        js_field j ''retrySafe'' = nullish (js_field prior ''retrySafe'') (le_retrySafe ex) \<and>
        js_field j ''requestHash'' = nullish (js_field prior ''requestHash'') (le_requestHash ex))
       (operation @ '' changed immutable request fields'')) (\<lambda>_.
     bindR (check_stored (le_prior ex = None \<or>
         (js_field j ''schemaVersion'' = js_field prior ''schemaVersion'' \<and>
          js_field j ''createdAt'' = js_field prior ''createdAt'' \<and>
          0 \<le> lc (job_text j ''updatedAt'') (job_text prior ''updatedAt'')))
       (operation @ '' changed immutable envelope fields'')) (\<lambda>_.
     bindR (check_stored
       (js_field j ''startedAt'' = from_prior (le_patch ex) prior ''startedAt'' \<and>
        js_field j ''completedAt'' = from_prior (le_patch ex) prior ''completedAt'' \<and>
        isDeepStrictEqual (js_field j ''result'') (from_prior (le_patch ex) prior ''result'') \<and>
        js_field j ''error'' = from_prior (le_patch ex) prior ''error'')
       (operation @ '' returned invalid transition state'')) (\<lambda>_.
     Inr validated))))))"

definition validateTransitionResult ::
    "(string \<Rightarrow> string \<Rightarrow> int) \<Rightarrow> stored \<Rightarrow> string \<Rightarrow> lane_expectation \<Rightarrow> lane_job lane_m" where
  "validateTransitionResult lc job operation ex =
     bindS (getS (\<lambda>s. lo_maxPayloadBytes (ln_options s))) (\<lambda>b.
     catchS (liftS (check_transition lc b job operation ex))
       (\<lambda>e. enterDegraded (operation @ '' result validation'') e))"

definition terminal_status :: "lane_job \<Rightarrow> bool" where
  "terminal_status r \<longleftrightarrow> the_str (js_field (lj_job r) ''status'') \<in> set TERMINAL_STATUSES"

definition has_status :: "string \<Rightarrow> lane_job \<Rightarrow> bool" where
  "has_status x r \<longleftrightarrow> js_field (lj_job r) ''status'' = JStr x"

definition expect_patch :: "job \<Rightarrow> string \<Rightarrow> string \<Rightarrow> int \<Rightarrow> job \<Rightarrow> lane_expectation" where
  "expect_patch prior i status attempts patch =
     \<lparr>le_id = i, le_status = status, le_attempts = attempts, le_prior = Some prior, le_payload = JUndef,
       le_timeoutMs = JUndef, le_retrySafe = JUndef, le_requestHash = JUndef, le_patch = patch\<rparr>"

definition attempts_of :: "job \<Rightarrow> int" where
  "attempts_of j = int_of (js_field j ''attempts'')"

section \<open>Starting and stopping\<close>

definition quarantine_patch :: "int \<Rightarrow> job" where
  "quarantine_patch now = [(''status'', JStr ''needs-review''), (''completedAt'', JStr (iso_text now)),
     (''error'', JStr ''scheduler stopped during execution; outcome is unknown and will not be retried automatically'')]"

definition quarantine_job ::
    "(string \<Rightarrow> string \<Rightarrow> int) \<Rightarrow> int \<Rightarrow> io list \<Rightarrow> nat \<times> lane_job \<Rightarrow> unit lane_m" where
  "quarantine_job lc now ios = (\<lambda>(k, r).
     let j = lj_job r; i = job_text j ''id''; patch = quarantine_patch now in
     bindS (storeWrite ''running-job quarantine'' (nth_io ios (Suc k)) (update_job now i patch)) (\<lambda>j'.
     bindS (validateTransitionResult lc (Stored j') ''running-job quarantine''
       (expect_patch j i ''needs-review'' (attempts_of j) patch)) (\<lambda>_.
     returnS ())))"

definition lanes_start :: "(string \<Rightarrow> string \<Rightarrow> int) \<Rightarrow> int \<Rightarrow> io list \<Rightarrow> unit lane_m" where
  "lanes_start lc now ios =
     bindS (getS ln_lifecycle) (\<lambda>lifecycle.
     if lifecycle = Lane_started then returnS ()
     else
       bindS assertHealthy (\<lambda>_.
       bindS (storeRead ''ownership validation'' (nth_io ios 0) (list_jobs lc)) (\<lambda>jobs.
       bindS (getS (\<lambda>s. lo_maxPayloadBytes (ln_options s))) (\<lambda>b.
       bindS (liftS (validateDedicatedStore b jobs)) (\<lambda>validated.
       bindS (eachS (quarantine_job lc now ios) (enumerate 0 (filter (has_status ''running'') validated))) (\<lambda>_.
       modifyS (\<lambda>s. s\<lparr>ln_lifecycle := Lane_started\<rparr>)))))))"

definition map_task :: "nat \<Rightarrow> (lane_task \<Rightarrow> lane_task) \<Rightarrow> lanes \<Rightarrow> lanes" where
  "map_task i f s =
     (if i < length (ln_tasks s) then s\<lparr>ln_tasks := (ln_tasks s)[i := f (ln_tasks s ! i)]\<rparr> else s)"

text \<open>\<open>controller.abort(reason)\<close>: the first reason stays.\<close>

definition abort_task :: "abort_kind \<Rightarrow> lane_task \<Rightarrow> lane_task" where
  "abort_task kind t = (case lt_abort t of None \<Rightarrow> t\<lparr>lt_abort := Some kind\<rparr> | Some k \<Rightarrow> t)"

text \<open>
  The first part of \<open>shutdown\<close>; the second one runs when every job that was active is settled.
\<close>

definition shutdown_begin :: "lanes \<Rightarrow> lanes" where
  "shutdown_begin s =
     (if ln_lifecycle s = Lane_stopped then s
      else fold (\<lambda>(i, k). map_task k (abort_task Abort_shutdown)) (ln_active s) (s\<lparr>ln_lifecycle := Lane_stopping\<rparr>))"

definition shutdown_end :: "lanes \<Rightarrow> lanes" where
  "shutdown_end s = (if ln_active s = [] then s\<lparr>ln_lifecycle := Lane_stopped\<rparr> else s)"

section \<open>Submission and cancellation\<close>

definition count_if :: "('a \<Rightarrow> bool) \<Rightarrow> 'a list \<Rightarrow> int" where
  "count_if p xs = int (length (filter p xs))"

definition in_lane :: "string \<Rightarrow> lane_job \<Rightarrow> bool" where
  "in_lane laneKey r \<longleftrightarrow> lj_laneKey r = laneKey"

definition last_sequence :: "string \<Rightarrow> lane_job list \<Rightarrow> int" where
  "last_sequence laneKey rs = fold (\<lambda>r n. if in_lane laneKey r then max n (lj_laneSequence r) else n) rs 0"

definition pending_bytes :: "lane_job list \<Rightarrow> int" where
  "pending_bytes rs = sum_list (map lj_bytes (filter (\<lambda>r. \<not> terminal_status r) rs))"

definition new_job :: "string \<Rightarrow> job \<Rightarrow> jsval \<Rightarrow> int \<Rightarrow> job" where
  "new_job i wrapped requestHash timeoutMs =
     [(''id'', JStr i), (''status'', JStr ''queued''), (''payload'', JObj wrapped), (''requestHash'', requestHash),
      (''retrySafe'', JBool False), (''timeoutMs'', JInt timeoutMs)]"

definition admit :: "lane_options \<Rightarrow> string \<Rightarrow> job \<Rightarrow> lane_job list \<Rightarrow> lane_error + job" where
  "admit opts laneKey payload validated =
     (if lo_maxPending opts \<le> count_if (\<lambda>r. \<not> terminal_status r) validated
      then Inl (Lane_admission ''QUEUE_FULL'' (''session lane queue limit reached ('' @ int_text (lo_maxPending opts) @ '')''))
      else if lo_maxPendingPerLane opts \<le> count_if (\<lambda>r. in_lane laneKey r \<and> \<not> terminal_status r) validated
      then Inl (Lane_admission ''LANE_QUEUE_FULL''
        (''session lane '' @ laneKey @ '' queue limit reached ('' @ int_text (lo_maxPendingPerLane opts) @ '')''))
      else
        bindR (persistedPayload laneKey (last_sequence laneKey validated + 1) payload) (\<lambda>wrapped.
        bindR (jsonBytes (JObj wrapped) ''session lane payload'') (\<lambda>bytes.
        if lo_maxPayloadBytes opts < bytes
        then Inl (Lane_admission ''QUEUE_BYTES_FULL'' (''session lane payload exceeds '' @ int_text (lo_maxPayloadBytes opts) @ '' bytes''))
        else if lo_maxPendingBytes opts < pending_bytes validated + bytes
        then Inl (Lane_admission ''QUEUE_BYTES_FULL''
          (''session lane pending payload limit reached ('' @ int_text (lo_maxPendingBytes opts) @ '' bytes)''))
        else Inr wrapped)))"

definition submit_checks :: "jsval \<Rightarrow> jsval \<Rightarrow> jsval \<Rightarrow> jsval \<Rightarrow> jsval \<Rightarrow> int \<Rightarrow> lane_error + (string \<times> string \<times> jsval \<times> int)" where
  "submit_checks laneKey payload jobId timeoutMs requestHash dflt =
     bindR (validateSessionLaneKey laneKey) (\<lambda>key.
     bindR (guardR (is_obj payload) (invalid_option ''session lane payload must be an object'')) (\<lambda>_.
     bindR (positiveInteger (nullish timeoutMs (JInt dflt)) ''timeoutMs'' MAX_TIMEOUT_MS) (\<lambda>t.
     bindR (validateJobId jobId) (\<lambda>i.
     bindR (validateRequestHash requestHash) (\<lambda>h.
     Inr (key, i, h, t))))))"

definition lanes_submit ::
    "(string \<Rightarrow> string \<Rightarrow> int) \<Rightarrow> int \<Rightarrow> io list \<Rightarrow> jsval \<Rightarrow> jsval \<Rightarrow> jsval \<Rightarrow> jsval \<Rightarrow> jsval \<Rightarrow> job lane_m" where
  "lanes_submit lc now ios laneKey payload jobId timeoutMs requestHash =
     bindS (getS ln_options) (\<lambda>opts.
     bindS (liftS (submit_checks laneKey payload jobId timeoutMs requestHash (lo_defaultTimeoutMs opts))) (\<lambda>(key, i, h, t).
     bindS assertHealthy (\<lambda>_.
     bindS (storeRead ''admission read'' (nth_io ios 0) (list_jobs lc)) (\<lambda>jobs.
     bindS (liftS (validateDedicatedStore (lo_maxPayloadBytes opts) jobs)) (\<lambda>validated.
     bindS (liftS (admit opts key (the_obj payload) validated)) (\<lambda>wrapped.
     bindS (storeWrite ''admission create'' (nth_io ios 1) (create_job now (new_job i wrapped h t))) (\<lambda>created.
     bindS (validateTransitionResult lc (Stored created) ''admission''
       \<lparr>le_id = i, le_status = ''queued'', le_attempts = 0, le_prior = None, le_payload = JObj wrapped,
         le_timeoutMs = JInt t, le_retrySafe = JBool False, le_requestHash = h, le_patch = []\<rparr>) (\<lambda>_.
     returnS created))))))))"

datatype lane_cancel = Cancel_job job | Cancel_active nat

definition lanes_cancel :: "(string \<Rightarrow> string \<Rightarrow> int) \<Rightarrow> int \<Rightarrow> io list \<Rightarrow> jsval \<Rightarrow> lane_cancel lane_m" where
  "lanes_cancel lc now ios jobId =
     bindS (liftS (validateJobId jobId)) (\<lambda>i.
     bindS assertHealthy (\<lambda>_.
     bindS (storeRead ''cancellation read'' (nth_io ios 0) (\<lambda>st. find_job st i)) (\<lambda>found.
     bindS (guardS (found \<noteq> Missing) (Lane_error (''session lane job not found: '' @ i))) (\<lambda>_.
     bindS (getS (\<lambda>s. lo_maxPayloadBytes (ln_options s))) (\<lambda>b.
     bindS (liftS (validateStoredJob found b)) (\<lambda>r.
     if terminal_status r then returnS (Cancel_job (lj_job r))
     else
       bindS (getS (\<lambda>s. jm_get (ln_active s) i)) (\<lambda>running.
       case running of
         Some k \<Rightarrow> bindS (modifyS (map_task k (abort_task Abort_cancel))) (\<lambda>_. returnS (Cancel_active k))
       | None \<Rightarrow>
           bindS (guardS (has_status ''queued'' r)
             (Lane_ownership (''job '' @ i @ '' is running without scheduler ownership''))) (\<lambda>_.
           let j = lj_job r; patch = [(''status'', JStr ''cancelled''), (''completedAt'', JStr (iso_text now))] in
           bindS (storeWrite ''queued cancellation'' (nth_io ios 1) (update_job now i patch)) (\<lambda>cancelled.
           bindS (validateTransitionResult lc (Stored cancelled) ''queued cancellation''
             (expect_patch j i ''cancelled'' (attempts_of j) patch)) (\<lambda>_.
           returnS (Cancel_job cancelled)))))))))))"

section \<open>Dispatch\<close>

text \<open>The queued job of the smallest sequence of every lane, in a map keyed by the lane.\<close>

definition add_head :: "lane_job \<Rightarrow> (string \<times> lane_job) list \<Rightarrow> (string \<times> lane_job) list" where
  "add_head r heads =
     (case jm_get heads (lj_laneKey r) of
        None \<Rightarrow> jm_set (lj_laneKey r) r heads
      | Some h \<Rightarrow> if lj_laneSequence r < lj_laneSequence h then jm_set (lj_laneKey r) r heads else heads)"

definition lane_heads :: "lane_job list \<Rightarrow> (string \<times> lane_job) list" where
  "lane_heads validated = fold add_head (filter (has_status ''queued'') validated) []"

definition byCreatedAtThenId :: "(string \<Rightarrow> string \<Rightarrow> int) \<Rightarrow> job \<Rightarrow> job \<Rightarrow> int" where
  "byCreatedAtThenId lc l r =
     (let c = lc (job_text l ''createdAt'') (job_text r ''createdAt'') in
      if c \<noteq> 0 then c else lc (job_text l ''id'') (job_text r ''id''))"

definition next_candidate :: "(string \<Rightarrow> string \<Rightarrow> int) \<Rightarrow> string list \<Rightarrow> lane_job list \<Rightarrow> lane_job option" where
  "next_candidate lc locked validated =
     (case sort_cmp (\<lambda>l r. byCreatedAtThenId lc (lj_job l) (lj_job r))
         (map snd (filter (\<lambda>(k, r). k \<notin> set locked) (lane_heads validated))) of
        [] \<Rightarrow> None
      | r # _ \<Rightarrow> Some r)"

definition new_task :: "lane_job \<Rightarrow> job \<Rightarrow> job \<Rightarrow> lane_task" where
  "new_task r running input =
     \<lparr>lt_job = running, lt_id = job_text running ''id'', lt_laneKey = lj_laneKey r, lt_input = input,
       lt_abort = None, lt_phase = Lane_reserved, lt_outcome = None,
       lt_logicalSettled = False, lt_executionSettled = False\<rparr>"

definition reserve :: "lane_task \<Rightarrow> lanes \<Rightarrow> lanes" where
  "reserve t s = s\<lparr>ln_tasks := ln_tasks s @ [t], ln_active := jm_set (lt_id t) (length (ln_tasks s)) (ln_active s),
     ln_locked := List.insert (lt_laneKey t) (ln_locked s)\<rparr>"

definition dispatch :: "(string \<Rightarrow> string \<Rightarrow> int) \<Rightarrow> int \<Rightarrow> io list \<Rightarrow> lane_job \<Rightarrow> nat option lane_m" where
  "dispatch lc now ios r =
     (let j = lj_job r; i = job_text j ''id''; attempt = attempts_of j + 1;
          patch = [(''status'', JStr ''running''), (''startedAt'', JStr (iso_text now)), (''attempts'', JInt attempt)] in
      if MAX_ATTEMPTS < attempt
      then enterDegraded ''dispatch attempt validation'' (Lane_error (''job '' @ i @ '' attempt limit exceeded''))
      else
        bindS (storeWrite ''queued-job claim'' (nth_io ios 1) (claim_job now i patch)) (\<lambda>claimed.
        case claimed of
          None \<Rightarrow> returnS None
        | Some running \<Rightarrow>
            bindS (validateTransitionResult lc (Stored running) ''claim'' (expect_patch j i ''running'' attempt patch)) (\<lambda>v.
            bindS (getS (\<lambda>s. length (ln_tasks s))) (\<lambda>k.
            bindS (modifyS (reserve (new_task r running (lj_input v)))) (\<lambda>_.
            returnS (Some k))))))"

definition claimOne :: "(string \<Rightarrow> string \<Rightarrow> int) \<Rightarrow> int \<Rightarrow> io list \<Rightarrow> nat option lane_m" where
  "claimOne lc now ios =
     bindS (getS (\<lambda>s. ln_lifecycle s \<noteq> Lane_started \<or> ln_degraded s \<noteq> None \<or>
         lo_concurrency (ln_options s) \<le> int (length (ln_active s)))) (\<lambda>idle.
     if idle then returnS None
     else
       bindS (storeRead ''dispatch read'' (nth_io ios 0) (list_jobs lc)) (\<lambda>jobs.
       bindS (getS (\<lambda>s. lo_maxPayloadBytes (ln_options s))) (\<lambda>b.
       bindS (catchS (liftS (validateDedicatedStore b jobs)) (enterDegraded ''dispatch ownership validation'')) (\<lambda>validated.
       bindS (getS (\<lambda>s. next_candidate lc (ln_locked s) validated)) (\<lambda>candidate.
       case candidate of
         None \<Rightarrow> returnS None
       | Some r \<Rightarrow> dispatch lc now ios r)))))"

section \<open>Settlement\<close>

definition runClaimed :: "nat \<Rightarrow> lanes \<Rightarrow> lanes" where
  "runClaimed k s =
     map_task k (\<lambda>t. if lt_phase t = Lane_reserved
       then t\<lparr>lt_phase := (if lt_abort t = None then Lane_executing else Lane_skipped)\<rparr> else t) s"

definition unlock_if :: "(lane_task \<Rightarrow> bool) \<Rightarrow> nat \<Rightarrow> lanes \<Rightarrow> lanes" where
  "unlock_if p k s =
     (if k < length (ln_tasks s) \<and> p (ln_tasks s ! k)
      then s\<lparr>ln_locked := removeAll (lt_laneKey (ln_tasks s ! k)) (ln_locked s)\<rparr> else s)"

definition executionFinished :: "nat \<Rightarrow> lanes \<Rightarrow> lanes" where
  "executionFinished k s =
     unlock_if lt_logicalSettled k (map_task k (\<lambda>t. t\<lparr>lt_executionSettled := True\<rparr>) s)"

definition settle_logical :: "nat \<Rightarrow> lanes \<Rightarrow> lanes" where
  "settle_logical k s =
     (if k < length (ln_tasks s)
      then unlock_if lt_executionSettled k
        ((map_task k (\<lambda>t. t\<lparr>lt_logicalSettled := True\<rparr>) s)\<lparr>ln_active := jm_delete (lt_id (ln_tasks s ! k)) (ln_active s)\<rparr>)
      else s)"

definition terminalPatch :: "int \<Rightarrow> lane_task \<Rightarrow> lane_outcome \<Rightarrow> job" where
  "terminalPatch now t outcome =
     (case outcome of
        Lane_success v \<Rightarrow> [(''status'', JStr ''completed''), (''completedAt'', JStr (iso_text now)), (''result'', v)]
      | Lane_failure m \<Rightarrow>
          [(''status'', JStr (case lt_abort t of
              Some Abort_cancel \<Rightarrow> ''cancelled'' | Some k \<Rightarrow> ''needs-review'' | None \<Rightarrow> ''failed'')),
           (''completedAt'', JStr (iso_text now)), (''error'', JStr (truncateUtf8 m MAX_ERROR_BYTES))])"

definition finishLogical :: "(string \<Rightarrow> string \<Rightarrow> int) \<Rightarrow> int \<Rightarrow> io list \<Rightarrow> nat \<Rightarrow> lane_outcome \<Rightarrow> lanes \<Rightarrow> lanes" where
  "finishLogical lc now ios k outcome s =
     (let t = ln_tasks s ! k; i = lt_id t; patch = terminalPatch now t outcome in
      if lt_logicalSettled t then s
      else settle_logical k (fst
        (bindS (storeWrite ''terminal outcome persistence'' (nth_io ios 0) (update_job now i patch)) (\<lambda>terminal.
         validateTransitionResult lc (Stored terminal) ''terminal outcome persistence''
           (expect_patch (lt_job t) i (the_str (js_field patch ''status'')) (attempts_of (lt_job t)) patch)) s)))"

definition failLogicalBookkeeping :: "nat \<Rightarrow> string \<Rightarrow> lanes \<Rightarrow> lanes" where
  "failLogicalBookkeeping k m s =
     settle_logical k (fst (enterDegraded ''logical outcome bookkeeping'' (Lane_error m) s :: lanes \<times> (lane_error + unit)))"

section \<open>Steps\<close>

text \<open>
  One step per operation that runs under the state chain, and one per event of its environment:
  a promise of \<open>execute\<close> settles, a timer fires.  A step that is not due leaves the state alone.
\<close>

datatype lane_event =
    Ev_start
  | Ev_submit jsval jsval jsval jsval jsval
  | Ev_cancel jsval
  | Ev_claim
  | Ev_run nat
  | Ev_timeout nat
  | Ev_settles nat lane_outcome
  | Ev_executionFinished nat
  | Ev_finish nat
  | Ev_finish_aborted nat
  | Ev_bookkeeping nat string
  | Ev_shutdown_begin
  | Ev_shutdown_end

definition when_task :: "nat \<Rightarrow> (lane_task \<Rightarrow> bool) \<Rightarrow> (lanes \<Rightarrow> lanes) \<Rightarrow> lanes \<Rightarrow> lanes" where
  "when_task k p f s = (if k < length (ln_tasks s) \<and> p (ln_tasks s ! k) then f s else s)"

definition execution_over :: "lane_task \<Rightarrow> bool" where
  "execution_over t \<longleftrightarrow> lt_phase t = Lane_skipped \<or> lt_phase t = Lane_executing \<and> lt_outcome t \<noteq> None"

definition abort_due :: "lane_task \<Rightarrow> bool" where
  "abort_due t \<longleftrightarrow> lt_abort t \<noteq> None \<and>
     (lt_phase t = Lane_executing \<or> lt_phase t = Lane_skipped \<and> lt_executionSettled t)"

fun lane_step :: "(string \<Rightarrow> string \<Rightarrow> int) \<Rightarrow> lanes \<Rightarrow> int \<times> io list \<times> lane_event \<Rightarrow> lanes" where
  "lane_step lc s (now, ios, Ev_start) = fst (lanes_start lc now ios s)"
| "lane_step lc s (now, ios, Ev_submit lane payload i t h) = fst (lanes_submit lc now ios lane payload i t h s)"
| "lane_step lc s (now, ios, Ev_cancel i) = fst (lanes_cancel lc now ios i s)"
| "lane_step lc s (now, ios, Ev_claim) = fst (claimOne lc now ios s)"
| "lane_step lc s (now, ios, Ev_run k) = runClaimed k s"
| "lane_step lc s (now, ios, Ev_timeout k) =
     when_task k (\<lambda>t. lt_phase t = Lane_executing) (map_task k (abort_task Abort_timeout)) s"
| "lane_step lc s (now, ios, Ev_settles k outcome) =
     when_task k (\<lambda>t. lt_phase t = Lane_executing \<and> lt_outcome t = None)
       (map_task k (\<lambda>t. t\<lparr>lt_outcome := Some outcome\<rparr>)) s"
| "lane_step lc s (now, ios, Ev_executionFinished k) =
     when_task k (\<lambda>t. execution_over t \<and> \<not> lt_executionSettled t) (executionFinished k) s"
| "lane_step lc s (now, ios, Ev_finish k) =
     when_task k (\<lambda>t. lt_phase t = Lane_executing \<and> lt_outcome t \<noteq> None)
       (\<lambda>s. finishLogical lc now ios k (the (lt_outcome (ln_tasks s ! k))) s) s"
| "lane_step lc s (now, ios, Ev_finish_aborted k) =
     when_task k abort_due
       (\<lambda>s. finishLogical lc now ios k (Lane_failure (abort_message (the (lt_abort (ln_tasks s ! k))))) s) s"
| "lane_step lc s (now, ios, Ev_bookkeeping k m) =
     when_task k (\<lambda>t. lt_phase t \<noteq> Lane_reserved \<and> \<not> lt_logicalSettled t) (failLogicalBookkeeping k m) s"
| "lane_step lc s (now, ios, Ev_shutdown_begin) = shutdown_begin s"
| "lane_step lc s (now, ios, Ev_shutdown_end) = shutdown_end s"

section \<open>The invariant\<close>

definition fully_settled :: "lane_task \<Rightarrow> bool" where
  "fully_settled t \<longleftrightarrow> lt_logicalSettled t \<and> lt_executionSettled t"

definition task_ok :: "lane_task \<Rightarrow> bool" where
  "task_ok t \<longleftrightarrow> (lt_executionSettled t \<longrightarrow> execution_over t) \<and> (lt_outcome t \<noteq> None \<longrightarrow> lt_phase t = Lane_executing)"

text \<open>
  The map of active jobs holds exactly the jobs whose outcome is not settled, at most as many as
  may run at once; the locked lanes are those of the jobs not settled in both ways, and no two
  of these share a lane.
\<close>

definition unsettled :: "lanes \<Rightarrow> nat set" where
  "unsettled s = {k. k < length (ln_tasks s) \<and> \<not> fully_settled (ln_tasks s ! k)}"

definition lane_at :: "lanes \<Rightarrow> nat \<Rightarrow> string" where
  "lane_at s = (\<lambda>k. lt_laneKey (ln_tasks s ! k))"

definition lanes_core :: "lanes \<Rightarrow> bool" where
  "lanes_core s \<longleftrightarrow>
     (\<forall>i k. jm_get (ln_active s) i = Some k \<longleftrightarrow>
        k < length (ln_tasks s) \<and> lt_id (ln_tasks s ! k) = i \<and> \<not> lt_logicalSettled (ln_tasks s ! k)) \<and>
     distinct (jm_keys (ln_active s)) \<and> int (length (ln_active s)) \<le> max 0 (lo_concurrency (ln_options s)) \<and>
     inj_on (lane_at s) (unsettled s) \<and> set (ln_locked s) = lane_at s ` unsettled s \<and>
     list_all task_ok (ln_tasks s) \<and> distinct (map lt_id (ln_tasks s))"

text \<open>
  The scheduler was made with the options and on the jobs \<open>S\<close> that were started before, a pair:
  those jobs stay started, and none of its own jobs is one of them.
\<close>

definition lanes_inv :: "lane_options \<times> string set \<Rightarrow> lanes \<Rightarrow> bool" where
  "lanes_inv S s \<longleftrightarrow> lanes_core s \<and> lt_id ` set (ln_tasks s) \<subseteq> files.started_ids (ln_jobs s) \<and>
     ln_options s = fst S \<and> snd S \<subseteq> files.started_ids (ln_jobs s) \<and> lt_id ` set (ln_tasks s) \<inter> snd S = {}"

lemma core_frames [simp]:
  "lanes_core (s\<lparr>ln_degraded := d\<rparr>) = lanes_core s"
  "lanes_core (s\<lparr>ln_lifecycle := l\<rparr>) = lanes_core s"
  "lanes_core (s\<lparr>ln_jobs := st\<rparr>) = lanes_core s"
  by (simp_all add: lanes_core_def unsettled_def lane_at_def)

lemma inv_jobs:
  "lanes_inv S s \<Longrightarrow> files.started_ids (ln_jobs s) \<subseteq> files.started_ids st \<Longrightarrow> lanes_inv S (s\<lparr>ln_jobs := st\<rparr>)"
  unfolding lanes_inv_def by (auto dest: subsetD)

lemma inv_frames [simp]:
  "lanes_inv S (s\<lparr>ln_degraded := d\<rparr>) = lanes_inv S s"
  "lanes_inv S (s\<lparr>ln_lifecycle := l\<rparr>) = lanes_inv S s"
  by (simp_all add: lanes_inv_def)

lemma keeps_degraded [keeps_intros]: "keepsS (lanes_inv S) (enterDegraded op c)"
  by (simp add: validS_def enterDegraded_def Let_def)

lemma keeps_healthy [keeps_intros]: "keepsS (lanes_inv S) assertHealthy"
  by (simp add: validS_def assertHealthy_def split: option.splits)

lemma keeps_storeRead [keeps_intros]: "keepsS (lanes_inv S) (storeRead op x f)"
  by (cases x) (simp_all add: storeRead_def keeps_intros)

lemma keeps_store_call:
  "(\<And>st. files.started_ids st \<subseteq> files.started_ids (fst (f st))) \<Longrightarrow> keepsS (lanes_inv S) (store_call f)"
  by (simp add: validS_def store_call_def case_prod_beta inv_jobs)

lemma keeps_sum [keeps_intros]:
  "(\<And>e. keepsS I (f e)) \<Longrightarrow> (\<And>a. keepsS I (g a)) \<Longrightarrow> keepsS I (case r of Inl e \<Rightarrow> f e | Inr a \<Rightarrow> g a)"
  by (cases r) simp_all

lemma keeps_storeWrite:
  assumes "\<And>st. files.started_ids st \<subseteq> files.started_ids (fst (f st))"
  shows "keepsS (lanes_inv S) (storeWrite op x f)"
  unfolding storeWrite_def by (cases x) (simp_all, (intro keeps_intros keeps_store_call assms)+)

lemma sets_statusI: "js_field p ''status'' = JStr x \<Longrightarrow> distinct (map fst p) \<Longrightarrow> sets_status p x"
  by (simp add: sets_status_def)

lemma keeps_update [keeps_intros]:
  assumes "js_field p ''status'' = JStr x" and "distinct (map fst p)" and "x \<noteq> ''queued''"
  shows "keepsS (lanes_inv S) (storeWrite op io (update_job now i p))"
proof (rule keeps_storeWrite)
  fix st
  obtain st' r where "update_job now i p st = (st', r)" by (cases "update_job now i p st")
  with files.update_started [OF this sets_statusI [OF assms(1,2)] assms(3)]
  show "files.started_ids st \<subseteq> files.started_ids (fst (update_job now i p st))" by simp
qed

lemma keeps_create [keeps_intros]: "keepsS (lanes_inv S) (storeWrite op io (create_job now j))"
proof (rule keeps_storeWrite)
  fix st
  obtain st' r where "create_job now j st = (st', r)" by (cases "create_job now j st")
  with files.create_ids [OF this] show "files.started_ids st \<subseteq> files.started_ids (fst (create_job now j st))" by simp
qed

lemma keeps_transition [keeps_intros]: "keepsS (lanes_inv S) (validateTransitionResult lc j op ex)"
  unfolding validateTransitionResult_def by (intro keeps_intros)

lemma keeps_prod [keeps_intros]: "(\<And>a b. keepsS I (f a b)) \<Longrightarrow> keepsS I (case p of (a, b) \<Rightarrow> f a b)"
  by (cases p) simp

lemma keeps_option [keeps_intros]:
  "keepsS I m \<Longrightarrow> (\<And>a. keepsS I (f a)) \<Longrightarrow> keepsS I (case x of None \<Rightarrow> m | Some a \<Rightarrow> f a)"
  by (cases x) simp_all

lemma inv_start: "keepsS (lanes_inv S) (lanes_start lc now ios)"
  unfolding lanes_start_def quarantine_job_def Let_def
  by (intro keeps_intros) (auto simp: quarantine_patch_def)

lemma inv_submit: "keepsS (lanes_inv S) (lanes_submit lc now ios lane payload i t h)"
  unfolding lanes_submit_def by (intro keeps_intros)

section \<open>Tasks\<close>

lemma length_map_task [simp]: "length (ln_tasks (map_task k f s)) = length (ln_tasks s)"
  by (simp add: map_task_def)

lemma map_task_nth [simp]: "l < length (ln_tasks s) \<Longrightarrow>
    ln_tasks (map_task k f s) ! l = (if l = k then f (ln_tasks s ! k) else ln_tasks s ! l)"
  by (simp add: map_task_def)

lemma map_task_simps [simp]:
  "ln_active (map_task k f s) = ln_active s" "ln_locked (map_task k f s) = ln_locked s"
  "ln_jobs (map_task k f s) = ln_jobs s" "ln_options (map_task k f s) = ln_options s"
  "ln_lifecycle (map_task k f s) = ln_lifecycle s" "ln_degraded (map_task k f s) = ln_degraded s"
  by (simp_all add: map_task_def)

lemma list_all_update: "list_all p xs \<Longrightarrow> k < length xs \<Longrightarrow> p y \<Longrightarrow> list_all p (xs[k := y])"
  by (auto simp: list_all_iff dest: subsetD [OF set_update_subset_insert])

lemma ids_map_task:
  "(\<And>t. lt_id (f t) = lt_id t) \<Longrightarrow> map lt_id (ln_tasks (map_task k f s)) = map lt_id (ln_tasks s)"
  by (simp add: map_task_def nth_list_update list_eq_iff_nth_eq)

lemma core_soft:
  assumes "lanes_core s" and same: "\<And>t. lt_id (f t) = lt_id t \<and> lt_laneKey (f t) = lt_laneKey t \<and>
      lt_logicalSettled (f t) = lt_logicalSettled t \<and> lt_executionSettled (f t) = lt_executionSettled t"
    and ok: "k < length (ln_tasks s) \<Longrightarrow> task_ok (ln_tasks s ! k) \<Longrightarrow> task_ok (f (ln_tasks s ! k))"
  shows "lanes_core (map_task k f s)"
proof -
  have u: "unsettled (map_task k f s) = unsettled s"
    unfolding unsettled_def by (rule Collect_cong) (auto simp: fully_settled_def same split: if_splits)
  have l: "l \<in> unsettled s \<Longrightarrow> lane_at (map_task k f s) l = lane_at s l" for l
    using same by (simp add: unsettled_def lane_at_def)
  have ids: "map lt_id (ln_tasks (map_task k f s)) = map lt_id (ln_tasks s)"
    using same by (simp add: ids_map_task)
  have "list_all task_ok (ln_tasks (map_task k f s))"
  proof (cases "k < length (ln_tasks s)")
    case True
    have all: "list_all task_ok (ln_tasks s)" using assms(1) by (simp add: lanes_core_def)
    with True ok have "task_ok (f (ln_tasks s ! k))" by (simp add: list_all_length)
    with True show ?thesis by (simp add: map_task_def list_all_update [OF all])
  qed (use assms(1) in \<open>simp add: lanes_core_def map_task_def\<close>)
  moreover have "inj_on (lane_at (map_task k f s)) (unsettled s) = inj_on (lane_at s) (unsettled s)"
    by (rule inj_on_cong) (rule l)
  moreover have "lane_at (map_task k f s) ` unsettled s = lane_at s ` unsettled s"
    by (rule image_cong) (simp_all add: l)
  moreover have "l < length (ln_tasks s) \<Longrightarrow> lt_id (ln_tasks (map_task k f s) ! l) = lt_id (ln_tasks s ! l) \<and>
      lt_logicalSettled (ln_tasks (map_task k f s) ! l) = lt_logicalSettled (ln_tasks s ! l)" for l
    using same by simp
  ultimately show ?thesis
    using assms(1) unfolding lanes_core_def u ids map_task_simps length_map_task by (simp cong: conj_cong)
qed

lemma inv_soft:
  assumes "lanes_inv S s" and "\<And>t. lt_id (f t) = lt_id t \<and> lt_laneKey (f t) = lt_laneKey t \<and>
      lt_logicalSettled (f t) = lt_logicalSettled t \<and> lt_executionSettled (f t) = lt_executionSettled t"
    and "k < length (ln_tasks s) \<Longrightarrow> task_ok (ln_tasks s ! k) \<Longrightarrow> task_ok (f (ln_tasks s ! k))"
  shows "lanes_inv S (map_task k f s)"
proof -
  have "lt_id ` set (ln_tasks (map_task k f s)) = lt_id ` set (ln_tasks s)"
    using ids_map_task [of f k s] assms(2) by (metis set_map)
  with core_soft [of s f k] assms show ?thesis by (simp add: lanes_inv_def)
qed

lemma inv_abort: "lanes_inv S s \<Longrightarrow> lanes_inv S (map_task k (abort_task kind) s)"
  by (rule inv_soft) (auto simp: abort_task_def task_ok_def execution_over_def split: option.splits)

lemma inv_run: "lanes_inv S s \<Longrightarrow> lanes_inv S (runClaimed k s)"
  unfolding runClaimed_def
  by (rule inv_soft) (auto simp: task_ok_def execution_over_def)

lemma inv_shutdown_begin: "lanes_inv S s \<Longrightarrow> lanes_inv S (shutdown_begin s)"
proof -
  assume s: "lanes_inv S s"
  have *: "lanes_inv S u \<Longrightarrow> lanes_inv S (fold (\<lambda>(i, k). map_task k (abort_task Abort_shutdown)) xs u)" for xs u
    by (induction xs arbitrary: u) (auto intro: inv_abort)
  have "lanes_inv S (fold (\<lambda>(i, k). map_task k (abort_task Abort_shutdown)) (ln_active s) (s\<lparr>ln_lifecycle := Lane_stopping\<rparr>))"
    by (rule *) (simp add: s)
  with s show ?thesis by (simp add: shutdown_begin_def)
qed

lemma inv_cancel: "keepsS (lanes_inv S) (lanes_cancel lc now ios i)"
  unfolding lanes_cancel_def Let_def
  by (intro keeps_intros inv_abort) auto

section \<open>Settlement\<close>

lemma core_parts:
  assumes "lanes_core s"
  shows "jm_get (ln_active s) i = Some k \<longleftrightarrow>
        k < length (ln_tasks s) \<and> lt_id (ln_tasks s ! k) = i \<and> \<not> lt_logicalSettled (ln_tasks s ! k)"
    and "distinct (jm_keys (ln_active s))" and "int (length (ln_active s)) \<le> max 0 (lo_concurrency (ln_options s))"
    and "inj_on (lane_at s) (unsettled s)" and "set (ln_locked s) = lane_at s ` unsettled s"
    and "list_all task_ok (ln_tasks s)" and "distinct (map lt_id (ln_tasks s))"
  using assms unfolding lanes_core_def by blast+

text \<open>Settling one job one way: its lane is freed exactly when it is then settled both ways.\<close>

lemma core_settle:
  assumes s: "lanes_core s" and k: "k < length (ln_tasks s)" and u: "\<not> fully_settled (ln_tasks s ! k)"
    and same: "lt_id (f (ln_tasks s ! k)) = lt_id (ln_tasks s ! k)" "lt_laneKey (f (ln_tasks s ! k)) = lt_laneKey (ln_tasks s ! k)"
    and ok: "task_ok (f (ln_tasks s ! k))"
    and s': "ln_tasks s' = (ln_tasks s)[k := f (ln_tasks s ! k)]" "ln_options s' = ln_options s"
    and locked: "set (ln_locked s') = (if fully_settled (f (ln_tasks s ! k)) then set (ln_locked s) - {lane_at s k} else set (ln_locked s))"
    and active: "\<And>i l. jm_get (ln_active s') i = Some l \<longleftrightarrow>
        l < length (ln_tasks s) \<and> lt_id (ln_tasks s' ! l) = i \<and> \<not> lt_logicalSettled (ln_tasks s' ! l)"
      "distinct (jm_keys (ln_active s'))" "length (ln_active s') \<le> length (ln_active s)"
  shows "lanes_core s'"
proof -
  let ?t = "f (ln_tasks s ! k)"
  note c = core_parts [OF s]
  have ku: "k \<in> unsettled s" using k u by (simp add: unsettled_def)
  have lanes: "lane_at s' = lane_at s"
  proof
    show "lane_at s' x = lane_at s x" for x
      using same(2) k by (cases "x = k") (simp_all add: lane_at_def s'(1))
  qed
  have us: "unsettled s' = (if fully_settled ?t then unsettled s - {k} else unsettled s)"
    using ku by (auto simp: unsettled_def s'(1) nth_list_update)
  have "set (ln_locked s') = lane_at s ` unsettled s'"
    unfolding us locked c(5) using inj_on_image_set_diff [OF c(4), of "unsettled s" "{k}"] ku by auto
  moreover have "inj_on (lane_at s) (unsettled s')"
    unfolding us using inj_on_subset [OF c(4)] by auto
  moreover have "map lt_id (ln_tasks s') = map lt_id (ln_tasks s)"
    using same(1) by (simp add: s'(1) map_update list_update_same_conv k)
  moreover have "list_all task_ok (ln_tasks s')"
    unfolding s'(1) by (rule list_all_update [OF c(6) k ok])
  ultimately show ?thesis
    unfolding lanes_core_def lanes using active c(3,7) s' by simp
qed

lemma inv_executionFinished:
  assumes s: "lanes_inv S s" and k: "k < length (ln_tasks s)" and over: "execution_over (ln_tasks s ! k)"
    and new: "\<not> lt_executionSettled (ln_tasks s ! k)"
  shows "lanes_inv S (executionFinished k s)"
proof -
  let ?f = "\<lambda>t. t\<lparr>lt_executionSettled := True\<rparr>" and ?s = "executionFinished k s"
  have core: "lanes_core s" using s by (simp add: lanes_inv_def)
  have tasks: "ln_tasks ?s = (ln_tasks s)[k := ?f (ln_tasks s ! k)]"
    using k by (simp add: executionFinished_def unlock_if_def map_task_def)
  have "lanes_core ?s"
  proof (rule core_settle [OF core k, of ?f])
    show "task_ok (?f (ln_tasks s ! k))"
      using core_parts(6) [OF core] k over by (auto simp: list_all_length task_ok_def execution_over_def)
    show "jm_get (ln_active ?s) i = Some l \<longleftrightarrow>
        l < length (ln_tasks s) \<and> lt_id (ln_tasks ?s ! l) = i \<and> \<not> lt_logicalSettled (ln_tasks ?s ! l)" for i l
      using core_parts(1) [OF core, of i l] k unfolding tasks
      by (auto simp: executionFinished_def unlock_if_def map_task_def nth_list_update)
  qed (use new k core_parts(2) [OF core] tasks in
      \<open>auto simp: fully_settled_def executionFinished_def unlock_if_def map_task_def lane_at_def\<close>)
  moreover have "map lt_id (ln_tasks ?s) = map lt_id (ln_tasks s)" "ln_jobs ?s = ln_jobs s" "ln_options ?s = ln_options s"
    using k by (simp_all add: tasks map_update list_update_same_conv)
      (simp_all add: executionFinished_def unlock_if_def)
  moreover from this have "lt_id ` set (ln_tasks ?s) = lt_id ` set (ln_tasks s)" by (metis set_map)
  ultimately show ?thesis using s by (simp add: lanes_inv_def)
qed

lemma length_jm_delete: "length (jm_delete k m) \<le> length m"
  by (simp add: jm_delete_def)

lemma inv_settle_logical:
  assumes s: "lanes_inv S s" and new: "\<not> lt_logicalSettled (ln_tasks s ! k)"
  shows "lanes_inv S (settle_logical k s)"
proof (cases "k < length (ln_tasks s)")
  case k: True
  let ?f = "\<lambda>t. t\<lparr>lt_logicalSettled := True\<rparr>" and ?s = "settle_logical k s"
  have core: "lanes_core s" using s by (simp add: lanes_inv_def)
  have tasks: "ln_tasks ?s = (ln_tasks s)[k := ?f (ln_tasks s ! k)]"
    using k by (simp add: settle_logical_def unlock_if_def map_task_def)
  have act: "ln_active ?s = jm_delete (lt_id (ln_tasks s ! k)) (ln_active s)"
    using k by (simp add: settle_logical_def unlock_if_def)
  have "lanes_core ?s"
  proof (rule core_settle [OF core k, of ?f])
    show "task_ok (?f (ln_tasks s ! k))"
      using core_parts(6) [OF core] k by (auto simp: list_all_length task_ok_def execution_over_def)
    have "lt_id (ln_tasks s ! l) = lt_id (ln_tasks s ! k) \<Longrightarrow> l < length (ln_tasks s) \<Longrightarrow> l = k" for l
      using core_parts(7) [OF core] k by (auto simp: distinct_conv_nth)
    then show "jm_get (ln_active ?s) i = Some l \<longleftrightarrow>
        l < length (ln_tasks s) \<and> lt_id (ln_tasks ?s ! l) = i \<and> \<not> lt_logicalSettled (ln_tasks ?s ! l)" for i l
      using core_parts(1) [OF core, of i l] k unfolding tasks act
      by (auto simp: jm_get_delete nth_list_update)
  qed (use new k core_parts(2) [OF core] tasks act length_jm_delete jm.distinct_remove in
      \<open>auto simp: fully_settled_def settle_logical_def unlock_if_def map_task_def lane_at_def\<close>)
  moreover have "map lt_id (ln_tasks ?s) = map lt_id (ln_tasks s)" "ln_jobs ?s = ln_jobs s" "ln_options ?s = ln_options s"
    using k by (simp_all add: tasks map_update list_update_same_conv)
      (simp_all add: settle_logical_def unlock_if_def)
  moreover from this have "lt_id ` set (ln_tasks ?s) = lt_id ` set (ln_tasks s)" by (metis set_map)
  ultimately show ?thesis using s by (simp add: lanes_inv_def)
qed (simp add: settle_logical_def s)

section \<open>Dispatch\<close>

lemma fst_bindS: "fst (bindS m f s) = (case m s of (s', r) \<Rightarrow> (case r of Inl e \<Rightarrow> s' | Inr a \<Rightarrow> fst (f a s')))"
  by (auto simp: bindS_def split: prod.splits sum.splits)

lemma bindS_Inr: "bindS m f s = (s', Inr b) \<longleftrightarrow> (\<exists>s1 a. m s = (s1, Inr a) \<and> f a s1 = (s', Inr b))"
  by (auto simp: bindS_def split: prod.splits sum.splits)

lemma enterDegraded_Inr [simp]: "enterDegraded op e s \<noteq> (s', Inr a)"
  by (simp add: enterDegraded_def Let_def)

lemma storeWrite_Inr: "storeWrite op x f s = (s', Inr a) \<Longrightarrow>
    f (ln_jobs s) = (ln_jobs s', Inr a) \<and> ln_tasks s' = ln_tasks s \<and> ln_active s' = ln_active s \<and>
    ln_locked s' = ln_locked s \<and> ln_options s' = ln_options s"
  by (cases x) (auto simp: storeWrite_def bindS_Inr store_call_def returnS_def split: prod.splits sum.splits)

lemma transition_Inr: "validateTransitionResult lc job op ex s = (s', Inr v) \<Longrightarrow>
    s' = s \<and> (\<exists>b. check_transition lc b job op ex = Inr v)"
  by (auto simp: validateTransitionResult_def bindS_Inr getS_def catchS_def liftS_def split: sum.splits)

lemma validateStoredJob_job: "validateStoredJob (Stored j) b = Inr v \<Longrightarrow> lj_job v = j"
  by (auto simp: validateStoredJob_def Let_def bindR_Inr_iff split: if_splits)

lemma check_transition_id:
  "check_transition lc b (Stored j) op ex = Inr v \<Longrightarrow> js_field j ''id'' = JStr (le_id ex) \<and> lj_job v = j"
  by (auto simp: check_transition_def Let_def bindR_Inr_iff check_stored_def dest!: validateStoredJob_job split: if_splits)

lemma length_jm_set: "length (jm_set k v m) \<le> Suc (length m)"
  by (induction m) auto

lemma core_reserve:
  assumes s: "lanes_core s" and free: "lt_laneKey t \<notin> set (ln_locked s)" "lt_id t \<notin> lt_id ` set (ln_tasks s)"
    and room: "int (length (ln_active s)) < lo_concurrency (ln_options s)"
    and t: "\<not> lt_logicalSettled t" "\<not> lt_executionSettled t" "lt_outcome t = None"
  shows "lanes_core (reserve t s)"
proof -
  let ?n = "length (ln_tasks s)" and ?s = "reserve t s"
  note c = core_parts [OF s]
  have at: "k < ?n \<Longrightarrow> lane_at ?s k = lane_at s k" "lane_at ?s ?n = lt_laneKey t" for k
    by (auto simp: lane_at_def reserve_def nth_append)
  have us: "unsettled ?s = insert ?n (unsettled s)"
    using t by (auto simp: unsettled_def reserve_def nth_append fully_settled_def less_Suc_eq)
  have below: "k \<in> unsettled s \<Longrightarrow> k < ?n" for k by (simp add: unsettled_def)
  have img: "lane_at ?s ` unsettled s = lane_at s ` unsettled s"
    by (rule image_cong) (simp_all add: below at(1))
  have "inj_on (lane_at ?s) (unsettled s) = inj_on (lane_at s) (unsettled s)"
    by (rule inj_on_cong) (simp add: below at(1))
  moreover have "?n \<notin> unsettled s" using below by blast
  ultimately have "inj_on (lane_at ?s) (unsettled ?s)"
    unfolding us inj_on_insert using c(4,5) free(1) by (simp add: img at(2))
  moreover have "set (ln_locked ?s) = lane_at ?s ` unsettled ?s"
    unfolding us image_insert img at(2) using c(5) by (simp add: reserve_def)
  moreover have new: "lt_id t \<notin> set (jm_keys (ln_active s))"
  proof
    assume "lt_id t \<in> set (jm_keys (ln_active s))"
    then obtain k where "jm_get (ln_active s) (lt_id t) = Some k"
      by (metis jm.lookup_keys not_None_eq)
    then have "k < ?n" "lt_id (ln_tasks s ! k) = lt_id t" using c(1) by auto
    with free(2) show False by (metis imageI nth_mem)
  qed
  moreover have "length (ln_active ?s) \<le> Suc (length (ln_active s))"
    by (simp add: reserve_def length_jm_set)
  moreover have "jm_get (ln_active ?s) i = Some k \<longleftrightarrow>
      k < length (ln_tasks ?s) \<and> lt_id (ln_tasks ?s ! k) = i \<and> \<not> lt_logicalSettled (ln_tasks ?s ! k)" for i k
  proof (cases "k = ?n")
    case True
    have "jm_get (ln_active s) i \<noteq> Some ?n" using c(1) by simp
    with True t(1) show ?thesis by (auto simp: reserve_def jm_get_set nth_append)
  next
    case False
    have "k < ?n \<Longrightarrow> lt_id (ln_tasks s ! k) \<noteq> lt_id t" by (metis free(2) imageI nth_mem)
    with False c(1) [of i k] show ?thesis by (auto simp: reserve_def jm_get_set nth_append less_Suc_eq)
  qed
  ultimately show ?thesis
    using c(2,6,7) room t free(2) jm.distinct_put [of "ln_active s" "lt_id t" ?n]
    unfolding lanes_core_def by (auto simp: reserve_def task_ok_def)
qed

lemma inv_dispatch:
  assumes s: "lanes_inv S s" and free: "lj_laneKey r \<notin> set (ln_locked s)"
    and room: "int (length (ln_active s)) < lo_concurrency (ln_options s)"
  shows "lanes_inv S (fst (dispatch lc now ios r s))"
proof -
  let ?j = "lj_job r"
  let ?i = "job_text ?j ''id''"
  define attempt where "attempt = attempts_of ?j + 1"
  define patch where "patch = [(''status'', JStr ''running''), (''startedAt'', JStr (iso_text now)), (''attempts'', JInt attempt)]"
  have patch: "sets_status patch ''running''" by (simp add: sets_status_def patch_def)
  have ids: "claim_job now ?i patch st = (st', c) \<Longrightarrow> files.started_ids st \<subseteq> files.started_ids st' \<and>
      (\<forall>j. c = Inr (Some j) \<longrightarrow> ?i \<in> files.queued_ids st \<and> ?i \<in> files.started_ids st')" for st st' c
    using files.claim_started [OF _ patch] by simp
  have "files.started_ids st \<subseteq> files.started_ids (fst (claim_job now ?i patch st))" for st
    using ids [of st] by (cases "claim_job now ?i patch st") auto
  then have w: "keepsS (lanes_inv S) (storeWrite ''queued-job claim'' (nth_io ios 1) (claim_job now ?i patch))"
    by (rule keeps_storeWrite)
  have d: "dispatch lc now ios r = (if MAX_ATTEMPTS < attempt
      then enterDegraded ''dispatch attempt validation'' (Lane_error (''job '' @ ?i @ '' attempt limit exceeded''))
      else
        bindS (storeWrite ''queued-job claim'' (nth_io ios 1) (claim_job now ?i patch)) (\<lambda>claimed.
        case claimed of
          None \<Rightarrow> returnS None
        | Some running \<Rightarrow>
            bindS (validateTransitionResult lc (Stored running) ''claim'' (expect_patch ?j ?i ''running'' attempt patch)) (\<lambda>v.
            bindS (getS (\<lambda>s. length (ln_tasks s))) (\<lambda>k.
            bindS (modifyS (reserve (new_task r running (lj_input v)))) (\<lambda>_.
            returnS (Some k))))))"
    unfolding dispatch_def Let_def attempt_def patch_def by (rule refl)
  show ?thesis
  proof (cases "MAX_ATTEMPTS < attempt")
    case True
    have "keepsS (lanes_inv S) (dispatch lc now ios r)" unfolding d using True by (simp add: keeps_degraded)
    with s show ?thesis by (simp add: validS_def)
  next
    case False
    obtain s1 c where c: "storeWrite ''queued-job claim'' (nth_io ios 1) (claim_job now ?i patch) s = (s1, c)"
      by (cases "storeWrite ''queued-job claim'' (nth_io ios 1) (claim_job now ?i patch) s")
    from w s c have s1: "lanes_inv S s1" by (auto simp: validS_def dest: spec [of _ s])
    show ?thesis
    proof (cases "\<exists>running. c = Inr (Some running)")
      case no: False
      with False s1 show ?thesis
        by (cases c) (auto simp: d fst_bindS c returnS_def simp del: One_nat_def split: option.splits)
    next
      case True
      then obtain running where running: "c = Inr (Some running)" ..
      note sw = storeWrite_Inr [OF c [unfolded running]]
      from ids sw have i: "?i \<in> files.queued_ids (ln_jobs s)" "?i \<in> files.started_ids (ln_jobs s1)" by auto
      have "?i \<notin> files.started_ids (ln_jobs s)"
        using i(1) by (auto simp: files.queued_ids_def files.started_ids_def)
      with s have fresh: "?i \<notin> lt_id ` set (ln_tasks s)" by (auto simp: lanes_inv_def)
      let ?v = "validateTransitionResult lc (Stored running) ''claim'' (expect_patch ?j ?i ''running'' attempt patch)"
      obtain s2 v where v: "?v s1 = (s2, v)" by (cases "?v s1")
      have s2: "lanes_inv S s2" using keeps_transition s1 v unfolding validS_def by (metis fst_conv)
      show ?thesis
      proof (cases v)
        case (Inl e)
        with False s2 show ?thesis by (simp add: d fst_bindS c running v del: One_nat_def)
      next
        case (Inr w)
        from transition_Inr [OF v [unfolded Inr]] check_transition_id
        have "s2 = s1" and i': "js_field running ''id'' = JStr ?i" by (auto simp: expect_patch_def)
        let ?t = "new_task r running (lj_input w)"
        have tid: "lt_id ?t = ?i" using i' by (simp add: new_task_def job_text_def)
        have "fst (dispatch lc now ios r s) = reserve ?t s1"
          using False by (simp add: d fst_bindS c running v Inr \<open>s2 = s1\<close> getS_def modifyS_def returnS_def del: One_nat_def)
        moreover have "lanes_core (reserve ?t s1)"
          using s1 sw free room fresh tid
          by (intro core_reserve) (auto simp: lanes_inv_def new_task_def)
        moreover have "lt_id ` set (ln_tasks (reserve ?t s1)) \<subseteq> files.started_ids (ln_jobs (reserve ?t s1))"
          using s1 i(2) tid by (simp add: lanes_inv_def reserve_def)
        moreover have "snd S \<subseteq> files.started_ids (ln_jobs (reserve ?t s1))" "lt_id ` set (ln_tasks (reserve ?t s1)) \<inter> snd S = {}"
            "ln_options (reserve ?t s1) = fst S"
          using s1 s tid \<open>?i \<notin> files.started_ids (ln_jobs s)\<close> by (auto simp: lanes_inv_def reserve_def)
        ultimately show ?thesis by (simp add: lanes_inv_def)
      qed
    qed
  qed
qed

lemma jm_set_in: "(k', v') \<in> set (jm_set k v m) \<Longrightarrow> (k', v') = (k, v) \<or> (k', v') \<in> set m"
  by (induction m) (auto split: if_splits)

lemma lane_heads_in: "(k, r) \<in> set (lane_heads rs) \<Longrightarrow> r \<in> set rs \<and> k = lj_laneKey r \<and> has_status ''queued'' r"
proof -
  have "(k, r) \<in> set (fold add_head xs m) \<Longrightarrow> (k, r) \<in> set m \<or> r \<in> set xs \<and> k = lj_laneKey r" for xs m
  proof (induction xs arbitrary: m)
    case (Cons x xs)
    from Cons.IH [of "add_head x m"] Cons.prems show ?case
      by (auto simp: add_head_def dest: jm_set_in split: option.splits if_splits)
  qed simp
  then show "(k, r) \<in> set (lane_heads rs) \<Longrightarrow> ?thesis" by (fastforce simp: lane_heads_def)
qed

lemma next_candidate_in:
  "next_candidate lc locked rs = Some r \<Longrightarrow> r \<in> set rs \<and> lj_laneKey r \<notin> set locked \<and> has_status ''queued'' r"
proof -
  assume "next_candidate lc locked rs = Some r"
  then obtain xs where "sort_cmp (\<lambda>l r. byCreatedAtThenId lc (lj_job l) (lj_job r))
         (map snd (filter (\<lambda>(k, r). k \<notin> set locked) (lane_heads rs))) = r # xs"
    by (auto simp: next_candidate_def split: list.splits)
  then have "r \<in> set (map snd (filter (\<lambda>(k, r). k \<notin> set locked) (lane_heads rs)))"
    by (metis set_sort_cmp list.set_intros(1))
  then show ?thesis by (auto dest: lane_heads_in)
qed

lemma storeRead_Inr: "storeRead op x f s = (s', Inr a) \<Longrightarrow> s' = s \<and> a = f (ln_jobs s)"
  by (cases x) (auto simp: storeRead_def getS_def)

lemma catch_degraded_Inr: "catchS (liftS r) (enterDegraded op) s = (s', Inr a) \<Longrightarrow> s' = s \<and> r = Inr a"
  by (auto simp: catchS_def liftS_def split: sum.splits)

lemma enterDegraded_result:
  obtains s2 e2 where "enterDegraded op e s = (s2, Inl e2)" "ln_tasks s2 = ln_tasks s" "\<And>S. lanes_inv S s2 = lanes_inv S s"
  by (simp add: enterDegraded_def Let_def)

text \<open>A claim that dispatches: the candidate and the state it is dispatched in.\<close>

lemma claimOne_cases:
  obtains "\<And>S. lanes_inv S s \<Longrightarrow> lanes_inv S (fst (claimOne lc now ios s))" "\<And>k. snd (claimOne lc now ios s) \<noteq> Inr (Some k)"
    "ln_tasks (fst (claimOne lc now ios s)) = ln_tasks s"
  | validated r where "ln_lifecycle s = Lane_started" "ln_degraded s = None"
      "int (length (ln_active s)) < lo_concurrency (ln_options s)"
      "validateDedicatedStore (lo_maxPayloadBytes (ln_options s)) (list_jobs lc (ln_jobs s)) = Inr validated"
      "next_candidate lc (ln_locked s) validated = Some r"
      "claimOne lc now ios s = dispatch lc now ios r s"
proof (cases "ln_lifecycle s \<noteq> Lane_started \<or> ln_degraded s \<noteq> None \<or>
    lo_concurrency (ln_options s) \<le> int (length (ln_active s))")
  case True
  then have "claimOne lc now ios s = (s, Inr None)" by (simp add: claimOne_def bindS_def getS_def returnS_def)
  then show thesis by (intro that(1)) simp_all
next
  case False
  let ?read = "storeRead ''dispatch read'' (nth_io ios 0) (list_jobs lc)"
  obtain s1 jobs where read: "?read s = (s1, jobs)" by (cases "?read s")
  show thesis
  proof (cases jobs)
    case (Inl e)
    have "claimOne lc now ios s = (s1, Inl e)"
      using False by (simp add: claimOne_def bindS_def getS_def read Inl)
    moreover have "lanes_inv S s1" if "lanes_inv S s" for S
      using keeps_storeRead [of S "''dispatch read''" "nth_io ios 0" "list_jobs lc"] that read
      unfolding validS_def by (metis fst_conv)
    moreover have "ln_tasks s1 = ln_tasks s"
      using read by (cases "nth_io ios 0") (auto simp: storeRead_def getS_def enterDegraded_def Let_def)
    ultimately show thesis by (intro that(1)) simp_all
  next
    case (Inr js)
    from storeRead_Inr [OF read [unfolded Inr]] have s1: "s1 = s" and js: "js = list_jobs lc (ln_jobs s)" by simp_all
    let ?v = "validateDedicatedStore (lo_maxPayloadBytes (ln_options s)) js"
    show thesis
    proof (cases ?v)
      case v: (Inl e)
      obtain s2 :: lanes and e2 where d: "enterDegraded ''dispatch ownership validation'' e s = (s2, Inl e2 :: lane_error + lane_job list)"
        and s2: "ln_tasks s2 = ln_tasks s" "\<And>S. lanes_inv S s2 = lanes_inv S s"
        by (rule enterDegraded_result [of "''dispatch ownership validation''" e s]) blast
      have "claimOne lc now ios s = (s2, Inl e2)"
        using False by (simp add: claimOne_def bindS_def getS_def read Inr s1 catchS_def liftS_def v d)
      with s2 show thesis by (intro that(1)) simp_all
    next
      case v: (Inr validated)
      show thesis
      proof (cases "next_candidate lc (ln_locked s) validated")
        case None
        then have "claimOne lc now ios s = (s, Inr None)"
          using False by (simp add: claimOne_def bindS_def getS_def read Inr s1 catchS_def liftS_def v returnS_def)
        then show thesis by (intro that(1)) simp_all
      next
        case (Some r)
        then have "claimOne lc now ios s = dispatch lc now ios r s"
          using False by (simp add: claimOne_def bindS_def getS_def read Inr s1 catchS_def liftS_def v)
        with False Some v js show thesis by (intro that(2) [of validated r]) simp_all
      qed
    qed
  qed
qed

lemma inv_claimOne: "lanes_inv S s \<Longrightarrow> lanes_inv S (fst (claimOne lc now ios s))"
proof (rule claimOne_cases [where s = s and lc = lc and now = now and ios = ios])
  fix validated r
  assume s: "lanes_inv S s" and "int (length (ln_active s)) < lo_concurrency (ln_options s)"
    and n: "next_candidate lc (ln_locked s) validated = Some r" and c: "claimOne lc now ios s = dispatch lc now ios r s"
  with next_candidate_in [OF n] show ?thesis unfolding c by (intro inv_dispatch) simp_all
qed simp

lemma inv_finish:
  assumes s: "lanes_inv S s"
  shows "lanes_inv S (finishLogical lc now ios k outcome s)"
proof (cases "lt_logicalSettled (ln_tasks s ! k)")
  case True
  with s show ?thesis by (simp add: finishLogical_def Let_def)
next
  case False
  let ?t = "ln_tasks s ! k"
  let ?p = "terminalPatch now ?t outcome"
  let ?m = "bindS (storeWrite ''terminal outcome persistence'' (nth_io ios 0) (update_job now (lt_id ?t) ?p)) (\<lambda>terminal.
      validateTransitionResult lc (Stored terminal) ''terminal outcome persistence''
           (expect_patch (lt_job ?t) (lt_id ?t) (the_str (js_field ?p ''status'')) (attempts_of (lt_job ?t)) ?p))"
  obtain x where x: "js_field ?p ''status'' = JStr x" "x \<noteq> ''queued''" "distinct (map fst ?p)"
    by (cases outcome; cases "lt_abort ?t") (auto simp: terminalPatch_def split: abort_kind.splits)
  have "keepsS (lanes_inv S) ?m" by (intro keeps_bind keeps_update [OF x(1,3,2)] keeps_transition)
  then have 1: "lanes_inv S (fst (?m s))" using s by (simp add: validS_def)
  have "keepsS (\<lambda>u. ln_tasks u = ln_tasks s) ?m"
    unfolding validS_def storeWrite_def store_call_def bindS_def validateTransitionResult_def catchS_def liftS_def getS_def
      enterDegraded_def Let_def returnS_def
    by (auto split: prod.splits sum.splits io.splits)
  then have "ln_tasks (fst (?m s)) = ln_tasks s" by (simp add: validS_def)
  with 1 False have "lanes_inv S (settle_logical k (fst (?m s)))" by (intro inv_settle_logical) simp_all
  with False show ?thesis by (simp add: finishLogical_def Let_def)
qed

lemma inv_bookkeeping:
  "lanes_inv S s \<Longrightarrow> \<not> lt_logicalSettled (ln_tasks s ! k) \<Longrightarrow> lanes_inv S (failLogicalBookkeeping k m s)"
  unfolding failLogicalBookkeeping_def
  by (rule inv_settle_logical) (simp_all add: enterDegraded_def Let_def)

lemma inv_lane_step: "lanes_inv S s \<Longrightarrow> lanes_inv S (lane_step lc s x)"
proof -
  assume s: "lanes_inv S s"
  obtain now ios e where x: "x = (now, ios, e)" by (cases x)
  have k: "keepsS (lanes_inv S) m \<Longrightarrow> lanes_inv S (fst (m s))" for m :: "'a lane_m"
    using s by (simp add: validS_def)
  have u: "keepsS (lanes_inv S) m \<Longrightarrow> lanes_inv S (fst (m s))" for m :: "'b lane_m"
    using s by (simp add: validS_def)
  show ?thesis unfolding x
  proof (cases e)
    case (Ev_settles j outcome)
    then show "lanes_inv S (lane_step lc s (now, ios, e))" using s
      by (auto simp: when_task_def intro!: inv_soft) (simp add: task_ok_def execution_over_def)
  qed (use s in \<open>auto simp: when_task_def shutdown_end_def validS_def intro!: inv_run inv_abort inv_executionFinished inv_finish
      inv_bookkeeping inv_shutdown_begin inv_claimOne
      inv_start [unfolded validS_def, rule_format] inv_submit [unfolded validS_def, rule_format]
      inv_cancel [unfolded validS_def, rule_format]\<close>)
qed

interpretation lanes: op_system "lane_step lc" "lanes_inv S"
  by unfold_locales (rule inv_lane_step)

lemma inv_new_lanes: "lanes_inv (opts, files.started_ids jobs) (new_lanes opts jobs)"
  by (simp add: lanes_inv_def lanes_core_def new_lanes_def unsettled_def)

end
