(* ===== verification/Lane_Runs.thy ===== *)
theory Lane_Runs
  imports Session_Lanes
begin

text \<open>
  Runs of the session-lane scheduler: what holds in every state that any sequence of operations
  and environment events reaches, from a new scheduler on any store.
\<close>

section \<open>Reached states\<close>

definition lane_reached ::
    "(string \<Rightarrow> string \<Rightarrow> int) \<Rightarrow> lane_options \<Rightarrow> job_map \<Rightarrow> (int \<times> io list \<times> lane_event) list \<Rightarrow> lanes" where
  "lane_reached lc opts jobs evs = run_ops (lane_step lc) (new_lanes opts jobs) evs"

lemma lane_reached_inv: "lanes_inv (opts, files.started_ids jobs) (lane_reached lc opts jobs evs)"
  unfolding lane_reached_def by (rule lanes.run_inv) (rule inv_new_lanes)

lemma lane_reached_append:
  "lane_reached lc opts jobs (evs @ evs') = run_ops (lane_step lc) (lane_reached lc opts jobs evs) evs'"
  by (simp add: lane_reached_def run_ops_append)

text \<open>The jobs whose call of \<open>execute\<close> has not returned.\<close>

definition executing :: "lanes \<Rightarrow> nat set" where
  "executing s = {k. k < length (ln_tasks s) \<and> lt_phase (ln_tasks s ! k) = Lane_executing \<and> lt_outcome (ln_tasks s ! k) = None}"

lemma executing_unsettled: "lanes_core s \<Longrightarrow> executing s \<subseteq> unsettled s"
  using core_parts(6) [of s]
  by (auto simp: executing_def unsettled_def fully_settled_def list_all_length task_ok_def execution_over_def)

section \<open>The head of a lane\<close>

definition heads_ok :: "lane_job list \<Rightarrow> (string \<times> lane_job) list \<Rightarrow> bool" where
  "heads_ok rs m \<longleftrightarrow> distinct (jm_keys m) \<and>
     (\<forall>q\<in>set rs. \<exists>h. jm_get m (lj_laneKey q) = Some h \<and> lj_laneSequence h \<le> lj_laneSequence q)"

lemma heads_ok_add: "heads_ok rs m \<Longrightarrow> heads_ok (r # rs) (add_head r m)"
proof -
  assume m: "heads_ok rs m"
  have d: "distinct (jm_keys (add_head r m))"
    using m jm.distinct_put [of m] by (auto simp: add_head_def heads_ok_def split: option.splits)
  have "\<exists>h. jm_get (add_head r m) (lj_laneKey q) = Some h \<and> lj_laneSequence h \<le> lj_laneSequence q"
    if "q \<in> set (r # rs)" for q
  proof (cases "q = r")
    case True
    then show ?thesis by (cases "jm_get m (lj_laneKey r)") (auto simp: add_head_def jm_get_set)
  next
    case False
    with that m obtain h where h: "jm_get m (lj_laneKey q) = Some h" "lj_laneSequence h \<le> lj_laneSequence q"
      by (auto simp: heads_ok_def)
    show ?thesis
    proof (cases "lj_laneKey q = lj_laneKey r")
      case True
      with h show ?thesis by (auto simp: add_head_def jm_get_set)
    next
      case False
      with h show ?thesis by (auto simp: add_head_def jm_get_set split: option.splits)
    qed
  qed
  with d show ?thesis by (simp add: heads_ok_def)
qed

lemma heads_ok_fold: "heads_ok rs m \<Longrightarrow> heads_ok (rev xs @ rs) (fold add_head xs m)"
proof (induction xs arbitrary: rs m)
  case (Cons x xs)
  from Cons.IH [OF heads_ok_add [OF Cons.prems, of x]] show ?case by simp
qed simp

lemma lane_heads_min:
  assumes h: "(k, h) \<in> set (lane_heads rs)" and q: "q \<in> set rs" "has_status ''queued'' q" "lj_laneKey q = k"
  shows "lj_laneSequence h \<le> lj_laneSequence q"
proof -
  have "heads_ok (rev (filter (has_status ''queued'') rs) @ []) (lane_heads rs)"
    unfolding lane_heads_def by (rule heads_ok_fold) (simp add: heads_ok_def)
  then have ok: "heads_ok (rev (filter (has_status ''queued'') rs)) (lane_heads rs)" by simp
  then have "jm_get (lane_heads rs) k = Some h" using h by (simp add: heads_ok_def)
  with ok q show ?thesis by (auto simp: heads_ok_def)
qed

lemma next_candidate_min:
  assumes n: "next_candidate lc locked rs = Some r" and q: "q \<in> set rs" "has_status ''queued'' q" "in_lane (lj_laneKey r) q"
  shows "lj_laneSequence r \<le> lj_laneSequence q"
proof -
  from n obtain xs where "sort_cmp (\<lambda>l r. byCreatedAtThenId lc (lj_job l) (lj_job r))
         (map snd (filter (\<lambda>(k, r). k \<notin> set locked) (lane_heads rs))) = r # xs"
    by (auto simp: next_candidate_def split: list.splits)
  then have "r \<in> set (map snd (filter (\<lambda>(k, r). k \<notin> set locked) (lane_heads rs)))"
    by (metis set_sort_cmp list.set_intros(1))
  then obtain k where k: "(k, r) \<in> set (lane_heads rs)" by auto
  with lane_heads_in [OF k] q show ?thesis
    by (intro lane_heads_min [OF k]) (auto simp: in_lane_def)
qed

section \<open>What a claim does\<close>

lemma check_transition_fields:
  "check_transition lc b (Stored j) op ex = Inr v \<Longrightarrow>
     js_field j ''status'' = JStr (le_status ex) \<and> js_field j ''attempts'' = JInt (le_attempts ex)"
  by (auto simp: check_transition_def Let_def bindR_Inr_iff check_stored_def dest!: validateStoredJob_job split: if_splits)

lemma dispatch_Some:
  assumes d: "dispatch lc now ios r s = (s', Inr (Some k))"
  obtains t where "k = length (ln_tasks s)" "ln_tasks s' = ln_tasks s @ [t]" "lt_id t = job_text (lj_job r) ''id''"
    "lt_laneKey t = lj_laneKey r" "js_field (lt_job t) ''status'' = JStr ''running''"
    "js_field (lt_job t) ''attempts'' = JInt (attempts_of (lj_job r) + 1)"
    "ln_active s' = jm_set (lt_id t) k (ln_active s)" "lt_phase t = Lane_reserved" "ln_options s' = ln_options s"
proof -
  let ?j = "lj_job r"
  let ?i = "job_text ?j ''id''"
  let ?p = "[(''status'', JStr ''running''), (''startedAt'', JStr (iso_text now)), (''attempts'', JInt (attempts_of ?j + 1))]"
  from d obtain s1 s2 running v where
    w: "storeWrite ''queued-job claim'' (nth_io ios 1) (claim_job now ?i ?p) s = (s1, Inr (Some running))"
    and t: "validateTransitionResult lc (Stored running) ''claim'' (expect_patch ?j ?i ''running'' (attempts_of ?j + 1) ?p) s1 = (s2, Inr v)"
    and s2: "s' = reserve (new_task r running (lj_input v)) s2" "k = length (ln_tasks s2)"
    unfolding dispatch_def Let_def
    by (auto simp: bindS_Inr returnS_def getS_def modifyS_def simp del: One_nat_def split: if_splits option.splits)
  note u = storeWrite_Inr [OF w]
  from transition_Inr [OF t] s2 have s': "s' = reserve (new_task r running (lj_input v)) s1" "k = length (ln_tasks s1)"
    by simp_all
  from transition_Inr [OF t] obtain b where
    b: "check_transition lc b (Stored running) ''claim'' (expect_patch ?j ?i ''running'' (attempts_of ?j + 1) ?p) = Inr v"
    by blast
  from check_transition_id [OF b] check_transition_fields [OF b] u s' show thesis
    by (intro that [of "new_task r running (lj_input v)"])
      (simp_all add: expect_patch_def new_task_def reserve_def job_text_def)
qed

lemma claimOne_Some:
  assumes "claimOne lc now ios s = (s', Inr (Some k))"
  obtains validated r where "ln_lifecycle s = Lane_started" "ln_degraded s = None"
    "int (length (ln_active s)) < lo_concurrency (ln_options s)"
    "validateDedicatedStore (lo_maxPayloadBytes (ln_options s)) (list_jobs lc (ln_jobs s)) = Inr validated"
    "next_candidate lc (ln_locked s) validated = Some r" "dispatch lc now ios r s = (s', Inr (Some k))"
  by (rule claimOne_cases [where s = s and lc = lc and now = now and ios = ios]) (use assms that in auto)

lemma validateStoredJob_queued:
  assumes "validateStoredJob (Stored j) b = Inr v" and "js_field j ''status'' = JStr ''queued''"
  shows "js_field j ''attempts'' = JInt 0"
proof -
  have "validate_envelope j = Inr ()"
    using assms(1) by (auto simp: validateStoredJob_def Let_def bindR_Inr_iff split: if_splits)
  with assms(2) show ?thesis
    by (cases "js_field j ''attempts''") (auto simp: validate_envelope_def Let_def bindR_Inr_iff check_stored_def split: if_splits)
qed

lemma validateDedicatedStore_in:
  "validateDedicatedStore b js = Inr rs \<Longrightarrow> r \<in> set rs \<Longrightarrow> lj_job r \<in> set js \<and> validateStoredJob (Stored (lj_job r)) b = Inr r"
proof -
  assume "validateDedicatedStore b js = Inr rs" and r: "r \<in> set rs"
  then have "mapR (\<lambda>j. validateStoredJob (Stored j) b) js = Inr rs"
    by (auto simp: validateDedicatedStore_def rethrow_def bindR_Inr_iff split: sum.splits)
  from mapR_set [OF this r] show ?thesis by (auto dest: validateStoredJob_job)
qed

section \<open>A closed scheduler\<close>

definition closed_as :: "string \<Rightarrow> string list \<Rightarrow> string set \<Rightarrow> lanes \<Rightarrow> bool" where
  "closed_as m ids K s \<longleftrightarrow> ln_degraded s = Some m \<and> map lt_id (ln_tasks s) = ids \<and> set (jm_keys (ln_jobs s)) = K"

lemma degraded_stays: "ln_degraded s = Some m \<Longrightarrow> enterDegraded op e s = (s, Inl (Lane_degraded m))"
  by (cases s) (simp add: enterDegraded_def)

lemma closed_start: "ln_degraded s = Some m \<Longrightarrow>
    ln_jobs (fst (lanes_start lc now ios s)) = ln_jobs s \<and> ln_tasks (fst (lanes_start lc now ios s)) = ln_tasks s \<and>
    ln_degraded (fst (lanes_start lc now ios s)) = Some m"
  by (simp add: lanes_start_def bindS_def getS_def assertHealthy_def returnS_def)

lemma closed_submit: "ln_degraded s = Some m \<Longrightarrow> fst (lanes_submit lc now ios lane p i t h s) = s"
  by (auto simp: lanes_submit_def bindS_def getS_def liftS_def assertHealthy_def split: sum.splits)

lemma closed_cancel: "ln_degraded s = Some m \<Longrightarrow> fst (lanes_cancel lc now ios i s) = s"
  by (auto simp: lanes_cancel_def bindS_def liftS_def assertHealthy_def split: sum.splits)

lemma closed_claim: "ln_degraded s = Some m \<Longrightarrow> claimOne lc now ios s = (s, Inr None)"
  by (simp add: claimOne_def bindS_def getS_def returnS_def)

lemma closed_map_task:
  "(\<And>t. lt_id (f t) = lt_id t) \<Longrightarrow> closed_as m ids K (map_task k f s) = closed_as m ids K s"
  by (simp add: closed_as_def ids_map_task)

lemma closed_unlock [simp]: "closed_as m ids K (unlock_if p k s) = closed_as m ids K s"
  by (simp add: unlock_if_def closed_as_def)

lemma closed_settle [simp]: "closed_as m ids K (settle_logical k s) = closed_as m ids K s"
proof -
  have "closed_as m ids K (u\<lparr>ln_active := a\<rparr>) = closed_as m ids K u" for u a by (simp add: closed_as_def)
  then show ?thesis by (simp add: settle_logical_def closed_map_task)
qed

lemma fst_jm_set: "fst ` set (jm_set k v m) = insert k (fst ` set m)"
proof (induction m)
  case (Cons p m)
  then show ?case by (cases p) (simp add: insert_commute)
qed simp

lemma update_keys:
  "i \<in> set (jm_keys st) \<Longrightarrow> set (jm_keys (fst (update_job now i p st))) = set (jm_keys st)"
  by (simp add: update_job_def find_job_def put_job_def fst_jm_set map_of_eq_None_iff insert_absorb split: option.splits)

lemma closed_persist:
  assumes "closed_as m ids K s" and "i \<in> K"
  shows "closed_as m ids K (fst (bindS (storeWrite op x (update_job now i p)) (\<lambda>j. validateTransitionResult lc (Stored j) op' (ex j)) s))"
proof -
  obtain st r where u: "update_job now i p (ln_jobs s) = (st, r)" by (cases "update_job now i p (ln_jobs s)")
  with update_keys [of i "ln_jobs s" now p] assms have c: "closed_as m ids K (s\<lparr>ln_jobs := st\<rparr>)"
    by (simp add: closed_as_def)
  note d = degraded_stays [of s m] degraded_stays [of "s\<lparr>ln_jobs := st\<rparr>" m]
  from assms c show ?thesis
    by (auto simp: closed_as_def storeWrite_def store_call_def bindS_def u d returnS_def validateTransitionResult_def getS_def
        catchS_def liftS_def split: io.splits sum.splits)
qed

lemma closed_step:
  assumes inv: "lanes_inv G s" and c: "closed_as m ids K s"
  shows "closed_as m ids K (lane_step lc s x)"
proof -
  obtain now ios e where x: "x = (now, ios, e)" by (cases x)
  have d: "ln_degraded s = Some m" using c by (simp add: closed_as_def)
  have finish: "closed_as m ids K (finishLogical lc now ios k o' s)" if k: "k < length (ln_tasks s)" for k o'
  proof -
    have "lt_id (ln_tasks s ! k) \<in> files.started_ids (ln_jobs s)"
      using inv k by (auto simp: lanes_inv_def)
    then have "jm_get (ln_jobs s) (lt_id (ln_tasks s ! k)) \<noteq> None" by (auto simp: files.started_ids_def)
    then have "lt_id (ln_tasks s ! k) \<in> set (jm_keys (ln_jobs s))" by (simp add: map_of_eq_None_iff)
    then have "lt_id (ln_tasks s ! k) \<in> K" using c by (simp add: closed_as_def)
    from closed_persist [OF c this] c show ?thesis
      by (simp add: finishLogical_def Let_def)
  qed
  have aborts: "closed_as m ids K (fold (\<lambda>(i, k). map_task k (abort_task Abort_shutdown)) xs u)"
    if "closed_as m ids K u" for xs u
    using that by (induction xs arbitrary: u) (auto simp: closed_map_task abort_task_def split: option.splits)
  show ?thesis unfolding x
  proof (cases e)
    case Ev_shutdown_begin
    have "closed_as m ids K (s\<lparr>ln_lifecycle := Lane_stopping\<rparr>)" using c by (simp add: closed_as_def)
    note aborts [OF this, of "ln_active s"]
    with Ev_shutdown_begin c show "closed_as m ids K (lane_step lc s (now, ios, e))"
      by (simp add: shutdown_begin_def)
  next
    case Ev_start
    with closed_start [OF d] c show "closed_as m ids K (lane_step lc s (now, ios, e))" by (simp add: closed_as_def)
  next
    case Ev_shutdown_end
    with c show "closed_as m ids K (lane_step lc s (now, ios, e))" by (simp add: shutdown_end_def closed_as_def)
  qed (use c finish in \<open>auto simp: closed_submit [OF d] closed_cancel [OF d] closed_claim [OF d] when_task_def
      runClaimed_def closed_map_task executionFinished_def failLogicalBookkeeping_def degraded_stays [OF d]
      abort_task_def split: option.splits\<close>)
qed

section \<open>Properties\<close>

text \<open>
  C15. In every state the scheduler reaches, two jobs whose executions have not returned are of
  different lanes, also after a timeout or a cancellation has released their capacity, and at
  most the configured number of jobs hold capacity.
\<close>

theorem lane_exclusion:
  "inj_on (lane_at (lane_reached lc opts jobs evs)) (executing (lane_reached lc opts jobs evs)) \<and>
   int (length (ln_active (lane_reached lc opts jobs evs))) \<le> max 0 (lo_concurrency opts)"
proof -
  let ?s = "lane_reached lc opts jobs evs"
  have inv: "lanes_inv (opts, files.started_ids jobs) ?s" by (rule lane_reached_inv)
  then have core: "lanes_core ?s" and "ln_options ?s = opts" by (simp_all add: lanes_inv_def)
  with core_parts(3) [OF core] inj_on_subset [OF core_parts(4) [OF core] executing_unsettled [OF core]]
  show ?thesis by simp
qed

text \<open>
  C16. A job is executed at most once, over restarts too: the jobs a scheduler claims are
  distinct, none of them was started before the scheduler was made, and all of them are recorded
  as started in the store it leaves to the next one.
\<close>

theorem claimed_at_most_once:
  "distinct (map lt_id (ln_tasks (lane_reached lc opts jobs evs))) \<and>
   lt_id ` set (ln_tasks (lane_reached lc opts jobs evs)) \<inter> files.started_ids jobs = {} \<and>
   lt_id ` set (ln_tasks (lane_reached lc opts jobs evs)) \<union> files.started_ids jobs
     \<subseteq> files.started_ids (ln_jobs (lane_reached lc opts jobs evs))"
  using lane_reached_inv [of opts jobs lc evs] by (simp add: lanes_inv_def lanes_core_def)

text \<open>
  A claim takes a queued job with the smallest sequence among the queued jobs of its lane, in
  a lane no unsettled job holds, and starts its first attempt.
\<close>

lemma claim_takes_lane_head:
  assumes c: "claimOne lc now ios s = (s', Inr (Some k))" and s: "s = lane_reached lc opts jobs evs"
  shows "\<exists>validated r t. validateDedicatedStore (lo_maxPayloadBytes opts) (list_jobs lc (ln_jobs s)) = Inr validated \<and>
     r \<in> set validated \<and> has_status ''queued'' r \<and> lj_laneKey r \<notin> lane_at s ` unsettled s \<and>
     (\<forall>q\<in>set validated. has_status ''queued'' q \<longrightarrow> in_lane (lj_laneKey r) q \<longrightarrow> lj_laneSequence r \<le> lj_laneSequence q) \<and>
     ln_tasks s' = ln_tasks s @ [t] \<and> k = length (ln_tasks s) \<and>
     lt_id t = job_text (lj_job r) ''id'' \<and> lt_laneKey t = lj_laneKey r \<and>
     js_field (lt_job t) ''status'' = JStr ''running'' \<and> js_field (lt_job t) ''attempts'' = JInt 1"
proof -
  have inv: "lanes_inv (opts, files.started_ids jobs) s" unfolding s by (rule lane_reached_inv)
  then have core: "lanes_core s" and o': "ln_options s = opts" by (simp_all add: lanes_inv_def)
  from claimOne_Some [OF c] obtain validated r where
    v: "validateDedicatedStore (lo_maxPayloadBytes (ln_options s)) (list_jobs lc (ln_jobs s)) = Inr validated"
    and n: "next_candidate lc (ln_locked s) validated = Some r" and d: "dispatch lc now ios r s = (s', Inr (Some k))" .
  note r = next_candidate_in [OF n]
  from validateDedicatedStore_in [OF v conjunct1 [OF r]] validateStoredJob_queued r
  have "attempts_of (lj_job r) = 0" by (auto simp: has_status_def attempts_of_def)
  with dispatch_Some [OF d] obtain t where "k = length (ln_tasks s)" "ln_tasks s' = ln_tasks s @ [t]"
    "lt_id t = job_text (lj_job r) ''id''" "lt_laneKey t = lj_laneKey r"
    "js_field (lt_job t) ''status'' = JStr ''running''" "js_field (lt_job t) ''attempts'' = JInt 1"
    by (metis add_0)
  moreover have "lj_laneKey r \<notin> lane_at s ` unsettled s" using r core_parts(5) [OF core] by simp
  ultimately show ?thesis
    using v r next_candidate_min [OF n] unfolding o' by (intro exI [of _ validated] exI [of _ r] exI [of _ t]) simp
qed

text \<open>
  A degraded scheduler is closed for good: whatever happens afterwards, it stays degraded
  with the same message, claims no job and admits none.
\<close>

lemma degraded_is_closed:
  assumes "ln_degraded (lane_reached lc opts jobs evs) = Some m"
  shows "ln_degraded (lane_reached lc opts jobs (evs @ evs')) = Some m \<and>
     map lt_id (ln_tasks (lane_reached lc opts jobs (evs @ evs'))) = map lt_id (ln_tasks (lane_reached lc opts jobs evs)) \<and>
     set (jm_keys (ln_jobs (lane_reached lc opts jobs (evs @ evs')))) = set (jm_keys (ln_jobs (lane_reached lc opts jobs evs)))"
proof -
  let ?s = "lane_reached lc opts jobs evs"
  have "closed_as m (map lt_id (ln_tasks ?s)) (set (jm_keys (ln_jobs ?s))) (run_ops (lane_step lc) ?s evs')"
    by (rule lanes.run_stays [OF lane_reached_inv]) (use assms closed_step in \<open>auto simp: closed_as_def\<close>)
  then show ?thesis by (simp add: lane_reached_append closed_as_def)
qed

text \<open>
  A stored timestamp is accepted exactly when it is the text that \<open>toISOString\<close> gives some
  time; it may be absent when it is not required.
\<close>

lemma timestamp_canonical:
  "validateTimestamp v name required = Inr () \<longleftrightarrow>
     v = JUndef \<and> \<not> required \<or> (\<exists>t. \<bar>t\<bar> \<le> MAX_TIME \<and> v = JStr (iso_text t))"
proof -
  have "parse_iso x = None \<longleftrightarrow> (\<forall>t. \<bar>t\<bar> \<le> MAX_TIME \<longrightarrow> x \<noteq> iso_text t)" for x
    using parse_iso_iff by (metis not_None_eq)
  then show ?thesis by (cases v) (auto simp: validateTimestamp_def time_of_def)
qed

section \<open>The queue is bounded\<close>

definition open_job :: "job \<Rightarrow> bool" where
  "open_job j \<longleftrightarrow> \<not> (is_str (read_status j) \<and> the_str (read_status j) \<in> set TERMINAL_STATUSES)"

definition pending_count :: "job_map \<Rightarrow> nat" where
  "pending_count st = length (filter open_job (map snd st))"

lemma pending_jm_set_le: "pending_count (jm_set i j st) \<le> Suc (pending_count st)"
  by (induction st) (auto simp: pending_count_def)

lemma pending_jm_set:
  "\<not> open_job j \<or> (\<exists>j0. jm_get st i = Some j0 \<and> open_job j0) \<Longrightarrow> pending_count (jm_set i j st) \<le> pending_count st"
proof (induction st)
  case (Cons p st)
  obtain k v where p: "p = (k, v)" by (cases p)
  with Cons show ?case by (cases "k = i") (auto simp: pending_count_def split: if_splits)
qed (auto simp: pending_count_def)

lemma pending_put_job:
  "\<not> open_job (written j) \<or> (\<exists>j0. jm_get st i = Some j0 \<and> open_job j0) \<Longrightarrow> pending_count (put_job i j st) \<le> pending_count st"
  by (auto simp: put_job_def intro: pending_jm_set)

lemma open_patched: "sets_status p x \<Longrightarrow> open_job (written (patched now i j p)) \<longleftrightarrow> x \<notin> set TERMINAL_STATUSES"
  using files.read_status_patched [of p x now i j] files.status_written
  by (simp add: open_job_def patched_def)

lemma pending_update:
  "sets_status p x \<Longrightarrow> x \<in> set TERMINAL_STATUSES \<Longrightarrow> pending_count (fst (update_job now i p st)) \<le> pending_count st"
  by (auto simp: update_job_def open_patched split: stored.splits intro!: pending_put_job)

lemma pending_claim: "pending_count (fst (claim_job now i p st)) \<le> pending_count st"
proof -
  have "open_job j" if "read_status j = JStr ''queued''" for j using that by (simp add: open_job_def TERMINAL_STATUSES_def)
  then show ?thesis by (auto simp: claim_job_def find_job_cases split: stored.splits intro!: pending_put_job)
qed

lemma pending_create: "pending_count (fst (create_job now j st)) \<le> Suc (pending_count st)"
  by (auto simp: create_job_def Let_def put_job_def intro: pending_jm_set_le)

definition few :: "lane_options \<Rightarrow> nat \<Rightarrow> lanes \<Rightarrow> bool" where
  "few opts n s \<longleftrightarrow> ln_options s = opts \<and> pending_count (ln_jobs s) \<le> n"

lemma few_frames [simp]:
  "few opts n (s\<lparr>ln_degraded := d\<rparr>) = few opts n s" "few opts n (s\<lparr>ln_lifecycle := l\<rparr>) = few opts n s"
  "few opts n (s\<lparr>ln_active := a\<rparr>) = few opts n s" "few opts n (map_task k f s) = few opts n s"
  "few opts n (unlock_if p k s) = few opts n s" "few opts n (reserve t s) = few opts n s"
  by (simp_all add: few_def unlock_if_def reserve_def)

lemma few_degraded [keeps_intros]: "keepsS (few opts n) (enterDegraded op c)"
  by (simp add: validS_def enterDegraded_def Let_def)

lemma few_healthy [keeps_intros]: "keepsS (few opts n) assertHealthy"
  by (simp add: validS_def assertHealthy_def split: option.splits)

lemma few_storeRead [keeps_intros]: "keepsS (few opts n) (storeRead op x f)"
  by (cases x) (simp_all add: storeRead_def keeps_intros)

lemma few_storeWrite:
  assumes "\<And>st. pending_count (fst (f st)) \<le> pending_count st"
  shows "keepsS (few opts n) (storeWrite op x f)"
proof -
  have "keepsS (few opts n) (store_call f)"
    using assms by (auto simp: validS_def store_call_def case_prod_beta few_def intro: order_trans)
  then show ?thesis
    unfolding storeWrite_def by (cases x) (simp_all, (intro keeps_intros | assumption)+)
qed

lemma few_update [keeps_intros]:
  assumes "js_field p ''status'' = JStr x" and "distinct (map fst p)" and "x \<in> set TERMINAL_STATUSES"
  shows "keepsS (few opts n) (storeWrite op io (update_job now i p))"
  by (rule few_storeWrite) (rule pending_update [OF sets_statusI [OF assms(1,2)] assms(3)])

lemma few_claim [keeps_intros]: "keepsS (few opts n) (storeWrite op io (claim_job now i p))"
  by (rule few_storeWrite) (rule pending_claim)

lemma few_transition [keeps_intros]: "keepsS (few opts n) (validateTransitionResult lc j op ex)"
  unfolding validateTransitionResult_def by (intro keeps_intros)

lemma few_start: "keepsS (few opts n) (lanes_start lc now ios)"
  unfolding lanes_start_def quarantine_job_def Let_def
  by (intro keeps_intros) (auto simp: quarantine_patch_def TERMINAL_STATUSES_def)

lemma few_cancel: "keepsS (few opts n) (lanes_cancel lc now ios i)"
  unfolding lanes_cancel_def Let_def
  by (intro keeps_intros) (auto simp: TERMINAL_STATUSES_def)

lemma few_dispatch: "keepsS (few opts n) (dispatch lc now ios r)"
  unfolding dispatch_def Let_def by (intro keeps_intros) simp

lemma few_claimOne: "keepsS (few opts n) (claimOne lc now ios)"
  unfolding claimOne_def by (intro keeps_intros few_dispatch)

lemma few_settle [simp]: "few opts n (settle_logical k s) = few opts n s"
  by (simp add: settle_logical_def)

lemma few_finish: "few opts n s \<Longrightarrow> few opts n (finishLogical lc now ios k outcome s)"
proof -
  assume s: "few opts n s"
  let ?t = "ln_tasks s ! k"
  let ?p = "terminalPatch now ?t outcome"
  obtain x where x: "js_field ?p ''status'' = JStr x" "x \<in> set TERMINAL_STATUSES" "distinct (map fst ?p)"
    by (cases outcome; cases "lt_abort ?t") (auto simp: terminalPatch_def TERMINAL_STATUSES_def split: abort_kind.splits)
  have "keepsS (few opts n) (bindS (storeWrite op io (update_job now (lt_id ?t) ?p)) (\<lambda>j. validateTransitionResult lc (Stored j) op' ex))"
    for op io op' ex by (intro keeps_bind few_update [OF x(1,3,2)] few_transition)
  with s show ?thesis by (simp add: finishLogical_def Let_def validS_def)
qed

lemma dedicated_jobs:
  "validateDedicatedStore b js = Inr rs \<Longrightarrow> map lj_job rs = js"
proof -
  assume "validateDedicatedStore b js = Inr rs"
  then have "mapR (\<lambda>j. validateStoredJob (Stored j) b) js = Inr rs"
    by (auto simp: validateDedicatedStore_def rethrow_def bindR_Inr_iff split: sum.splits)
  then have "list_all2 (\<lambda>j r. validateStoredJob (Stored j) b = Inr r) js rs" by (simp add: mapR_Inr_iff)
  then show ?thesis by (induction rule: list_all2_induct) (auto dest: validateStoredJob_job)
qed

lemma validated_status: "validateStoredJob (Stored j) b = Inr v \<Longrightarrow> is_str (js_field j ''status'')"
  by (auto simp: validateStoredJob_def validate_envelope_def Let_def bindR_Inr_iff check_stored_def split: if_splits)

lemma count_pending:
  assumes "validateDedicatedStore b (list_jobs lc st) = Inr rs"
  shows "count_if (\<lambda>r. \<not> terminal_status r) rs = int (pending_count st)"
proof -
  have "terminal_status r \<longleftrightarrow> \<not> open_job (lj_job r)" if "r \<in> set rs" for r
    using validated_status validateDedicatedStore_in [OF assms that]
    by (auto simp: terminal_status_def open_job_def read_status_def)
  then have "filter (\<lambda>r. \<not> terminal_status r) rs = filter (\<lambda>r. open_job (lj_job r)) rs" by (intro filter_cong) auto
  moreover have "length (filter (\<lambda>r. open_job (lj_job r)) rs) = length (filter open_job (map lj_job rs))"
    by (simp add: filter_map comp_def)
  moreover have "mset (map lj_job rs) = mset (map snd st)"
    unfolding dedicated_jobs [OF assms] list_jobs_def by simp
  then have "length (filter open_job (map lj_job rs)) = pending_count st"
    unfolding pending_count_def by (metis mset_filter size_mset)
  ultimately show ?thesis by (simp add: count_if_def)
qed


lemma bindS_state:
  assumes "P (fst (m s))" and "\<And>a u. m s = (u, Inr a) \<Longrightarrow> P (fst (f a u))"
  shows "P (fst (bindS m f s))"
  using assms by (cases "m s") (auto simp: bindS_def split: sum.splits)

lemma few_create:
  assumes u: "few opts n u" "pending_count (ln_jobs u) < n"
  shows "few opts n (fst (storeWrite op x (create_job now j) u))"
proof -
  have "few opts n (u\<lparr>ln_jobs := fst (create_job now j (ln_jobs u))\<rparr>)"
    using pending_create [of now j "ln_jobs u"] u by (simp add: few_def)
  with u(1) show ?thesis
    by (cases x) (auto simp: storeWrite_def store_call_def bindS_def returnS_def enterDegraded_def Let_def
        split: prod.splits sum.splits)
qed

lemma few_submit_tail:
  assumes u: "few opts n u" "pending_count (ln_jobs u) < n"
  shows "few opts n (fst (bindS (storeWrite op x (create_job now j)) (\<lambda>c.
     bindS (validateTransitionResult lc (Stored c) op' (ex c)) (\<lambda>_. returnS c)) u))"
proof (rule bindS_state)
  fix c v assume "storeWrite op x (create_job now j) u = (v, Inr c)"
  with few_create [OF u, of op x now j] have v: "few opts n v" by simp
  have "keepsS (few opts n) (bindS (validateTransitionResult lc (Stored c) op' (ex c)) (\<lambda>_. returnS c))"
    by (intro keeps_intros)
  with v show "few opts n (fst (bindS (validateTransitionResult lc (Stored c) op' (ex c)) (\<lambda>_. returnS c) v))"
    by (simp add: validS_def)
qed (rule few_create [OF u])

lemma admit_room:
  "admit opts key p validated = Inr w \<Longrightarrow> count_if (\<lambda>r. \<not> terminal_status r) validated < lo_maxPending opts"
  by (auto simp: admit_def split: if_splits)

lemma bindS_steps:
  "bindS (getS g) f s = f (g s) s" "bindS (liftS (Inr a)) f s = f a s" "bindS (liftS (Inl e)) f s = (s, Inl e)"
  "ln_degraded s = None \<Longrightarrow> bindS assertHealthy f' s = f' () s"
  "bindS (storeRead op Io_ok h) f'' s = f'' (h (ln_jobs s)) s"
  by (simp_all add: bindS_def getS_def liftS_def assertHealthy_def storeRead_def)

lemma few_bind_degraded: "few opts n (fst (bindS (enterDegraded op e) f s)) = few opts n s"
  by (simp add: bindS_def enterDegraded_def Let_def)

lemma bindS_unhealthy: "ln_degraded s = Some m \<Longrightarrow> bindS assertHealthy f s = (s, Inl (Lane_degraded m))"
  by (simp add: bindS_def assertHealthy_def)

lemma few_submit:
  assumes s: "few opts n s" and n: "lo_maxPending opts \<le> int n"
  shows "few opts n (fst (lanes_submit lc now ios lane payload i t h s))"
proof -
  have o': "ln_options s = opts" using s by (simp add: few_def)
  note steps = lanes_submit_def bindS_steps o'
  show ?thesis
  proof (cases "submit_checks lane payload i t h (lo_defaultTimeoutMs opts)")
    case c: (Inr c)
    obtain key i' h' t' where "c = (key, i', h', t')" by (cases c)
    note steps = steps c [unfolded this]
    show ?thesis
    proof (cases "ln_degraded s")
      case None
      note steps = steps None
      show ?thesis
      proof (cases "nth_io ios 0")
        case Io_ok
        note steps = steps Io_ok
        show ?thesis
        proof (cases "validateDedicatedStore (lo_maxPayloadBytes opts) (list_jobs lc (ln_jobs s))")
          case v: (Inr validated)
          note steps = steps v
          show ?thesis
          proof (cases "admit opts key (the_obj payload) validated")
            case a: (Inr w)
            have "pending_count (ln_jobs s) < n"
              using admit_room [OF a] n by (simp add: count_pending [OF v])
            from few_submit_tail [OF s this] show ?thesis by (simp add: steps a)
          qed (simp add: steps s)
        qed (simp add: steps s)
      qed (use s in \<open>simp_all add: steps storeRead_def few_bind_degraded\<close>)
    qed (use s in \<open>simp add: steps bindS_unhealthy\<close>)
  qed (simp add: steps s)
qed

lemma few_aborts: "few opts n u \<Longrightarrow> few opts n (fold (\<lambda>(i, k). map_task k (abort_task Abort_shutdown)) xs u)"
  by (induction xs arbitrary: u) auto

lemma few_step:
  assumes s: "few opts n s" and n: "lo_maxPending opts \<le> int n"
  shows "few opts n (lane_step lc s x)"
proof -
  obtain now ios e where x: "x = (now, ios, e)" by (cases x)
  have fst: "few opts n (fst (m s))" if "keepsS (few opts n) m" for m :: "'x lane_m"
    using that s by (simp add: validS_def)
  show ?thesis unfolding x
    by (cases e) (use s few_submit [OF s n] few_finish [OF s] in
      \<open>auto simp: fst few_start few_cancel few_claimOne when_task_def runClaimed_def executionFinished_def
         failLogicalBookkeeping_def enterDegraded_def Let_def shutdown_begin_def shutdown_end_def few_aborts
         split: option.splits\<close>)
qed

text \<open>
  C17. The queue is bounded: however the clients, the clock and the store behave, the store never
  holds more unfinished jobs than the configured limit, or than it held when the scheduler was
  made.
\<close>

theorem queue_bounded:
  "int (pending_count (ln_jobs (lane_reached lc opts jobs evs))) \<le> max (int (pending_count jobs)) (lo_maxPending opts)"
proof -
  let ?n = "max (pending_count jobs) (nat (lo_maxPending opts))"
  have "few opts ?n (run_ops (lane_step lc) (new_lanes opts jobs) evs)"
  proof (rule lanes.run_stays [OF inv_new_lanes])
    show "few opts ?n (new_lanes opts jobs)" by (simp add: few_def new_lanes_def)
  qed (rule few_step, auto)
  then show ?thesis by (auto simp: few_def lane_reached_def)
qed

text \<open>
  A client that submits an id the store already holds shuts the scheduler: the refusal of the
  store is taken for a failure of the durable store.
\<close>

theorem duplicate_id_degrades:
  assumes "ln_degraded s = None" and "nth_io ios 0 = Io_ok" and "nth_io ios 1 = Io_ok"
    and "submit_checks lane payload i t h (lo_defaultTimeoutMs (ln_options s)) = Inr (key, i', h', t')"
    and "validateDedicatedStore (lo_maxPayloadBytes (ln_options s)) (list_jobs lc (ln_jobs s)) = Inr validated"
    and "admit (ln_options s) key (the_obj payload) validated = Inr wrapped"
    and "find_job (ln_jobs s) i' \<noteq> Missing"
  shows "lanes_submit lc now ios lane payload i t h s =
     (let m = ''session lane scheduler degraded after durable store admission create failed: job already exists: '' @ i'
      in (s\<lparr>ln_degraded := Some m\<rparr>, Inl (Lane_degraded m)))"
proof -
  have "create_job now (new_job i' wrapped h' t') (ln_jobs s) = (ln_jobs s, Inl (''job already exists: '' @ i'))"
    using assms(7) by (simp add: create_job_def job_text_def new_job_def)
  then have w: "storeWrite ''admission create'' Io_ok (create_job now (new_job i' wrapped h' t')) s =
      enterDegraded ''admission create'' (Lane_error (''job already exists: '' @ i')) s"
    by (simp add: storeWrite_def store_call_def bindS_def)
  have "bindS (storeWrite ''admission create'' Io_ok (create_job now (new_job i' wrapped h' t'))) f s =
      enterDegraded ''admission create'' (Lane_error (''job already exists: '' @ i')) s" for f :: "job \<Rightarrow> job lane_m"
    by (simp add: bindS_def w) (simp add: enterDegraded_def Let_def)
  then have "lanes_submit lc now ios lane payload i t h s =
      enterDegraded ''admission create'' (Lane_error (''job already exists: '' @ i')) s"
    by (simp add: lanes_submit_def bindS_steps assms(1-6) del: One_nat_def)
  then show ?thesis by (simp add: enterDegraded_def Let_def assms(1))
qed

section \<open>A concrete scheduler\<close>

definition sample_options :: lane_options where
  "sample_options = \<lparr>lo_concurrency = 2, lo_maxPending = 3, lo_maxPendingPerLane = 2, lo_maxPayloadBytes = 200,
     lo_maxPendingBytes = 1000, lo_defaultTimeoutMs = 1000\<rparr>"

definition sample_lane_events :: "(int \<times> io list \<times> lane_event) list" where
  "sample_lane_events = [(0, [], Ev_start), (1, [], Ev_submit (JStr ''s'') (JObj []) (JStr ''a'') JUndef JUndef)]"

definition sample_lane :: lanes where
  "sample_lane = lane_reached lex_cmp sample_options [] sample_lane_events"

lemma sample_admission:
  "case validateDedicatedStore 200 (list_jobs lex_cmp (ln_jobs sample_lane)) of
     Inl e \<Rightarrow> False
   | Inr v \<Rightarrow> admit sample_options ''t'' [] v = Inr [(''sessionLaneVersion'', JInt 1), (''laneKey'', JStr ''t''),
       (''laneSequence'', JInt 1), (''input'', JObj [])]"
  by code_simp

lemma sample_checks:
  "submit_checks (JStr ''t'') (JObj []) (JStr ''constructor'') JUndef JUndef 1000 = Inr (''t'', ''constructor'', JUndef, 1000)"
  by code_simp

lemma sample_open: "ln_degraded sample_lane = None" "find_job (ln_jobs sample_lane) ''constructor'' \<noteq> Missing"
  by code_simp+

lemma sample_lane_options: "ln_options sample_lane = sample_options"
  using lane_reached_inv [of sample_options "[]" lex_cmp sample_lane_events] by (simp add: lanes_inv_def sample_lane_def)

theorem duplicate_id_degrades_witness:
  "snd (lanes_submit lex_cmp 5 [] (JStr ''t'') (JObj []) (JStr ''constructor'') JUndef JUndef sample_lane) =
     Inl (Lane_degraded ''session lane scheduler degraded after durable store admission create failed: job already exists: constructor'')"
proof -
  obtain v where v: "validateDedicatedStore 200 (list_jobs lex_cmp (ln_jobs sample_lane)) = Inr v"
    and a: "admit sample_options ''t'' [] v = Inr [(''sessionLaneVersion'', JInt 1), (''laneKey'', JStr ''t''),
       (''laneSequence'', JInt 1), (''input'', JObj [])]"
    using sample_admission by (auto split: sum.splits)
  have o': "lo_maxPayloadBytes sample_options = 200" "lo_defaultTimeoutMs sample_options = 1000"
    by (simp_all add: sample_options_def)
  show ?thesis
    by (subst duplicate_id_degrades [of sample_lane "[]" "JStr ''t''" "JObj []" "JStr ''constructor''" JUndef JUndef "''t''" "''constructor''" JUndef 1000 lex_cmp v
          "[(''sessionLaneVersion'', JInt 1), (''laneKey'', JStr ''t''), (''laneSequence'', JInt 1), (''input'', JObj [])]"])
      (simp_all add: sample_open sample_lane_options o' sample_checks v a nth_io_def Let_def)
qed


lemma sample_claim_lane:
  "case claimOne lex_cmp 3 [] sample_lane of (s', Inr (Some k)) \<Rightarrow> True | _ \<Rightarrow> False"
  by code_simp

end
