(* ===== verification/Lane_Drain.thy ===== *)
theory Lane_Drain
  imports Lane_Runs
begin

text \<open>
  The method \<open>drain\<close> of the session-lane scheduler: it claims and starts jobs while other operations run
  between its suspensions, starts over when it was asked to meanwhile, and ends.
\<close>

section \<open>The loop\<close>

text \<open>
  What happens in one turn of the loop: the operations that are ahead of the claim on the state chain, the
  clock and the store of the claim, the operations that run before the claimed job is started (at the
  await of the state chain) or, when nothing was claimed, before \<open>drainRequested\<close> is tested, and whether another
  call of \<open>drain\<close> sets \<open>drainRequested\<close> during the turn.
\<close>

record drain_turn =
  tn_before :: "(int \<times> io list \<times> lane_event) list"
  tn_now :: int
  tn_io :: "io list"
  tn_between :: "(int \<times> io list \<times> lane_event) list"
  tn_requested :: bool

definition lanes_open :: "lanes \<Rightarrow> bool" where
  "lanes_open s \<longleftrightarrow> ln_lifecycle s = Lane_started \<and> ln_degraded s = None"

text \<open>
  The inner and the outer loop.  A claim that throws ends both, one that finds nothing ends the inner loop;
  \<open>None\<close> is a loop that has not ended when the turns are used up.
\<close>

fun drain_loop ::
    "(string \<Rightarrow> string \<Rightarrow> int) \<Rightarrow> bool \<Rightarrow> drain_turn list \<Rightarrow> lanes \<Rightarrow> (lanes \<times> (lane_error + unit)) option" where
  "drain_loop lc requested [] s = (if lanes_open s then None else Some (s, Inr ()))"
| "drain_loop lc requested (t # ts) s =
     (if \<not> lanes_open s then Some (s, Inr ())
      else
        case claimOne lc (tn_now t) (tn_io t) (run_ops (lane_step lc) s (tn_before t)) of
          (s1, Inl e) \<Rightarrow> Some (s1, Inl e)
        | (s1, Inr claimed) \<Rightarrow>
            let s2 = run_ops (lane_step lc) s1 (tn_between t); requested' = requested \<or> tn_requested t in
            case claimed of
              Some k \<Rightarrow> drain_loop lc requested' ts (runClaimed k s2)
            | None \<Rightarrow> if requested' \<and> lanes_open s2 then drain_loop lc False ts s2 else Some (s2, Inr ()))"

definition drain ::
    "(string \<Rightarrow> string \<Rightarrow> int) \<Rightarrow> drain_turn list \<Rightarrow> lanes \<Rightarrow> (lanes \<times> (lane_error + unit)) option" where
  "drain lc ts s = (if lanes_open s then drain_loop lc False ts s else Some (s, Inr ()))"

section \<open>The queued jobs\<close>

abbreviation queued :: "lanes \<Rightarrow> string set" where
  "queued s \<equiv> files.queued_ids (ln_jobs s)"

lemma queued_in_keys: "queued s \<subseteq> set (jm_keys (ln_jobs s))"
proof
  fix i assume "i \<in> queued s"
  then have "jm_get (ln_jobs s) i \<noteq> None" by (auto simp: files.queued_ids_def)
  then show "i \<in> set (jm_keys (ln_jobs s))" by (simp add: map_of_eq_None_iff)
qed

lemma queued_finite: "finite (queued s)"
  by (rule finite_subset [OF queued_in_keys]) simp

definition waits :: "string set \<Rightarrow> lanes \<Rightarrow> bool" where
  "waits Q s \<longleftrightarrow> queued s \<subseteq> Q"

lemma waits_frames [simp]:
  "waits Q (s\<lparr>ln_degraded := d\<rparr>) = waits Q s" "waits Q (s\<lparr>ln_lifecycle := l\<rparr>) = waits Q s"
  "waits Q (s\<lparr>ln_active := a\<rparr>) = waits Q s" "waits Q (map_task k f s) = waits Q s"
  "waits Q (unlock_if p k s) = waits Q s" "waits Q (reserve t s) = waits Q s" "waits Q (settle_logical k s) = waits Q s"
  "waits Q (runClaimed k s) = waits Q s"
  by (simp_all add: waits_def unlock_if_def reserve_def settle_logical_def runClaimed_def)

lemma waits_degraded [keeps_intros]: "keepsS (waits Q) (enterDegraded op c)"
  by (simp add: validS_def enterDegraded_def Let_def)

lemma waits_healthy [keeps_intros]: "keepsS (waits Q) assertHealthy"
  by (simp add: validS_def assertHealthy_def split: option.splits)

lemma waits_storeRead [keeps_intros]: "keepsS (waits Q) (storeRead op x f)"
  by (cases x) (simp_all add: storeRead_def keeps_intros)

lemma waits_transition [keeps_intros]: "keepsS (waits Q) (validateTransitionResult lc j op ex)"
  unfolding validateTransitionResult_def by (intro keeps_intros)

lemma waits_storeWrite:
  assumes "\<And>st. files.queued_ids st \<subseteq> P \<Longrightarrow> files.queued_ids (fst (f st)) \<subseteq> Q" and "P \<subseteq> Q"
  shows "validS (waits P) (storeWrite op x f) (\<lambda>_. waits Q)"
proof -
  have call: "waits Q u" if "waits P s" "store_call f s = (u, r)" for s u r
    using assms(1) [of "ln_jobs s"] that by (auto simp: store_call_def waits_def split: prod.splits)
  have "waits Q s" if "waits P s" for s using that assms(2) by (auto simp: waits_def)
  with call show ?thesis
    unfolding storeWrite_def validS_def
    by (cases x) (auto simp: bindS_def enterDegraded_def returnS_def Let_def split: prod.splits sum.splits)
qed

lemma waits_update [keeps_intros]:
  assumes "js_field p ''status'' = JStr x" and "distinct (map fst p)" and "x \<noteq> ''queued''"
  shows "keepsS (waits Q) (storeWrite op io (update_job now i p))"
proof (rule waits_storeWrite)
  fix st assume st: "files.queued_ids st \<subseteq> Q"
  obtain st' r where u: "update_job now i p st = (st', r)" by (cases "update_job now i p st")
  with files.update_started [OF u sets_statusI [OF assms(1,2)] assms(3)] st show "files.queued_ids (fst (update_job now i p st)) \<subseteq> Q" by auto
qed simp

lemma waits_claim [keeps_intros]:
  assumes "js_field p ''status'' = JStr x" and "distinct (map fst p)" and "x \<noteq> ''queued''"
  shows "keepsS (waits Q) (storeWrite op io (claim_job now i p))"
proof (rule waits_storeWrite)
  fix st assume st: "files.queued_ids st \<subseteq> Q"
  obtain st' r where u: "claim_job now i p st = (st', r)" by (cases "claim_job now i p st")
  with files.claim_started [OF u sets_statusI [OF assms(1,2)] assms(3)] st show "files.queued_ids (fst (claim_job now i p st)) \<subseteq> Q" by auto
qed simp

lemma waits_create: "validS (waits Q) (storeWrite op x (create_job now j)) (\<lambda>_. waits (insert (job_text j ''id'') Q))"
proof (rule waits_storeWrite)
  fix st assume st: "files.queued_ids st \<subseteq> Q"
  obtain st' r where u: "create_job now j st = (st', r)" by (cases "create_job now j st")
  with files.create_ids [OF u] st show "files.queued_ids (fst (create_job now j st)) \<subseteq> insert (job_text j ''id'') Q" by auto
qed auto

section \<open>Steps\<close>

lemma waits_start: "keepsS (waits Q) (lanes_start lc now ios)"
  unfolding lanes_start_def quarantine_job_def Let_def
  by (intro keeps_intros) (auto simp: quarantine_patch_def)

lemma waits_cancel: "keepsS (waits Q) (lanes_cancel lc now ios i)"
  unfolding lanes_cancel_def Let_def by (intro keeps_intros) auto

lemma waits_dispatch: "keepsS (waits Q) (dispatch lc now ios r)"
  unfolding dispatch_def Let_def by (intro keeps_intros) auto

lemma waits_claimOne: "keepsS (waits Q) (claimOne lc now ios)"
  unfolding claimOne_def by (intro keeps_intros waits_dispatch)

text \<open>A submission adds at most one job.\<close>

definition waits_one_more :: "string set \<Rightarrow> lanes \<Rightarrow> bool" where
  "waits_one_more Q s \<longleftrightarrow> (\<exists>i. waits (insert i Q) s)"

lemma waits_more: "waits Q s \<Longrightarrow> waits_one_more Q s"
  by (auto simp: waits_one_more_def waits_def)

lemma keeps_more: "(\<And>Q. keepsS (waits Q) m) \<Longrightarrow> keepsS (waits_one_more Q) m"
  unfolding validS_def waits_one_more_def by blast

lemma waits_first:
  assumes "keepsS (waits Q) m" and "\<And>a. validS (waits Q) (f a) (\<lambda>_. waits_one_more Q)"
  shows "validS (waits Q) (bindS m f) (\<lambda>_. waits_one_more Q)"
  by (rule validS_bind [OF _ assms(2)]) (use assms(1) waits_more in \<open>auto simp: validS_def split: sum.splits\<close>)

lemma waits_submit: "validS (waits Q) (lanes_submit lc now ios lane p i t h) (\<lambda>_. waits_one_more Q)"
proof -
  have create: "validS (waits Q) (bindS (storeWrite op x (create_job now j)) g) (\<lambda>_. waits_one_more Q)"
    if "\<And>c P. keepsS (waits P) (g c)" for op x j and g :: "job \<Rightarrow> job lane_m"
  proof (rule validS_bind [where R = "\<lambda>_. waits_one_more Q"])
    show "validS (waits Q) (storeWrite op x (create_job now j)) (\<lambda>r s. case r of Inl e \<Rightarrow> waits_one_more Q s | Inr a \<Rightarrow> waits_one_more Q s)"
      using waits_create [of Q op x now j] by (auto simp: validS_def waits_one_more_def split: sum.splits)
  qed (rule keeps_more, rule that)
  show ?thesis
    unfolding lanes_submit_def
    by (intro waits_first keeps_intros, (simp only: split_paired_all prod.case)?, intro waits_first keeps_intros create)
qed

lemma waits_finish: "waits Q s \<Longrightarrow> waits Q (finishLogical lc now ios k outcome s)"
proof -
  assume s: "waits Q s"
  let ?t = "ln_tasks s ! k"
  let ?p = "terminalPatch now ?t outcome"
  obtain x where x: "js_field ?p ''status'' = JStr x" "x \<noteq> ''queued''" "distinct (map fst ?p)"
    by (cases outcome; cases "lt_abort ?t") (auto simp: terminalPatch_def split: abort_kind.splits)
  have "keepsS (waits Q) (bindS (storeWrite op io (update_job now (lt_id ?t) ?p)) (\<lambda>j. validateTransitionResult lc (Stored j) op' ex))"
    for op io op' ex by (intro keeps_bind waits_update [OF x(1,3,2)] waits_transition)
  with s show ?thesis by (simp add: finishLogical_def Let_def validS_def)
qed

lemma waits_aborts: "waits Q u \<Longrightarrow> waits Q (fold (\<lambda>(i, k). map_task k (abort_task Abort_shutdown)) xs u)"
  by (induction xs arbitrary: u) auto

definition is_submit :: "int \<times> io list \<times> lane_event \<Rightarrow> bool" where
  "is_submit x \<longleftrightarrow> (case snd (snd x) of Ev_submit lane p i t h \<Rightarrow> True | _ \<Rightarrow> False)"

lemma waits_step:
  assumes "waits Q s" and "\<not> is_submit x"
  shows "waits Q (lane_step lc s x)"
proof -
  obtain now ios e where x: "x = (now, ios, e)" by (cases x)
  have run: "waits Q (fst (m s))" if "keepsS (waits Q) m" for m :: "'x lane_m"
    using that assms(1) by (simp add: validS_def)
  have open_ended: "waits Q (failLogicalBookkeeping k m s)" "waits Q (shutdown_begin s)" "waits Q (shutdown_end s)" "waits Q (executionFinished k s)" for k m
    using assms(1)
    by (simp_all add: failLogicalBookkeeping_def enterDegraded_def Let_def shutdown_begin_def shutdown_end_def executionFinished_def waits_aborts)
  show ?thesis
  proof (cases e)
    case (Ev_submit lane p i t h)
    with assms(2) show ?thesis by (simp add: x is_submit_def)
  qed (simp_all add: x when_task_def assms(1) open_ended waits_finish run [OF waits_start] run [OF waits_cancel] run [OF waits_claimOne])
qed

lemma submit_step: "waits Q s \<Longrightarrow> is_submit x \<Longrightarrow> waits_one_more Q (lane_step lc s x)"
proof -
  assume s: "waits Q s" "is_submit x"
  obtain now ios lane p i t h where "x = (now, ios, Ev_submit lane p i t h)"
    using s(2) by (cases x; cases "snd (snd x)") (auto simp: is_submit_def)
  with waits_submit [of Q lc now ios lane p i t h] s(1) show ?thesis by (simp add: validS_def)
qed

definition submissions :: "(int \<times> io list \<times> lane_event) list \<Rightarrow> nat" where
  "submissions xs = length (filter is_submit xs)"

lemma step_queued: "card (queued (lane_step lc s x)) \<le> card (queued s) + submissions [x]"
proof (cases "is_submit x")
  case True
  then obtain i where "queued (lane_step lc s x) \<subseteq> insert i (queued s)"
    using submit_step [of "queued s" s x lc] by (auto simp: waits_def waits_one_more_def)
  then have "card (queued (lane_step lc s x)) \<le> card (insert i (queued s))" by (intro card_mono) (simp_all add: queued_finite)
  also have "\<dots> \<le> Suc (card (queued s))" by (simp add: card_insert_if queued_finite)
  finally show ?thesis using True by (simp add: submissions_def)
next
  case False
  then have "queued (lane_step lc s x) \<subseteq> queued s" using waits_step [of "queued s" s x lc] by (auto simp: waits_def)
  then show ?thesis using card_mono [OF queued_finite] by (simp add: submissions_def False)
qed

lemma run_queued: "card (queued (run_ops (lane_step lc) s xs)) \<le> card (queued s) + submissions xs"
proof (induction xs arbitrary: s)
  case (Cons x xs)
  have "submissions (x # xs) = submissions [x] + submissions xs" by (simp add: submissions_def)
  with Cons.IH [of "lane_step lc s x"] step_queued [of lc s x] show ?case by simp
qed simp

text \<open>A claim that yields a job takes it from the queue.\<close>

lemma claim_queued:
  assumes "claimOne lc now ios s = (s', r)"
  shows "card (queued s') + (case r of Inr (Some k) \<Rightarrow> 1 | _ \<Rightarrow> 0) \<le> card (queued s)"
proof -
  have "waits (queued s) (fst (claimOne lc now ios s))"
    using waits_claimOne [of "queued s" lc now ios] by (simp add: validS_def waits_def)
  then have sub: "queued s' \<subseteq> queued s" unfolding assms by (simp add: waits_def)
  show ?thesis
  proof (cases "\<exists>k. r = Inr (Some k)")
    case True
    then obtain k where k: "r = Inr (Some k)" ..
    from claimOne_Some [OF assms [unfolded k]] obtain q where d: "dispatch lc now ios q s = (s', Inr (Some k))" .
    let ?i = "job_text (lj_job q) ''id''"
    let ?p = "[(''status'', JStr ''running''), (''startedAt'', JStr (iso_text now)), (''attempts'', JInt (attempts_of (lj_job q) + 1))]"
    from d obtain s1 s2 running v where
      w: "storeWrite ''queued-job claim'' (nth_io ios 1) (claim_job now ?i ?p) s = (s1, Inr (Some running))"
      and t: "validateTransitionResult lc (Stored running) ''claim'' (expect_patch (lj_job q) ?i ''running'' (attempts_of (lj_job q) + 1) ?p) s1 = (s2, Inr v)"
      and s2: "s' = reserve (new_task q running (lj_input v)) s2"
      unfolding dispatch_def Let_def
      by (auto simp: bindS_Inr returnS_def getS_def modifyS_def simp del: One_nat_def split: if_splits option.splits)
    have jobs: "ln_jobs s' = ln_jobs s1" using transition_Inr [OF t] s2 by (simp add: reserve_def)
    have "sets_status ?p ''running''" by (simp add: sets_status_def)
    from files.claim_started [OF conjunct1 [OF storeWrite_Inr [OF w]] this] have "?i \<in> queued s" "?i \<in> files.started_ids (ln_jobs s')"
      using jobs by auto
    then have "?i \<in> queued s - queued s'" by (auto simp: files.queued_ids_def files.started_ids_def)
    with sub have "queued s' \<subset> queued s" by blast
    then have "card (queued s') < card (queued s)" by (rule psubset_card_mono [OF queued_finite])
    then show ?thesis by (simp add: k)
  next
    case False
    then show ?thesis using card_mono [OF queued_finite sub] by (auto split: sum.splits option.splits)
  qed
qed

section \<open>The loop ends\<close>

text \<open>What may still make the loop turn: jobs that wait or are submitted meanwhile, and requests to start over.\<close>

definition turns_work :: "drain_turn list \<Rightarrow> nat" where
  "turns_work ts = (\<Sum>t\<leftarrow>ts. submissions (tn_before t) + submissions (tn_between t) + (if tn_requested t then 1 else 0))"

lemma runClaimed_jobs [simp]: "ln_jobs (runClaimed k s) = ln_jobs s"
  by (simp add: runClaimed_def)

lemma drain_loop_ends:
  "card (queued s) + turns_work ts + (if requested then 1 else 0) < length ts \<Longrightarrow> drain_loop lc requested ts s \<noteq> None"
proof (induction ts arbitrary: s requested)
  case (Cons t ts)
  let ?s0 = "run_ops (lane_step lc) s (tn_before t)"
  obtain s1 r where c: "claimOne lc (tn_now t) (tn_io t) ?s0 = (s1, r)" by fastforce
  let ?s2 = "run_ops (lane_step lc) s1 (tn_between t)" and ?q = "requested \<or> tn_requested t"
  have w: "turns_work (t # ts) = submissions (tn_before t) + submissions (tn_between t) + (if tn_requested t then 1 else 0) + turns_work ts"
    by (simp add: turns_work_def)
  note le = run_queued [of lc s "tn_before t"] claim_queued [OF c] run_queued [of lc s1 "tn_between t"]
  show ?case
  proof (cases r)
    case (Inr claimed)
    show ?thesis
    proof (cases claimed)
      case None
      then have "?q \<Longrightarrow> drain_loop lc False ts ?s2 \<noteq> None"
        using le w Cons.prems by (intro Cons.IH) (auto simp: Inr split: if_splits)
      then show ?thesis by (auto simp: c Inr None Let_def)
    next
      case (Some k)
      then have "drain_loop lc ?q ts (runClaimed k ?s2) \<noteq> None"
        using le w Cons.prems by (intro Cons.IH) (auto simp: Inr split: if_splits)
      then show ?thesis by (simp add: c Inr Some Let_def)
    qed
  qed (simp add: c)
qed simp

text \<open>What it leaves is reached by steps.\<close>

lemma run_then: "run_ops (lane_step lc) (lane_step lc s (now, ios, e)) evs = run_ops (lane_step lc) s ((now, ios, e) # evs)"
  by simp

lemma drain_loop_steps:
  "drain_loop lc requested ts s = Some (s', r) \<Longrightarrow> \<exists>evs. s' = run_ops (lane_step lc) s evs"
proof (induction ts arbitrary: s requested)
  case Nil
  then have "s' = run_ops (lane_step lc) s []" by (simp split: if_splits)
  then show ?case ..
next
  case (Cons t ts)
  let ?s0 = "run_ops (lane_step lc) s (tn_before t)"
  obtain s1 c where c: "claimOne lc (tn_now t) (tn_io t) ?s0 = (s1, c)" by fastforce
  have s1: "run_ops (lane_step lc) s (tn_before t @ (tn_now t, tn_io t, Ev_claim) # xs) = run_ops (lane_step lc) s1 xs" for xs
    by (simp add: run_ops_append c)
  have via: "\<exists>evs. s' = run_ops (lane_step lc) s evs" if "s' = run_ops (lane_step lc) s1 xs" for xs
    using that s1 [of xs] by metis
  show ?case
  proof (cases "lanes_open s")
    case started: True
    show ?thesis
    proof (cases c)
      case (Inl e)
      with Cons.prems c started via [of "[]"] show ?thesis by simp
    next
      case (Inr claimed)
      let ?s2 = "run_ops (lane_step lc) s1 (tn_between t)"
      show ?thesis
      proof (cases claimed)
        case None
        from Cons.prems have "s' = ?s2 \<or> drain_loop lc False ts ?s2 = Some (s', r)"
          using c started Inr None by (auto simp: Let_def split: if_splits)
        then show ?thesis
        proof
          assume "drain_loop lc False ts ?s2 = Some (s', r)"
          from Cons.IH [OF this] obtain evs where "s' = run_ops (lane_step lc) ?s2 evs" ..
          then show ?thesis using via [of "tn_between t @ evs"] by (simp add: run_ops_append)
        qed (rule via)
      next
        case (Some k)
        with Cons.prems c started Inr have "drain_loop lc (requested \<or> tn_requested t) ts (runClaimed k ?s2) = Some (s', r)" by (simp add: Let_def)
        from Cons.IH [OF this] obtain evs where "s' = run_ops (lane_step lc) (runClaimed k ?s2) evs" ..
        then show ?thesis using via [of "tn_between t @ (tn_now t, [], Ev_run k) # evs"] by (simp add: run_ops_append)
      qed
    qed
  next
    case False
    with Cons.prems have "s' = run_ops (lane_step lc) s []" by simp
    then show ?thesis by (rule exI)
  qed
qed

text \<open>
  C18. However operations and events interleave with it, \<open>drain\<close> ends, by a claim that throws included: in at
  most one turn more than there are queued jobs, jobs submitted meanwhile and requests to start over.  It ends
  in a state that steps of the scheduler reach.
\<close>

theorem drain_terminates:
  assumes "card (files.queued_ids (ln_jobs s)) + turns_work ts < length ts"
  shows "\<exists>s' r. drain lc ts s = Some (s', r) \<and> (\<exists>evs. s' = run_ops (lane_step lc) s evs)"
proof (cases "lanes_open s")
  case True
  with drain_loop_ends [of s ts False lc] assms obtain s' r where d: "drain_loop lc False ts s = Some (s', r)" by auto
  with drain_loop_steps [OF d] True show ?thesis by (simp add: drain_def)
next
  case False
  then have "drain lc ts s = Some (s, Inr ()) \<and> s = run_ops (lane_step lc) s []" by (simp add: drain_def)
  then show ?thesis by blast
qed

text \<open>One job waits, another is submitted while the first is claimed, and \<open>drain\<close> is called again.\<close>

definition sample_turn :: "bool \<Rightarrow> drain_turn" where
  "sample_turn again = \<lparr>tn_before = [], tn_now = 3, tn_io = [],
     tn_between = (if again then [(3, [], Ev_submit (JStr ''u'') (JObj []) (JStr ''b'') JUndef JUndef)] else []), tn_requested = again\<rparr>"

theorem drain_terminates_witness:
  "\<exists>s' r. drain lex_cmp [sample_turn True, sample_turn False, sample_turn False, sample_turn False] sample_lane = Some (s', r)"
proof -
  have "jm_keys (ln_jobs sample_lane) = [''a'']" by code_simp
  then have "queued sample_lane \<subseteq> {''a''}" using queued_in_keys [of sample_lane] by simp
  then have "card (queued sample_lane) \<le> card {''a''}" by (intro card_mono) simp_all
  moreover have "turns_work [sample_turn True, sample_turn False, sample_turn False, sample_turn False] = 2" by code_simp
  ultimately have "card (files.queued_ids (ln_jobs sample_lane)) + turns_work [sample_turn True, sample_turn False, sample_turn False, sample_turn False]
      < length [sample_turn True, sample_turn False, sample_turn False, sample_turn False]"
    by simp
  from drain_terminates [OF this, of lex_cmp] show ?thesis by blast
qed

end
