(* ===== verification/Json_Visitor.thy ===== *)
theory Json_Visitor
  imports Prelude
begin

text \<open>
  The visitors that bound a JSON value before it is read: they count the nodes of the whole value,
  limit arrays and objects, accept safe integers as the only numbers and rebuild the value.  The
  source has one copy per component, with its own limits and messages: a record of them is the
  argument \<open>L\<close>.  What the visitors check about prototypes, accessors and sparse arrays cannot fail
  for a \<^typ>\<open>jsval\<close>.
\<close>

record json_limits =
  jl_nodes :: nat
  jl_nodes_text :: string
  jl_number_text :: string
  jl_array :: nat
  jl_array_text :: string
  jl_object_text :: string
  jl_fields :: nat
  jl_fields_text :: string
  jl_bytes :: nat
  jl_bytes_text :: string

fun visit_value :: "json_limits \<Rightarrow> string \<Rightarrow> string \<Rightarrow> nat \<Rightarrow> jsval \<Rightarrow> string + (nat \<times> jsval)"
  and visit_items :: "json_limits \<Rightarrow> string \<Rightarrow> string \<Rightarrow> nat \<Rightarrow> nat \<Rightarrow> jsval list \<Rightarrow> string + (nat \<times> jsval list)"
  and visit_members :: "json_limits \<Rightarrow> string \<Rightarrow> string \<Rightarrow> nat \<Rightarrow> (string \<times> jsval) list \<Rightarrow>
    string + (nat \<times> (string \<times> jsval) list)"
where
  "visit_value L label path n v =
     (if jl_nodes L < Suc n then Inl (label @ jl_nodes_text L)
      else case v of
        JNull \<Rightarrow> Inr (Suc n, v)
      | JStr s \<Rightarrow> Inr (Suc n, v)
      | JBool b \<Rightarrow> Inr (Suc n, v)
      | JInt i \<Rightarrow> if is_safe_int i then Inr (Suc n, v) else Inl (path @ jl_number_text L)
      | JFlt _ _ \<Rightarrow> Inl (path @ jl_number_text L)
      | JNaN \<Rightarrow> Inl (path @ jl_number_text L)
      | JInf _ \<Rightarrow> Inl (path @ jl_number_text L)
      | JUndef \<Rightarrow> Inl (path @ jl_object_text L)
      | JArr vs \<Rightarrow>
          if jl_array L < length vs then Inl (path @ jl_array_text L)
          else bindR (visit_items L label path (Suc n) 0 vs) (\<lambda>(m, vs'). Inr (m, JArr vs'))
      | JObj fs \<Rightarrow>
          if jl_fields L < length fs then Inl (path @ jl_fields_text L)
          else bindR (visit_members L label path (Suc n) fs) (\<lambda>(m, fs'). Inr (m, JObj fs')))"
| "visit_items L label path n i [] = Inr (n, [])"
| "visit_items L label path n i (v # vs) =
     bindR (visit_value L label (path @ ''['' @ nat_digits i @ '']'') n v) (\<lambda>(m, v').
     bindR (visit_items L label path m (Suc i) vs) (\<lambda>(m', vs'). Inr (m', v' # vs')))"
| "visit_members L label path n [] = Inr (n, [])"
| "visit_members L label path n ((k, v) # fs) =
     bindR (visit_value L label (path @ ''.'' @ k) n v) (\<lambda>(m, v').
     bindR (visit_members L label path m fs) (\<lambda>(m', fs'). Inr (m', (k, v') # fs')))"

declare visit_value.simps [simp del]

definition bounded_value :: "json_limits \<Rightarrow> jsval \<Rightarrow> string \<Rightarrow> string + jsval" where
  "bounded_value L input label =
     bindR (visit_value L label label 0 input) (\<lambda>(n, clean).
     if jl_bytes L < length (canonicalJson clean) then Inl (label @ jl_bytes_text L) else Inr clean)"

section \<open>What the visitors accept\<close>

fun within :: "json_limits \<Rightarrow> jsval \<Rightarrow> bool" where
  "within L (JArr vs) = (length vs \<le> jl_array L \<and> list_all (within L) vs)"
| "within L (JObj fs) = (length fs \<le> jl_fields L \<and> list_all (\<lambda>(k, v). within L v) fs)"
| "within L (JInt i) = is_safe_int i"
| "within L JNull = True"
| "within L (JStr s) = True"
| "within L (JBool b) = True"
| "within L v = False"

lemma visit_value_unfold:
  "visit_value L l p n (JArr vs) = (if jl_nodes L < Suc n then Inl (l @ jl_nodes_text L)
     else if jl_array L < length vs then Inl (p @ jl_array_text L)
     else bindR (visit_items L l p (Suc n) 0 vs) (\<lambda>(m, vs'). Inr (m, JArr vs')))"
  "visit_value L l p n (JObj fs) = (if jl_nodes L < Suc n then Inl (l @ jl_nodes_text L)
     else if jl_fields L < length fs then Inl (p @ jl_fields_text L)
     else bindR (visit_members L l p (Suc n) fs) (\<lambda>(m, fs'). Inr (m, JObj fs')))"
  by (subst visit_value.simps, simp)+

lemma visit_value_leaf:
  "\<forall>vs. v \<noteq> JArr vs \<Longrightarrow> \<forall>fs. v \<noteq> JObj fs \<Longrightarrow>
     visit_value L l p n v = Inr r \<longleftrightarrow> within L v \<and> n + json_nodes v \<le> jl_nodes L \<and> r = (n + json_nodes v, v)"
  by (subst visit_value.simps) (cases v, auto)

lemma visit_value_iff:
  shows "n \<le> jl_nodes L \<Longrightarrow> visit_value L l p n v = Inr r \<longleftrightarrow>
      within L v \<and> n + json_nodes v \<le> jl_nodes L \<and> r = (n + json_nodes v, v)"
    and "n \<le> jl_nodes L \<Longrightarrow> visit_items L l p n i vs = Inr s \<longleftrightarrow> list_all (within L) vs \<and>
      n + sum_list (map json_nodes vs) \<le> jl_nodes L \<and> s = (n + sum_list (map json_nodes vs), vs)"
    and "n \<le> jl_nodes L \<Longrightarrow> visit_members L l p n fs = Inr t \<longleftrightarrow> list_all (\<lambda>(k, v). within L v) fs \<and>
      n + sum_list (map (\<lambda>(k, v). json_nodes v) fs) \<le> jl_nodes L \<and>
      t = (n + sum_list (map (\<lambda>(k, v). json_nodes v) fs), fs)"
proof (induction L l p n v and L l p n i vs and L l p n fs arbitrary: r and s and t
    rule: visit_value_visit_items_visit_members.induct)
  case (1 L l p n v)
  consider vs where "v = JArr vs" | fs where "v = JObj fs"
    | "\<forall>vs. v \<noteq> JArr vs" "\<forall>fs. v \<noteq> JObj fs" by blast
  then show ?case
  proof cases
    case 1
    with "1.IH"(1) show ?thesis
      by (cases "n < jl_nodes L"; cases "length vs \<le> jl_array L") (auto simp: visit_value_unfold bindR_Inr_iff)
  next
    case 2
    with "1.IH"(2) show ?thesis
      by (cases "n < jl_nodes L"; cases "length fs \<le> jl_fields L") (auto simp: visit_value_unfold bindR_Inr_iff)
  next
    case 3
    then show ?thesis by (rule visit_value_leaf)
  qed
next
  case (3 L l p n i v vs)
  show ?case
  proof (cases "within L v \<and> n + json_nodes v \<le> jl_nodes L")
    case True
    with 3 show ?thesis by (auto simp: bindR_Inr_iff)
  next
    case False
    with 3 show ?thesis by (auto simp: bindR_Inr_iff)
  qed
next
  case (5 L l p n k v fs)
  show ?case
  proof (cases "within L v \<and> n + json_nodes v \<le> jl_nodes L")
    case True
    with 5 show ?thesis by (auto simp: bindR_Inr_iff)
  next
    case False
    with 5 show ?thesis by (auto simp: bindR_Inr_iff)
  qed
qed auto

lemma bounded_value_iff:
  "bounded_value L v l = Inr v' \<longleftrightarrow>
     v' = v \<and> within L v \<and> json_nodes v \<le> jl_nodes L \<and> length (canonicalJson v) \<le> jl_bytes L"
  by (auto simp: bounded_value_def bindR_Inr_iff visit_value_iff(1))

section \<open>A bound on the canonical text\<close>

text \<open>
  The bound is cheap to evaluate, and usually decides that a value is small enough.
\<close>

fun json_bound :: "jsval \<Rightarrow> nat" where
  "json_bound (JStr s) = 2 + 6 * length s"
| "json_bound (JArr vs) = 2 + sum_list (map (\<lambda>v. Suc (json_bound v)) vs)"
| "json_bound (JObj fs) = 2 + sum_list (map (\<lambda>(k, v). 4 + 6 * length k + json_bound v) fs)"
| "json_bound v = 17"

lemma length_json_string: "length (json_string s) \<le> 2 + 6 * length s"
proof -
  have c: "length (json_char c) \<le> 6" for c by (simp add: json_char_def Let_def)
  have "length (concat (map json_char s)) \<le> 6 * length s"
  proof (induction s)
    case (Cons a s)
    with c [of a] show ?case by simp
  qed simp
  then show ?thesis by (simp add: json_string_def)
qed

lemma length_nat_digits: "0 < k \<Longrightarrow> n < 10 ^ k \<Longrightarrow> length (nat_digits n) \<le> k"
proof (induction k arbitrary: n)
  case (Suc k)
  show ?case
  proof (cases "n < 10")
    case False
    with Suc.prems have "0 < k" "n div 10 < 10 ^ k" by (auto intro: gr0I simp: div_less_iff_less_mult)
    with Suc.IH have "length (nat_digits (n div 10)) \<le> k" by blast
    with False show ?thesis by (subst nat_digits.simps) simp
  qed (subst nat_digits.simps, simp)
qed simp

lemma length_int_text: "is_safe_int n \<Longrightarrow> length (int_text n) \<le> 17"
proof -
  assume "is_safe_int n"
  then have "nat \<bar>n\<bar> < 10 ^ 16" by (simp add: is_safe_int_def MAX_SAFE_INTEGER_def nat_less_iff)
  then have "length (nat_digits (nat \<bar>n\<bar>)) \<le> 16" by (rule length_nat_digits [rotated]) simp
  then show ?thesis by (cases "n < 0") (simp_all add: int_text_def)
qed

lemma length_join: "length (js_join [c] ss) \<le> sum_list (map (\<lambda>s. Suc (length s)) ss)"
proof (induction ss)
  case (Cons s ss)
  then show ?case by (cases "ss = []") (simp_all add: js_join_Cons)
qed simp

lemma sum_list_sort_key: "sum_list (map g (sort_key f xs)) = (sum_list (map g xs) :: nat)"
  by (metis mset_map mset_sort sum_mset_sum_list)

lemma sum_list_bound: "(\<And>x. x \<in> set xs \<Longrightarrow> f x \<le> (g x :: nat)) \<Longrightarrow> sum_list (map f xs) \<le> sum_list (map g xs)"
  by (rule sum_list_mono)

lemma canonicalJson_bound: "within L v \<Longrightarrow> length (canonicalJson v) \<le> json_bound v"
proof (induction v rule: json_bound.induct)
  case (2 vs)
  have "length (js_join '','' (map canonicalJson vs)) \<le> sum_list (map (\<lambda>v. Suc (length (canonicalJson v))) vs)"
    using length_join [of "CHR '',''" "map canonicalJson vs"] by (simp add: comp_def)
  also have "\<dots> \<le> sum_list (map (\<lambda>v. Suc (json_bound v)) vs)"
    using 2 by (intro sum_list_bound) (simp add: list_all_iff)
  finally show ?case by simp
next
  case (3 fs)
  let ?ks = "sort_key fst (map (\<lambda>(k, v). (k, canonicalJson v)) fs)"
  let ?t = "\<lambda>(k, t). json_string k @ '':'' @ t"
  have "length (js_join '','' (map ?t ?ks)) \<le> sum_list (map (\<lambda>p. Suc (length (?t p))) ?ks)"
    using length_join [of "CHR '',''" "map ?t ?ks"] by (simp add: comp_def)
  also have "\<dots> = sum_list (map (\<lambda>p. Suc (length (?t p))) (map (\<lambda>(k, v). (k, canonicalJson v)) fs))"
    by (rule sum_list_sort_key)
  also have "\<dots> \<le> sum_list (map (\<lambda>(k, v). 4 + 6 * length k + json_bound v) fs)"
    unfolding map_map
  proof (rule sum_list_bound)
    fix p assume p: "p \<in> set fs"
    obtain k v where kv: "p = (k, v)" by (cases p)
    have "length (canonicalJson v) \<le> json_bound v" using 3 p kv by (auto simp: list_all_iff)
    with length_json_string [of k] show "((\<lambda>p. Suc (length (?t p))) \<circ> (\<lambda>(k, v). (k, canonicalJson v))) p \<le> (\<lambda>(k, v). 4 + 6 * length k + json_bound v) p"
      by (simp add: kv)
  qed
  finally show ?case by simp
qed (use length_json_string length_int_text in \<open>auto simp: numeral_2_eq_2\<close>)

lemma bounded_value_small [code]:
  "bounded_value L v l =
     (if within L v \<and> json_nodes v \<le> jl_nodes L \<and> json_bound v \<le> jl_bytes L then Inr v
      else bindR (visit_value L l l 0 v) (\<lambda>(n, clean).
        if jl_bytes L < length (canonicalJson clean) then Inl (l @ jl_bytes_text L) else Inr clean))"
proof (cases "within L v \<and> json_nodes v \<le> jl_nodes L \<and> json_bound v \<le> jl_bytes L")
  case True
  with canonicalJson_bound [of L v] have "bounded_value L v l = Inr v"
    unfolding bounded_value_iff by auto
  with True show ?thesis by simp
next
  case False
  show ?thesis by (subst if_not_P [OF False]) (simp only: bounded_value_def)
qed

end
