(* ===== verification/Automation.thy ===== *)
theory Automation
  imports Json_Visitor
begin

text \<open>
  The automation primitives of \<open>packages/kernel/src/automation-primitives.ts\<close>: declarations of
  schedules and event matches, the next due time of a schedule, events with their replay cursors,
  the candidates for dispatch they give rise to, and the messages that control a dispatched agent.

  The hash \<open>sha256\<close> is an argument \<open>H\<close>.  Errors are their messages.  Quotients of times are
  exact: numerator and denominator are below \<open>2^53\<close>.
\<close>

section \<open>Limits and patterns\<close>

definition AUTOMATION_SCHEMA_VERSION :: int where "AUTOMATION_SCHEMA_VERSION = 1"
definition ODINN_AGENT_CONTROL_VERSION :: int where "ODINN_AGENT_CONTROL_VERSION = 1"
definition MAX_AUTOMATION_MATCH_CLAUSES :: nat where "MAX_AUTOMATION_MATCH_CLAUSES = 16"
definition MAX_AUTOMATION_SET_VALUES :: nat where "MAX_AUTOMATION_SET_VALUES = 16"
definition MAX_AUTOMATION_ATTRIBUTES :: nat where "MAX_AUTOMATION_ATTRIBUTES = 32"
definition MAX_AUTOMATION_INTERVAL_MS :: int where "MAX_AUTOMATION_INTERVAL_MS = 31536000000"
definition MIN_AUTOMATION_INTERVAL_MS :: int where "MIN_AUTOMATION_INTERVAL_MS = 1000"
definition MAX_AUTOMATION_UNIX_MS :: int where "MAX_AUTOMATION_UNIX_MS = 8640000000000000"
definition MAX_AUTOMATION_INPUT_BYTES :: nat where "MAX_AUTOMATION_INPUT_BYTES = 16384"
definition MAX_AUTOMATION_INPUT_NODES :: nat where "MAX_AUTOMATION_INPUT_NODES = 256"
definition MAX_ODINN_CONTROL_HISTORY :: nat where "MAX_ODINN_CONTROL_HISTORY = 16"

definition ascii_alnum :: "char \<Rightarrow> bool" where
  "ascii_alnum c \<longleftrightarrow> is_upper c \<or> is_lower c \<or> is_digit c"

definition TOKEN :: "string \<Rightarrow> bool" where
  "TOKEN = matches ascii_alnum (\<lambda>c. ascii_alnum c \<or> c \<in> set ''._-'') 63"

definition ACTION_REF :: "string \<Rightarrow> bool" where
  "ACTION_REF = matches ascii_alnum (\<lambda>c. ascii_alnum c \<or> c \<in> set ''._:/-'') 127"

definition lower_hex :: "char \<Rightarrow> bool" where
  "lower_hex c \<longleftrightarrow> is_digit c \<or> c \<in> set ''abcdef''"

definition sha256_hex :: "string \<Rightarrow> bool" where
  "sha256_hex s \<longleftrightarrow> length s = 64 \<and> list_all lower_hex s"

definition COMMON_KEYS :: "string list" where
  "COMMON_KEYS = [''schemaVersion'', ''id'', ''revision'', ''enabled'', ''actionRef'', ''kind'', ''declarationDigest'']"

definition CONTROL_COMMON_KEYS :: "string list" where
  "CONTROL_COMMON_KEYS = [''version'', ''kind'', ''id'', ''correlationId'', ''agentId'', ''issuedAtUnixMs'']"

definition CONTROL_KEYS :: "string \<Rightarrow> string list" where
  "CONTROL_KEYS kind = CONTROL_COMMON_KEYS @
     (if kind = ''dispatch'' then [''candidate'']
      else if kind = ''cancel'' then [''dispatchId'', ''reason'']
      else if kind = ''status'' then [''dispatchId'', ''state'']
      else [''dispatchId'', ''outcome'', ''resultRef''])"

section \<open>Reading values\<close>

definition automation_object :: "jsval \<Rightarrow> string \<Rightarrow> string + (string \<times> jsval) list" where
  "automation_object v label =
     (case v of
        JObj fs \<Rightarrow> if 64 < length fs then Inl (label @ '' has too many fields'') else Inr fs
      | _ \<Rightarrow> Inl (label @ '' must be an object''))"

definition automation_exact :: "(string \<times> jsval) list \<Rightarrow> string list \<Rightarrow> string \<Rightarrow> string + unit" where
  "automation_exact fs allowed label =
     (case List.find (\<lambda>f. fst f \<notin> set allowed) fs of
        None \<Rightarrow> Inr ()
      | Some f \<Rightarrow> Inl (label @ '' has unknown field: '' @ fst f))"

definition token :: "jsval \<Rightarrow> string \<Rightarrow> string + string" where
  "token v label =
     (if is_str v \<and> TOKEN (the_str v) then Inr (the_str v) else Inl (label @ '' must be a bounded identifier''))"

definition automation_action :: "jsval \<Rightarrow> string + string" where
  "automation_action v =
     (if is_str v \<and> ACTION_REF (the_str v) then Inr (the_str v) else Inl ''actionRef must be a bounded action identifier'')"

definition uint :: "jsval \<Rightarrow> string \<Rightarrow> string + int" where
  "uint v label =
     (case v of
        JInt n \<Rightarrow> if is_safe_int n \<and> 0 \<le> n then Inr n else Inl (label @ '' must be a non-negative safe integer'')
      | _ \<Rightarrow> Inl (label @ '' must be a non-negative safe integer''))"

definition unixMs :: "jsval \<Rightarrow> string \<Rightarrow> string + int" where
  "unixMs v label =
     bindR (uint v label) (\<lambda>n.
     if MAX_AUTOMATION_UNIX_MS < n then Inl (label @ '' exceeds the ECMAScript date range'') else Inr n)"

definition positive :: "jsval \<Rightarrow> string \<Rightarrow> string + int" where
  "positive v label =
     bindR (uint v label) (\<lambda>n. if n = 0 then Inl (label @ '' must be positive'') else Inr n)"

definition automation_limits :: json_limits where
  "automation_limits =
     \<lparr>jl_nodes = MAX_AUTOMATION_INPUT_NODES, jl_nodes_text = '' exceeds 256 JSON nodes'',
      jl_number_text = '' number must be a safe integer'',
      jl_array = MAX_AUTOMATION_INPUT_NODES, jl_array_text = '' array is too long'',
      jl_object_text = '' must be an object'', jl_fields = 64, jl_fields_text = '' has too many fields'',
      jl_bytes = MAX_AUTOMATION_INPUT_BYTES, jl_bytes_text = '' exceeds 16384 canonical JSON bytes''\<rparr>"

definition automation_json :: "jsval \<Rightarrow> string \<Rightarrow> string + jsval" where
  "automation_json = bounded_value automation_limits"

definition json_object :: "jsval \<Rightarrow> string \<Rightarrow> string + (string \<times> jsval) list" where
  "json_object v label = bindR (automation_json v label) (\<lambda>clean. automation_object clean label)"

section \<open>Declarations\<close>

datatype scalar = Sc_str string | Sc_int int | Sc_bool bool

datatype match_test = Eq scalar | Prefix string | In "scalar list"

type_synonym match_clause = "string \<times> match_test"

datatype schedule = At int | Interval int int

datatype trigger = On_schedule schedule | On_event string string "match_clause list"

record automation_declaration =
  de_id :: string
  de_revision :: int
  de_enabled :: bool
  de_actionRef :: string
  de_trigger :: trigger
  de_digest :: string

definition read_scalar :: "jsval \<Rightarrow> string \<Rightarrow> string + scalar" where
  "read_scalar v label =
     (case v of
        JStr s \<Rightarrow> if s = [] \<or> 256 < length s then Inl (label @ '' string must contain 1-256 UTF-8 bytes'') else Inr (Sc_str s)
      | JInt n \<Rightarrow> if is_safe_int n then Inr (Sc_int n)
          else Inl (label @ '' must be a bounded string, safe integer, or boolean'')
      | JBool b \<Rightarrow> Inr (Sc_bool b)
      | _ \<Rightarrow> Inl (label @ '' must be a bounded string, safe integer, or boolean''))"

fun scalarKey :: "scalar \<Rightarrow> string" where
  "scalarKey (Sc_str s) = ''string:'' @ s"
| "scalarKey (Sc_int n) = ''number:'' @ int_text n"
| "scalarKey (Sc_bool b) = ''boolean:'' @ (if b then ''true'' else ''false'')"

definition compareScalar :: "scalar \<Rightarrow> scalar \<Rightarrow> int" where
  "compareScalar l r = lex_cmp (scalarKey l) (scalarKey r)"

fun match_operator :: "match_test \<Rightarrow> string" where
  "match_operator (Eq _) = ''eq''"
| "match_operator (Prefix _) = ''prefix''"
| "match_operator (In _) = ''in''"

definition compareClause :: "match_clause \<Rightarrow> match_clause \<Rightarrow> int" where
  "compareClause l r =
     (let f = lex_cmp (fst l) (fst r) in
      if f \<noteq> 0 then f else lex_cmp (match_operator (snd l)) (match_operator (snd r)))"

fun scalar_json :: "scalar \<Rightarrow> jsval" where
  "scalar_json (Sc_str s) = JStr s"
| "scalar_json (Sc_int n) = JInt n"
| "scalar_json (Sc_bool b) = JBool b"

fun clause_json :: "match_clause \<Rightarrow> jsval" where
  "clause_json (f, Eq v) = JObj [(''field'', JStr f), (''operator'', JStr ''eq''), (''value'', scalar_json v)]"
| "clause_json (f, Prefix p) = JObj [(''field'', JStr f), (''operator'', JStr ''prefix''), (''value'', JStr p)]"
| "clause_json (f, In vs) = JObj [(''field'', JStr f), (''operator'', JStr ''in''), (''values'', JArr (map scalar_json vs))]"

fun trigger_fields :: "trigger \<Rightarrow> (string \<times> jsval) list" where
  "trigger_fields (On_schedule (At t)) =
     [(''kind'', JStr ''schedule''), (''schedule'', JObj [(''type'', JStr ''at''), (''atUnixMs'', JInt t)])]"
| "trigger_fields (On_schedule (Interval a e)) =
     [(''kind'', JStr ''schedule''), (''schedule'', JObj [(''type'', JStr ''interval''), (''anchorUnixMs'', JInt a), (''everyMs'', JInt e)])]"
| "trigger_fields (On_event source event match) =
     [(''kind'', JStr ''event''), (''source'', JStr source), (''event'', JStr event), (''match'', JArr (map clause_json match))]"

definition declaration_fields :: "automation_declaration \<Rightarrow> (string \<times> jsval) list" where
  "declaration_fields d =
     [(''schemaVersion'', JInt AUTOMATION_SCHEMA_VERSION), (''id'', JStr (de_id d)), (''revision'', JInt (de_revision d)),
      (''enabled'', JBool (de_enabled d)), (''actionRef'', JStr (de_actionRef d))] @ trigger_fields (de_trigger d)"

definition automation_digest :: "(string \<Rightarrow> string) \<Rightarrow> (string \<times> jsval) list \<Rightarrow> string" where
  "automation_digest H fs = H (canonicalJson (JObj fs))"

definition common :: "(string \<times> jsval) list \<Rightarrow> string + automation_declaration" where
  "common value =
     bindR (guardR (js_field value ''schemaVersion'' = JInt AUTOMATION_SCHEMA_VERSION)
       ''automation declaration has an unsupported schemaVersion'') (\<lambda>_.
     case js_field value ''enabled'' of
       JBool enabled \<Rightarrow>
         bindR (token (js_field value ''id'') ''automation declaration id'') (\<lambda>i.
         bindR (positive (js_field value ''revision'') ''automation declaration revision'') (\<lambda>revision.
         bindR (automation_action (js_field value ''actionRef'')) (\<lambda>ref.
         Inr \<lparr>de_id = i, de_revision = revision, de_enabled = enabled, de_actionRef = ref,
           de_trigger = On_schedule (At 0), de_digest = []\<rparr>)))
     | _ \<Rightarrow> Inl ''automation declaration enabled must be boolean'')"

definition finalize :: "(string \<Rightarrow> string) \<Rightarrow> (string \<times> jsval) list \<Rightarrow> automation_declaration \<Rightarrow> string + automation_declaration" where
  "finalize H value normalized =
     (let digest = automation_digest H (declaration_fields normalized); given = js_field value ''declarationDigest'' in
      if given \<noteq> JUndef \<and> given \<noteq> JStr digest then Inl ''automation declaration digest is invalid''
      else Inr (normalized\<lparr>de_digest := digest\<rparr>))"

definition clause_label :: "nat \<Rightarrow> string" where
  "clause_label index = ''event match clause '' @ nat_digits (Suc index)"

definition read_clause :: "nat \<times> jsval \<Rightarrow> string + match_clause" where
  "read_clause = (\<lambda>(index, entry).
     let label = clause_label index in
     bindR (automation_object entry label) (\<lambda>clause.
     bindR (token (js_field clause ''field'') (label @ '' field'')) (\<lambda>f.
     if js_field clause ''operator'' = JStr ''eq''
     then
       bindR (automation_exact clause [''field'', ''operator'', ''value''] label) (\<lambda>_.
       bindR (read_scalar (js_field clause ''value'') ''match value'') (\<lambda>v. Inr (f, Eq v)))
     else if js_field clause ''operator'' = JStr ''prefix''
     then
       bindR (automation_exact clause [''field'', ''operator'', ''value''] label) (\<lambda>_.
       bindR (read_scalar (js_field clause ''value'') ''prefix value'') (\<lambda>v.
       case v of Sc_str p \<Rightarrow> Inr (f, Prefix p) | _ \<Rightarrow> Inl ''prefix value must be a string''))
     else if js_field clause ''operator'' = JStr ''in''
     then
       bindR (automation_exact clause [''field'', ''operator'', ''values''] label) (\<lambda>_.
       case js_field clause ''values'' of
         JArr vs \<Rightarrow>
           if vs = [] \<or> MAX_AUTOMATION_SET_VALUES < length vs then Inl ''in operator requires 1-16 values''
           else bindR (mapR (\<lambda>v. read_scalar v ''match set value'') vs) (\<lambda>values.
             let sorted = sort_cmp compareScalar values in
             if distinct (map scalarKey sorted) then Inr (f, In sorted) else Inl ''in operator contains duplicate values'')
       | _ \<Rightarrow> Inl ''in operator requires 1-16 values'')
     else Inl ''event match operator must be eq, prefix, or in'')))"

definition read_schedule :: "(string \<times> jsval) list \<Rightarrow> string + automation_declaration" where
  "read_schedule value =
     bindR (automation_exact value (COMMON_KEYS @ [''schedule'']) ''schedule automation declaration'') (\<lambda>_.
     bindR (automation_object (js_field value ''schedule'') ''schedule'') (\<lambda>sch.
     if js_field sch ''type'' = JStr ''at''
     then
       bindR (automation_exact sch [''type'', ''atUnixMs''] ''at schedule'') (\<lambda>_.
       bindR (common value) (\<lambda>base.
       bindR (unixMs (js_field sch ''atUnixMs'') ''atUnixMs'') (\<lambda>t.
       Inr (base\<lparr>de_trigger := On_schedule (At t)\<rparr>))))
     else if js_field sch ''type'' = JStr ''interval''
     then
       bindR (automation_exact sch [''type'', ''anchorUnixMs'', ''everyMs''] ''interval schedule'') (\<lambda>_.
       bindR (uint (js_field sch ''everyMs'') ''everyMs'') (\<lambda>everyMs.
       if everyMs < MIN_AUTOMATION_INTERVAL_MS \<or> MAX_AUTOMATION_INTERVAL_MS < everyMs
       then Inl ''everyMs must be between 1000 and 31536000000''
       else
         bindR (common value) (\<lambda>base.
         bindR (unixMs (js_field sch ''anchorUnixMs'') ''anchorUnixMs'') (\<lambda>anchor.
         Inr (base\<lparr>de_trigger := On_schedule (Interval anchor everyMs)\<rparr>)))))
     else Inl ''schedule type must be at or interval''))"

definition clause_key :: "match_clause \<Rightarrow> string" where
  "clause_key c = fst c @ [CHR 10] @ match_operator (snd c)"

definition read_match :: "jsval \<Rightarrow> string + match_clause list" where
  "read_match v =
     (case v of
        JArr entries \<Rightarrow>
          if MAX_AUTOMATION_MATCH_CLAUSES < length entries then Inl ''event match must contain at most 16 clauses''
          else bindR (mapR read_clause (enumerate 0 entries)) (\<lambda>clauses.
            let match = sort_cmp compareClause clauses in
            if distinct (map clause_key match) then Inr match
            else Inl ''event match contains semantically duplicate clauses'')
      | _ \<Rightarrow> Inl ''event match must contain at most 16 clauses'')"

definition read_event_match :: "(string \<times> jsval) list \<Rightarrow> string + automation_declaration" where
  "read_event_match value =
     bindR (automation_exact value (COMMON_KEYS @ [''source'', ''event'', ''match'']) ''event automation declaration'') (\<lambda>_.
     bindR (read_match (js_field value ''match'')) (\<lambda>match.
     bindR (common value) (\<lambda>base.
     bindR (token (js_field value ''source'') ''event source'') (\<lambda>source.
     bindR (token (js_field value ''event'') ''event name'') (\<lambda>event.
     Inr (base\<lparr>de_trigger := On_event source event match\<rparr>))))))"

definition validateAutomationDeclaration :: "(string \<Rightarrow> string) \<Rightarrow> jsval \<Rightarrow> string + automation_declaration" where
  "validateAutomationDeclaration H input =
     bindR (json_object input ''automation declaration'') (\<lambda>value.
     bindR
       (if js_field value ''kind'' = JStr ''schedule'' then read_schedule value
        else if js_field value ''kind'' = JStr ''event'' then read_event_match value
        else Inl ''automation declaration kind must be schedule or event'')
       (finalize H value))"

section \<open>Due times and events\<close>

definition next_occurrence :: "schedule \<Rightarrow> int \<Rightarrow> string + int option" where
  "next_occurrence sch after =
     (case sch of
        At t \<Rightarrow> Inr (if after < t then Some t else None)
      | Interval anchor every \<Rightarrow>
          if after < anchor then Inr (Some anchor)
          else
            let intervals = (after - anchor) div every + 1; due = anchor + intervals * every in
            if \<not> is_safe_int due then Inl ''next schedule occurrence exceeds safe integer range''
            else if MAX_AUTOMATION_UNIX_MS < due then Inr None
            else Inr (Some due))"

definition nextAutomationDue :: "(string \<Rightarrow> string) \<Rightarrow> jsval \<Rightarrow> jsval \<Rightarrow> string + int option" where
  "nextAutomationDue H input afterUnixMs =
     bindR (validateAutomationDeclaration H input) (\<lambda>d.
     bindR (unixMs afterUnixMs ''afterUnixMs'') (\<lambda>after.
     case de_trigger d of
       On_schedule sch \<Rightarrow> if de_enabled d then next_occurrence sch after else Inr None
     | On_event _ _ _ \<Rightarrow> Inl ''next-due calculation requires a schedule declaration''))"

definition formatAutomationCursor :: "jsval \<Rightarrow> jsval \<Rightarrow> string + string" where
  "formatAutomationCursor source sequence =
     bindR (token source ''event source'') (\<lambda>s.
     bindR (uint sequence ''event sequence'') (\<lambda>n.
     Inr (''odinn-event-v1/'' @ s @ ''/'' @ int_text n)))"

record automation_event =
  ev_source :: string
  ev_event :: string
  ev_sequence :: int
  ev_cursor :: string
  ev_occurredAt :: int
  ev_attributes :: "(string \<times> scalar) list"

definition read_attribute :: "(string \<times> scalar) list \<Rightarrow> string \<times> jsval \<Rightarrow> string + (string \<times> scalar) list" where
  "read_attribute attrs = (\<lambda>(k, item).
     bindR (token (JStr k) ''event attribute name'') (\<lambda>name.
     if name = ''__proto__'' \<or> name = ''prototype'' \<or> name = ''constructor'' then Inl ''event attribute name is reserved''
     else bindR (read_scalar item (''event attribute '' @ k)) (\<lambda>v. Inr (jm_set name v attrs))))"

definition validateAutomationEvent :: "jsval \<Rightarrow> string + automation_event" where
  "validateAutomationEvent input =
     bindR (json_object input ''automation event'') (\<lambda>value.
     bindR (automation_exact value [''schemaVersion'', ''source'', ''event'', ''sequence'', ''cursor'', ''occurredAtUnixMs'', ''attributes'']
       ''automation event'') (\<lambda>_.
     bindR (guardR (js_field value ''schemaVersion'' = JInt AUTOMATION_SCHEMA_VERSION)
       ''automation event has an unsupported schemaVersion'') (\<lambda>_.
     bindR (token (js_field value ''source'') ''event source'') (\<lambda>source.
     bindR (uint (js_field value ''sequence'') ''event sequence'') (\<lambda>sequence.
     bindR (formatAutomationCursor (JStr source) (JInt sequence)) (\<lambda>cursor.
     bindR (guardR (js_field value ''cursor'' = JStr cursor) ''automation event cursor does not match source and sequence'') (\<lambda>_.
     bindR (automation_object (js_field value ''attributes'') ''automation event attributes'') (\<lambda>raw.
     bindR (guardR (length raw \<le> MAX_AUTOMATION_ATTRIBUTES) ''automation event allows at most 32 attributes'') (\<lambda>_.
     bindR (foldR read_attribute [] raw) (\<lambda>attributes.
     bindR (token (js_field value ''event'') ''event name'') (\<lambda>event.
     bindR (unixMs (js_field value ''occurredAtUnixMs'') ''occurredAtUnixMs'') (\<lambda>occurredAt.
     Inr \<lparr>ev_source = source, ev_event = event, ev_sequence = sequence, ev_cursor = cursor,
       ev_occurredAt = occurredAt, ev_attributes = attributes\<rparr>))))))))))))"

section \<open>Candidates\<close>

text \<open>The fields of a candidate; the replay fields are present for events only.\<close>

record candidate_fields =
  ca_declarationId :: string
  ca_revision :: int
  ca_digest :: string
  ca_actionRef :: string
  ca_event :: bool
  ca_occurrence :: int
  ca_replay :: "(string \<times> int \<times> string) option"

record candidate = candidate_fields +
  ca_candidateId :: string
  ca_idempotencyKey :: string

definition binding :: "'a candidate_fields_scheme \<Rightarrow> string" where
  "binding c = js_join [CHR 10]
     [int_text AUTOMATION_SCHEMA_VERSION, ca_declarationId c, int_text (ca_revision c), ca_digest c, ca_actionRef c,
      (if ca_event c then ''event'' else ''schedule''), int_text (ca_occurrence c),
      (case ca_replay c of None \<Rightarrow> [] | Some (cursor, n, s) \<Rightarrow> cursor),
      (case ca_replay c of None \<Rightarrow> [] | Some (cursor, n, s) \<Rightarrow> int_text n),
      (case ca_replay c of None \<Rightarrow> [] | Some (cursor, n, s) \<Rightarrow> s)]"

definition make_candidate :: "(string \<Rightarrow> string) \<Rightarrow> candidate_fields \<Rightarrow> candidate" where
  "make_candidate H c = candidate_fields.extend c
     \<lparr>ca_candidateId = ''candidate-'' @ H (binding c), ca_idempotencyKey = ''automation-'' @ H (binding c)\<rparr>"

definition is_occurrence :: "schedule \<Rightarrow> int \<Rightarrow> bool" where
  "is_occurrence sch t \<longleftrightarrow>
     (case sch of At u \<Rightarrow> u = t | Interval anchor every \<Rightarrow> anchor \<le> t \<and> (t - anchor) mod every = 0)"

definition createScheduleCandidate :: "(string \<Rightarrow> string) \<Rightarrow> jsval \<Rightarrow> jsval \<Rightarrow> string + candidate option" where
  "createScheduleCandidate H input occurrenceUnixMs =
     bindR (validateAutomationDeclaration H input) (\<lambda>d.
     bindR (unixMs occurrenceUnixMs ''occurrenceUnixMs'') (\<lambda>occurrence.
     case de_trigger d of
       On_event _ _ _ \<Rightarrow> Inl ''schedule candidate requires a schedule declaration''
     | On_schedule sch \<Rightarrow>
         if \<not> de_enabled d then Inr None
         else if \<not> is_occurrence sch occurrence then Inl ''occurrenceUnixMs is not an occurrence of this schedule''
         else Inr (Some (make_candidate H
           \<lparr>ca_declarationId = de_id d, ca_revision = de_revision d, ca_digest = de_digest d, ca_actionRef = de_actionRef d,
             ca_event = False, ca_occurrence = occurrence, ca_replay = None\<rparr>))))"


fun scalar_test :: "scalar option \<Rightarrow> match_test \<Rightarrow> bool" where
  "scalar_test a (Eq v) = (a = Some v)"
| "scalar_test a (Prefix p) = (case a of Some (Sc_str s) \<Rightarrow> starts_with s p | _ \<Rightarrow> False)"
| "scalar_test a (In vs) = (case a of Some v \<Rightarrow> v \<in> set vs | None \<Rightarrow> False)"

definition event_matches :: "(string \<times> scalar) list \<Rightarrow> match_clause list \<Rightarrow> bool" where
  "event_matches attrs = list_all (\<lambda>(f, t). scalar_test (jm_get attrs f) t)"

definition check_window :: "jsval \<Rightarrow> automation_event \<Rightarrow> string + unit" where
  "check_window window e =
     bindR (json_object window ''event replay window'') (\<lambda>bounds.
     bindR (automation_exact bounds [''source'', ''oldestAvailableSequence'', ''oldestAvailableCursor'', ''newestAvailableSequence'',
       ''newestAvailableCursor'', ''afterCursor''] ''event replay window'') (\<lambda>_.
     bindR (token (js_field bounds ''source'') ''event replay window source'') (\<lambda>source.
     bindR (uint (js_field bounds ''oldestAvailableSequence'') ''oldestAvailableSequence'') (\<lambda>oldest.
     bindR (uint (js_field bounds ''newestAvailableSequence'') ''newestAvailableSequence'') (\<lambda>newest.
     bindR (guardR (oldest \<le> newest) ''event replay window is invalid'') (\<lambda>_.
     bindR (formatAutomationCursor (JStr source) (JInt oldest)) (\<lambda>first.
     bindR (formatAutomationCursor (JStr source) (JInt newest)) (\<lambda>last.
     bindR (guardR (js_field bounds ''oldestAvailableCursor'' = JStr first \<and> js_field bounds ''newestAvailableCursor'' = JStr last)
       ''event replay window cursor does not bind source and sequence'') (\<lambda>_.
     bindR (guardR (source = ev_source e) ''event replay window source does not match event source'') (\<lambda>_.
     bindR (let after = js_field bounds ''afterCursor'' in
       if after = JUndef then Inr ()
       else if \<not> is_str after then Inl ''event replay afterCursor must be a string''
       else if ev_sequence e = 0 then Inl ''automation event is duplicate or out of order''
       else bindR (formatAutomationCursor (JStr source) (JInt (ev_sequence e - 1))) (\<lambda>expected.
         guardR (after = JStr expected) ''automation event is duplicate or out of order'')) (\<lambda>_.
     bindR (guardR (oldest \<le> ev_sequence e) ''automation event cursor is stale'') (\<lambda>_.
     guardR (ev_sequence e \<le> newest) ''automation event cursor is in the future''))))))))))))"

definition matchAutomationEvent :: "(string \<Rightarrow> string) \<Rightarrow> jsval \<Rightarrow> jsval \<Rightarrow> jsval \<Rightarrow> string + candidate option" where
  "matchAutomationEvent H declarationInput eventInput window =
     bindR (validateAutomationDeclaration H declarationInput) (\<lambda>d.
     bindR (validateAutomationEvent eventInput) (\<lambda>e.
     bindR (check_window window e) (\<lambda>_.
     case de_trigger d of
       On_schedule _ \<Rightarrow> Inl ''event matching requires an event declaration''
     | On_event source event match \<Rightarrow>
         if \<not> de_enabled d \<or> source \<noteq> ev_source e \<or> event \<noteq> ev_event e \<or> \<not> event_matches (ev_attributes e) match
         then Inr None
         else Inr (Some (make_candidate H
           \<lparr>ca_declarationId = de_id d, ca_revision = de_revision d, ca_digest = de_digest d, ca_actionRef = de_actionRef d,
             ca_event = True, ca_occurrence = ev_occurredAt e, ca_replay = Some (ev_cursor e, ev_sequence e, ev_source e)\<rparr>)))))"

definition candidate_json :: "candidate \<Rightarrow> jsval" where
  "candidate_json c = JObj ([(''schemaVersion'', JInt AUTOMATION_SCHEMA_VERSION), (''candidateId'', JStr (ca_candidateId c)),
     (''declarationId'', JStr (ca_declarationId c)), (''declarationRevision'', JInt (ca_revision c)),
     (''declarationDigest'', JStr (ca_digest c)), (''actionRef'', JStr (ca_actionRef c)),
     (''trigger'', JStr (if ca_event c then ''event'' else ''schedule'')), (''occurrenceUnixMs'', JInt (ca_occurrence c))] @
     (case ca_replay c of
        None \<Rightarrow> []
      | Some (cursor, n, s) \<Rightarrow> [(''cursor'', JStr cursor), (''sequence'', JInt n), (''eventSource'', JStr s)]) @
     [(''idempotencyKey'', JStr (ca_idempotencyKey c)), (''authorized'', JBool False), (''requiresAuditedDispatch'', JBool True)])"

definition read_replay :: "(string \<times> jsval) list \<Rightarrow> bool \<Rightarrow> string + (string \<times> int \<times> string) option" where
  "read_replay value event =
     (let cursor = js_field value ''cursor''; sequence = js_field value ''sequence''; source = js_field value ''eventSource'' in
      if \<not> event then
        (if cursor \<noteq> JUndef \<or> sequence \<noteq> JUndef \<or> source \<noteq> JUndef then Inl ''schedule candidate cannot contain event replay fields''
         else Inr None)
      else if \<not> is_str cursor \<or> sequence = JUndef \<or> \<not> is_str source then Inl ''event candidate requires source, cursor, and sequence''
      else
        bindR (uint sequence ''candidate sequence'') (\<lambda>n.
        bindR (token source ''candidate eventSource'') (\<lambda>s.
        bindR (formatAutomationCursor (JStr s) (JInt n)) (\<lambda>expected.
        if cursor \<noteq> JStr expected then Inl ''event candidate cursor does not bind its source and sequence''
        else Inr (Some (expected, n, s))))))"

definition validateAutomationCandidate :: "(string \<Rightarrow> string) \<Rightarrow> jsval \<Rightarrow> string + candidate" where
  "validateAutomationCandidate H input =
     bindR (automation_object input ''automation candidate'') (\<lambda>value.
     bindR (automation_exact value [''schemaVersion'', ''candidateId'', ''declarationId'', ''declarationRevision'', ''declarationDigest'',
       ''actionRef'', ''trigger'', ''occurrenceUnixMs'', ''cursor'', ''sequence'', ''eventSource'', ''idempotencyKey'', ''authorized'',
       ''requiresAuditedDispatch''] ''automation candidate'') (\<lambda>_.
     bindR (guardR (js_field value ''schemaVersion'' = JInt AUTOMATION_SCHEMA_VERSION \<and> js_field value ''authorized'' = JBool False \<and>
       js_field value ''requiresAuditedDispatch'' = JBool True) ''automation candidate does not preserve the audited dispatch boundary'') (\<lambda>_.
     bindR (guardR (js_field value ''trigger'' \<in> {JStr ''schedule'', JStr ''event''}) ''automation candidate has invalid trigger'') (\<lambda>_.
     let event = (js_field value ''trigger'' = JStr ''event''); digest = js_field value ''declarationDigest'' in
     bindR (token (js_field value ''declarationId'') ''candidate declarationId'') (\<lambda>i.
     bindR (positive (js_field value ''declarationRevision'') ''candidate declarationRevision'') (\<lambda>revision.
     bindR (guardR (is_str digest \<and> sha256_hex (the_str digest)) ''candidate declarationDigest is invalid'') (\<lambda>_.
     bindR (automation_action (js_field value ''actionRef'')) (\<lambda>ref.
     bindR (unixMs (js_field value ''occurrenceUnixMs'') ''candidate occurrenceUnixMs'') (\<lambda>occurrence.
     bindR (read_replay value event) (\<lambda>replay.
     let rebuilt = make_candidate H \<lparr>ca_declarationId = i, ca_revision = revision, ca_digest = the_str digest, ca_actionRef = ref,
       ca_event = event, ca_occurrence = occurrence, ca_replay = replay\<rparr> in
     if js_field value ''candidateId'' \<noteq> JStr (ca_candidateId rebuilt) \<or> js_field value ''idempotencyKey'' \<noteq> JStr (ca_idempotencyKey rebuilt)
     then Inl ''automation candidate integrity binding is invalid''
     else Inr rebuilt))))))))))"

section \<open>Agent control\<close>

datatype control_body =
    Ct_dispatch candidate
  | Ct_cancel string string
  | Ct_status string string
  | Ct_result string string "string option"

record control =
  ct_id :: string
  ct_correlationId :: string
  ct_agentId :: string
  ct_issuedAt :: int
  ct_body :: control_body

definition CONTROL_REASONS :: "string list" where
  "CONTROL_REASONS = [''operator-request'', ''superseded'', ''shutdown'', ''policy'']"

definition CONTROL_STATES :: "string list" where
  "CONTROL_STATES = [''queued'', ''awaiting-approval'', ''running'', ''cancelling'']"

definition CONTROL_OUTCOMES :: "string list" where
  "CONTROL_OUTCOMES = [''completed'', ''failed'', ''cancelled'', ''needs-review'']"

definition one_of :: "jsval \<Rightarrow> string list \<Rightarrow> string \<Rightarrow> string + string" where
  "one_of v allowed error = (if is_str v \<and> the_str v \<in> set allowed then Inr (the_str v) else Inl error)"

definition read_control_body :: "(string \<Rightarrow> string) \<Rightarrow> (string \<times> jsval) list \<Rightarrow> string \<Rightarrow> string + control_body" where
  "read_control_body H value kind =
     (if kind = ''dispatch'' then bindR (validateAutomationCandidate H (js_field value ''candidate'')) (\<lambda>c. Inr (Ct_dispatch c))
      else
        bindR (token (js_field value ''dispatchId'') ''control dispatchId'') (\<lambda>d.
        if kind = ''cancel''
        then bindR (one_of (js_field value ''reason'') CONTROL_REASONS ''control cancellation reason is invalid'') (\<lambda>r. Inr (Ct_cancel d r))
        else if kind = ''status''
        then bindR (one_of (js_field value ''state'') CONTROL_STATES ''control status state is invalid'') (\<lambda>s. Inr (Ct_status d s))
        else
          bindR (one_of (js_field value ''outcome'') CONTROL_OUTCOMES ''control result outcome is invalid'') (\<lambda>out.
          if js_field value ''resultRef'' = JUndef then Inr (Ct_result d out None)
          else bindR (automation_action (js_field value ''resultRef'')) (\<lambda>ref. Inr (Ct_result d out (Some ref))))))"

definition validateOdinnAgentControlEnvelope :: "(string \<Rightarrow> string) \<Rightarrow> jsval \<Rightarrow> string + control" where
  "validateOdinnAgentControlEnvelope H input =
     bindR (json_object input ''Odinn agent control envelope'') (\<lambda>value.
     bindR (guardR (js_field value ''version'' = JInt ODINN_AGENT_CONTROL_VERSION)
       ''Odinn agent control envelope has an unsupported version'') (\<lambda>_.
     bindR (one_of (js_field value ''kind'') [''dispatch'', ''cancel'', ''status'', ''result'']
       ''Odinn agent control envelope has an unsupported kind'') (\<lambda>kind.
     bindR (automation_exact value (CONTROL_KEYS kind) ''Odinn agent control envelope'') (\<lambda>_.
     bindR (token (js_field value ''id'') ''control message id'') (\<lambda>i.
     bindR (token (js_field value ''correlationId'') ''control correlationId'') (\<lambda>correlation.
     bindR (token (js_field value ''agentId'') ''control agentId'') (\<lambda>agent.
     bindR (unixMs (js_field value ''issuedAtUnixMs'') ''control issuedAtUnixMs'') (\<lambda>issued.
     bindR (read_control_body H value kind) (\<lambda>body.
     Inr \<lparr>ct_id = i, ct_correlationId = correlation, ct_agentId = agent, ct_issuedAt = issued, ct_body = body\<rparr>)))))))))"

definition control_rank :: "string \<Rightarrow> nat" where
  "control_rank s = (if s = ''queued'' then 0 else if s = ''awaiting-approval'' then 1 else if s = ''running'' then 2 else 3)"

fun dispatch_of :: "control \<Rightarrow> string" where
  "dispatch_of c = (case ct_body c of
     Ct_dispatch _ \<Rightarrow> ct_id c | Ct_cancel d _ \<Rightarrow> d | Ct_status d _ \<Rightarrow> d | Ct_result d _ _ \<Rightarrow> d)"

fun body_step :: "control_body \<Rightarrow> control_body \<Rightarrow> string + unit" where
  "body_step (Ct_cancel _ _) (Ct_status _ s) = guardR (s = ''cancelling'')
     ''control cancellation must progress to cancelling or a non-completed result''"
| "body_step (Ct_cancel _ _) (Ct_result _ out _) = guardR (out \<noteq> ''completed'')
     ''control cancellation must progress to cancelling or a non-completed result''"
| "body_step (Ct_cancel _ _) _ = Inl ''control cancellation must progress to cancelling or a non-completed result''"
| "body_step (Ct_status _ p) (Ct_status _ s) = guardR (control_rank p < control_rank s)
     ''control status transition is duplicate or regressive''"
| "body_step (Ct_status _ p) (Ct_cancel _ _) = guardR (p \<noteq> ''cancelling'') ''control cancellation is duplicate''"
| "body_step (Ct_status _ p) (Ct_result _ out _) = guardR (\<not> (p = ''cancelling'' \<and> out = ''completed''))
     ''cancelling control cannot complete successfully''"
| "body_step (Ct_dispatch _) _ = Inr ()"
| "body_step _ _ = Inl ''control transition is not legal''"

definition is_result :: "control_body \<Rightarrow> bool" where
  "is_result b \<longleftrightarrow> (case b of Ct_result _ _ _ \<Rightarrow> True | _ \<Rightarrow> False)"

definition is_dispatch :: "control_body \<Rightarrow> bool" where
  "is_dispatch b \<longleftrightarrow> (case b of Ct_dispatch _ \<Rightarrow> True | _ \<Rightarrow> False)"

definition validateControlPair :: "control \<Rightarrow> control \<Rightarrow> string + control" where
  "validateControlPair previous next =
     bindR (guardR (\<not> is_result (ct_body previous)) ''control transition cannot follow a terminal result'') (\<lambda>_.
     bindR (guardR (\<not> is_dispatch (ct_body next)) ''control transition cannot replace an existing dispatch'') (\<lambda>_.
     bindR (guardR (dispatch_of next = dispatch_of previous) ''control transition dispatchId does not match'') (\<lambda>_.
     bindR (guardR (ct_agentId next = ct_agentId previous) ''control transition agentId does not match'') (\<lambda>_.
     bindR (guardR (ct_correlationId next = ct_correlationId previous) ''control transition correlationId does not match'') (\<lambda>_.
     bindR (guardR (ct_issuedAt previous \<le> ct_issuedAt next) ''control transition timestamp regresses'') (\<lambda>_.
     bindR (body_step (ct_body previous) (ct_body next)) (\<lambda>_.
     Inr next)))))))"

fun check_history :: "string list \<Rightarrow> control \<Rightarrow> control list \<Rightarrow> string + (string list \<times> control)" where
  "check_history ids previous [] = Inr (ids, previous)"
| "check_history ids previous (m # ms) =
     bindR (guardR (ct_id m \<notin> set ids) ''control history contains a reused message id'') (\<lambda>_.
     bindR (validateControlPair previous m) (\<lambda>_.
     check_history (ids @ [ct_id m]) m ms))"

definition next_control :: "control list \<Rightarrow> control \<Rightarrow> string + control" where
  "next_control history next =
     (case history of
        [] \<Rightarrow> bindR (guardR (is_dispatch (ct_body next)) ''control transition references an unknown dispatch'') (\<lambda>_. Inr next)
      | h # hs \<Rightarrow>
          bindR (guardR (is_dispatch (ct_body h)) ''control history must begin with dispatch'') (\<lambda>_.
          bindR (check_history [ct_id h] h hs) (\<lambda>(ids, last).
          bindR (guardR (ct_id next \<notin> set ids) ''control transition message id must be unique across retained history'') (\<lambda>_.
          validateControlPair last next))))"

definition validateOdinnAgentControlTransition :: "(string \<Rightarrow> string) \<Rightarrow> jsval \<Rightarrow> jsval \<Rightarrow> string + control" where
  "validateOdinnAgentControlTransition H historyInput nextInput =
     bindR (guardR (case historyInput of JArr hs \<Rightarrow> length hs \<le> MAX_ODINN_CONTROL_HISTORY | _ \<Rightarrow> False)
       ''control history must be an array of at most 16 messages'') (\<lambda>_.
     bindR (automation_json historyInput ''control history'') (\<lambda>normalized.
     case normalized of
       JArr hs \<Rightarrow>
         bindR (mapR (validateOdinnAgentControlEnvelope H) hs) (\<lambda>history.
         bindR (validateOdinnAgentControlEnvelope H nextInput) (\<lambda>next.
         next_control history next))
     | _ \<Rightarrow> Inl ''control history must be an array''))"

end
