(* ===== verification/Automation_Laws.thy ===== *)
theory Automation_Laws
  imports Automation Iso_Time
begin

text \<open>
  What the automation primitives guarantee: due times are the least occurrences, candidates bind all
  their fields and validate again, events are replayed in order, and the control messages of a
  dispatch progress to one result.
\<close>

section \<open>Texts\<close>

lemma digit_code: "(of_char (char_of (n :: nat) :: char) :: int) = int (n mod 256)"
proof -
  have "(of_char (char_of n :: char) :: int) = int (of_char (char_of n :: char) :: nat)" by (rule of_nat_of_char [symmetric])
  also have "(of_char (char_of n :: char) :: nat) = n mod 256" by (rule of_char_of)
  finally show ?thesis .
qed

lemma nat_digits_digits: "list_all is_digit (nat_digits n)"
proof (induction n rule: nat_digits.induct)
  case (1 n)
  have "is_digit (char_of (48 + k))" if "k < 10" for k :: nat
    using that by (simp add: is_digit_def Let_def digit_code)
  with 1 show ?case by (subst nat_digits.simps) auto
qed

lemma digits_value_nat_digits: "digits_value (nat_digits n) = int n"
proof (induction n rule: nat_digits.induct)
  case (1 n)
  have "digit_of (char_of (48 + k)) = int k" if "k < 10" for k :: nat
    using that by (simp add: digit_of_def digit_code)
  moreover have "digits_value [c] = digit_of c" for c using digits_value_snoc [of "[]" c] by (simp add: digits_value_def)
  ultimately show ?case using 1 by (subst nat_digits.simps) (auto simp: digits_value_snoc zdiv_int zmod_int)
qed

lemma int_text_inject: "0 \<le> m \<Longrightarrow> 0 \<le> n \<Longrightarrow> int_text m = int_text n \<longleftrightarrow> m = n"
  unfolding int_text_def by (metis digits_value_nat_digits int_nat_eq not_less)

definition one_line :: "string \<Rightarrow> bool" where
  "one_line s \<longleftrightarrow> CHR 10 \<notin> set s"

lemma digits_line: "list_all is_digit s \<Longrightarrow> one_line s"
  by (auto simp: one_line_def list_all_iff is_digit_def Let_def)

lemma int_text_line: "0 \<le> n \<Longrightarrow> one_line (int_text n)"
  by (simp add: int_text_def digits_line nat_digits_digits)

lemma matches_chars: "matches f r n s \<Longrightarrow> c \<in> set s \<Longrightarrow> f c \<or> r c"
  by (cases s) (auto simp: matches_def list_all_iff)

lemma newline_class: "\<not> is_upper (CHR 10)" "\<not> is_lower (CHR 10)" "\<not> is_digit (CHR 10)" "\<not> ascii_alnum (CHR 10)"
  by (simp_all add: is_upper_def is_lower_def is_digit_def ascii_alnum_def)

lemma token_line: "TOKEN s \<Longrightarrow> one_line s"
  unfolding one_line_def TOKEN_def by (rule notI, drule (1) matches_chars) (simp add: newline_class)

lemma action_line: "ACTION_REF s \<Longrightarrow> one_line s"
  unfolding one_line_def ACTION_REF_def by (rule notI, drule (1) matches_chars) (simp add: newline_class)

lemma sha_line: "sha256_hex s \<Longrightarrow> one_line s"
  by (auto simp: sha256_hex_def one_line_def list_all_iff lower_hex_def newline_class)

lemma split_join_lines:
  "xs \<noteq> [] \<Longrightarrow> list_all one_line xs \<Longrightarrow> split_at (\<lambda>c. c = CHR 10) (js_join [CHR 10] xs) = xs"
proof (induction xs)
  case (Cons x xs)
  have x: "split_at (\<lambda>c. c = CHR 10) x = [x]"
    using Cons.prems(2) by (intro split_at_none) (auto simp: one_line_def)
  show ?case
  proof (cases "xs = []")
    case False
    with Cons x show ?thesis by (simp add: js_join_Cons split_at_append)
  qed (simp add: x)
qed simp

lemma join_lines_inject:
  "xs \<noteq> [] \<Longrightarrow> ys \<noteq> [] \<Longrightarrow> list_all one_line xs \<Longrightarrow> list_all one_line ys \<Longrightarrow>
     js_join [CHR 10] xs = js_join [CHR 10] ys \<Longrightarrow> xs = ys"
  by (metis split_join_lines)

section \<open>Accepted values\<close>

lemma read_iffs:
  "token v l = Inr s \<longleftrightarrow> v = JStr s \<and> TOKEN s"
  "automation_action v = Inr s \<longleftrightarrow> v = JStr s \<and> ACTION_REF s"
  "uint v l = Inr n \<longleftrightarrow> v = JInt n \<and> is_safe_int n \<and> 0 \<le> n"
  "unixMs v l = Inr n \<longleftrightarrow> v = JInt n \<and> 0 \<le> n \<and> n \<le> MAX_AUTOMATION_UNIX_MS"
  "positive v l = Inr n \<longleftrightarrow> v = JInt n \<and> is_safe_int n \<and> 0 < n"
proof -
  show "token v l = Inr s \<longleftrightarrow> v = JStr s \<and> TOKEN s" by (cases v) (auto simp: token_def)
  show "automation_action v = Inr s \<longleftrightarrow> v = JStr s \<and> ACTION_REF s" by (cases v) (auto simp: automation_action_def)
  have safe: "is_safe_int n" if "0 \<le> n" "n \<le> MAX_AUTOMATION_UNIX_MS" for n
    using that by (simp add: is_safe_int_def MAX_SAFE_INTEGER_def MAX_AUTOMATION_UNIX_MS_def)
  show u: "uint v l = Inr n \<longleftrightarrow> v = JInt n \<and> is_safe_int n \<and> 0 \<le> n" for n by (cases v) (auto simp: uint_def)
  show "unixMs v l = Inr n \<longleftrightarrow> v = JInt n \<and> 0 \<le> n \<and> n \<le> MAX_AUTOMATION_UNIX_MS"
    using safe [of n] by (cases v) (auto simp: unixMs_def uint_def split: if_splits)
  show "positive v l = Inr n \<longleftrightarrow> v = JInt n \<and> is_safe_int n \<and> 0 < n"
    by (cases v) (auto simp: positive_def uint_def)
qed

definition cursor_text :: "string \<Rightarrow> int \<Rightarrow> string" where
  "cursor_text s n = ''odinn-event-v1/'' @ s @ ''/'' @ int_text n"

lemma cursor_iff:
  "formatAutomationCursor (JStr s) (JInt n) = Inr c \<longleftrightarrow> TOKEN s \<and> is_safe_int n \<and> 0 \<le> n \<and> c = cursor_text s n"
  by (auto simp: formatAutomationCursor_def bindR_Inr_iff read_iffs cursor_text_def)

lemma cursor_inject: "0 \<le> m \<Longrightarrow> 0 \<le> n \<Longrightarrow> cursor_text s m = cursor_text s n \<longleftrightarrow> m = n"
  by (simp add: cursor_text_def int_text_inject)

lemma cursor_line: "TOKEN s \<Longrightarrow> 0 \<le> n \<Longrightarrow> one_line (cursor_text s n)"
  using token_line [of s] int_text_line [of n] by (simp add: cursor_text_def one_line_def)

definition schedule_ok :: "schedule \<Rightarrow> bool" where
  "schedule_ok sch \<longleftrightarrow> (case sch of
     At t \<Rightarrow> 0 \<le> t \<and> t \<le> MAX_AUTOMATION_UNIX_MS
   | Interval a e \<Rightarrow> 0 \<le> a \<and> a \<le> MAX_AUTOMATION_UNIX_MS \<and> MIN_AUTOMATION_INTERVAL_MS \<le> e \<and> e \<le> MAX_AUTOMATION_INTERVAL_MS)"

definition trigger_ok :: "trigger \<Rightarrow> bool" where
  "trigger_ok t \<longleftrightarrow> (case t of On_schedule sch \<Rightarrow> schedule_ok sch | On_event s e m \<Rightarrow> TOKEN s \<and> TOKEN e)"

definition base_ok :: "automation_declaration \<Rightarrow> bool" where
  "base_ok d \<longleftrightarrow> TOKEN (de_id d) \<and> is_safe_int (de_revision d) \<and> 0 < de_revision d \<and> ACTION_REF (de_actionRef d)"

lemma common_ok: "common value = Inr d \<Longrightarrow> base_ok d"
  by (auto simp: common_def base_ok_def bindR_Inr_iff read_iffs split: jsval.splits)

lemma read_schedule_ok: "read_schedule value = Inr d \<Longrightarrow> base_ok d \<and> trigger_ok (de_trigger d)"
  by (auto simp: read_schedule_def bindR_Inr_iff trigger_ok_def schedule_ok_def read_iffs base_ok_def
      split: if_splits dest!: common_ok)

lemma read_event_ok: "read_event_match value = Inr d \<Longrightarrow> base_ok d \<and> trigger_ok (de_trigger d)"
  by (auto simp: read_event_match_def bindR_Inr_iff trigger_ok_def read_iffs base_ok_def dest!: common_ok)

lemma finalize_Inr:
  "finalize H value d = Inr d' \<Longrightarrow> d' = d\<lparr>de_digest := automation_digest H (declaration_fields d)\<rparr>"
  by (auto simp: finalize_def Let_def split: if_splits)

lemma declaration_ok:
  assumes "validateAutomationDeclaration H input = Inr d"
  shows "base_ok d" and "trigger_ok (de_trigger d)" and "\<exists>x. de_digest d = H x"
proof -
  from assms obtain w d0 where "read_schedule w = Inr d0 \<or> read_event_match w = Inr d0"
    and f: "finalize H w d0 = Inr d"
    by (auto simp: validateAutomationDeclaration_def bindR_Inr_iff split: if_splits)
  with read_schedule_ok read_event_ok have "base_ok d0" "trigger_ok (de_trigger d0)" by blast+
  with finalize_Inr [OF f] show "base_ok d" "trigger_ok (de_trigger d)" "\<exists>x. de_digest d = H x"
    by (auto simp: base_ok_def automation_digest_def)
qed

section \<open>Occurrences\<close>

lemma next_after:
  fixes a e n :: int
  assumes "0 < e" and "a \<le> n"
  defines "due \<equiv> a + ((n - a) div e + 1) * e"
  shows "n < due" "due \<le> n + e" "(due - a) mod e = 0" "\<And>u. n < u \<Longrightarrow> u < due \<Longrightarrow> (u - a) mod e \<noteq> 0"
proof -
  define q r where "q = (n - a) div e" and "r = (n - a) mod e"
  have nr: "n = a + q * e + r" "0 \<le> r" "r < e"
    using assms(1) div_mult_mod_eq [of "n - a" e] by (simp_all add: q_def r_def algebra_simps)
  have due: "due = a + q * e + e" by (simp add: due_def q_def algebra_simps)
  show "n < due" "due \<le> n + e" using nr due by linarith+
  have "due - a = (q + 1) * e" by (simp add: due algebra_simps)
  then show "(due - a) mod e = 0" by simp
  fix u assume u: "n < u" "u < due"
  show "(u - a) mod e \<noteq> 0"
  proof
    assume "(u - a) mod e = 0"
    then obtain k where k: "u - a = e * k" by auto
    have "a + e * q \<le> n" "due = a + e * (q + 1)" "u = a + e * k" using nr due k by (simp_all add: algebra_simps)
    then have "e * q < e * k" "e * k < e * (q + 1)" using u by linarith+
    then have "q < k" "k < q + 1" using assms(1) by (metis mult_less_cancel_left_pos)+
    then show False by simp
  qed
qed

lemma next_occurrence_least:
  assumes s: "schedule_ok sch" and n: "0 \<le> n" "n \<le> MAX_AUTOMATION_UNIX_MS"
  shows "\<exists>due. next_occurrence sch n = Inr due \<and>
     (case due of
        None \<Rightarrow> \<forall>t. n < t \<and> t \<le> MAX_AUTOMATION_UNIX_MS \<longrightarrow> \<not> is_occurrence sch t
      | Some t \<Rightarrow> n < t \<and> t \<le> MAX_AUTOMATION_UNIX_MS \<and> is_occurrence sch t \<and>
          (\<forall>u. n < u \<and> u < t \<longrightarrow> \<not> is_occurrence sch u))"
proof (cases sch)
  case (Interval a e)
  with s have ok: "0 \<le> a" "a \<le> MAX_AUTOMATION_UNIX_MS" "1000 \<le> e" "e \<le> 31536000000"
    by (simp_all add: schedule_ok_def MIN_AUTOMATION_INTERVAL_MS_def MAX_AUTOMATION_INTERVAL_MS_def)
  show ?thesis
  proof (cases "n < a")
    case True
    with ok Interval show ?thesis by (simp add: next_occurrence_def is_occurrence_def)
  next
    case False
    define due where "due = a + ((n - a) div e + 1) * e"
    note d = next_after [of e a n, folded due_def]
    from False ok have "n < due" "due \<le> n + e" "(due - a) mod e = 0" and u: "\<And>u. n < u \<Longrightarrow> u < due \<Longrightarrow> (u - a) mod e \<noteq> 0"
      using d by auto
    moreover from this n ok have "is_safe_int due"
      by (simp add: is_safe_int_def MAX_SAFE_INTEGER_def MAX_AUTOMATION_UNIX_MS_def)
    moreover have "next_occurrence sch n = (if \<not> is_safe_int due then Inl ''next schedule occurrence exceeds safe integer range''
        else if MAX_AUTOMATION_UNIX_MS < due then Inr None else Inr (Some due))"
      using False Interval by (simp add: next_occurrence_def due_def Let_def)
    ultimately show ?thesis
      using False Interval u by (cases "MAX_AUTOMATION_UNIX_MS < due") (auto simp: is_occurrence_def)
  qed
qed (use s in \<open>auto simp: next_occurrence_def is_occurrence_def schedule_ok_def\<close>)

section \<open>Candidates\<close>

definition replay_ok :: "bool \<Rightarrow> (string \<times> int \<times> string) option \<Rightarrow> bool" where
  "replay_ok event r \<longleftrightarrow> (case r of
     None \<Rightarrow> \<not> event
   | Some (cursor, n, s) \<Rightarrow> event \<and> is_safe_int n \<and> 0 \<le> n \<and> TOKEN s \<and> cursor = cursor_text s n)"

definition fields_ok :: "'a candidate_fields_scheme \<Rightarrow> bool" where
  "fields_ok c \<longleftrightarrow> TOKEN (ca_declarationId c) \<and> is_safe_int (ca_revision c) \<and> 0 < ca_revision c \<and> sha256_hex (ca_digest c) \<and>
     ACTION_REF (ca_actionRef c) \<and> 0 \<le> ca_occurrence c \<and> ca_occurrence c \<le> MAX_AUTOMATION_UNIX_MS \<and>
     replay_ok (ca_event c) (ca_replay c)"

definition bound :: "(string \<Rightarrow> string) \<Rightarrow> candidate \<Rightarrow> bool" where
  "bound H c \<longleftrightarrow> ca_candidateId c = ''candidate-'' @ H (binding c) \<and> ca_idempotencyKey c = ''automation-'' @ H (binding c)"

lemma make_candidate_simps [simp]:
  "ca_declarationId (make_candidate H c) = ca_declarationId c" "ca_revision (make_candidate H c) = ca_revision c"
  "ca_digest (make_candidate H c) = ca_digest c" "ca_actionRef (make_candidate H c) = ca_actionRef c"
  "ca_event (make_candidate H c) = ca_event c" "ca_occurrence (make_candidate H c) = ca_occurrence c"
  "ca_replay (make_candidate H c) = ca_replay c"
  by (simp_all add: make_candidate_def candidate_fields.defs)

lemma make_candidate_ok: "fields_ok (make_candidate H c) = fields_ok c" "bound H (make_candidate H c)"
proof -
  have "binding (make_candidate H c) = binding c" by (simp add: binding_def)
  then show "bound H (make_candidate H c)" by (simp add: bound_def make_candidate_def candidate_fields.defs)
qed (simp add: fields_ok_def)

lemma rebuild: "bound H c \<Longrightarrow> make_candidate H (candidate_fields.truncate c) = c"
proof -
  assume "bound H c"
  moreover have "binding (candidate_fields.truncate c) = binding c" by (simp add: binding_def candidate_fields.defs)
  ultimately show ?thesis by (cases c) (simp add: make_candidate_def candidate_fields.defs bound_def)
qed

lemma replay_ok_read: "read_replay fs event = Inr r \<Longrightarrow> replay_ok event r"
  by (auto simp: read_replay_def Let_def replay_ok_def bindR_Inr_iff read_iffs cursor_iff split: if_splits)

lemma validated_candidate: "validateAutomationCandidate H v = Inr c \<Longrightarrow> fields_ok c \<and> bound H c"
  unfolding validateAutomationCandidate_def Let_def bindR_Inr_iff guardR_Inr_iff read_iffs
  by (auto simp: make_candidate_ok split: if_splits) (auto simp: fields_ok_def dest: replay_ok_read)

lemma binding_inject:
  assumes c: "fields_ok c" and d: "fields_ok d" and eq: "binding c = binding d"
  shows "candidate_fields.truncate c = candidate_fields.truncate d"
proof -
  let ?l = "\<lambda>c. [int_text AUTOMATION_SCHEMA_VERSION, ca_declarationId c, int_text (ca_revision c), ca_digest c, ca_actionRef c,
      (if ca_event c then ''event'' else ''schedule''), int_text (ca_occurrence c),
      (case ca_replay c of None \<Rightarrow> [] | Some (cursor, n, s) \<Rightarrow> cursor),
      (case ca_replay c of None \<Rightarrow> [] | Some (cursor, n, s) \<Rightarrow> int_text n),
      (case ca_replay c of None \<Rightarrow> [] | Some (cursor, n, s) \<Rightarrow> s)]"
  have lines: "list_all one_line (?l c)" if "fields_ok c" for c :: "'z candidate_fields_scheme"
    using that by (auto simp: fields_ok_def replay_ok_def token_line action_line sha_line int_text_line cursor_line
        AUTOMATION_SCHEMA_VERSION_def one_line_def [of "[]"] one_line_def [of "''event''"] one_line_def [of "''schedule''"]
        split: option.splits)
  have "?l c = ?l d"
    using eq by (intro join_lines_inject lines [OF c] lines [OF d]) (simp_all add: binding_def)
  then have eqs: "ca_declarationId c = ca_declarationId d" "int_text (ca_revision c) = int_text (ca_revision d)"
    "ca_digest c = ca_digest d" "ca_actionRef c = ca_actionRef d" "int_text (ca_occurrence c) = int_text (ca_occurrence d)"
    and event: "(if ca_event c then ''event'' else ''schedule'') = (if ca_event d then ''event'' else ''schedule'')"
    and n: "(case ca_replay c of None \<Rightarrow> [] | Some (cursor, n, s) \<Rightarrow> int_text n) = (case ca_replay d of None \<Rightarrow> [] | Some (cursor, n, s) \<Rightarrow> int_text n)"
    and s: "(case ca_replay c of None \<Rightarrow> [] | Some (cursor, n, s) \<Rightarrow> s) = (case ca_replay d of None \<Rightarrow> [] | Some (cursor, n, s) \<Rightarrow> s)"
    by (simp_all only: list.inject)
  have e: "ca_event c = ca_event d" using event by (simp split: if_splits)
  have ints: "ca_revision c = ca_revision d" "ca_occurrence c = ca_occurrence d"
    using eqs(2,5) c d by (simp_all add: int_text_inject fields_ok_def)
  have "replay_ok (ca_event c) (ca_replay c)" "replay_ok (ca_event d) (ca_replay d)"
    using c d by (simp_all add: fields_ok_def)
  then have "ca_replay c = ca_replay d"
    using e n s by (cases "ca_replay c"; cases "ca_replay d") (auto simp: replay_ok_def int_text_inject)
  with e ints eqs show ?thesis by (simp add: candidate_fields.defs)
qed

lemma event_ok:
  "validateAutomationEvent v = Inr ev \<Longrightarrow> TOKEN (ev_source ev) \<and> is_safe_int (ev_sequence ev) \<and> 0 \<le> ev_sequence ev \<and>
     ev_cursor ev = cursor_text (ev_source ev) (ev_sequence ev) \<and> 0 \<le> ev_occurredAt ev \<and> ev_occurredAt ev \<le> MAX_AUTOMATION_UNIX_MS"
  unfolding validateAutomationEvent_def bindR_Inr_iff guardR_Inr_iff read_iffs cursor_iff by auto

lemma schedule_candidate_Some:
  assumes "createScheduleCandidate H input t = Inr (Some c)"
  obtains d n where "validateAutomationDeclaration H input = Inr d" "0 \<le> n" "n \<le> MAX_AUTOMATION_UNIX_MS"
    "c = make_candidate H \<lparr>ca_declarationId = de_id d, ca_revision = de_revision d, ca_digest = de_digest d,
      ca_actionRef = de_actionRef d, ca_event = False, ca_occurrence = n, ca_replay = None\<rparr>"
proof -
  from assms obtain d n where d: "validateAutomationDeclaration H input = Inr d" "unixMs t ''occurrenceUnixMs'' = Inr n"
    and r: "(case de_trigger d of
       On_event _ _ _ \<Rightarrow> Inl ''schedule candidate requires a schedule declaration''
     | On_schedule sch \<Rightarrow>
         if \<not> de_enabled d then Inr None
         else if \<not> is_occurrence sch n then Inl ''occurrenceUnixMs is not an occurrence of this schedule''
         else Inr (Some (make_candidate H
           \<lparr>ca_declarationId = de_id d, ca_revision = de_revision d, ca_digest = de_digest d, ca_actionRef = de_actionRef d,
             ca_event = False, ca_occurrence = n, ca_replay = None\<rparr>))) = Inr (Some c)"
    by (auto simp: createScheduleCandidate_def bindR_Inr_iff)
  from r have "c = make_candidate H \<lparr>ca_declarationId = de_id d, ca_revision = de_revision d, ca_digest = de_digest d,
      ca_actionRef = de_actionRef d, ca_event = False, ca_occurrence = n, ca_replay = None\<rparr>"
    by (cases "de_trigger d") (simp_all split: if_splits)
  with d show thesis by (intro that [of d n]) (simp_all add: read_iffs)
qed

lemma event_candidate_Some:
  assumes "matchAutomationEvent H input e w = Inr (Some c)"
  obtains d ev where "validateAutomationDeclaration H input = Inr d" "validateAutomationEvent e = Inr ev" "check_window w ev = Inr ()"
    "c = make_candidate H \<lparr>ca_declarationId = de_id d, ca_revision = de_revision d, ca_digest = de_digest d,
      ca_actionRef = de_actionRef d, ca_event = True, ca_occurrence = ev_occurredAt ev,
      ca_replay = Some (ev_cursor ev, ev_sequence ev, ev_source ev)\<rparr>"
    "de_enabled d" "\<exists>m. de_trigger d = On_event (ev_source ev) (ev_event ev) m \<and> event_matches (ev_attributes ev) m"
proof -
  from assms obtain d ev where d: "validateAutomationDeclaration H input = Inr d" "validateAutomationEvent e = Inr ev" "check_window w ev = Inr ()"
    and r: "(case de_trigger d of
       On_schedule _ \<Rightarrow> Inl ''event matching requires an event declaration''
     | On_event source event match \<Rightarrow>
         if \<not> de_enabled d \<or> source \<noteq> ev_source ev \<or> event \<noteq> ev_event ev \<or> \<not> event_matches (ev_attributes ev) match
         then Inr None
         else Inr (Some (make_candidate H
           \<lparr>ca_declarationId = de_id d, ca_revision = de_revision d, ca_digest = de_digest d, ca_actionRef = de_actionRef d,
             ca_event = True, ca_occurrence = ev_occurredAt ev,
             ca_replay = Some (ev_cursor ev, ev_sequence ev, ev_source ev)\<rparr>))) = Inr (Some c)"
    by (auto simp: matchAutomationEvent_def bindR_Inr_iff)
  from r obtain m where "de_trigger d = On_event (ev_source ev) (ev_event ev) m" "event_matches (ev_attributes ev) m" "de_enabled d"
    "c = make_candidate H \<lparr>ca_declarationId = de_id d, ca_revision = de_revision d, ca_digest = de_digest d,
      ca_actionRef = de_actionRef d, ca_event = True, ca_occurrence = ev_occurredAt ev,
      ca_replay = Some (ev_cursor ev, ev_sequence ev, ev_source ev)\<rparr>"
    by (cases "de_trigger d") (simp_all split: if_splits)
  with d that show thesis by blast
qed

lemma candidate_json_accepted:
  assumes f: "fields_ok c" and b: "bound H c"
  shows "validateAutomationCandidate H (candidate_json c) = Inr c"
proof -
  obtain fs where fs: "candidate_json c = JObj fs" and len: "length fs \<le> 64" by (auto simp: candidate_json_def split: option.splits)
  have x: "automation_exact fs [''schemaVersion'', ''candidateId'', ''declarationId'', ''declarationRevision'', ''declarationDigest'',
       ''actionRef'', ''trigger'', ''occurrenceUnixMs'', ''cursor'', ''sequence'', ''eventSource'', ''idempotencyKey'', ''authorized'',
       ''requiresAuditedDispatch''] l = Inr ()" for l
    using fs by (auto simp: candidate_json_def automation_exact_def split: option.splits)
  have g: "js_field fs ''schemaVersion'' = JInt AUTOMATION_SCHEMA_VERSION" "js_field fs ''authorized'' = JBool False"
    "js_field fs ''requiresAuditedDispatch'' = JBool True" "js_field fs ''trigger'' = JStr (if ca_event c then ''event'' else ''schedule'')"
    "js_field fs ''declarationId'' = JStr (ca_declarationId c)" "js_field fs ''declarationRevision'' = JInt (ca_revision c)"
    "js_field fs ''declarationDigest'' = JStr (ca_digest c)" "js_field fs ''actionRef'' = JStr (ca_actionRef c)"
    "js_field fs ''occurrenceUnixMs'' = JInt (ca_occurrence c)" "js_field fs ''candidateId'' = JStr (ca_candidateId c)"
    "js_field fs ''idempotencyKey'' = JStr (ca_idempotencyKey c)"
    using fs by (auto simp: candidate_json_def split: option.splits)
  have "read_replay fs (ca_event c) = Inr (ca_replay c)"
    using fs f by (auto simp: candidate_json_def read_replay_def Let_def fields_ok_def replay_ok_def bindR_Inr_iff read_iffs
        cursor_iff split: option.splits)
  moreover have "token (JStr (ca_declarationId c)) l = Inr (ca_declarationId c)" "positive (JInt (ca_revision c)) l = Inr (ca_revision c)"
    "automation_action (JStr (ca_actionRef c)) = Inr (ca_actionRef c)" "unixMs (JInt (ca_occurrence c)) l = Inr (ca_occurrence c)" for l
    using f by (simp_all add: read_iffs fields_ok_def)
  moreover have "sha256_hex (ca_digest c)" using f by (simp add: fields_ok_def)
  moreover have "automation_object (candidate_json c) l = Inr fs" for l using fs len by (simp add: automation_object_def)
  moreover have "make_candidate H \<lparr>ca_declarationId = ca_declarationId c, ca_revision = ca_revision c, ca_digest = ca_digest c,
      ca_actionRef = ca_actionRef c, ca_event = ca_event c, ca_occurrence = ca_occurrence c, ca_replay = ca_replay c\<rparr> = c"
    using rebuild [OF b] by (simp add: candidate_fields.defs)
  ultimately show ?thesis
    unfolding validateAutomationCandidate_def by (cases "ca_event c") (simp_all add: x g Let_def)
qed

section \<open>Properties\<close>

text \<open>
  C19. The next due time of an enabled schedule is its least occurrence after the given time, and
  there is none exactly when no occurrence is left in the range of dates; the safe-integer error
  never happens.
\<close>

theorem next_due_is_least:
  assumes "validateAutomationDeclaration H input = Inr d" and "de_trigger d = On_schedule sch" and "de_enabled d"
    and "0 \<le> n" and "n \<le> MAX_AUTOMATION_UNIX_MS"
  shows "\<exists>due. nextAutomationDue H input (JInt n) = Inr due \<and>
     (case due of
        None \<Rightarrow> \<forall>t. n < t \<and> t \<le> MAX_AUTOMATION_UNIX_MS \<longrightarrow> \<not> is_occurrence sch t
      | Some t \<Rightarrow> n < t \<and> t \<le> MAX_AUTOMATION_UNIX_MS \<and> is_occurrence sch t \<and>
          (\<forall>u. n < u \<and> u < t \<longrightarrow> \<not> is_occurrence sch u) \<and>
          (\<exists>c. createScheduleCandidate H input (JInt t) = Inr (Some c) \<and> ca_occurrence c = t \<and> ca_digest c = de_digest d))"
proof -
  have u: "unixMs (JInt t) l = Inr t" if "0 \<le> t" "t \<le> MAX_AUTOMATION_UNIX_MS" for t l using that by (simp add: read_iffs)
  have "schedule_ok sch" using declaration_ok(2) [OF assms(1)] assms(2) by (simp add: trigger_ok_def)
  from next_occurrence_least [OF this assms(4,5)] obtain due where
    due: "next_occurrence sch n = Inr due" and least: "case due of
        None \<Rightarrow> \<forall>t. n < t \<and> t \<le> MAX_AUTOMATION_UNIX_MS \<longrightarrow> \<not> is_occurrence sch t
      | Some t \<Rightarrow> n < t \<and> t \<le> MAX_AUTOMATION_UNIX_MS \<and> is_occurrence sch t \<and>
          (\<forall>u. n < u \<and> u < t \<longrightarrow> \<not> is_occurrence sch u)" by blast
  have "nextAutomationDue H input (JInt n) = Inr due"
    using assms due by (simp add: nextAutomationDue_def u)
  moreover have "\<exists>c. createScheduleCandidate H input (JInt t) = Inr (Some c) \<and> ca_occurrence c = t \<and> ca_digest c = de_digest d"
    if "due = Some t" for t
    using that least assms(1-4) by (simp add: createScheduleCandidate_def u make_candidate_def candidate_fields.defs)
  ultimately show ?thesis using least by (cases due) auto
qed


text \<open>
  A candidate made from a schedule or an event passes validation again, unchanged, whatever
  hash of 64 hexadecimal digits is used.
\<close>

lemma candidate_revalidates:
  assumes "createScheduleCandidate H input t = Inr (Some c) \<or> matchAutomationEvent H input e w = Inr (Some c)"
    and H: "\<And>x. sha256_hex (H x)"
  shows "validateAutomationCandidate H (candidate_json c) = Inr c"
proof -
  have "fields_ok c \<and> bound H c"
    using assms(1)
  proof
    assume "createScheduleCandidate H input t = Inr (Some c)"
    then obtain d n where d: "validateAutomationDeclaration H input = Inr d" and n: "0 \<le> n" "n \<le> MAX_AUTOMATION_UNIX_MS"
      and c: "c = make_candidate H \<lparr>ca_declarationId = de_id d, ca_revision = de_revision d, ca_digest = de_digest d,
        ca_actionRef = de_actionRef d, ca_event = False, ca_occurrence = n, ca_replay = None\<rparr>" by (rule schedule_candidate_Some)
    from declaration_ok(1,3) [OF d] H n show ?thesis
      unfolding c make_candidate_ok by (auto simp: fields_ok_def base_ok_def replay_ok_def make_candidate_ok(2))
  next
    assume "matchAutomationEvent H input e w = Inr (Some c)"
    then obtain d ev where d: "validateAutomationDeclaration H input = Inr d" and ev: "validateAutomationEvent e = Inr ev"
      and c: "c = make_candidate H \<lparr>ca_declarationId = de_id d, ca_revision = de_revision d, ca_digest = de_digest d,
        ca_actionRef = de_actionRef d, ca_event = True, ca_occurrence = ev_occurredAt ev,
        ca_replay = Some (ev_cursor ev, ev_sequence ev, ev_source ev)\<rparr>" by (rule event_candidate_Some)
    from declaration_ok(1,3) [OF d] H event_ok [OF ev] show ?thesis
      unfolding c make_candidate_ok by (auto simp: fields_ok_def base_ok_def replay_ok_def make_candidate_ok(2))
  qed
  then show ?thesis using candidate_json_accepted by blast
qed

text \<open>
  C20. The identifier of a candidate binds all its fields: two validated candidates with the same
  identifier are equal, unless the hash maps two different texts to the same digest.
\<close>

theorem candidate_id_binds_fields:
  assumes "validateAutomationCandidate H v = Inr c" and "validateAutomationCandidate H w = Inr d"
    and "ca_candidateId c = ca_candidateId d"
  shows "c = d \<or> binding c \<noteq> binding d \<and> H (binding c) = H (binding d)"
proof (cases "binding c = binding d")
  case True
  note c = validated_candidate [OF assms(1)] and d = validated_candidate [OF assms(2)]
  with binding_inject [OF _ _ True] have "candidate_fields.truncate c = candidate_fields.truncate d" by blast
  with c d rebuild show ?thesis by metis
next
  case False
  with validated_candidate [OF assms(1)] validated_candidate [OF assms(2)] assms(3) show ?thesis by (simp add: bound_def)
qed

end
