(* ===== verification/Automation_Control.thy ===== *)
theory Automation_Control
  imports Automation_Laws
begin

text \<open>
  The control messages of a dispatch: every accepted chain starts with the dispatch, keeps its
  identity, goes up in stage and ends with at most one result.
\<close>

section \<open>Control messages\<close>

text \<open>The place of a message in the life of a dispatch: every legal step goes up.\<close>

fun control_stage :: "control_body \<Rightarrow> nat" where
  "control_stage (Ct_dispatch _) = 0"
| "control_stage (Ct_status _ s) = (if s = ''cancelling'' then 5 else Suc (control_rank s))"
| "control_stage (Ct_cancel _ _) = 4"
| "control_stage (Ct_result _ _ _) = 6"

definition stopping_body :: "control_body \<Rightarrow> bool" where
  "stopping_body b \<longleftrightarrow> (case b of Ct_cancel _ _ \<Rightarrow> True | Ct_status _ s \<Rightarrow> s = ''cancelling'' | _ \<Rightarrow> False)"

definition completes :: "control_body \<Rightarrow> bool" where
  "completes b \<longleftrightarrow> (case b of Ct_result _ out _ \<Rightarrow> out = ''completed'' | _ \<Rightarrow> False)"

definition known_state :: "control_body \<Rightarrow> bool" where
  "known_state b \<longleftrightarrow> (case b of Ct_status _ s \<Rightarrow> s \<in> set CONTROL_STATES | _ \<Rightarrow> True)"

lemma stopping_stage: "known_state b \<Longrightarrow> stopping_body b \<longleftrightarrow> control_stage b \<in> {4, 5}"
  by (cases b) (auto simp: stopping_body_def known_state_def CONTROL_STATES_def control_rank_def)

lemma stage_bound: "known_state b \<Longrightarrow> control_stage b \<le> 6"
  by (cases b) (auto simp: known_state_def CONTROL_STATES_def control_rank_def)

lemma body_step_stage:
  assumes "body_step p n = Inr ()" and "\<not> is_dispatch n" and "known_state p" and "known_state n"
  shows "control_stage p < control_stage n" and "stopping_body p \<Longrightarrow> \<not> completes n"
  using assms
  by (cases p; cases n; auto simp: known_state_def CONTROL_STATES_def control_rank_def is_dispatch_def stopping_body_def
      completes_def guardR_def split: if_splits)+

definition follows :: "control \<Rightarrow> control \<Rightarrow> bool" where
  "follows p n \<longleftrightarrow> \<not> is_dispatch (ct_body n) \<and> dispatch_of n = dispatch_of p \<and> ct_agentId n = ct_agentId p \<and>
     ct_correlationId n = ct_correlationId p \<and> ct_issuedAt p \<le> ct_issuedAt n \<and>
     control_stage (ct_body p) < control_stage (ct_body n) \<and> (stopping_body (ct_body p) \<longrightarrow> \<not> completes (ct_body n))"

lemma pair_follows:
  "validateControlPair p n = Inr m \<Longrightarrow> known_state (ct_body p) \<Longrightarrow> known_state (ct_body n) \<Longrightarrow> m = n \<and> follows p n"
  using body_step_stage [of "ct_body p" "ct_body n"]
  by (auto simp: validateControlPair_def bindR_Inr_iff guardR_Inr_iff follows_def)

text \<open>A message that comes after every message of the list, the last one immediately.\<close>

definition chain_next :: "control list \<Rightarrow> control \<Rightarrow> bool" where
  "chain_next ms n \<longleftrightarrow> ms \<noteq> [] \<and> \<not> is_dispatch (ct_body n) \<and> ct_id n \<notin> ct_id ` set ms \<and>
     (\<forall>p\<in>set ms. dispatch_of n = dispatch_of p \<and> ct_agentId n = ct_agentId p \<and> ct_correlationId n = ct_correlationId p \<and>
        ct_issuedAt p \<le> ct_issuedAt n \<and> control_stage (ct_body p) < control_stage (ct_body n)) \<and>
     ((\<exists>p\<in>set ms. stopping_body (ct_body p)) \<longrightarrow> \<not> completes (ct_body n))"

fun chain :: "control list \<Rightarrow> bool" where
  "chain [] = False"
| "chain [m] = is_dispatch (ct_body m)"
| "chain ms = (chain (butlast ms) \<and> chain_next (butlast ms) (last ms))"

lemma chain_snoc: "ms \<noteq> [] \<Longrightarrow> chain (ms @ [n]) \<longleftrightarrow> chain ms \<and> chain_next ms n"
  by (cases ms; cases "tl ms") (auto simp: butlast_append)

lemma follows_chain_next:
  assumes c: "chain (ms @ [p])" and f: "follows p n" and new: "ct_id n \<notin> ct_id ` set (ms @ [p])"
    and known: "\<forall>m\<in>set (ms @ [p, n]). known_state (ct_body m)"
  shows "chain_next (ms @ [p]) n"
proof (cases "ms = []")
  case True
  with assms show ?thesis by (auto simp: chain_next_def follows_def)
next
  case False
  with c have p: "chain_next ms p" by (simp add: chain_snoc)
  have "\<not> completes (ct_body n)" if m: "m \<in> set ms" "stopping_body (ct_body m)" for m
  proof -
    have "control_stage (ct_body m) \<in> {4, 5}" "control_stage (ct_body m) < control_stage (ct_body p)"
      using m p known stopping_stage by (auto simp: chain_next_def)
    moreover have "control_stage (ct_body n) \<le> 6" "control_stage (ct_body n) > control_stage (ct_body p)"
      using known stage_bound f by (auto simp: follows_def)
    ultimately have "control_stage (ct_body p) = 5" by auto
    then have "stopping_body (ct_body p)" using known stopping_stage by auto
    with f show ?thesis by (simp add: follows_def)
  qed
  with p f new show ?thesis unfolding chain_next_def follows_def by fastforce
qed


lemma check_history_chain:
  assumes "check_history (map ct_id (ms @ [p])) p hs = Inr (ids, l)" and "chain (ms @ [p])"
    and "\<forall>m\<in>set (ms @ p # hs). known_state (ct_body m)"
  shows "chain (ms @ p # hs) \<and> ids = map ct_id (ms @ p # hs) \<and> l = last (p # hs)"
  using assms
proof (induction hs arbitrary: ms p)
  case (Cons h hs)
  from Cons.prems(1) obtain r where new: "ct_id h \<notin> ct_id ` set (ms @ [p])" and pair: "validateControlPair p h = Inr r"
    and rest: "check_history (map ct_id ((ms @ [p]) @ [h])) h hs = Inr (ids, l)"
    by (auto simp: bindR_Inr_iff guardR_Inr_iff)
  have "follows p h" using pair_follows [OF pair] Cons.prems(3) by simp
  from follows_chain_next [OF Cons.prems(2) this new] Cons.prems(3) have "chain_next (ms @ [p]) h" by simp
  with Cons.prems(2) have "chain ((ms @ [p]) @ [h])" by (subst chain_snoc) simp_all
  from Cons.IH [OF rest this] Cons.prems(3) show ?case by simp
qed simp

lemma next_control_chain:
  assumes "next_control history n = Inr m" and "\<forall>m\<in>set (history @ [n]). known_state (ct_body m)"
  shows "m = n \<and> chain (history @ [n])"
proof (cases history)
  case Nil
  with assms show ?thesis by (auto simp: next_control_def bindR_Inr_iff guardR_Inr_iff)
next
  case (Cons h hs)
  with assms(1) obtain ids l where h: "is_dispatch (ct_body h)" and c: "check_history [ct_id h] h hs = Inr (ids, l)"
    and new: "ct_id n \<notin> set ids" and pair: "validateControlPair l n = Inr m"
    by (auto simp: next_control_def bindR_Inr_iff guardR_Inr_iff)
  from check_history_chain [of "[]" h hs ids l] c h assms(2) Cons
  have ch: "chain (h # hs)" and ids: "ids = map ct_id (h # hs)" and l: "l = last (h # hs)" by auto
  define ms where "ms = butlast (h # hs)"
  have split: "h # hs = ms @ [l]" by (simp add: ms_def l)
  have known: "\<forall>m\<in>set (ms @ [l, n]). known_state (ct_body m)" using assms(2) Cons split by auto
  with pair_follows [OF pair] have m: "m = n" "follows l n" by auto
  have "chain_next (ms @ [l]) n"
    using follows_chain_next [of ms l n] ch m(2) new known ids split by simp
  with ch m(1) Cons split show ?thesis by (simp add: chain_snoc [of "ms @ [l]" n, simplified])
qed

lemma envelope_known: "validateOdinnAgentControlEnvelope H v = Inr c \<Longrightarrow> known_state (ct_body c)"
  unfolding validateOdinnAgentControlEnvelope_def bindR_Inr_iff
  by (auto simp: read_control_body_def bindR_Inr_iff one_of_def known_state_def split: if_splits)

lemma chain_length:
  "chain ms \<Longrightarrow> \<forall>m\<in>set ms. known_state (ct_body m) \<Longrightarrow> length ms \<le> Suc (control_stage (ct_body (last ms)))"
proof (induction ms rule: rev_induct)
  case (snoc m ms)
  show ?case
  proof (cases "ms = []")
    case False
    with snoc.prems have "chain ms" "control_stage (ct_body (last ms)) < control_stage (ct_body m)"
      by (auto simp: chain_snoc chain_next_def)
    with snoc.IH snoc.prems show ?thesis by simp
  qed simp
qed simp

lemma check_window_iff:
  assumes "check_window w ev = Inr ()"
  obtains bounds oldest newest where "w = JObj bounds"
    "js_field bounds ''oldestAvailableSequence'' = JInt oldest" "js_field bounds ''newestAvailableSequence'' = JInt newest"
    "oldest \<le> ev_sequence ev" "ev_sequence ev \<le> newest"
    "js_field bounds ''afterCursor'' = JUndef \<or>
       0 < ev_sequence ev \<and> js_field bounds ''afterCursor'' = JStr (cursor_text (ev_source ev) (ev_sequence ev - 1))"
proof -
  from assms obtain bounds source oldest newest first last where b: "json_object w ''event replay window'' = Inr bounds"
    and s: "js_field bounds ''oldestAvailableSequence'' = JInt oldest" "js_field bounds ''newestAvailableSequence'' = JInt newest"
      "oldest \<le> ev_sequence ev" "ev_sequence ev \<le> newest" "0 \<le> oldest" "source = ev_source ev"
    and a: "(let after = js_field bounds ''afterCursor'' in
       if after = JUndef then Inr ()
       else if \<not> is_str after then Inl ''event replay afterCursor must be a string''
       else if ev_sequence ev = 0 then Inl ''automation event is duplicate or out of order''
       else bindR (formatAutomationCursor (JStr source) (JInt (ev_sequence ev - 1))) (\<lambda>expected.
         guardR (after = JStr expected) ''automation event is duplicate or out of order'')) = Inr ()"
    unfolding check_window_def bindR_Inr_iff guardR_Inr_iff read_iffs by auto
  have "w = JObj bounds"
    using b by (cases w) (auto simp: json_object_def automation_json_def bounded_value_iff bindR_Inr_iff automation_object_def
        split: if_splits)
  moreover have "js_field bounds ''afterCursor'' = JUndef \<or>
       0 < ev_sequence ev \<and> js_field bounds ''afterCursor'' = JStr (cursor_text (ev_source ev) (ev_sequence ev - 1))"
    using a s by (auto simp: Let_def bindR_Inr_iff guardR_Inr_iff cursor_iff split: if_splits)
  ultimately show thesis using s that by blast
qed

section \<open>Properties\<close>

text \<open>
  C21. A control message is accepted only after a history that forms a chain with it: the chain
  starts with the only dispatch, all messages name that dispatch, its agent and its correlation,
  identifiers are fresh, times and stages go up, nothing completes after a cancellation, and
  there are at most seven messages, fewer than the limit on the history.
\<close>

theorem control_transition_chain:
  assumes "validateOdinnAgentControlTransition H history next = Inr m"
  shows "\<exists>hs ms. history = JArr hs \<and> mapR (validateOdinnAgentControlEnvelope H) hs = Inr ms \<and>
     validateOdinnAgentControlEnvelope H next = Inr m \<and> chain (ms @ [m]) \<and> length (ms @ [m]) \<le> 7"
proof -
  from assms obtain hs ms n where 1: "history = JArr hs" "mapR (validateOdinnAgentControlEnvelope H) hs = Inr ms"
    "validateOdinnAgentControlEnvelope H next = Inr n" "next_control ms n = Inr m"
    by (auto simp: validateOdinnAgentControlTransition_def automation_json_def bounded_value_iff bindR_Inr_iff guardR_Inr_iff
        split: jsval.splits)
  have known: "\<forall>m\<in>set (ms @ [n]). known_state (ct_body m)"
  proof -
    have "\<forall>m\<in>set ms. known_state (ct_body m)" using envelope_known mapR_set [OF 1(2)] by blast
    with envelope_known [OF 1(3)] show ?thesis by simp
  qed
  from next_control_chain [OF 1(4) known] have m: "m = n" and c: "chain (ms @ [n])" by auto
  have "length (ms @ [n]) \<le> 7"
    using chain_length [OF c known] stage_bound [of "ct_body n"] known by simp
  with 1 m c show ?thesis by auto
qed

text \<open>
  C22. Events are replayed in order: a candidate made from an event after a cursor carries exactly
  the next sequence number of the same source, inside the replay window, and its declaration
  waits for that event and matches its attributes.
\<close>

theorem replay_in_order:
  assumes "matchAutomationEvent H input e w = Inr (Some c)"
  shows "\<exists>d ev m bounds oldest newest. validateAutomationDeclaration H input = Inr d \<and> validateAutomationEvent e = Inr ev \<and>
     w = JObj bounds \<and> js_field bounds ''oldestAvailableSequence'' = JInt oldest \<and>
     js_field bounds ''newestAvailableSequence'' = JInt newest \<and> oldest \<le> ev_sequence ev \<and> ev_sequence ev \<le> newest \<and>
     (\<forall>n\<ge>0. js_field bounds ''afterCursor'' = JStr (cursor_text (ev_source ev) n) \<longrightarrow> ev_sequence ev = n + 1) \<and>
     ca_replay c = Some (cursor_text (ev_source ev) (ev_sequence ev), ev_sequence ev, ev_source ev) \<and>
     de_enabled d \<and> de_trigger d = On_event (ev_source ev) (ev_event ev) m \<and> event_matches (ev_attributes ev) m"
proof -
  from assms obtain d ev m where d: "validateAutomationDeclaration H input = Inr d" and ev: "validateAutomationEvent e = Inr ev"
    and w: "check_window w ev = Inr ()" and m: "de_enabled d" "de_trigger d = On_event (ev_source ev) (ev_event ev) m"
      "event_matches (ev_attributes ev) m"
    and c: "ca_replay c = Some (ev_cursor ev, ev_sequence ev, ev_source ev)"
    by (rule event_candidate_Some) auto
  from w obtain bounds oldest newest where b: "w = JObj bounds"
    "js_field bounds ''oldestAvailableSequence'' = JInt oldest" "js_field bounds ''newestAvailableSequence'' = JInt newest"
    "oldest \<le> ev_sequence ev" "ev_sequence ev \<le> newest"
    and a: "js_field bounds ''afterCursor'' = JUndef \<or>
       0 < ev_sequence ev \<and> js_field bounds ''afterCursor'' = JStr (cursor_text (ev_source ev) (ev_sequence ev - 1))"
    by (rule check_window_iff)
  have "ev_sequence ev = n + 1" if "0 \<le> n" "js_field bounds ''afterCursor'' = JStr (cursor_text (ev_source ev) n)" for n
    using a that cursor_inject [of n "ev_sequence ev - 1" "ev_source ev"] by auto
  with d ev m c b event_ok [OF ev] show ?thesis
    by (intro exI [of _ d] exI [of _ ev] exI [of _ m] exI [of _ bounds] exI [of _ oldest] exI [of _ newest] conjI allI impI) simp_all
qed


section \<open>Concrete automations\<close>

definition zero_hash :: "string \<Rightarrow> string" where
  "zero_hash x = replicate 64 (CHR ''0'')"

lemma zero_hash_hex: "sha256_hex (zero_hash x)" "sha256_hex (replicate 64 (CHR ''0''))"
  by (simp_all add: sha256_hex_def zero_hash_def lower_hex_def is_digit_def list_all_iff)

lemma zero_digest: "automation_digest zero_hash fs = replicate 64 (CHR ''0'')"
  by (simp add: automation_digest_def zero_hash_def)

text \<open>Evaluation of the samples, without looking into what comes after a step that is not done.\<close>

lemma bindR_weak: "m = m' \<Longrightarrow> bindR m f = bindR m' f" by simp
lemma digit_texts: "int_text 0 = ''0''" "int_text 1 = ''1''" "int_text 2 = ''2''" "int_text 3 = ''3''" by code_simp+
lemmas automation_eval = AUTOMATION_SCHEMA_VERSION_def ODINN_AGENT_CONTROL_VERSION_def MAX_AUTOMATION_MATCH_CLAUSES_def MAX_AUTOMATION_SET_VALUES_def MAX_AUTOMATION_ATTRIBUTES_def MAX_AUTOMATION_INTERVAL_MS_def MIN_AUTOMATION_INTERVAL_MS_def MAX_AUTOMATION_UNIX_MS_def MAX_AUTOMATION_INPUT_BYTES_def MAX_AUTOMATION_INPUT_NODES_def MAX_ODINN_CONTROL_HISTORY_def ascii_alnum_def TOKEN_def ACTION_REF_def COMMON_KEYS_def CONTROL_COMMON_KEYS_def CONTROL_KEYS_def automation_object_def automation_exact_def token_def automation_action_def uint_def unixMs_def positive_def automation_limits_def automation_json_def json_object_def read_scalar_def compareScalar_def compareClause_def declaration_fields_def common_def finalize_def clause_label_def read_clause_def read_schedule_def clause_key_def read_match_def read_event_match_def validateAutomationDeclaration_def next_occurrence_def nextAutomationDue_def formatAutomationCursor_def read_attribute_def validateAutomationEvent_def make_candidate_def is_occurrence_def createScheduleCandidate_def event_matches_def check_window_def matchAutomationEvent_def candidate_json_def read_replay_def validateAutomationCandidate_def CONTROL_REASONS_def CONTROL_STATES_def CONTROL_OUTCOMES_def one_of_def read_control_body_def validateOdinnAgentControlEnvelope_def control_rank_def is_result_def is_dispatch_def validateControlPair_def next_control_def validateOdinnAgentControlTransition_def bounded_value_small candidate_fields.defs
  matches_def is_upper_def is_lower_def is_digit_def is_safe_int_def MAX_SAFE_INTEGER_def enumerate_eq_zip zero_hash_def zero_hash_hex zero_digest starts_with_def digit_texts

definition sample_schedule :: jsval where
  "sample_schedule = JObj [(''schemaVersion'', JInt 1), (''id'', JStr ''d''), (''revision'', JInt 1), (''enabled'', JBool True),
     (''actionRef'', JStr ''a''), (''kind'', JStr ''schedule''),
     (''schedule'', JObj [(''type'', JStr ''interval''), (''anchorUnixMs'', JInt 500), (''everyMs'', JInt 1000)])]"

definition sample_event_rule :: jsval where
  "sample_event_rule = JObj [(''schemaVersion'', JInt 1), (''id'', JStr ''d''), (''revision'', JInt 1), (''enabled'', JBool True),
     (''actionRef'', JStr ''a''), (''kind'', JStr ''event''), (''source'', JStr ''s''), (''event'', JStr ''e''),
     (''match'', JArr [JObj [(''field'', JStr ''k''), (''operator'', JStr ''prefix''), (''value'', JStr ''x'')]])]"

definition sample_event :: jsval where
  "sample_event = JObj [(''schemaVersion'', JInt 1), (''source'', JStr ''s''), (''event'', JStr ''e''), (''sequence'', JInt 2),
     (''cursor'', JStr ''odinn-event-v1/s/2''), (''occurredAtUnixMs'', JInt 7), (''attributes'', JObj [(''k'', JStr ''xy'')])]"

definition sample_window :: jsval where
  "sample_window = JObj [(''source'', JStr ''s''), (''oldestAvailableSequence'', JInt 0), (''oldestAvailableCursor'', JStr ''odinn-event-v1/s/0''),
     (''newestAvailableSequence'', JInt 3), (''newestAvailableCursor'', JStr ''odinn-event-v1/s/3''),
     (''afterCursor'', JStr ''odinn-event-v1/s/1'')]"

lemma sample_schedule_valid:
  "validateAutomationDeclaration zero_hash sample_schedule = Inr \<lparr>de_id = ''d'', de_revision = 1, de_enabled = True,
     de_actionRef = ''a'', de_trigger = On_schedule (Interval 500 1000), de_digest = zero_hash []\<rparr>"
  by (simp add: automation_eval sample_schedule_def cong: bindR_weak)

theorem next_due_is_least_witness:
  "\<exists>due. nextAutomationDue zero_hash sample_schedule (JInt 1500) = Inr due"
  using next_due_is_least [OF sample_schedule_valid, of "Interval 500 1000" 1500] by (simp add: MAX_AUTOMATION_UNIX_MS_def) blast

lemma sample_event_candidate:
  "matchAutomationEvent zero_hash sample_event_rule sample_event sample_window = Inr (Some (make_candidate zero_hash
     \<lparr>ca_declarationId = ''d'', ca_revision = 1, ca_digest = zero_hash [], ca_actionRef = ''a'', ca_event = True,
      ca_occurrence = 7, ca_replay = Some (''odinn-event-v1/s/2'', 2, ''s'')\<rparr>))"
  by (simp add: automation_eval sample_event_rule_def sample_event_def sample_window_def cong: bindR_weak)

theorem replay_in_order_witness:
  "\<exists>ev. validateAutomationEvent sample_event = Inr ev"
  using replay_in_order [OF sample_event_candidate] by blast

definition sample_candidate :: "int \<Rightarrow> candidate" where
  "sample_candidate t = make_candidate zero_hash
     \<lparr>ca_declarationId = ''d'', ca_revision = 1, ca_digest = zero_hash [], ca_actionRef = ''a'', ca_event = False,
      ca_occurrence = t, ca_replay = None\<rparr>"

lemma sample_candidate_valid:
  "validateAutomationCandidate zero_hash (candidate_json (sample_candidate 7)) = Inr (sample_candidate 7)"
  "validateAutomationCandidate zero_hash (candidate_json (sample_candidate 8)) = Inr (sample_candidate 8)"
  by (simp_all add: automation_eval sample_candidate_def cong: bindR_weak)

lemma sample_candidates:
  "ca_candidateId (sample_candidate 7) = ca_candidateId (sample_candidate 8)" "sample_candidate 7 \<noteq> sample_candidate 8"
  by (simp_all add: sample_candidate_def make_candidate_def zero_hash_def candidate_fields.defs)

theorem candidate_id_binds_fields_witness:
  "binding (sample_candidate 7) \<noteq> binding (sample_candidate 8)"
  using candidate_id_binds_fields [OF sample_candidate_valid sample_candidates(1)] sample_candidates(2) by simp

definition sample_dispatch :: jsval where
  "sample_dispatch = JObj [(''version'', JInt 1), (''kind'', JStr ''dispatch''), (''id'', JStr ''m0''), (''correlationId'', JStr ''c''),
     (''agentId'', JStr ''g''), (''issuedAtUnixMs'', JInt 1), (''candidate'', candidate_json (sample_candidate 7))]"

definition sample_status :: jsval where
  "sample_status = JObj [(''version'', JInt 1), (''kind'', JStr ''status''), (''id'', JStr ''m1''), (''correlationId'', JStr ''c''),
     (''agentId'', JStr ''g''), (''issuedAtUnixMs'', JInt 2), (''dispatchId'', JStr ''m0''), (''state'', JStr ''queued'')]"

lemma sample_transition:
  "validateOdinnAgentControlTransition zero_hash (JArr [sample_dispatch]) sample_status =
     Inr \<lparr>ct_id = ''m1'', ct_correlationId = ''c'', ct_agentId = ''g'', ct_issuedAt = 2, ct_body = Ct_status ''m0'' ''queued''\<rparr>"
  by (simp add: automation_eval sample_dispatch_def sample_status_def sample_candidate_def cong: bindR_weak)

theorem control_transition_chain_witness:
  "\<exists>ms m. mapR (validateOdinnAgentControlEnvelope zero_hash) [sample_dispatch] = Inr ms \<and>
     validateOdinnAgentControlEnvelope zero_hash sample_status = Inr m \<and> chain (ms @ [m])"
  using control_transition_chain [OF sample_transition] by blast

end
