(* ===== verification/Agent_Graphs.thy ===== *)
theory Agent_Graphs
  imports Automation Capabilities
begin

text \<open>
  Agent run graphs, \<open>packages/kernel/src/agent-run-graphs.ts\<close>: executable agent manifests, graphs
  of nodes with dependencies, and the runner that dispatches the nodes level by level.

  Manifests and graphs are validated from the value \<open>JSON.parse\<close> gives; the checks of the wire
  bytes before it are not modelled.  The hash \<open>sha256\<close> is an argument \<open>H\<close>.  The runner is a
  function of its environment: for every batch whether the run has been aborted when it starts and
  which of the dispatches still under way have settled, and for every node how its dispatch ends.
\<close>

section \<open>Limits and references\<close>

definition EXECUTABLE_AGENT_SCHEMA_VERSION :: int where "EXECUTABLE_AGENT_SCHEMA_VERSION = 1"
definition AGENT_RUN_GRAPH_SCHEMA_VERSION :: int where "AGENT_RUN_GRAPH_SCHEMA_VERSION = 1"
definition MAX_AGENT_GRAPH_NODES :: nat where "MAX_AGENT_GRAPH_NODES = 32"
definition MAX_AGENT_GRAPH_EDGES :: nat where "MAX_AGENT_GRAPH_EDGES = 64"
definition MAX_AGENT_GRAPH_DEPTH :: nat where "MAX_AGENT_GRAPH_DEPTH = 8"
definition MAX_AGENT_GRAPH_FANOUT :: nat where "MAX_AGENT_GRAPH_FANOUT = 8"
definition MAX_AGENT_GRAPH_BYTES :: nat where "MAX_AGENT_GRAPH_BYTES = 32768"
definition MAX_AGENT_REQUESTS :: nat where "MAX_AGENT_REQUESTS = 32"
definition MAX_AGENT_TIMEOUT_MS :: int where "MAX_AGENT_TIMEOUT_MS = 300000"

definition GRAPH_IDENTIFIER :: "string \<Rightarrow> bool" where
  "GRAPH_IDENTIFIER = matches ascii_alnum (\<lambda>c. ascii_alnum c \<or> c \<in> set ''._:-'') 63"

definition REQUEST_REFERENCE :: "string \<Rightarrow> bool" where
  "REQUEST_REFERENCE = matches ascii_alnum (\<lambda>c. ascii_alnum c \<or> c \<in> set ''._:-'') 127"

definition before_colon :: "string \<Rightarrow> string" where
  "before_colon = takeWhile (\<lambda>c. c \<noteq> CHR '':'')"

definition OPAQUE_REFERENCE :: "string \<Rightarrow> bool" where
  "OPAQUE_REFERENCE s \<longleftrightarrow>
     (let p = before_colon s; r = drop (length p) s in
      matches is_lower (\<lambda>c. is_lower c \<or> is_digit c \<or> c = CHR ''-'') 15 p \<and> 2 \<le> length p \<and> r \<noteq> [] \<and>
      matches ascii_alnum (\<lambda>c. ascii_alnum c \<or> c \<in> set ''._-'') 95 (tl r))"

definition REGISTRY_REFERENCE :: "string \<Rightarrow> bool" where
  "REGISTRY_REFERENCE s \<longleftrightarrow> starts_with s ''registry:'' \<and>
     matches ascii_alnum (\<lambda>c. ascii_alnum c \<or> c \<in> set ''._-'') 63 (drop 9 s)"

definition FORBIDDEN_IDENTITY :: "string \<Rightarrow> bool" where
  "FORBIDDEN_IDENTITY s \<longleftrightarrow>
     list_ex (js_includes (map ascii_lower s)) [''token'', ''secret'', ''auth'', ''credential'', ''approval'']"

definition graph_limits :: json_limits where
  "graph_limits =
     \<lparr>jl_nodes = 512, jl_nodes_text = '' exceeds 512 JSON nodes'', jl_number_text = '' must be a plain object'',
      jl_array = 128, jl_array_text = '' array length exceeds 128'', jl_object_text = '' must be a plain object'',
      jl_fields = 16, jl_fields_text = '' exceeds 16 own fields'',
      jl_bytes = MAX_AGENT_GRAPH_BYTES, jl_bytes_text = '' exceeds 32768 bytes''\<rparr>"

definition cleanJson :: "jsval \<Rightarrow> string \<Rightarrow> string + jsval" where
  "cleanJson = bounded_value graph_limits"

definition hash_json :: "(string \<Rightarrow> string) \<Rightarrow> jsval \<Rightarrow> string" where
  "hash_json H v = H (canonicalJson v)"

definition graph_object :: "jsval \<Rightarrow> string \<Rightarrow> string + (string \<times> jsval) list" where
  "graph_object v label = (case v of JObj fs \<Rightarrow> Inr fs | _ \<Rightarrow> Inl (label @ '' must be an object''))"

definition graph_exact :: "(string \<times> jsval) list \<Rightarrow> string list \<Rightarrow> string \<Rightarrow> string + unit" where
  "graph_exact fs keys label =
     (case List.find (\<lambda>f. fst f \<notin> set keys) fs of
        None \<Rightarrow> Inr () | Some f \<Rightarrow> Inl (label @ '' has unknown field: '' @ fst f))"

definition graph_identifier :: "jsval \<Rightarrow> string \<Rightarrow> string + string" where
  "graph_identifier v label =
     (if is_str v \<and> GRAPH_IDENTIFIER (the_str v) then Inr (the_str v) else Inl (label @ '' must be a bounded identifier''))"

definition principal :: "jsval \<Rightarrow> string + string" where
  "principal v =
     (if is_str v \<and> starts_with (the_str v) ''sha256:'' \<and> sha256_hex (drop 7 (the_str v)) then Inr (the_str v)
      else bindR (graph_identifier v ''principalNamespace'') (\<lambda>s.
        if FORBIDDEN_IDENTITY s then Inl ''principalNamespace uses a forbidden authority namespace'' else Inr s))"

definition requestReference :: "jsval \<Rightarrow> string \<Rightarrow> string + string" where
  "requestReference v label =
     (if is_str v \<and> REQUEST_REFERENCE (the_str v) then Inr (the_str v)
      else Inl (label @ '' must be a bounded declarative reference''))"

definition typedReference :: "jsval \<Rightarrow> string \<Rightarrow> string list \<Rightarrow> string + string" where
  "typedReference v label allowedPrefixes =
     (if is_str v \<and> OPAQUE_REFERENCE (the_str v)
      then
        if map ascii_lower (before_colon (the_str v)) \<in> set allowedPrefixes \<and> \<not> FORBIDDEN_IDENTITY (the_str v) then Inr (the_str v)
        else Inl (label @ '' uses a forbidden reference namespace'')
      else Inl (label @ '' must be an opaque typed reference''))"

definition registryReference :: "jsval \<Rightarrow> string + string" where
  "registryReference v =
     (if is_str v \<and> REGISTRY_REFERENCE (the_str v)
      then if FORBIDDEN_IDENTITY (the_str v) then Inl ''manifest registryRef uses a forbidden identity namespace'' else Inr (the_str v)
      else Inl ''manifest registryRef must be a trusted registry reference'')"

definition bounded_positive :: "jsval \<Rightarrow> string \<Rightarrow> int \<Rightarrow> string + int" where
  "bounded_positive v label maximum =
     (case v of
        JInt n \<Rightarrow>
          if is_safe_int n \<and> 1 \<le> n \<and> n \<le> maximum then Inr n
          else Inl (label @ '' must be an integer from 1 to '' @ int_text maximum)
      | _ \<Rightarrow> Inl (label @ '' must be an integer from 1 to '' @ int_text maximum))"

definition sortedUniqueReferences :: "jsval \<Rightarrow> string \<Rightarrow> string + string list" where
  "sortedUniqueReferences v label =
     (case v of
        JArr vs \<Rightarrow>
          if MAX_AGENT_REQUESTS < length vs then Inl (label @ '' must contain at most 32 references'')
          else bindR (mapR (\<lambda>x. requestReference x label) vs) (\<lambda>refs.
            if distinct refs then Inr (sort refs) else Inl (label @ '' contains duplicates''))
      | _ \<Rightarrow> Inl (label @ '' must contain at most 32 references''))"

section \<open>Manifests\<close>

record agent_manifest =
  am_id :: string
  am_revision :: int
  am_registryRef :: string
  am_tools :: "string list"
  am_capabilities :: "string list"
  am_maxChildren :: int
  am_defaultTimeoutMs :: int
  am_digest :: string

definition manifest_fields :: "agent_manifest \<Rightarrow> (string \<times> jsval) list" where
  "manifest_fields m =
     [(''schemaVersion'', JInt EXECUTABLE_AGENT_SCHEMA_VERSION), (''id'', JStr (am_id m)), (''revision'', JInt (am_revision m)),
      (''registryRef'', JStr (am_registryRef m)), (''requestedTools'', JArr (map JStr (am_tools m))),
      (''requestedCapabilities'', JArr (map JStr (am_capabilities m))), (''maxChildren'', JInt (am_maxChildren m)),
      (''defaultTimeoutMs'', JInt (am_defaultTimeoutMs m))]"

definition manifest_json :: "agent_manifest \<Rightarrow> jsval" where
  "manifest_json m = JObj (manifest_fields m @ [(''manifestDigest'', JStr (am_digest m))])"

definition normalizeExecutableAgentManifest :: "(string \<Rightarrow> string) \<Rightarrow> jsval \<Rightarrow> string + agent_manifest" where
  "normalizeExecutableAgentManifest H input =
     bindR (cleanJson input ''executable agent manifest'') (\<lambda>clean.
     bindR (graph_object clean ''executable agent manifest'') (\<lambda>v.
     bindR (graph_exact v [''schemaVersion'', ''id'', ''revision'', ''registryRef'', ''requestedTools'', ''requestedCapabilities'',
       ''maxChildren'', ''defaultTimeoutMs'', ''manifestDigest''] ''executable agent manifest'') (\<lambda>_.
     bindR (guardR (js_field v ''schemaVersion'' = JInt EXECUTABLE_AGENT_SCHEMA_VERSION)
       ''executable agent manifest has unsupported schemaVersion'') (\<lambda>_.
     bindR (graph_identifier (js_field v ''id'') ''manifest id'') (\<lambda>i.
     bindR (bounded_positive (js_field v ''revision'') ''manifest revision'' MAX_SAFE_INTEGER) (\<lambda>revision.
     bindR (registryReference (js_field v ''registryRef'')) (\<lambda>ref.
     bindR (sortedUniqueReferences (js_field v ''requestedTools'') ''requestedTools'') (\<lambda>tools.
     bindR (sortedUniqueReferences (js_field v ''requestedCapabilities'') ''requestedCapabilities'') (\<lambda>capabilities.
     bindR (bounded_positive (js_field v ''maxChildren'') ''maxChildren'' (int MAX_AGENT_GRAPH_FANOUT)) (\<lambda>children.
     bindR (bounded_positive (js_field v ''defaultTimeoutMs'') ''defaultTimeoutMs'' MAX_AGENT_TIMEOUT_MS) (\<lambda>timeout.
     let m = \<lparr>am_id = i, am_revision = revision, am_registryRef = ref, am_tools = tools, am_capabilities = capabilities,
           am_maxChildren = children, am_defaultTimeoutMs = timeout, am_digest = []\<rparr>;
         digest = hash_json H (JObj (manifest_fields m)); given = js_field v ''manifestDigest'' in
     if given \<noteq> JUndef \<and> given \<noteq> JStr digest then Inl ''executable agent manifest digest is invalid''
     else Inr (m\<lparr>am_digest := digest\<rparr>))))))))))))"

definition validateManifestCollection :: "(string \<Rightarrow> string) \<Rightarrow> jsval \<Rightarrow> string + agent_manifest list" where
  "validateManifestCollection H parsed =
     bindR (cleanJson parsed ''executable manifests collection'') (\<lambda>clean.
     case clean of
       JArr vs \<Rightarrow>
         if MAX_AGENT_GRAPH_NODES < length vs then Inl ''manifests collection is invalid''
         else bindR (mapR (normalizeExecutableAgentManifest H) vs) (\<lambda>ms.
           if distinct (map am_id ms) then Inr ms else Inl ''manifests collection contains duplicate ids'')
     | _ \<Rightarrow> Inl ''manifests collection is invalid'')"

section \<open>Graphs\<close>

record agent_node =
  an_id :: string
  an_manifestId :: string
  an_manifestDigest :: string
  an_inputRef :: string
  an_resultRef :: string
  an_dependsOn :: "string list"
  an_timeoutMs :: "int option"

record agent_graph =
  ag_id :: string
  ag_nodes :: "agent_node list"
  ag_digest :: string

definition node_json :: "agent_node \<Rightarrow> jsval" where
  "node_json n = JObj ([(''id'', JStr (an_id n)), (''manifestId'', JStr (an_manifestId n)),
     (''manifestDigest'', JStr (an_manifestDigest n)), (''inputRef'', JStr (an_inputRef n)), (''resultRef'', JStr (an_resultRef n)),
     (''dependsOn'', JArr (map JStr (an_dependsOn n)))] @
     (case an_timeoutMs n of None \<Rightarrow> [] | Some t \<Rightarrow> [(''timeoutMs'', JInt t)]))"

definition graph_fields :: "string \<Rightarrow> agent_node list \<Rightarrow> (string \<times> jsval) list" where
  "graph_fields i nodes = [(''schemaVersion'', JInt AGENT_RUN_GRAPH_SCHEMA_VERSION), (''id'', JStr i),
     (''nodes'', JArr (map node_json nodes))]"

definition node_label :: "nat \<Rightarrow> string" where
  "node_label index = ''graph node '' @ nat_digits (Suc index)"

definition read_dependencies :: "jsval \<Rightarrow> string + string list" where
  "read_dependencies v =
     (case v of
        JArr ds \<Rightarrow>
          if MAX_AGENT_GRAPH_NODES < length ds then Inl ''node dependencies are invalid''
          else bindR (mapR (\<lambda>d. graph_identifier d ''dependency id'') ds) (\<lambda>deps.
            if distinct deps then Inr (sort deps) else Inl ''node dependencies contain duplicates'')
      | _ \<Rightarrow> Inl ''node dependencies are invalid'')"

definition read_node :: "nat \<times> jsval \<Rightarrow> string + agent_node" where
  "read_node = (\<lambda>(index, item).
     bindR (graph_object item (node_label index)) (\<lambda>node.
     bindR (graph_exact node [''id'', ''manifestId'', ''manifestDigest'', ''inputRef'', ''resultRef'', ''dependsOn'', ''timeoutMs'']
       (node_label index)) (\<lambda>_.
     bindR (read_dependencies (js_field node ''dependsOn'')) (\<lambda>deps.
     bindR (graph_identifier (js_field node ''id'') ''node id'') (\<lambda>i.
     bindR (graph_identifier (js_field node ''manifestId'') ''node manifestId'') (\<lambda>m.
     bindR (guardR (is_str (js_field node ''manifestDigest'') \<and> sha256_hex (the_str (js_field node ''manifestDigest'')))
       ''node manifestDigest must be a SHA-256 digest'') (\<lambda>_.
     bindR (typedReference (js_field node ''inputRef'') ''node inputRef'' [''input'', ''artifact'', ''memory'']) (\<lambda>inp.
     bindR (typedReference (js_field node ''resultRef'') ''node resultRef'' [''result'', ''artifact'']) (\<lambda>res.
     bindR (if js_field node ''timeoutMs'' = JUndef then Inr None
       else bindR (bounded_positive (js_field node ''timeoutMs'') ''node timeoutMs'' MAX_AGENT_TIMEOUT_MS) (\<lambda>t. Inr (Some t))) (\<lambda>t.
     Inr \<lparr>an_id = i, an_manifestId = m, an_manifestDigest = the_str (js_field node ''manifestDigest''), an_inputRef = inp,
       an_resultRef = res, an_dependsOn = deps, an_timeoutMs = t\<rparr>))))))))))"

definition node_ids :: "agent_node list \<Rightarrow> string list" where
  "node_ids nodes = map an_id nodes"

text \<open>The first dependency that is not of the graph, or of the node itself.\<close>

definition check_dependency :: "string list \<Rightarrow> string \<times> string \<Rightarrow> string + unit" where
  "check_dependency ids = (\<lambda>(i, d).
     if d \<notin> set ids then Inl (''node '' @ i @ '' has an unknown dependency'')
     else if d = i then Inl ''agent run graph contains a self-cycle''
     else Inr ())"

definition graph_edges :: "agent_node list \<Rightarrow> (string \<times> string) list" where
  "graph_edges nodes = concat (map (\<lambda>n. map (\<lambda>d. (an_id n, d)) (an_dependsOn n)) nodes)"

definition child_count :: "agent_node list \<Rightarrow> string \<Rightarrow> nat" where
  "child_count nodes i = length (filter (\<lambda>e. snd e = i) (graph_edges nodes))"

definition dependencies_of :: "agent_node list \<Rightarrow> string \<Rightarrow> string list" where
  "dependencies_of nodes i = (case List.find (\<lambda>n. an_id n = i) nodes of None \<Rightarrow> [] | Some n \<Rightarrow> an_dependsOn n)"

text \<open>
  The depth of a node: one more than the largest depth of its dependencies.  Depths already known
  are in a map, the nodes on the way to the current one in a set; the fuel bounds the way.
\<close>

datatype 'a depth_result = Depth_cycle | Depth_fuel | Depths "(string \<times> nat) list" 'a

fun node_depth :: "nat \<Rightarrow> (string \<Rightarrow> string list) \<Rightarrow> string list \<Rightarrow> (string \<times> nat) list \<Rightarrow> string \<Rightarrow> nat depth_result"
  and node_depths :: "nat \<Rightarrow> (string \<Rightarrow> string list) \<Rightarrow> string list \<Rightarrow> (string \<times> nat) list \<Rightarrow> string list \<Rightarrow> nat depth_result"
where
  "node_depth fuel deps visiting depths i =
     (case fuel of
        0 \<Rightarrow> Depth_fuel
      | Suc f \<Rightarrow>
          (case jm_get depths i of
             Some d \<Rightarrow> Depths depths d
           | None \<Rightarrow>
               if i \<in> set visiting then Depth_cycle
               else (case node_depths f deps (i # visiting) depths (deps i) of
                   Depths depths' m \<Rightarrow> Depths (jm_set i (Suc m) depths') (Suc m)
                 | r \<Rightarrow> r)))"
| "node_depths fuel deps visiting depths [] = Depths depths 0"
| "node_depths fuel deps visiting depths (d # ds) =
     (case node_depth fuel deps visiting depths d of
        Depths depths' m \<Rightarrow>
          (case node_depths fuel deps visiting depths' ds of
             Depths depths'' m' \<Rightarrow> Depths depths'' (max m m')
           | r \<Rightarrow> r)
      | r \<Rightarrow> r)"

declare node_depth.simps [simp del]

fun check_depths :: "nat \<Rightarrow> (string \<Rightarrow> string list) \<Rightarrow> (string \<times> nat) list \<Rightarrow> string list \<Rightarrow> string + unit" where
  "check_depths fuel deps depths [] = Inr ()"
| "check_depths fuel deps depths (i # is) =
     (case node_depth fuel deps [] depths i of
        Depths depths' d \<Rightarrow>
          if MAX_AGENT_GRAPH_DEPTH < d then Inl ''agent run graph exceeds depth 8''
          else check_depths fuel deps depths' is
      | Depth_cycle \<Rightarrow> Inl ''agent run graph contains a cycle''
      | Depth_fuel \<Rightarrow> Inl ''out of fuel'')"

definition compare_ids :: "agent_node \<Rightarrow> agent_node \<Rightarrow> int" where
  "compare_ids l r = (if an_id l < an_id r then -1 else if an_id r < an_id l then 1 else 0)"

definition check_graph :: "agent_node list \<Rightarrow> string + unit" where
  "check_graph nodes =
     bindR (guardR (distinct (node_ids nodes)) ''agent run graph contains duplicate nodes'') (\<lambda>_.
     bindR (guardR (distinct (map an_resultRef nodes)) ''agent run graph contains duplicate resultRefs'') (\<lambda>_.
     bindR (mapR (check_dependency (node_ids nodes)) (graph_edges nodes)) (\<lambda>_.
     bindR (guardR (length (graph_edges nodes) \<le> MAX_AGENT_GRAPH_EDGES) ''agent run graph exceeds 64 edges'') (\<lambda>_.
     bindR (guardR (list_all (\<lambda>i. child_count nodes i \<le> MAX_AGENT_GRAPH_FANOUT) (node_ids nodes)) ''agent run graph exceeds fanout 8'') (\<lambda>_.
     check_depths (Suc (length nodes)) (dependencies_of nodes) [] (node_ids nodes))))))"

definition validateAgentRunGraph :: "(string \<Rightarrow> string) \<Rightarrow> jsval \<Rightarrow> string + agent_graph" where
  "validateAgentRunGraph H parsed =
     bindR (cleanJson parsed ''agent run graph'') (\<lambda>clean.
     bindR (graph_object clean ''agent run graph'') (\<lambda>v.
     bindR (graph_exact v [''schemaVersion'', ''id'', ''nodes'', ''graphDigest''] ''agent run graph'') (\<lambda>_.
     bindR (guardR (js_field v ''schemaVersion'' = JInt AGENT_RUN_GRAPH_SCHEMA_VERSION)
       ''agent run graph has unsupported schemaVersion'') (\<lambda>_.
     case js_field v ''nodes'' of
       JArr items \<Rightarrow>
         if items = [] \<or> MAX_AGENT_GRAPH_NODES < length items then Inl ''agent run graph requires 1-32 nodes''
         else
           bindR (mapR read_node (enumerate 0 items)) (\<lambda>read.
           let nodes = sort_cmp compare_ids read in
           bindR (check_graph nodes) (\<lambda>_.
           bindR (graph_identifier (js_field v ''id'') ''graph id'') (\<lambda>i.
           let digest = hash_json H (JObj (graph_fields i nodes)); given = js_field v ''graphDigest'' in
           if given \<noteq> JUndef \<and> given \<noteq> JStr digest then Inl ''agent run graph digest is invalid''
           else Inr \<lparr>ag_id = i, ag_nodes = nodes, ag_digest = digest\<rparr>)))
     | _ \<Rightarrow> Inl ''agent run graph requires 1-32 nodes''))))"

end
