(* ===== verification/Agent_Graph_Laws.thy ===== *)
theory Agent_Graph_Laws
  imports Agent_Graphs
begin

text \<open>
  What an accepted agent run graph is: the depth search finds exactly the longest chains of
  dependencies, and the whole validation accepts exactly bounded graphs without a cycle.
\<close>

section \<open>Chains of dependencies\<close>

fun dep_chain :: "(string \<Rightarrow> string list) \<Rightarrow> string list \<Rightarrow> bool" where
  "dep_chain deps (i # j # ps) \<longleftrightarrow> j \<in> set (deps i) \<and> dep_chain deps (j # ps)"
| "dep_chain deps ps \<longleftrightarrow> True"

lemma dep_chain_append:
  "dep_chain deps (ps @ [i]) \<Longrightarrow> dep_chain deps (i # qs) \<Longrightarrow> dep_chain deps (ps @ i # qs)"
  by (induction deps ps rule: dep_chain.induct) auto

lemma dep_chain_tl: "dep_chain deps (i # ps) \<Longrightarrow> dep_chain deps ps"
  by (cases ps) auto

lemma dep_chain_drop: "dep_chain deps (ps @ qs) \<Longrightarrow> dep_chain deps qs"
  by (induction ps) (auto dest: dep_chain_tl)

lemma dep_chain_snoc: "dep_chain deps (ps @ [i]) \<Longrightarrow> j \<in> set (deps i) \<Longrightarrow> dep_chain deps (ps @ [i, j])"
  by (rule dep_chain_append [of deps ps i "[j]", simplified]) auto

lemma dep_cycle_long:
  assumes "dep_chain deps (j # ps @ [j])"
  shows "\<exists>qs. dep_chain deps (j # qs) \<and> n \<le> length qs"
proof (induction n)
  case (Suc n)
  then obtain qs where "dep_chain deps (j # qs)" "n \<le> length qs" by blast
  with dep_chain_append [of deps "j # ps" j qs] assms
  show ?case by (intro exI [of _ "ps @ j # qs"]) simp
qed (auto intro: exI [of _ "[]"])

definition chains_within :: "(string \<Rightarrow> string list) \<Rightarrow> nat \<Rightarrow> string \<Rightarrow> bool" where
  "chains_within deps d i \<longleftrightarrow> (\<forall>ps. dep_chain deps (i # ps) \<longrightarrow> Suc (length ps) \<le> d)"

definition chain_of :: "(string \<Rightarrow> string list) \<Rightarrow> nat \<Rightarrow> string \<Rightarrow> bool" where
  "chain_of deps d i \<longleftrightarrow> (\<exists>ps. dep_chain deps (i # ps) \<and> Suc (length ps) = d)"

definition longest :: "(string \<Rightarrow> string list) \<Rightarrow> string \<times> nat \<Rightarrow> bool" where
  "longest deps = (\<lambda>(i, d). chains_within deps d i \<and> chain_of deps d i)"

lemma chains_within_mono: "chains_within deps d i \<Longrightarrow> d \<le> e \<Longrightarrow> chains_within deps e i"
  by (fastforce simp: chains_within_def)

lemma chains_within_step:
  "\<forall>j\<in>set (deps i). chains_within deps m j \<Longrightarrow> chains_within deps (Suc m) i"
  unfolding chains_within_def
proof (intro allI impI)
  fix ps assume a: "\<forall>j\<in>set (deps i). \<forall>ps. dep_chain deps (j # ps) \<longrightarrow> Suc (length ps) \<le> m" "dep_chain deps (i # ps)"
  show "Suc (length ps) \<le> Suc m" using a by (cases ps) auto
qed

lemma chain_of_step: "j \<in> set (deps i) \<Longrightarrow> chain_of deps m j \<Longrightarrow> chain_of deps (Suc m) i"
  unfolding chain_of_def by (metis dep_chain.simps(1) length_Cons)

lemma chain_of_self: "chain_of deps (Suc 0) i"
  by (auto simp: chain_of_def intro: exI [of _ "[]"])

lemma longest_unique: "longest deps (i, d) \<Longrightarrow> longest deps (i, e) \<Longrightarrow> d = e"
  by (force simp: longest_def chains_within_def chain_of_def)

section \<open>The depth search\<close>

lemma node_depth_unfold:
  "node_depth 0 deps P M i = Depth_fuel"
  "node_depth (Suc f) deps P M i =
     (case jm_get M i of
        Some d \<Rightarrow> Depths M d
      | None \<Rightarrow> if i \<in> set P then Depth_cycle
          else (case node_depths f deps (i # P) M (deps i) of
              Depths M' m \<Rightarrow> Depths (jm_set i (Suc m) M') (Suc m) | r \<Rightarrow> r))"
  by (subst node_depth.simps, simp)+

lemma depth_result_case:
  "(case r of Depths N m \<Rightarrow> Depths (g N m) (h m) | x \<Rightarrow> x) = Depths M' d \<longleftrightarrow>
     (\<exists>N m. r = Depths N m \<and> g N m = M' \<and> h m = d)"
  by (cases r) auto

lemma depth_sound:
  shows "node_depth f deps P M i = Depths M' d \<Longrightarrow> \<forall>e\<in>set M. longest deps e \<Longrightarrow>
      longest deps (i, d) \<and> (\<forall>e\<in>set M'. longest deps e)"
    and "node_depths f deps P M ds = Depths M' d \<Longrightarrow> \<forall>e\<in>set M. longest deps e \<Longrightarrow>
      (\<forall>j\<in>set ds. chains_within deps d j) \<and> (d = 0 \<and> ds = [] \<or> (\<exists>j\<in>set ds. chain_of deps d j)) \<and>
      (\<forall>e\<in>set M'. longest deps e)"
proof (induction f deps P M i and f deps P M ds arbitrary: M' d and M' d rule: node_depth_node_depths.induct)
  case (1 f deps P M i)
  then obtain g where f: "f = Suc g" by (cases f) (auto simp: node_depth_unfold)
  show ?case
  proof (cases "jm_get M i")
    case (Some e)
    then have "(i, e) \<in> set M" by (rule map_of_SomeD)
    with "1.prems" f Some show ?thesis by (auto simp: node_depth_unfold)
  next
    case None
    have p: "i \<notin> set P" using "1.prems"(1) f None by (auto simp: node_depth_unfold)
    with "1.prems"(1) f None have "(case node_depths g deps (i # P) M (deps i) of
        Depths N m \<Rightarrow> Depths (jm_set i (Suc m) N) (Suc m) | r \<Rightarrow> r) = Depths M' d"
      by (simp add: node_depth_unfold)
    then obtain N m where nm: "node_depths g deps (i # P) M (deps i) = Depths N m" "jm_set i (Suc m) N = M'" "Suc m = d"
      unfolding depth_result_case by blast
    note ih = "1.IH" [OF f None p nm(1) "1.prems"(2)]
    have w: "chains_within deps (Suc m) i" using ih by (blast intro: chains_within_step)
    have c: "chain_of deps (Suc m) i"
    proof (cases "deps i = []")
      case True
      with nm(1) have "m = 0" by simp
      then show ?thesis using chain_of_self by simp
    next
      case False
      with ih obtain j where "j \<in> set (deps i)" "chain_of deps m j" by blast
      then show ?thesis by (rule chain_of_step)
    qed
    from w c have l: "longest deps (i, d)" by (simp add: longest_def nm(3) [symmetric])
    moreover have "longest deps e" if "e \<in> set M'" for e
      using that ih l jm_set_subset [of i "Suc m" N] unfolding nm(2,3) [symmetric] by blast
    ultimately show ?thesis by blast
  qed
next
  case (3 f deps P M j ds)
  from "3.prems"(1) obtain N m m' where
    s: "node_depth f deps P M j = Depths N m" "node_depths f deps P N ds = Depths M' m'" "d = max m m'"
    by (auto split: depth_result.splits)
  note h = "3.IH"(1) [OF s(1) "3.prems"(2)]
  note t = "3.IH"(2) [OF s(1,2)]
  have N: "\<forall>e\<in>set N. longest deps e" and j: "chains_within deps m j" "chain_of deps m j"
    using h by (auto simp: longest_def)
  note t = t [OF N]
  have "chains_within deps d k" if "k \<in> set (j # ds)" for k
    using that j t unfolding s(3) by (auto intro: chains_within_mono)
  moreover have "\<exists>k\<in>set (j # ds). chain_of deps d k"
  proof (cases "m' \<le> m")
    case True
    then show ?thesis using j s(3) by (auto simp: max_def)
  next
    case False
    then have "d = m'" "d \<noteq> 0" using s(3) by auto
    with t show ?thesis by auto
  qed
  ultimately show ?case using t by blast
qed auto

definition deps_in :: "string set \<Rightarrow> (string \<Rightarrow> string list) \<Rightarrow> bool" where
  "deps_in ids deps \<longleftrightarrow> (\<forall>i\<in>ids. set (deps i) \<subseteq> ids)"

lemma depth_cycle:
  shows "node_depth f deps P M i = Depth_cycle \<Longrightarrow> deps_in ids deps \<Longrightarrow> set (i # P) \<subseteq> ids \<Longrightarrow>
      dep_chain deps (rev (i # P)) \<Longrightarrow> \<exists>j\<in>ids. \<exists>ps. dep_chain deps (j # ps @ [j])"
    and "node_depths f deps P M ds = Depth_cycle \<Longrightarrow> deps_in ids deps \<Longrightarrow> set ds \<subseteq> ids \<Longrightarrow> set P \<subseteq> ids \<Longrightarrow>
      (\<And>j. j \<in> set ds \<Longrightarrow> dep_chain deps (rev (j # P))) \<Longrightarrow> \<exists>j\<in>ids. \<exists>ps. dep_chain deps (j # ps @ [j])"
proof (induction f deps P M i and f deps P M ds rule: node_depth_node_depths.induct)
  case (1 f deps P M i)
  then obtain g where f: "f = Suc g" by (cases f) (auto simp: node_depth_unfold)
  with "1.prems"(1) have n: "jm_get M i = None"
    by (auto simp: node_depth_unfold split: option.splits)
  show ?case
  proof (cases "i \<in> set P")
    case True
    then obtain qs rs where "P = qs @ i # rs" by (auto dest: split_list)
    with "1.prems"(4) have "dep_chain deps (rev rs @ (i # rev qs @ [i]))" by (simp del: dep_chain.simps)
    then have "dep_chain deps (i # rev qs @ [i])" by (rule dep_chain_drop)
    then show ?thesis using "1.prems"(3) by auto
  next
    case False
    with "1.prems"(1) f n have c: "node_depths g deps (i # P) M (deps i) = Depth_cycle"
      by (auto simp: node_depth_unfold split: depth_result.splits)
    show ?thesis
    proof (rule "1.IH" [OF f n False c "1.prems"(2)])
      show "set (deps i) \<subseteq> ids" "set (i # P) \<subseteq> ids" using "1.prems"(2,3) by (auto simp: deps_in_def)
      show "dep_chain deps (rev (j # i # P))" if "j \<in> set (deps i)" for j
        using dep_chain_snoc [of deps "rev P" i j] "1.prems"(4) that by simp
    qed
  qed
next
  case (3 f deps P M j ds)
  show ?case
  proof (cases "node_depth f deps P M j")
    case (Depths N m)
    with "3.prems"(1) have "node_depths f deps P N ds = Depth_cycle" by (auto split: depth_result.splits)
    with "3.IH"(2) [OF Depths] "3.prems" show ?thesis by auto
  qed (use 3 in auto)
qed auto

lemma depth_fuel:
  shows "deps_in ids deps \<Longrightarrow> i \<in> ids \<Longrightarrow> finite ids \<Longrightarrow> distinct P \<Longrightarrow> set P \<subseteq> ids \<Longrightarrow>
      card ids < f + length P \<Longrightarrow> node_depth f deps P M i \<noteq> Depth_fuel"
    and "deps_in ids deps \<Longrightarrow> set ds \<subseteq> ids \<Longrightarrow> finite ids \<Longrightarrow> distinct P \<Longrightarrow> set P \<subseteq> ids \<Longrightarrow>
      card ids < f + length P \<Longrightarrow> node_depths f deps P M ds \<noteq> Depth_fuel"
proof (induction f deps P M i and f deps P M ds rule: node_depth_node_depths.induct)
  case (1 f deps P M i)
  have "length P \<le> card ids" using "1.prems" by (metis card_mono distinct_card)
  then obtain g where f: "f = Suc g" using "1.prems"(6) by (cases f) auto
  show ?case
  proof (cases "jm_get M i = None \<and> i \<notin> set P")
    case True
    then have "node_depths g deps (i # P) M (deps i) \<noteq> Depth_fuel"
      using "1.IH" [OF f] "1.prems" f by (auto simp: deps_in_def)
    with True f show ?thesis by (auto simp: node_depth_unfold split: depth_result.splits)
  qed (use f in \<open>auto simp: node_depth_unfold split: option.splits\<close>)
next
  case (3 f deps P M j ds)
  then show ?case by (cases "node_depth f deps P M j") (auto split: depth_result.splits)
qed auto

lemma check_depths_iff:
  assumes "deps_in ids deps" "finite ids" "card ids < f"
  shows "set is \<subseteq> ids \<Longrightarrow> \<forall>e\<in>set M. longest deps e \<Longrightarrow>
    \<forall>i\<in>ids - set is. chains_within deps MAX_AGENT_GRAPH_DEPTH i \<Longrightarrow>
    check_depths f deps M is = Inr () \<longleftrightarrow> (\<forall>i\<in>ids. chains_within deps MAX_AGENT_GRAPH_DEPTH i)"
proof (induction "is" arbitrary: M)
  case (Cons i "is")
  note i = Cons.prems
  have "node_depth f deps [] M i \<noteq> Depth_fuel"
    using depth_fuel(1) [of ids deps i "[]" f M] assms i(1) by auto
  then consider (cycle) "node_depth f deps [] M i = Depth_cycle" | (ok) N d where "node_depth f deps [] M i = Depths N d"
    by (cases "node_depth f deps [] M i") auto
  then show ?case
  proof cases
    case cycle
    then obtain j ps where "j \<in> ids" "dep_chain deps (j # ps @ [j])"
      using depth_cycle(1) [OF cycle assms(1)] i(1) by auto
    then have "\<not> chains_within deps MAX_AGENT_GRAPH_DEPTH j" "j \<in> ids"
      using dep_cycle_long [of deps j ps MAX_AGENT_GRAPH_DEPTH] by (auto simp: chains_within_def Suc_le_eq)
    with cycle show ?thesis by auto
  next
    case ok
    note s = depth_sound(1) [OF ok i(2)]
    then have d: "chains_within deps MAX_AGENT_GRAPH_DEPTH i \<longleftrightarrow> d \<le> MAX_AGENT_GRAPH_DEPTH"
      by (auto simp: longest_def chain_of_def chains_within_def intro: chains_within_mono elim: le_trans)
    show ?thesis
    proof (cases "d \<le> MAX_AGENT_GRAPH_DEPTH")
      case True
      with d have "\<forall>k\<in>ids - set is. chains_within deps MAX_AGENT_GRAPH_DEPTH k" using i(3) by auto
      with Cons.IH [of N] i(1) s ok True show ?thesis by simp
    next
      case False
      with d ok i(1) show ?thesis by auto
    qed
  qed
qed auto

section \<open>The whole check\<close>

lemma mapR_ok: "(\<exists>ys. mapR f xs = Inr ys) \<longleftrightarrow> (\<forall>x\<in>set xs. \<exists>y. f x = Inr y)"
  by (induction xs) (auto simp: bindR_Inr_iff)

lemma dependencies_of_node:
  "i \<in> set (node_ids nodes) \<Longrightarrow> \<exists>n\<in>set nodes. an_id n = i \<and> dependencies_of nodes i = an_dependsOn n"
  by (force simp: dependencies_of_def node_ids_def find_Some_iff find_None_iff in_set_conv_nth split: option.splits)

lemma dependencies_of_id:
  assumes "distinct (node_ids nodes)" "n \<in> set nodes"
  shows "dependencies_of nodes (an_id n) = an_dependsOn n"
proof -
  obtain m where m: "m \<in> set nodes" "an_id m = an_id n" "dependencies_of nodes (an_id n) = an_dependsOn m"
    using dependencies_of_node [of "an_id n" nodes] assms(2) by (auto simp: node_ids_def)
  have "m = n" using assms m(1,2) by (auto simp: node_ids_def distinct_map inj_on_def)
  with m(3) show ?thesis by simp
qed

definition deps_known :: "agent_node list \<Rightarrow> bool" where
  "deps_known nodes \<longleftrightarrow> (\<forall>n\<in>set nodes. set (an_dependsOn n) \<subseteq> set (node_ids nodes) - {an_id n})"

lemma deps_known_in: "deps_known nodes \<Longrightarrow> deps_in (set (node_ids nodes)) (dependencies_of nodes)"
  using dependencies_of_node by (fastforce simp: deps_known_def deps_in_def)

lemma check_dependencies_iff:
  "(\<exists>us. mapR (check_dependency (node_ids nodes)) (graph_edges nodes) = Inr us) \<longleftrightarrow> deps_known nodes"
  by (auto simp: mapR_ok check_dependency_def graph_edges_def deps_known_def split: if_splits)

lemma chains_within_iff:
  "(\<forall>i\<in>S. chains_within deps d i) \<longleftrightarrow> (\<forall>ps. ps \<noteq> [] \<and> hd ps \<in> S \<and> dep_chain deps ps \<longrightarrow> length ps \<le> d)"
proof safe
  fix ps assume "\<forall>i\<in>S. chains_within deps d i" "ps \<noteq> []" "hd ps \<in> S" "dep_chain deps ps"
  then show "length ps \<le> d" by (cases ps) (auto simp: chains_within_def)
qed (force simp: chains_within_def)

lemma check_all_depths:
  assumes "deps_known nodes"
  shows "check_depths (Suc (length nodes)) (dependencies_of nodes) [] (node_ids nodes) = Inr () \<longleftrightarrow>
    (\<forall>i\<in>set (node_ids nodes). chains_within (dependencies_of nodes) MAX_AGENT_GRAPH_DEPTH i)"
  using card_length [of "node_ids nodes"]
  by (intro check_depths_iff deps_known_in assms) (auto simp: node_ids_def)

lemma check_graph_cases:
  "check_graph nodes = Inr () \<longleftrightarrow>
     distinct (node_ids nodes) \<and> distinct (map an_resultRef nodes) \<and> deps_known nodes \<and>
     length (graph_edges nodes) \<le> MAX_AGENT_GRAPH_EDGES \<and>
     (\<forall>i\<in>set (node_ids nodes). child_count nodes i \<le> MAX_AGENT_GRAPH_FANOUT) \<and>
     (\<forall>i\<in>set (node_ids nodes). chains_within (dependencies_of nodes) MAX_AGENT_GRAPH_DEPTH i)"
  unfolding check_graph_def bindR_Inr_iff guardR_Inr_iff check_dependencies_iff [symmetric] list_all_iff
  using check_all_depths [unfolded check_dependencies_iff [symmetric]] by auto

text \<open>
  C24. The check of a graph accepts exactly the graphs whose node ids and result references are
  distinct, whose dependencies are other nodes of the graph, with at most 64 dependencies in
  all and 8 nodes that wait for one, and no chain of dependencies longer than 8 nodes (so no cycle).
\<close>

theorem graph_check_exact:
  "check_graph nodes = Inr () \<longleftrightarrow>
     distinct (map an_id nodes) \<and> distinct (map an_resultRef nodes) \<and>
     (\<forall>n\<in>set nodes. set (an_dependsOn n) \<subseteq> set (map an_id nodes) - {an_id n}) \<and>
     length (graph_edges nodes) \<le> 64 \<and> (\<forall>n\<in>set nodes. child_count nodes (an_id n) \<le> 8) \<and>
     (\<forall>ps. ps \<noteq> [] \<and> hd ps \<in> set (map an_id nodes) \<and> dep_chain (dependencies_of nodes) ps \<longrightarrow> length ps \<le> 8)"
  unfolding check_graph_cases chains_within_iff
  by (simp add: deps_known_def node_ids_def MAX_AGENT_GRAPH_EDGES_def MAX_AGENT_GRAPH_FANOUT_def MAX_AGENT_GRAPH_DEPTH_def)

section \<open>Accepted graphs\<close>

lemma set_insert_cmp: "set (insert_cmp cmp x ys) = insert x (set ys)"
  by (metis mset_insert_cmp set_mset_mset set_mset_add_mset_insert)

lemma insert_cmp_sorted:
  "sorted (map an_id ns) \<Longrightarrow> sorted (map an_id (insert_cmp compare_ids n ns))"
  by (induction ns) (auto simp: compare_ids_def not_less set_insert_cmp split: if_splits)

lemma sort_ids_sorted: "sorted (map an_id (sort_cmp compare_ids ns))"
  by (induction ns) (simp_all add: insert_cmp_sorted)

definition node_ok :: "agent_node \<Rightarrow> bool" where
  "node_ok n \<longleftrightarrow> GRAPH_IDENTIFIER (an_id n) \<and> GRAPH_IDENTIFIER (an_manifestId n) \<and> sha256_hex (an_manifestDigest n) \<and>
     before_colon (an_inputRef n) \<in> {''input'', ''artifact'', ''memory''} \<and>
     before_colon (an_resultRef n) \<in> {''result'', ''artifact''} \<and>
     sorted (an_dependsOn n) \<and> distinct (an_dependsOn n) \<and> length (an_dependsOn n) \<le> 32 \<and>
     (case an_timeoutMs n of None \<Rightarrow> True | Some t \<Rightarrow> 1 \<le> t \<and> t \<le> 300000)"

lemma read_dependencies_ok:
  "read_dependencies v = Inr deps \<Longrightarrow> sorted deps \<and> distinct deps \<and> length deps \<le> 32"
  by (auto simp: read_dependencies_def bindR_Inr_iff MAX_AGENT_GRAPH_NODES_def dest!: mapR_length split: jsval.splits if_splits)

lemma graph_identifier_Inr: "graph_identifier v l = Inr s \<longleftrightarrow> v = JStr s \<and> GRAPH_IDENTIFIER s"
  by (cases v) (auto simp: graph_identifier_def)

lemma bounded_positive_Inr: "bounded_positive v l m = Inr n \<longleftrightarrow> v = JInt n \<and> is_safe_int n \<and> 1 \<le> n \<and> n \<le> m"
  by (cases v) (auto simp: bounded_positive_def)

lemma matches_lower: "list_all (\<lambda>c. is_lower c \<or> is_digit c \<or> c = CHR ''-'') s \<Longrightarrow> map ascii_lower s = s"
  by (induction s) (auto simp: ascii_lower_def is_lower_def is_upper_def is_digit_def Let_def split: if_splits)

lemma OPAQUE_lower: "OPAQUE_REFERENCE s \<Longrightarrow> map ascii_lower (before_colon s) = before_colon s"
  by (rule matches_lower) (cases "before_colon s"; auto simp: OPAQUE_REFERENCE_def Let_def matches_def list_all_iff)

lemma typedReference_Inr:
  "typedReference v l ps = Inr s \<longleftrightarrow> v = JStr s \<and> OPAQUE_REFERENCE s \<and> before_colon s \<in> set ps \<and> \<not> FORBIDDEN_IDENTITY s"
proof (cases "is_str v")
  case True
  then obtain t where "v = JStr t" by (cases v) auto
  then show ?thesis using OPAQUE_lower [of t] by (auto simp add: typedReference_def simp del: list.set)
qed (auto simp: typedReference_def)

lemma read_node_ok: "read_node e = Inr n \<Longrightarrow> node_ok n"
proof -
  assume "read_node e = Inr n"
  then obtain node deps i m inp res t where r: "read_dependencies (js_field node ''dependsOn'') = Inr deps"
      "graph_identifier (js_field node ''id'') ''node id'' = Inr i"
      "graph_identifier (js_field node ''manifestId'') ''node manifestId'' = Inr m"
      "sha256_hex (the_str (js_field node ''manifestDigest''))"
      "typedReference (js_field node ''inputRef'') ''node inputRef'' [''input'', ''artifact'', ''memory''] = Inr inp"
      "typedReference (js_field node ''resultRef'') ''node resultRef'' [''result'', ''artifact''] = Inr res"
      "(if js_field node ''timeoutMs'' = JUndef then Inr None
        else bindR (bounded_positive (js_field node ''timeoutMs'') ''node timeoutMs'' MAX_AGENT_TIMEOUT_MS) (\<lambda>t. Inr (Some t))) = Inr t"
      "\<lparr>an_id = i, an_manifestId = m, an_manifestDigest = the_str (js_field node ''manifestDigest''), an_inputRef = inp,
        an_resultRef = res, an_dependsOn = deps, an_timeoutMs = t\<rparr> = n"
    unfolding read_node_def case_prod_beta bindR_Inr_iff guardR_Inr_iff sum.inject
    by (elim exE conjE) (rule that; assumption)
  have "case t of None \<Rightarrow> True | Some t \<Rightarrow> 1 \<le> t \<and> t \<le> 300000"
    using r(7) by (auto simp: bindR_Inr_iff bounded_positive_Inr MAX_AGENT_TIMEOUT_MS_def split: if_splits)
  moreover note read_dependencies_ok [OF r(1)] r(2,3) [unfolded graph_identifier_Inr] r(4) r(5,6) [unfolded typedReference_Inr list.set]
  ultimately show "node_ok n" unfolding r(8) [symmetric] node_ok_def agent_node.simps by blast
qed

lemma validateAgentRunGraph_Inr:
  assumes "validateAgentRunGraph H v = Inr g"
  obtains items read where "length read = length items" "items \<noteq> []" "length items \<le> 32"
    "mapR read_node (enumerate 0 items) = Inr read" "ag_nodes g = sort_cmp compare_ids read" "check_graph (ag_nodes g) = Inr ()"
    "ag_digest g = hash_json H (JObj (graph_fields (ag_id g) (ag_nodes g)))" "GRAPH_IDENTIFIER (ag_id g)"
proof -
  from assms obtain fs where "(case js_field fs ''nodes'' of
       JArr items \<Rightarrow>
         if items = [] \<or> MAX_AGENT_GRAPH_NODES < length items then Inl ''agent run graph requires 1-32 nodes''
         else
           bindR (mapR read_node (enumerate 0 items)) (\<lambda>read.
           let nodes = sort_cmp compare_ids read in
           bindR (check_graph nodes) (\<lambda>_.
           bindR (graph_identifier (js_field fs ''id'') ''graph id'') (\<lambda>i.
           let digest = hash_json H (JObj (graph_fields i nodes)); given = js_field fs ''graphDigest'' in
           if given \<noteq> JUndef \<and> given \<noteq> JStr digest then Inl ''agent run graph digest is invalid''
           else Inr \<lparr>ag_id = i, ag_nodes = nodes, ag_digest = digest\<rparr>)))
     | _ \<Rightarrow> Inl ''agent run graph requires 1-32 nodes'') = Inr g"
    by (auto simp: validateAgentRunGraph_def bindR_Inr_iff)
  then obtain items read i where "items \<noteq> []" "length items \<le> 32" "mapR read_node (enumerate 0 items) = Inr read"
      "check_graph (sort_cmp compare_ids read) = Inr ()" "GRAPH_IDENTIFIER i"
      "g = \<lparr>ag_id = i, ag_nodes = sort_cmp compare_ids read, ag_digest = hash_json H (JObj (graph_fields i (sort_cmp compare_ids read)))\<rparr>"
    by (cases "js_field fs ''nodes''")
      (auto simp: bindR_Inr_iff graph_identifier_Inr MAX_AGENT_GRAPH_NODES_def Let_def split: if_splits)
  then show thesis using mapR_length [of read_node "enumerate 0 items" read] by (intro that [of read items]) auto
qed

lemma accepted_graph:
  assumes "validateAgentRunGraph H v = Inr g"
  shows "ag_nodes g \<noteq> []" "length (ag_nodes g) \<le> 32" "sorted (map an_id (ag_nodes g))" "\<forall>n\<in>set (ag_nodes g). node_ok n"
    "check_graph (ag_nodes g) = Inr ()" "distinct (map an_id (ag_nodes g))"
    "ag_digest g = hash_json H (JObj (graph_fields (ag_id g) (ag_nodes g)))" "GRAPH_IDENTIFIER (ag_id g)"
proof -
  obtain items read where r: "length read = length items" "items \<noteq> []" "length items \<le> 32"
    "mapR read_node (enumerate 0 items) = Inr read" "ag_nodes g = sort_cmp compare_ids read" "check_graph (ag_nodes g) = Inr ()"
    "ag_digest g = hash_json H (JObj (graph_fields (ag_id g) (ag_nodes g)))" "GRAPH_IDENTIFIER (ag_id g)"
    by (rule validateAgentRunGraph_Inr [OF assms])
  then show "ag_nodes g \<noteq> []" "length (ag_nodes g) \<le> 32" "sorted (map an_id (ag_nodes g))"
    using sort_ids_sorted [of read] length_sort_cmp [of compare_ids read] by (auto simp del: length_sort_cmp)
  show "\<forall>n\<in>set (ag_nodes g). node_ok n" unfolding r(5) using mapR_set [OF r(4)] read_node_ok by force
  show "distinct (map an_id (ag_nodes g))" using r(6) unfolding check_graph_cases node_ids_def by blast
  show "check_graph (ag_nodes g) = Inr ()" "GRAPH_IDENTIFIER (ag_id g)"
    "ag_digest g = hash_json H (JObj (graph_fields (ag_id g) (ag_nodes g)))" by fact+
qed

text \<open>
  C23. An accepted graph has 1 to 32 nodes in the order of their distinct ids, every field of a node
  is in its range, every dependency is another node of the graph, and its digest is the hash of its
  identifier and nodes.
\<close>

theorem accepted_graph_well_formed:
  assumes "validateAgentRunGraph H v = Inr g"
  shows "1 \<le> length (ag_nodes g) \<and> length (ag_nodes g) \<le> 32 \<and>
    sorted (map an_id (ag_nodes g)) \<and> distinct (map an_id (ag_nodes g)) \<and> distinct (map an_resultRef (ag_nodes g)) \<and>
    (\<forall>n\<in>set (ag_nodes g). node_ok n \<and> set (an_dependsOn n) \<subseteq> set (map an_id (ag_nodes g)) - {an_id n}) \<and>
    ag_digest g = hash_json H (JObj (graph_fields (ag_id g) (ag_nodes g)))"
  using accepted_graph [OF assms] unfolding check_graph_cases deps_known_def node_ids_def
  by (simp add: Suc_le_eq)

end
