(* ===== verification/Agent_Runner.thy ===== *)
theory Agent_Runner
  imports Agent_Graphs
begin

text \<open>
  The runner of \<open>packages/kernel/src/agent-run-graphs.ts\<close>: a run dispatches the nodes of an accepted
  graph level by level, in batches, and ends with one result per node.

  The environment of a batch says whether the run has been aborted when the batch starts, which of
  the dispatches still under way have settled by then, and how the dispatch of a node ends:
  with a receipt, with an error, uncertain because it was aborted while under way, or before it
  was started.
\<close>

section \<open>Requests and receipts\<close>

record dispatch_request =
  rq_graphRunId :: string
  rq_nodeCallId :: string
  rq_principal :: string
  rq_graphDigest :: string
  rq_manifestDigest :: string
  rq_requestDigest :: string
  rq_nodeId :: string
  rq_manifest :: agent_manifest
  rq_agentBinding :: "jsval option"
  rq_inputDigest :: "string option"
  rq_capabilities :: "string list"
  rq_inputRef :: string
  rq_resultRef :: string

record receipt =
  rc_resultDigest :: string
  rc_terminalStatus :: jsval
  rc_auditRef :: string

definition request_fields :: "dispatch_request \<Rightarrow> (string \<times> jsval) list" where
  "request_fields r =
     [(''schemaVersion'', JInt 1), (''graphRunId'', JStr (rq_graphRunId r)), (''nodeCallId'', JStr (rq_nodeCallId r)),
      (''principalNamespace'', JStr (rq_principal r)), (''graphDigest'', JStr (rq_graphDigest r)),
      (''manifestDigest'', JStr (rq_manifestDigest r)), (''nodeId'', JStr (rq_nodeId r)), (''manifest'', manifest_json (rq_manifest r))] @
     (case rq_agentBinding r of None \<Rightarrow> [] | Some b \<Rightarrow> [(''agentBinding'', b)]) @
     (case rq_inputDigest r of None \<Rightarrow> [] | Some d \<Rightarrow> [(''inputDigest'', JStr d)]) @
     [(''effectiveCapabilities'', JArr (map JStr (rq_capabilities r))), (''inputRef'', JStr (rq_inputRef r)),
      (''resultRef'', JStr (rq_resultRef r)), (''authorized'', JBool False), (''requiresAuditedDispatch'', JBool True)]"

definition check_binding :: "(string \<Rightarrow> string) \<Rightarrow> jsval option \<Rightarrow> (string \<times> jsval) list \<Rightarrow> string + unit" where
  "check_binding H expected v =
     (case expected of
        Some b \<Rightarrow>
          guardR (js_field v ''agentBindingDigest'' = JStr (hash_json H b) \<and> js_field v ''agentBinding'' \<noteq> JUndef \<and>
            hash_json H (js_field v ''agentBinding'') = hash_json H b) ''receipt agent binding mismatch''
      | None \<Rightarrow>
          guardR (js_field v ''agentBinding'' = JUndef \<and> js_field v ''agentBindingDigest'' = JUndef) ''receipt agent binding is unexpected'')"

definition TERMINAL_RESULTS :: "string list" where
  "TERMINAL_RESULTS = [''completed'', ''failed'', ''cancelled'', ''needs-review'']"

definition validateReceipt :: "(string \<Rightarrow> string) \<Rightarrow> dispatch_request \<Rightarrow> jsval \<Rightarrow> string + receipt" where
  "validateReceipt H request input =
     bindR (cleanJson input ''agent dispatch receipt'') (\<lambda>clean.
     bindR (graph_object clean ''agent dispatch receipt'') (\<lambda>v.
     bindR (graph_exact v [''graphRunId'', ''nodeCallId'', ''principalNamespace'', ''graphDigest'', ''manifestDigest'', ''requestDigest'',
       ''agentBinding'', ''agentBindingDigest'', ''producerNodeId'', ''resultRef'', ''resultDigest'', ''terminalStatus'', ''auditRef'']
       ''agent dispatch receipt'') (\<lambda>_.
     bindR (mapR (\<lambda>(k, s). guardR (js_field v k = JStr s) (''receipt '' @ k @ '' mismatch''))
       [(''graphRunId'', rq_graphRunId request), (''nodeCallId'', rq_nodeCallId request), (''principalNamespace'', rq_principal request),
        (''graphDigest'', rq_graphDigest request), (''manifestDigest'', rq_manifestDigest request),
        (''requestDigest'', rq_requestDigest request)]) (\<lambda>_.
     bindR (guardR (js_field v ''producerNodeId'' = JStr (rq_nodeId request) \<and> js_field v ''resultRef'' = JStr (rq_resultRef request))
       ''receipt node or result reference mismatch'') (\<lambda>_.
     bindR (check_binding H (rq_agentBinding request) v) (\<lambda>_.
     bindR (guardR (is_str (js_field v ''resultDigest'') \<and> sha256_hex (the_str (js_field v ''resultDigest'')))
       ''receipt resultDigest is invalid'') (\<lambda>_.
     bindR (guardR (js_String (js_field v ''terminalStatus'') \<in> set TERMINAL_RESULTS) ''receipt terminalStatus is invalid'') (\<lambda>_.
     bindR (typedReference (js_field v ''auditRef'') ''receipt auditRef'' [''audit'']) (\<lambda>audit.
     Inr \<lparr>rc_resultDigest = the_str (js_field v ''resultDigest''), rc_terminalStatus = js_field v ''terminalStatus'',
       rc_auditRef = audit\<rparr>)))))))))"

section \<open>Nodes\<close>

record node_result =
  nr_nodeId :: string
  nr_status :: jsval
  nr_nodeCallId :: "string option"
  nr_requestDigest :: "string option"
  nr_receipt :: "(string \<times> string \<times> string) option"
  nr_errorCode :: "string option"

definition plain_result :: "agent_node \<Rightarrow> string \<Rightarrow> string \<Rightarrow> node_result" where
  "plain_result n status code =
     \<lparr>nr_nodeId = an_id n, nr_status = JStr status, nr_nodeCallId = None, nr_requestDigest = None, nr_receipt = None,
      nr_errorCode = Some code\<rparr>"

datatype dispatch_end = Ends_with_receipt jsval | Ends_with_error | Ends_uncertain | Ends_before_start

record run_context =
  cx_graphRunId :: string
  cx_principal :: string
  cx_graph :: agent_graph
  cx_manifests :: "agent_manifest list"
  cx_authority :: "(string \<times> string list) list"
  cx_bindings :: "string \<Rightarrow> jsval option"
  cx_inputDigests :: "string \<Rightarrow> string option"
  cx_maxSlots :: int
  cx_concurrency :: int

definition manifest_of :: "agent_manifest list \<Rightarrow> string \<Rightarrow> agent_manifest option" where
  "manifest_of ms i = map_of (map (\<lambda>m. (am_id m, m)) ms) i"

definition call_id :: "(string \<Rightarrow> string) \<Rightarrow> run_context \<Rightarrow> agent_node \<Rightarrow> string" where
  "call_id H cx n = ''call:'' @ take 48 (hash_json H (JObj [(''principalNamespace'', JStr (cx_principal cx)),
     (''graphRunId'', JStr (cx_graphRunId cx)), (''graphDigest'', JStr (ag_digest (cx_graph cx))), (''nodeId'', JStr (an_id n))]))"

definition make_request :: "(string \<Rightarrow> string) \<Rightarrow> run_context \<Rightarrow> agent_manifest \<Rightarrow> agent_node \<Rightarrow> dispatch_request" where
  "make_request H cx m n =
     (let core = \<lparr>rq_graphRunId = cx_graphRunId cx, rq_nodeCallId = call_id H cx n, rq_principal = cx_principal cx,
            rq_graphDigest = ag_digest (cx_graph cx), rq_manifestDigest = am_digest m, rq_requestDigest = [], rq_nodeId = an_id n,
            rq_manifest = m, rq_agentBinding = cx_bindings cx (am_id m),
            rq_inputDigest = (case cx_inputDigests cx (an_inputRef n) of Some d \<Rightarrow> if d = [] then None else Some d | None \<Rightarrow> None),
            rq_capabilities = (case map_of (cx_authority cx) (am_id m) of None \<Rightarrow> [] | Some cs \<Rightarrow> cs),
            rq_inputRef = an_inputRef n, rq_resultRef = an_resultRef n\<rparr> in
      core\<lparr>rq_requestDigest := hash_json H (JObj (request_fields core))\<rparr>)"

definition run_node :: "(string \<Rightarrow> string) \<Rightarrow> run_context \<Rightarrow> agent_manifest \<Rightarrow> agent_node \<Rightarrow> dispatch_end \<Rightarrow> node_result" where
  "run_node H cx m n e =
     (let r = make_request H cx m n;
          uncertain = \<lparr>nr_nodeId = an_id n, nr_status = JStr ''needs-review'', nr_nodeCallId = Some (rq_nodeCallId r),
            nr_requestDigest = Some (rq_requestDigest r), nr_receipt = None, nr_errorCode = Some ''DISPATCH_OUTCOME_UNCERTAIN''\<rparr> in
      case e of
        Ends_before_start \<Rightarrow> plain_result n ''cancelled'' ''CANCELLED_BEFORE_DISPATCH''
      | Ends_with_error \<Rightarrow> uncertain
      | Ends_uncertain \<Rightarrow> uncertain
      | Ends_with_receipt v \<Rightarrow>
          (case validateReceipt H r v of
             Inl _ \<Rightarrow> uncertain
           | Inr c \<Rightarrow>
               \<lparr>nr_nodeId = an_id n, nr_status = rc_terminalStatus c, nr_nodeCallId = Some (rq_nodeCallId r),
                nr_requestDigest = Some (rq_requestDigest r), nr_receipt = Some (rc_auditRef c, rc_resultDigest c, rq_resultRef r),
                nr_errorCode = (if rc_terminalStatus c = JStr ''completed'' then None else Some ''AUDITED_TERMINAL'')\<rparr>))"

section \<open>Batches\<close>

fun node_level :: "nat \<Rightarrow> (string \<Rightarrow> string list) \<Rightarrow> string \<Rightarrow> nat" where
  "node_level 0 deps i = 0"
| "node_level (Suc f) deps i = (if deps i = [] then 0 else Suc (fold max (map (node_level f deps) (deps i)) 0))"

text \<open>An accepted graph has no chain of more than eight nodes, so this fuel is enough.\<close>

definition level_of :: "agent_node list \<Rightarrow> agent_node \<Rightarrow> nat" where
  "level_of nodes n = node_level MAX_AGENT_GRAPH_DEPTH (dependencies_of nodes) (an_id n)"

function chunks :: "nat \<Rightarrow> 'a list \<Rightarrow> 'a list list" where
  "chunks k xs = (if xs = [] \<or> k = 0 then [] else take k xs # chunks k (drop k xs))"
  by pat_completeness auto
termination by (relation "measure (\<lambda>(k, xs). length xs)") auto

declare chunks.simps [simp del]

definition run_batches :: "nat \<Rightarrow> agent_node list \<Rightarrow> agent_node list list" where
  "run_batches concurrency nodes =
     concat (map (\<lambda>l. chunks concurrency (filter (\<lambda>n. level_of nodes n = l) nodes))
       [0..<Suc (fold max (map (level_of nodes) nodes) 0)])"

record batch_env =
  be_aborted :: bool
  be_settled :: "string list"
  be_end :: "string \<Rightarrow> dispatch_end"

record run_state =
  rs_results :: "(string \<times> node_result) list"
  rs_physical :: "string list"
  rs_aborted :: bool

definition set_results :: "(agent_node \<Rightarrow> node_result) \<Rightarrow> agent_node list \<Rightarrow> (string \<times> node_result) list \<Rightarrow> (string \<times> node_result) list" where
  "set_results f ns rs = fold (\<lambda>n. jm_set (an_id n) (f n)) ns rs"

definition dependency_open :: "(string \<times> node_result) list \<Rightarrow> agent_node \<Rightarrow> bool" where
  "dependency_open rs n \<longleftrightarrow>
     list_ex (\<lambda>d. case jm_get rs d of None \<Rightarrow> True | Some r \<Rightarrow> nr_status r \<noteq> JStr ''completed'') (an_dependsOn n)"

definition the_manifest :: "run_context \<Rightarrow> agent_node \<Rightarrow> agent_manifest" where
  "the_manifest cx n = the (manifest_of (cx_manifests cx) (an_manifestId n))"

definition add_call :: "string \<Rightarrow> string list \<Rightarrow> string list" where
  "add_call c calls = (if c \<in> set calls then calls else calls @ [c])"

definition run_batch :: "(string \<Rightarrow> string) \<Rightarrow> run_context \<Rightarrow> batch_env \<Rightarrow> agent_node list \<Rightarrow> run_state \<Rightarrow> run_state" where
  "run_batch H cx env batch s =
     (let physical = filter (\<lambda>c. c \<notin> set (be_settled env)) (rs_physical s) in
      if rs_aborted s \<or> be_aborted env
      then \<lparr>rs_results = set_results (\<lambda>n. plain_result n ''cancelled'' ''CANCELLED_BEFORE_DISPATCH'') batch (rs_results s),
        rs_physical = physical, rs_aborted = True\<rparr>
      else
        let blocked = filter (dependency_open (rs_results s)) batch;
            results = set_results (\<lambda>n. plain_result n ''blocked'' ''DEPENDENCY_NOT_COMPLETED'') blocked (rs_results s);
            runnable = filter (\<lambda>n. jm_get results (an_id n) = None) batch in
        if cx_maxSlots cx < int (length physical + length runnable)
        then \<lparr>rs_results = set_results (\<lambda>n. plain_result n ''cancelled'' ''PHYSICAL_CAPACITY_UNAVAILABLE'') runnable results,
          rs_physical = physical, rs_aborted = True\<rparr>
        else \<lparr>rs_results = set_results (\<lambda>n. run_node H cx (the_manifest cx n) n (be_end env (an_id n))) runnable results,
          rs_physical = fold add_call (map (call_id H cx) (filter (\<lambda>n. be_end env (an_id n) = Ends_uncertain) runnable)) physical,
          rs_aborted = False\<rparr>)"

fun run_all :: "(string \<Rightarrow> string) \<Rightarrow> run_context \<Rightarrow> (nat \<Rightarrow> batch_env) \<Rightarrow> nat \<Rightarrow> agent_node list list \<Rightarrow> run_state \<Rightarrow> run_state" where
  "run_all H cx env k [] s = s"
| "run_all H cx env k (b # bs) s = run_all H cx env (Suc k) bs (run_batch H cx (env k) b s)"

section \<open>Runs\<close>

record runner =
  rn_maxPhysicalSlots :: int
  rn_physical :: "string list"
  rn_active :: "string option"
  rn_stopped :: bool

definition new_runner :: "jsval \<Rightarrow> string + runner" where
  "new_runner maxPhysicalSlots =
     bindR (bounded_positive (nullish maxPhysicalSlots (JInt 4)) ''maxPhysicalSlots'' 16) (\<lambda>n.
     Inr \<lparr>rn_maxPhysicalSlots = n, rn_physical = [], rn_active = None, rn_stopped = False\<rparr>)"

definition runner_cancel :: "runner \<Rightarrow> jsval \<Rightarrow> string + bool" where
  "runner_cancel r i =
     (case rn_active r of
        None \<Rightarrow> Inr False
      | Some a \<Rightarrow> bindR (graph_identifier i ''graphRunId'') (\<lambda>j. Inr (a = j)))"

text \<open>The dispatches of \<open>settled\<close> settle before the timeout.\<close>

definition runner_shutdown :: "runner \<Rightarrow> jsval \<Rightarrow> string list \<Rightarrow> runner \<times> (string + string list)" where
  "runner_shutdown r timeoutMs settled =
     (let stopped = r\<lparr>rn_stopped := True\<rparr>; rest = filter (\<lambda>c. c \<notin> set settled) (rn_physical r) in
      case bounded_positive timeoutMs ''shutdown timeoutMs'' MAX_AGENT_TIMEOUT_MS of
        Inl e \<Rightarrow> (stopped, Inl e)
      | Inr _ \<Rightarrow> (stopped\<lparr>rn_physical := rest\<rparr>, Inr (sort rest)))"

datatype run_error = Run_error string | Run_capability cap_error

definition lift_run :: "string + 'a \<Rightarrow> run_error + 'a" where
  "lift_run r = (case r of Inl m \<Rightarrow> Inl (Run_error m) | Inr a \<Rightarrow> Inr a)"

record run_input =
  ri_graphRunId :: jsval
  ri_principal :: jsval
  ri_graph :: agent_graph
  ri_manifests :: "agent_manifest list"
  ri_bindings :: "string \<Rightarrow> jsval option"
  ri_inputDigests :: "string \<Rightarrow> string option"
  ri_parentCapabilities :: jsval
  ri_maxConcurrency :: jsval
  ri_maxRunMs :: jsval

definition manifest_authority :: "jsval \<Rightarrow> agent_manifest \<Rightarrow> run_error + (string \<times> string list)" where
  "manifest_authority parent m =
     (case intersectChildCapabilities parent (JArr (map JStr (am_capabilities m))) (JArr (map JStr (am_tools m))) of
        Inl e \<Rightarrow> Inl (Run_capability e)
      | Inr cs \<Rightarrow> Inr (am_id m, cs))"

definition check_node :: "agent_graph \<Rightarrow> agent_manifest list \<Rightarrow> agent_node \<Rightarrow> run_error + unit" where
  "check_node g ms n =
     (case manifest_of ms (an_manifestId n) of
        None \<Rightarrow> Inl (Run_error (''node '' @ an_id n @ '' manifest identity does not match''))
      | Some m \<Rightarrow>
          if am_digest m \<noteq> an_manifestDigest n then Inl (Run_error (''node '' @ an_id n @ '' manifest identity does not match''))
          else if am_maxChildren m < int (length (filter (\<lambda>c. an_id n \<in> set (an_dependsOn c)) (ag_nodes g)))
          then Inl (Run_error (''node '' @ an_id n @ '' exceeds its manifest child limit''))
          else Inr ())"

definition run_begin :: "runner \<Rightarrow> run_input \<Rightarrow> run_error + run_context" where
  "run_begin r inp =
     bindR (guardR (\<not> rn_stopped r) (Run_error ''runner is stopped'')) (\<lambda>_.
     bindR (guardR (rn_active r = None) (Run_error ''runner already owns an active run'')) (\<lambda>_.
     bindR (guardR (rn_physical r = []) (Run_error ''runner has unresolved physical dispatches'')) (\<lambda>_.
     bindR (lift_run (graph_identifier (ri_graphRunId inp) ''graphRunId'')) (\<lambda>i.
     bindR (lift_run (principal (ri_principal inp))) (\<lambda>p.
     bindR (mapR (manifest_authority (ri_parentCapabilities inp)) (ri_manifests inp)) (\<lambda>authority.
     bindR (guardR (distinct (map am_id (ri_manifests inp))) (Run_error ''manifests collection contains duplicate ids'')) (\<lambda>_.
     bindR (mapR (check_node (ri_graph inp) (ri_manifests inp)) (ag_nodes (ri_graph inp))) (\<lambda>_.
     bindR (lift_run (bounded_positive (nullish (ri_maxConcurrency inp) (JInt (rn_maxPhysicalSlots r))) ''maxConcurrency''
       (rn_maxPhysicalSlots r))) (\<lambda>concurrency.
     bindR (lift_run (bounded_positive (nullish (ri_maxRunMs inp) (JInt MAX_AGENT_TIMEOUT_MS)) ''maxRunMs'' MAX_AGENT_TIMEOUT_MS)) (\<lambda>_.
     Inr \<lparr>cx_graphRunId = i, cx_principal = p, cx_graph = ri_graph inp, cx_manifests = ri_manifests inp, cx_authority = authority,
       cx_bindings = ri_bindings inp, cx_inputDigests = ri_inputDigests inp, cx_maxSlots = rn_maxPhysicalSlots r,
       cx_concurrency = concurrency\<rparr>))))))))))"

record run_result =
  rr_status :: string
  rr_nodes :: "node_result list"
  rr_pending :: nat

definition run_status :: "node_result list \<Rightarrow> string" where
  "run_status rs =
     (if list_ex (\<lambda>r. nr_status r = JStr ''needs-review'') rs then ''needs-review''
      else if list_ex (\<lambda>r. nr_status r = JStr ''failed'' \<or> nr_status r = JStr ''blocked'') rs then ''failed''
      else if list_ex (\<lambda>r. nr_status r = JStr ''cancelled'') rs then ''cancelled''
      else ''completed'')"

definition complete_results :: "agent_node list \<Rightarrow> (string \<times> node_result) list \<Rightarrow> (string \<times> node_result) list" where
  "complete_results nodes rs =
     set_results (\<lambda>n. plain_result n ''cancelled'' ''RUN_CANCELLED'') (filter (\<lambda>n. jm_get rs (an_id n) = None) nodes) rs"

definition run_end :: "(string \<Rightarrow> string) \<Rightarrow> run_context \<Rightarrow> (nat \<Rightarrow> batch_env) \<Rightarrow> run_state" where
  "run_end H cx env =
     (let nodes = ag_nodes (cx_graph cx) in
      run_all H cx env 0 (run_batches (nat (cx_concurrency cx)) nodes) \<lparr>rs_results = [], rs_physical = [], rs_aborted = False\<rparr>)"

definition run_graph :: "(string \<Rightarrow> string) \<Rightarrow> runner \<Rightarrow> run_input \<Rightarrow> (nat \<Rightarrow> batch_env) \<Rightarrow> runner \<times> (run_error + run_result)" where
  "run_graph H r inp env =
     (case run_begin r inp of
        Inl e \<Rightarrow> (r, Inl e)
      | Inr cx \<Rightarrow>
          let s = run_end H cx env; nodes = ag_nodes (cx_graph cx);
              ordered = map (\<lambda>n. the (jm_get (complete_results nodes (rs_results s)) (an_id n))) nodes in
          (r\<lparr>rn_physical := rs_physical s\<rparr>,
           Inr \<lparr>rr_status = run_status ordered, rr_nodes = ordered, rr_pending = length (rs_physical s)\<rparr>))"

end
