(* ===== verification/Agent_Runner_Laws.thy ===== *)
theory Agent_Runner_Laws
  imports Agent_Graph_Laws Agent_Runner
begin

text \<open>
  What a run of an accepted graph does: every node gets one result, a node is dispatched only
  when everything it depends on has completed, and with no more authority than the parent has.
\<close>

section \<open>Levels\<close>

lemma chains_within_dep:
  "chains_within deps (Suc d) i \<Longrightarrow> j \<in> set (deps i) \<Longrightarrow> chains_within deps d j"
  by (fastforce simp: chains_within_def dest: spec [of _ "j # _"])

lemma chains_within_zero: "\<not> chains_within deps 0 i"
  by (auto simp: chains_within_def intro: exI [of _ "[]"])

lemma node_level_stable:
  "chains_within deps (Suc f) i \<Longrightarrow> node_level (Suc f) deps i = node_level f deps i"
proof (induction f arbitrary: i)
  case 0
  then have "deps i = []"
    using chains_within_dep [of deps 0 i "hd (deps i)"] chains_within_zero by (cases "deps i") auto
  then show ?case by simp
next
  case (Suc f)
  then have "map (node_level (Suc f) deps) (deps i) = map (node_level f deps) (deps i)"
    using chains_within_dep by (intro map_cong) auto
  then show ?case by (metis node_level.simps(2))
qed

lemma fold_max_ge: "x \<in> set xs \<or> x \<le> (a::nat) \<Longrightarrow> x \<le> fold max xs a"
proof (induction xs arbitrary: a)
  case (Cons y xs)
  from Cons.prems have "x \<in> set xs \<or> x \<le> max y a" by (auto simp: le_max_iff_disj)
  then show ?case using Cons.IH by simp
qed simp

lemma node_level_dep:
  assumes "chains_within deps (Suc f) i" "j \<in> set (deps i)"
  shows "node_level (Suc f) deps j < node_level (Suc f) deps i"
proof -
  have "node_level (Suc f) deps j = node_level f deps j"
    using chains_within_dep [OF assms] by (intro node_level_stable) (auto intro: chains_within_mono)
  moreover have "node_level f deps j \<le> fold max (map (node_level f deps) (deps i)) 0"
    using assms(2) by (intro fold_max_ge) auto
  ultimately show ?thesis using assms(2) by auto
qed

lemma level_of_dep:
  assumes "check_graph nodes = Inr ()" "n \<in> set nodes" "d \<in> set (an_dependsOn n)"
  shows "\<exists>m\<in>set nodes. an_id m = d \<and> level_of nodes m < level_of nodes n"
proof -
  note c = assms(1) [unfolded check_graph_cases]
  then obtain m where m: "m \<in> set nodes" "an_id m = d"
    using assms(2,3) by (auto simp: deps_known_def node_ids_def)
  have "d \<in> set (dependencies_of nodes (an_id n))"
    using c assms(2,3) dependencies_of_id by auto
  then have "level_of nodes m < level_of nodes n"
    using c assms(2) m(2) node_level_dep [of "dependencies_of nodes" 7 "an_id n" d]
    by (auto simp: level_of_def MAX_AGENT_GRAPH_DEPTH_def node_ids_def)
  with m show ?thesis by blast
qed

section \<open>Batches\<close>

definition ids_of :: "agent_node list \<Rightarrow> string set" where
  "ids_of ns = an_id ` set ns"

lemma ids_of_append: "ids_of (ms @ ns) = ids_of ms \<union> ids_of ns"
  by (simp add: ids_of_def image_Un)

fun in_order :: "string set \<Rightarrow> agent_node list list \<Rightarrow> bool" where
  "in_order D [] \<longleftrightarrow> True"
| "in_order D (b # bs) \<longleftrightarrow> (\<forall>n\<in>set b. set (an_dependsOn n) \<subseteq> D) \<and> distinct (map an_id b) \<and> ids_of b \<inter> D = {} \<and>
     in_order (D \<union> ids_of b) bs"

lemma in_order_append:
  "in_order D (bs @ cs) \<longleftrightarrow> in_order D bs \<and> in_order (D \<union> ids_of (concat bs)) cs"
  by (induction bs arbitrary: D) (auto simp: ids_of_def image_Un Un_assoc)

lemma concat_chunks: "0 < k \<Longrightarrow> concat (chunks k xs) = xs"
  by (induction k xs rule: chunks.induct) (subst chunks.simps, simp)

lemma chunks_in_order:
  "0 < k \<Longrightarrow> \<forall>n\<in>set xs. set (an_dependsOn n) \<subseteq> D \<Longrightarrow> distinct (map an_id xs) \<Longrightarrow> ids_of xs \<inter> D = {} \<Longrightarrow>
    in_order D (chunks k xs)"
proof (induction k xs arbitrary: D rule: chunks.induct)
  case (1 k xs)
  show ?case
  proof (cases "xs = []")
    case False
    have xs: "map an_id xs = map an_id (take k xs) @ map an_id (drop k xs)"
      by (metis append_take_drop_id map_append)
    have "distinct (map an_id (take k xs) @ map an_id (drop k xs))" using "1.prems"(3) xs by simp
    then have d: "distinct (map an_id (take k xs))" "distinct (map an_id (drop k xs))" "ids_of (take k xs) \<inter> ids_of (drop k xs) = {}"
      by (auto simp: ids_of_def simp del: distinct_map)
    have s: "set (take k xs) \<subseteq> set xs" "set (drop k xs) \<subseteq> set xs" by (rule set_take_subset, rule set_drop_subset)
    have i: "ids_of (take k xs) \<inter> D = {}" "ids_of (drop k xs) \<inter> D = {}"
      using "1.prems"(4) image_mono [OF s(1), of an_id] image_mono [OF s(2), of an_id] unfolding ids_of_def by blast+
    have "in_order (D \<union> ids_of (take k xs)) (chunks k (drop k xs))"
      using "1.prems"(1,2) False s(2) d i by (intro "1.IH") auto
    with False "1.prems"(1,2) s(1) d(1) i(1) show ?thesis
      by (subst chunks.simps) auto
  qed (subst chunks.simps, simp)
qed

definition wave :: "agent_node list \<Rightarrow> nat \<Rightarrow> agent_node list" where
  "wave nodes l = filter (\<lambda>n. level_of nodes n = l) nodes"

lemma waves_in_order:
  assumes "check_graph nodes = Inr ()" "0 < k"
  shows "in_order {} (concat (map (\<lambda>l. chunks k (wave nodes l)) [0..<m])) \<and>
    ids_of (concat (concat (map (\<lambda>l. chunks k (wave nodes l)) [0..<m]))) = an_id ` {n \<in> set nodes. level_of nodes n < m}"
proof (induction m)
  case (Suc m)
  let ?D = "an_id ` {n \<in> set nodes. level_of nodes n < m}"
  have dist: "distinct (map an_id nodes)" using assms(1) by (simp add: check_graph_cases node_ids_def)
  have w: "\<forall>n\<in>set (wave nodes m). set (an_dependsOn n) \<subseteq> ?D"
    using level_of_dep [OF assms(1)] by (fastforce simp: wave_def)
  have "ids_of (wave nodes m) \<inter> ?D = {}"
    using dist by (auto simp: ids_of_def wave_def distinct_map inj_on_def)
  then have "in_order ?D (chunks k (wave nodes m))"
    using w dist by (intro chunks_in_order assms(2)) (auto simp: wave_def distinct_map inj_on_def)
  moreover have "ids_of (wave nodes m) \<union> ?D = an_id ` {n \<in> set nodes. level_of nodes n < Suc m}"
    by (auto simp: ids_of_def wave_def less_Suc_eq)
  ultimately show ?case
    using Suc by (simp add: in_order_append concat_chunks [OF assms(2)] ids_of_append Un_commute)
qed (simp add: ids_of_def)

lemma batches_in_order:
  assumes "check_graph nodes = Inr ()" "0 < k"
  shows "in_order {} (run_batches k nodes)" "ids_of (concat (run_batches k nodes)) = ids_of nodes"
proof -
  have l: "level_of nodes n < Suc (fold max (map (level_of nodes) nodes) 0)" if "n \<in> set nodes" for n
    using that by (auto simp: less_Suc_eq_le intro: fold_max_ge)
  show "in_order {} (run_batches k nodes)"
    using waves_in_order [OF assms, of "Suc (fold max (map (level_of nodes) nodes) 0)"]
    unfolding run_batches_def wave_def by blast
  show "ids_of (concat (run_batches k nodes)) = ids_of nodes"
    using waves_in_order [OF assms, of "Suc (fold max (map (level_of nodes) nodes) 0)"] l
    unfolding run_batches_def wave_def ids_of_def by auto
qed

section \<open>Results of a batch\<close>

lemma set_results_other: "i \<notin> ids_of ns \<Longrightarrow> jm_get (set_results f ns rs) i = jm_get rs i"
  by (induction ns arbitrary: rs) (auto simp: set_results_def ids_of_def jm_get_set)

lemma set_results_in:
  "distinct (map an_id ns) \<Longrightarrow> n \<in> set ns \<Longrightarrow> jm_get (set_results f ns rs) (an_id n) = Some (f n)"
proof (induction ns arbitrary: rs)
  case (Cons m ns)
  have step: "set_results f (m # ns) rs = set_results f ns (jm_set (an_id m) (f m) rs)" by (simp add: set_results_def)
  show ?case
  proof (cases "n = m")
    case True
    then have "an_id n \<notin> ids_of ns" using Cons.prems(1) by (auto simp: ids_of_def)
    with True show ?thesis unfolding step by (simp add: set_results_other jm_get_set)
  qed (use Cons step in auto)
qed simp

definition completed_in :: "(string \<Rightarrow> node_result option) \<Rightarrow> string \<Rightarrow> bool" where
  "completed_in rs d \<longleftrightarrow> (\<exists>r. rs d = Some r \<and> nr_status r = JStr ''completed'')"

lemma dependency_open_iff: "dependency_open rs n \<longleftrightarrow> \<not> (\<forall>d\<in>set (an_dependsOn n). completed_in (jm_get rs) d)"
  by (force simp: dependency_open_def completed_in_def list_ex_iff split: option.splits)

text \<open>What becomes of a node, given the results of the nodes it depends on.\<close>

definition node_outcome :: "(string \<Rightarrow> string) \<Rightarrow> run_context \<Rightarrow> (string \<Rightarrow> node_result option) \<Rightarrow> agent_node \<Rightarrow> node_result \<Rightarrow> bool" where
  "node_outcome H cx rs n x \<longleftrightarrow>
     x = plain_result n ''cancelled'' ''CANCELLED_BEFORE_DISPATCH'' \<or>
     x = plain_result n ''cancelled'' ''PHYSICAL_CAPACITY_UNAVAILABLE'' \<or>
     x = plain_result n ''blocked'' ''DEPENDENCY_NOT_COMPLETED'' \<and> \<not> (\<forall>d\<in>set (an_dependsOn n). completed_in rs d) \<or>
     (\<exists>e. x = run_node H cx (the_manifest cx n) n e) \<and> (\<forall>d\<in>set (an_dependsOn n). completed_in rs d)"

lemma node_outcome_cong:
  "\<forall>d\<in>set (an_dependsOn n). rs d = rs' d \<Longrightarrow> node_outcome H cx rs n x \<longleftrightarrow> node_outcome H cx rs' n x"
  by (simp add: node_outcome_def completed_in_def cong: ball_cong)

lemma run_batch_other:
  "i \<notin> ids_of b \<Longrightarrow> jm_get (rs_results (run_batch H cx env b s)) i = jm_get (rs_results s) i"
proof -
  assume i: "i \<notin> ids_of b"
  then have "i \<notin> ids_of (filter P b)" for P by (auto simp: ids_of_def)
  with i show ?thesis by (simp add: run_batch_def Let_def set_results_other)
qed

lemma run_batch_node:
  assumes b: "distinct (map an_id b)" "ids_of b \<inter> dom (jm_get (rs_results s)) = {}" "n \<in> set b"
  shows "\<exists>x. jm_get (rs_results (run_batch H cx env b s)) (an_id n) = Some x \<and> node_outcome H cx (jm_get (rs_results s)) n x"
proof -
  define blocked where "blocked = filter (dependency_open (rs_results s)) b"
  define results where "results = set_results (\<lambda>n. plain_result n ''blocked'' ''DEPENDENCY_NOT_COMPLETED'') blocked (rs_results s)"
  define runnable where "runnable = filter (\<lambda>n. jm_get results (an_id n) = None) b"
  have d: "distinct (map an_id (filter P b))" for P using b(1) by (simp add: distinct_map_filter)
  have none: "jm_get (rs_results s) (an_id n) = None" using b(2,3) by (auto simp: ids_of_def)
  have inj: "m = n" if "m \<in> set b" "an_id m = an_id n" for m
    using b(1,3) that by (auto simp: distinct_map inj_on_def)
  have bl: "jm_get results (an_id n) = (if dependency_open (rs_results s) n
      then Some (plain_result n ''blocked'' ''DEPENDENCY_NOT_COMPLETED'') else None)"
  proof (cases "dependency_open (rs_results s) n")
    case True
    then show ?thesis using d b(3) unfolding results_def blocked_def by (simp add: set_results_in)
  next
    case False
    then have "an_id n \<notin> ids_of blocked" using inj by (auto simp: blocked_def ids_of_def)
    with False none show ?thesis unfolding results_def by (simp add: set_results_other)
  qed
  have other: "jm_get (set_results f runnable results) (an_id n) =
      (if dependency_open (rs_results s) n then jm_get results (an_id n) else Some (f n))" for f
  proof (cases "dependency_open (rs_results s) n")
    case True
    with bl inj have "an_id n \<notin> ids_of runnable" by (auto simp: runnable_def ids_of_def)
    with True show ?thesis by (simp add: set_results_other)
  next
    case False
    with bl b(3) have "n \<in> set runnable" by (simp add: runnable_def)
    with False d show ?thesis unfolding runnable_def by (simp add: set_results_in)
  qed
  show ?thesis
    unfolding run_batch_def Let_def
      blocked_def [symmetric] results_def [symmetric] runnable_def [symmetric]
    using b(1,3) bl other by (auto simp: set_results_in node_outcome_def dependency_open_iff split: if_splits)
qed

lemma run_batch_dom:
  assumes "distinct (map an_id b)" "ids_of b \<inter> dom (jm_get (rs_results s)) = {}"
  shows "dom (jm_get (rs_results (run_batch H cx env b s))) = dom (jm_get (rs_results s)) \<union> ids_of b"
proof (intro set_eqI)
  fix i show "i \<in> dom (jm_get (rs_results (run_batch H cx env b s))) \<longleftrightarrow> i \<in> dom (jm_get (rs_results s)) \<union> ids_of b"
  proof (cases "i \<in> ids_of b")
    case True
    then obtain n where n: "n \<in> set b" "i = an_id n" by (auto simp: ids_of_def)
    show ?thesis using True run_batch_node [OF assms n(1), of H cx env] unfolding n(2) by auto
  next
    case False
    with run_batch_other [OF False, of H cx env s] show ?thesis by (simp add: domIff)
  qed
qed

lemma run_all_results:
  "in_order D bs \<Longrightarrow> dom (jm_get (rs_results s)) = D \<Longrightarrow>
    dom (jm_get (rs_results (run_all H cx env k bs s))) = D \<union> ids_of (concat bs) \<and>
    (\<forall>i\<in>D. jm_get (rs_results (run_all H cx env k bs s)) i = jm_get (rs_results s) i) \<and>
    (\<forall>n\<in>set (concat bs). \<exists>x. jm_get (rs_results (run_all H cx env k bs s)) (an_id n) = Some x \<and>
      node_outcome H cx (jm_get (rs_results (run_all H cx env k bs s))) n x)"
proof (induction bs arbitrary: D k s)
  case (Cons b bs)
  let ?s = "run_batch H cx (env k) b s"
  let ?r = "run_all H cx env (Suc k) bs ?s"
  have o: "\<forall>n\<in>set b. set (an_dependsOn n) \<subseteq> D" "distinct (map an_id b)" "ids_of b \<inter> D = {}" "in_order (D \<union> ids_of b) bs"
    using Cons.prems(1) by auto
  note node = run_batch_node [OF o(2) o(3) [folded Cons.prems(2)], of _ H cx "env k"]
  have dom: "dom (jm_get (rs_results ?s)) = D \<union> ids_of b"
    using run_batch_dom [OF o(2) o(3) [folded Cons.prems(2)]] Cons.prems(2) by blast
  note ih = Cons.IH [OF o(4) dom, of "Suc k"]
  have same: "jm_get (rs_results ?r) i = jm_get (rs_results s) i" if "i \<in> D" for i
    using that ih o(3) run_batch_other [of i b H cx "env k" s] by auto
  have "\<exists>x. jm_get (rs_results ?r) (an_id n) = Some x \<and> node_outcome H cx (jm_get (rs_results ?r)) n x" if "n \<in> set b" for n
  proof -
    obtain x where x: "jm_get (rs_results ?s) (an_id n) = Some x" "node_outcome H cx (jm_get (rs_results s)) n x"
      using node [OF \<open>n \<in> set b\<close>] by blast
    have "jm_get (rs_results ?r) (an_id n) = Some x" using ih x(1) that by (auto simp: ids_of_def)
    moreover have "node_outcome H cx (jm_get (rs_results ?r)) n x"
      using x(2) node_outcome_cong [of n "jm_get (rs_results ?r)" "jm_get (rs_results s)" H cx x] same o(1) that by auto
    ultimately show ?thesis by blast
  qed
  with ih same show ?case by (auto simp: ids_of_append Un_assoc)
qed (auto simp: ids_of_def)

section \<open>Dispatches under way\<close>

lemma add_calls:
  "set (fold add_call cs xs) = set xs \<union> set cs" "distinct xs \<Longrightarrow> distinct (fold add_call cs xs)"
  by (induction cs arbitrary: xs) (auto simp: add_call_def)

lemma add_calls_length: "length (fold add_call cs xs) \<le> length xs + length cs"
proof (induction cs arbitrary: xs)
  case (Cons c cs)
  have "length (add_call c xs) \<le> Suc (length xs)" by (simp add: add_call_def)
  with Cons [of "add_call c xs"] show ?case by simp
qed simp

definition review_of :: "(string \<times> node_result) list \<Rightarrow> string \<Rightarrow> bool" where
  "review_of rs c \<longleftrightarrow> (\<exists>i x. jm_get rs i = Some x \<and> nr_nodeCallId x = Some c \<and> nr_status x = JStr ''needs-review'')"

definition pending_ok :: "int \<Rightarrow> run_state \<Rightarrow> bool" where
  "pending_ok m s \<longleftrightarrow> distinct (rs_physical s) \<and> int (length (rs_physical s)) \<le> m \<and> (\<forall>c\<in>set (rs_physical s). review_of (rs_results s) c)"

lemma run_node_uncertain:
  "nr_nodeCallId (run_node H cx m n Ends_uncertain) = Some (call_id H cx n)"
  "nr_status (run_node H cx m n Ends_uncertain) = JStr ''needs-review''"
  by (simp_all add: run_node_def make_request_def Let_def)

lemma pending_settle:
  assumes "pending_ok m s"
  shows "distinct (filter P (rs_physical s))" "int (length (filter P (rs_physical s))) \<le> m"
  using assms length_filter_le [of P "rs_physical s"] unfolding pending_ok_def by (simp, linarith)

lemma review_keep:
  "review_of (rs_results s) c \<Longrightarrow> ids_of b \<inter> dom (jm_get (rs_results s)) = {} \<Longrightarrow>
    review_of (rs_results (run_batch H cx env b s)) c"
  unfolding review_of_def by (metis disjoint_iff domI run_batch_other)

lemma run_batch_pending:
  assumes p: "pending_ok (cx_maxSlots cx) s" and b: "distinct (map an_id b)" "ids_of b \<inter> dom (jm_get (rs_results s)) = {}"
  shows "pending_ok (cx_maxSlots cx) (run_batch H cx env b s)"
proof -
  define physical where "physical = filter (\<lambda>c. c \<notin> set (be_settled env)) (rs_physical s)"
  define results where "results = set_results (\<lambda>n. plain_result n ''blocked'' ''DEPENDENCY_NOT_COMPLETED'')
    (filter (dependency_open (rs_results s)) b) (rs_results s)"
  define runnable where "runnable = filter (\<lambda>n. jm_get results (an_id n) = None) b"
  define going where "going = filter (\<lambda>n. be_end env (an_id n) = Ends_uncertain) runnable"
  let ?t = "run_batch H cx env b s"
  note unfold = run_batch_def [of H cx env b s, unfolded Let_def, folded physical_def results_def, folded runnable_def, folded going_def]
  note phys = pending_settle [OF p, of "\<lambda>c. c \<notin> set (be_settled env)", folded physical_def]
  have old: "review_of (rs_results ?t) c" if "c \<in> set physical" for c
    using that p review_keep [OF _ b(2)] by (auto simp: pending_ok_def physical_def)
  show ?thesis
  proof (cases "rs_aborted s \<or> be_aborted env \<or> cx_maxSlots cx < int (length physical + length runnable)")
    case True
    then have "rs_physical ?t = physical" using unfold by auto
    with phys old show ?thesis by (simp add: pending_ok_def)
  next
    case False
    then have t: "rs_physical ?t = fold add_call (map (call_id H cx) going) physical"
        "rs_results ?t = set_results (\<lambda>n. run_node H cx (the_manifest cx n) n (be_end env (an_id n))) runnable results"
      using unfold by auto
    have "length going \<le> length runnable" unfolding going_def by simp
    with False add_calls_length [of "map (call_id H cx) going" physical] have "int (length (rs_physical ?t)) \<le> cx_maxSlots cx"
      unfolding t by simp
    moreover have "review_of (rs_results ?t) (call_id H cx n)" if n: "n \<in> set going" for n
    proof -
      have "distinct (map an_id runnable)" "n \<in> set runnable" "be_end env (an_id n) = Ends_uncertain"
        using b(1) n by (auto simp: runnable_def going_def distinct_map_filter)
      then have "jm_get (rs_results ?t) (an_id n) = Some (run_node H cx (the_manifest cx n) n Ends_uncertain)"
        unfolding t by (simp add: set_results_in)
      then show ?thesis unfolding review_of_def using run_node_uncertain by blast
    qed
    ultimately show ?thesis
      using old add_calls(2) [OF phys(1)] unfolding pending_ok_def t(1) add_calls(1) by auto
  qed
qed

lemma run_all_pending:
  "in_order D bs \<Longrightarrow> dom (jm_get (rs_results s)) = D \<Longrightarrow> pending_ok (cx_maxSlots cx) s \<Longrightarrow>
    pending_ok (cx_maxSlots cx) (run_all H cx env k bs s)"
proof (induction bs arbitrary: D k s)
  case (Cons b bs)
  then have b: "distinct (map an_id b)" "ids_of b \<inter> dom (jm_get (rs_results s)) = {}" by auto
  show ?case
    using Cons.prems Cons.IH [of "D \<union> ids_of b" "run_batch H cx (env k) b s" "Suc k"]
      run_batch_pending [OF Cons.prems(3) b] run_batch_dom [OF b] by auto
qed simp

section \<open>Runs\<close>

lemma run_begin_Inr:
  assumes "run_begin r inp = Inr cx"
  shows "cx_graph cx = ri_graph inp" "cx_manifests cx = ri_manifests inp" "1 \<le> cx_concurrency cx"
    "cx_maxSlots cx = rn_maxPhysicalSlots r" "cx_concurrency cx \<le> rn_maxPhysicalSlots r" "rn_physical r = []"
    "mapR (manifest_authority (ri_parentCapabilities inp)) (ri_manifests inp) = Inr (cx_authority cx)"
    "distinct (map am_id (ri_manifests inp))"
    "\<exists>us. mapR (check_node (ri_graph inp) (ri_manifests inp)) (ag_nodes (ri_graph inp)) = Inr us"
  using assms
  by (auto simp: run_begin_def bindR_Inr_iff guardR_Inr_iff lift_run_def bounded_positive_Inr split: sum.splits)

definition result_table :: "run_result \<Rightarrow> string \<Rightarrow> node_result option" where
  "result_table res = map_of (map (\<lambda>x. (nr_nodeId x, x)) (rr_nodes res))"

lemma run_node_id: "nr_nodeId (run_node H cx m n e) = an_id n"
proof (cases e)
  case (Ends_with_receipt v)
  then show ?thesis by (cases "validateReceipt H (make_request H cx m n) v") (simp_all add: run_node_def Let_def)
qed (simp_all add: run_node_def plain_result_def Let_def)

lemma node_outcome_id: "node_outcome H cx rs n x \<Longrightarrow> nr_nodeId x = an_id n"
  unfolding node_outcome_def using run_node_id by (auto simp: plain_result_def)

lemma chunk_subset: "0 < k \<Longrightarrow> b \<in> set (chunks k xs) \<Longrightarrow> set b \<subseteq> set xs"
  using concat_chunks [of k xs] by (metis UN_upper set_concat)

lemma run_end_results:
  assumes "check_graph (ag_nodes (cx_graph cx)) = Inr ()" "1 \<le> cx_concurrency cx"
  shows "\<forall>n\<in>set (ag_nodes (cx_graph cx)). \<exists>x. jm_get (rs_results (run_end H cx env)) (an_id n) = Some x \<and>
      node_outcome H cx (jm_get (rs_results (run_end H cx env))) n x"
    and "dom (jm_get (rs_results (run_end H cx env))) = ids_of (ag_nodes (cx_graph cx))"
    and "1 \<le> cx_maxSlots cx \<Longrightarrow> pending_ok (cx_maxSlots cx) (run_end H cx env)"
proof -
  let ?nodes = "ag_nodes (cx_graph cx)" and ?k = "nat (cx_concurrency cx)"
  let ?bs = "run_batches ?k ?nodes" and ?s = "\<lparr>rs_results = [], rs_physical = [], rs_aborted = False\<rparr>"
  note o = batches_in_order [OF assms(1), of ?k]
  have k: "0 < ?k" using assms(2) by simp
  have end_def: "run_end H cx env = run_all H cx env 0 ?bs ?s" by (simp add: run_end_def Let_def)
  note r = run_all_results [OF o(1) [OF k], of ?s H cx env 0, folded end_def]
  show "dom (jm_get (rs_results (run_end H cx env))) = ids_of ?nodes" using r o(2) [OF k] by simp
  show "pending_ok (cx_maxSlots cx) (run_end H cx env)" if "1 \<le> cx_maxSlots cx"
    using run_all_pending [OF o(1) [OF k], of ?s cx H env 0] that by (simp add: end_def pending_ok_def)
  have dist: "distinct (map an_id ?nodes)" using assms(1) by (simp add: check_graph_cases node_ids_def)
  have sub: "set (concat ?bs) \<subseteq> set ?nodes"
    using chunk_subset [OF k] unfolding run_batches_def by fastforce
  have "n \<in> set (concat ?bs)" if "n \<in> set ?nodes" for n
  proof -
    have "an_id n \<in> ids_of (concat ?bs)" using o(2) [OF k] that by (simp add: ids_of_def)
    then obtain m where "m \<in> set (concat ?bs)" "an_id m = an_id n" unfolding ids_of_def by (metis imageE)
    with sub dist that show ?thesis by (metis distinct_map inj_onD subsetD)
  qed
  moreover have "\<forall>n\<in>set (concat ?bs). \<exists>x. jm_get (rs_results (run_end H cx env)) (an_id n) = Some x \<and>
      node_outcome H cx (jm_get (rs_results (run_end H cx env))) n x" using r by simp
  ultimately show "\<forall>n\<in>set ?nodes. \<exists>x. jm_get (rs_results (run_end H cx env)) (an_id n) = Some x \<and>
      node_outcome H cx (jm_get (rs_results (run_end H cx env))) n x" by blast
qed

lemma run_graph_Inr:
  assumes "run_graph H r inp env = (r', Inr res)" "check_graph (ag_nodes (ri_graph inp)) = Inr ()"
  obtains cx where "run_begin r inp = Inr cx" "cx_graph cx = ri_graph inp"
    "rr_nodes res = map (\<lambda>n. the (jm_get (rs_results (run_end H cx env)) (an_id n))) (ag_nodes (ri_graph inp))"
    "rr_status res = run_status (rr_nodes res)" "rr_pending res = length (rn_physical r')" "rn_physical r' = rs_physical (run_end H cx env)"
proof -
  obtain cx where cx: "run_begin r inp = Inr cx" using assms(1) by (auto simp: run_graph_def split: sum.splits)
  note b = run_begin_Inr [OF cx]
  let ?rs = "rs_results (run_end H cx env)"
  have "dom (jm_get ?rs) = ids_of (ag_nodes (ri_graph inp))"
    using run_end_results(2) [of cx H env] b(1,3) assms(2) by simp
  then have "filter (\<lambda>n. jm_get ?rs (an_id n) = None) (ag_nodes (ri_graph inp)) = []"
    by (auto simp: filter_empty_conv ids_of_def dom_def)
  then have "complete_results (ag_nodes (ri_graph inp)) ?rs = ?rs" by (simp add: complete_results_def set_results_def)
  then show thesis using assms(1) cx b(1) by (intro that [OF cx]) (auto simp: run_graph_def Let_def)
qed

lemma run_graph_results:
  assumes "run_graph H r inp env = (r', Inr res)" "check_graph (ag_nodes (ri_graph inp)) = Inr ()"
    "run_begin r inp = Inr cx"
  shows "map nr_nodeId (rr_nodes res) = map an_id (ag_nodes (ri_graph inp))"
    "\<forall>n\<in>set (ag_nodes (ri_graph inp)). \<exists>x. result_table res (an_id n) = Some x \<and> x \<in> set (rr_nodes res) \<and>
      jm_get (rs_results (run_end H cx env)) (an_id n) = Some x \<and> node_outcome H cx (result_table res) n x"
proof -
  let ?nodes = "ag_nodes (ri_graph inp)" and ?rs = "rs_results (run_end H cx env)"
  have g: "cx_graph cx = ri_graph inp" using run_begin_Inr [OF assms(3)] by simp
  have nodes: "rr_nodes res = map (\<lambda>n. the (jm_get ?rs (an_id n))) ?nodes"
    using run_graph_Inr [OF assms(1,2)] assms(3) by auto
  note e = run_end_results [of cx H env, unfolded g, OF assms(2) run_begin_Inr(3) [OF assms(3)]]
  have id: "nr_nodeId (the (jm_get ?rs (an_id n))) = an_id n" if "n \<in> set ?nodes" for n
    using e(1) that node_outcome_id by fastforce
  show "map nr_nodeId (rr_nodes res) = map an_id ?nodes" using id by (simp add: nodes)
  have dist: "distinct (map an_id ?nodes)" using assms(2) by (simp add: check_graph_cases node_ids_def)
  have pairs: "map (\<lambda>x. (nr_nodeId x, x)) (rr_nodes res) = map (\<lambda>n. (an_id n, the (jm_get ?rs (an_id n)))) ?nodes"
    using id by (simp add: nodes)
  have table: "result_table res (an_id n) = jm_get ?rs (an_id n)" if n: "n \<in> set ?nodes" for n
  proof -
    have "result_table res (an_id n) = Some (the (jm_get ?rs (an_id n)))"
      unfolding result_table_def pairs using dist n by (intro map_of_is_SomeI) (auto simp: comp_def)
    with e(1) n show ?thesis by fastforce
  qed
  have deps: "result_table res d = jm_get ?rs d" if "n \<in> set ?nodes" "d \<in> set (an_dependsOn n)" for n d
  proof -
    have "d \<in> an_id ` set ?nodes" using that assms(2) by (auto simp: check_graph_cases deps_known_def node_ids_def)
    then obtain m where "m \<in> set ?nodes" "d = an_id m" by blast
    with table show ?thesis by blast
  qed
  show "\<forall>n\<in>set ?nodes. \<exists>x. result_table res (an_id n) = Some x \<and> x \<in> set (rr_nodes res) \<and>
      jm_get ?rs (an_id n) = Some x \<and> node_outcome H cx (result_table res) n x"
  proof
    fix n assume n: "n \<in> set ?nodes"
    then obtain x where x: "jm_get ?rs (an_id n) = Some x" "node_outcome H cx (jm_get ?rs) n x" using e(1) by blast
    have "node_outcome H cx (result_table res) n x"
      using x(2) node_outcome_cong [of n "result_table res" "jm_get ?rs"] deps [OF n] by blast
    moreover have "x \<in> set (rr_nodes res)" unfolding nodes using n x(1) by force
    ultimately show "\<exists>x. result_table res (an_id n) = Some x \<and> x \<in> set (rr_nodes res) \<and>
        jm_get ?rs (an_id n) = Some x \<and> node_outcome H cx (result_table res) n x"
      using x(1) table [OF n] by auto
  qed
qed

text \<open>
  C25. A run of an accepted graph ends with exactly one result for each node, in the order of the
  graph, and the result is the right one: cancelled before the dispatch; blocked, and then
  something the node depends on has not completed; or the end of its dispatch, and then everything
  it depends on has completed.
\<close>

theorem run_gives_each_node_its_outcome:
  assumes "validateAgentRunGraph G v = Inr (ri_graph inp)" "run_graph H r inp env = (r', Inr res)"
  shows "\<exists>cx. run_begin r inp = Inr cx \<and> map nr_nodeId (rr_nodes res) = map an_id (ag_nodes (ri_graph inp)) \<and>
    (\<forall>n\<in>set (ag_nodes (ri_graph inp)). \<exists>x. result_table res (an_id n) = Some x \<and>
      (x = plain_result n ''cancelled'' ''CANCELLED_BEFORE_DISPATCH'' \<or>
       x = plain_result n ''cancelled'' ''PHYSICAL_CAPACITY_UNAVAILABLE'' \<or>
       x = plain_result n ''blocked'' ''DEPENDENCY_NOT_COMPLETED'' \<and>
         (\<exists>d\<in>set (an_dependsOn n). \<exists>y. result_table res d = Some y \<and> nr_status y \<noteq> JStr ''completed'') \<or>
       (\<exists>e. x = run_node H cx (the_manifest cx n) n e) \<and>
         (\<forall>d\<in>set (an_dependsOn n). \<exists>y. result_table res d = Some y \<and> nr_status y = JStr ''completed'')))"
proof -
  note c = accepted_graph(5) [OF assms(1)]
  obtain cx where cx: "run_begin r inp = Inr cx" using run_graph_Inr [OF assms(2) c] by blast
  note r = run_graph_results [OF assms(2) c cx]
  have some: "\<exists>y. result_table res d = Some y" if "n \<in> set (ag_nodes (ri_graph inp))" "d \<in> set (an_dependsOn n)" for n d
    using that c r(2) by (force simp: check_graph_cases deps_known_def node_ids_def)
  show ?thesis
  proof (intro exI [of _ cx] conjI ballI)
    fix n assume n: "n \<in> set (ag_nodes (ri_graph inp))"
    then obtain x where x: "result_table res (an_id n) = Some x" "node_outcome H cx (result_table res) n x" using r(2) by blast
    from x(2) some [OF n] show "\<exists>x. result_table res (an_id n) = Some x \<and>
      (x = plain_result n ''cancelled'' ''CANCELLED_BEFORE_DISPATCH'' \<or>
       x = plain_result n ''cancelled'' ''PHYSICAL_CAPACITY_UNAVAILABLE'' \<or>
       x = plain_result n ''blocked'' ''DEPENDENCY_NOT_COMPLETED'' \<and>
         (\<exists>d\<in>set (an_dependsOn n). \<exists>y. result_table res d = Some y \<and> nr_status y \<noteq> JStr ''completed'') \<or>
       (\<exists>e. x = run_node H cx (the_manifest cx n) n e) \<and>
         (\<forall>d\<in>set (an_dependsOn n). \<exists>y. result_table res d = Some y \<and> nr_status y = JStr ''completed''))"
      unfolding node_outcome_def completed_in_def by (intro exI [of _ x] conjI x(1)) metis
  qed (use cx r(1) in auto)
qed

text \<open>
  C26. A run never leaves more dispatches under way than the runner has slots, counts each once,
  and each of them is the dispatch of a node whose result says that it needs a review.
\<close>

theorem run_pending_reviewed:
  assumes "validateAgentRunGraph G v = Inr (ri_graph inp)" "run_graph H r inp env = (r', Inr res)"
  shows "int (rr_pending res) \<le> rn_maxPhysicalSlots r \<and> rr_pending res = length (rn_physical r') \<and> distinct (rn_physical r') \<and>
    (\<forall>c\<in>set (rn_physical r'). \<exists>x\<in>set (rr_nodes res). nr_nodeCallId x = Some c \<and> nr_status x = JStr ''needs-review'')"
proof -
  note c = accepted_graph(5) [OF assms(1)]
  obtain cx where cx: "run_begin r inp = Inr cx" "rr_pending res = length (rn_physical r')" "rn_physical r' = rs_physical (run_end H cx env)"
    using run_graph_Inr [OF assms(2) c] by blast
  note b = run_begin_Inr [OF cx(1)]
  note e = run_end_results [of cx H env, unfolded b(1), OF c b(3)]
  have p: "pending_ok (cx_maxSlots cx) (run_end H cx env)" using e(3) b(3,4,5) by simp
  have "\<exists>x\<in>set (rr_nodes res). nr_nodeCallId x = Some c \<and> nr_status x = JStr ''needs-review''"
    if rv: "review_of (rs_results (run_end H cx env)) c" for c
  proof -
    obtain i x where x: "jm_get (rs_results (run_end H cx env)) i = Some x" "nr_nodeCallId x = Some c" "nr_status x = JStr ''needs-review''"
      using rv unfolding review_of_def by blast
    then have "i \<in> ids_of (ag_nodes (ri_graph inp))" using e(2) by blast
    then obtain n where "n \<in> set (ag_nodes (ri_graph inp))" "i = an_id n" by (auto simp: ids_of_def)
    with x run_graph_results(2) [OF assms(2) c cx(1)] show ?thesis by force
  qed
  with p cx(2,3) b(4) show ?thesis by (auto simp: pending_ok_def)
qed

lemma authority_of:
  assumes "mapR (manifest_authority p) ms = Inr au"
  shows "map fst au = map am_id ms"
    "\<forall>m\<in>set ms. \<exists>cs. (am_id m, cs) \<in> set au \<and>
      intersectChildCapabilities p (JArr (map JStr (am_capabilities m))) (JArr (map JStr (am_tools m))) = Inr cs"
proof -
  have l: "list_all2 (\<lambda>m y. manifest_authority p m = Inr y) ms au" using assms by (simp add: mapR_Inr_iff)
  have one: "fst y = am_id m \<and> intersectChildCapabilities p (JArr (map JStr (am_capabilities m))) (JArr (map JStr (am_tools m))) = Inr (snd y)"
    if "manifest_authority p m = Inr y" for m y
    using that by (auto simp: manifest_authority_def split: sum.splits)
  show "map fst au = map am_id ms" using l by (induction rule: list_all2_induct) (simp_all add: one)
  show "\<forall>m\<in>set ms. \<exists>cs. (am_id m, cs) \<in> set au \<and>
      intersectChildCapabilities p (JArr (map JStr (am_capabilities m))) (JArr (map JStr (am_tools m))) = Inr cs"
    using l
  proof (induction rule: list_all2_induct)
    case (Cons m ms y au)
    then show ?case using one [OF Cons(1)] by (cases y) auto
  qed simp
qed

text \<open>
  C27. What the runner asks a dispatcher to do for a node carries only capabilities the parent
  has, exactly those the tools of the node's manifest need, under the manifest whose digest the
  node names.
\<close>

theorem dispatch_authority_within_parent:
  assumes "run_begin r inp = Inr cx" "n \<in> set (ag_nodes (ri_graph inp))"
  shows "\<exists>ps. ri_parentCapabilities inp = JArr (map JStr ps) \<and>
    set (rq_capabilities (make_request H cx (the_manifest cx n) n)) \<subseteq> set ps \<and>
    set (rq_capabilities (make_request H cx (the_manifest cx n) n)) = (\<Union>t\<in>set (am_tools (the_manifest cx n)). tool_needs t) \<and>
    rq_manifestDigest (make_request H cx (the_manifest cx n) n) = an_manifestDigest n"
proof -
  note b = run_begin_Inr [OF assms(1)]
  have "check_node (ri_graph inp) (ri_manifests inp) n = Inr ()"
    using b(9) assms(2) by (auto simp: mapR_ok)
  then obtain m where m: "manifest_of (ri_manifests inp) (an_manifestId n) = Some m" "am_digest m = an_manifestDigest n"
    by (auto simp: check_node_def split: option.splits if_splits)
  then have mem: "m \<in> set (ri_manifests inp)" by (auto simp: manifest_of_def dest: map_of_SomeD)
  have the: "the_manifest cx n = m" using m(1) b(2) by (simp add: the_manifest_def)
  obtain cs where cs: "(am_id m, cs) \<in> set (cx_authority cx)"
    "intersectChildCapabilities (ri_parentCapabilities inp) (JArr (map JStr (am_capabilities m))) (JArr (map JStr (am_tools m))) = Inr cs"
    using authority_of [OF b(7)] mem by blast
  then have "map_of (cx_authority cx) (am_id m) = Some cs"
    using authority_of [OF b(7)] b(8) by (intro map_of_is_SomeI) simp_all
  then have caps: "rq_capabilities (make_request H cx (the_manifest cx n) n) = cs"
    by (simp add: make_request_def Let_def the)
  obtain ps where ps: "ri_parentCapabilities inp = jstrs ps" using intersect_args [OF cs(2)] by blast
  note d = cs(2) [unfolded ps, folded jstrs_def, unfolded intersect_iff]
  have "set cs \<subseteq> set ps" "set cs = (\<Union>t\<in>set (am_tools m). tool_needs t)"
    using d by (auto simp: delegation_ok_def)
  then show ?thesis
    unfolding caps by (intro exI [of _ ps] conjI) (simp_all add: the ps jstrs_def m(2) make_request_def Let_def)
qed

end
