(* ===== verification/Agent_Run_Samples.thy ===== *)
theory Agent_Run_Samples
  imports Agent_Runner_Laws Automation_Control
begin

text \<open>
  Agent run graphs on concrete inputs: an accepted graph of two nodes, a run of it, and what a
  receipt whose terminal status is an array does.
\<close>

lemmas graph_eval = EXECUTABLE_AGENT_SCHEMA_VERSION_def AGENT_RUN_GRAPH_SCHEMA_VERSION_def MAX_AGENT_GRAPH_NODES_def
  MAX_AGENT_GRAPH_EDGES_def MAX_AGENT_GRAPH_DEPTH_def MAX_AGENT_GRAPH_FANOUT_def MAX_AGENT_GRAPH_BYTES_def MAX_AGENT_REQUESTS_def
  MAX_AGENT_TIMEOUT_MS_def GRAPH_IDENTIFIER_def REQUEST_REFERENCE_def before_colon_def OPAQUE_REFERENCE_def FORBIDDEN_IDENTITY_def
  graph_limits_def cleanJson_def hash_json_def graph_object_def graph_exact_def graph_identifier_def principal_def
  requestReference_def typedReference_def bounded_positive_def sortedUniqueReferences_def node_label_def read_dependencies_def
  read_node_def node_ids_def check_dependency_def graph_edges_def child_count_def dependencies_of_def node_depth_unfold
  compare_ids_def check_graph_def validateAgentRunGraph_def bounded_value_small
  matches_def is_upper_def is_lower_def is_digit_def ascii_alnum_def is_safe_int_def MAX_SAFE_INTEGER_def enumerate_eq_zip
  zero_hash_def zero_hash_hex starts_with_def digit_texts

definition zeros :: string where "zeros = replicate 64 (CHR ''0'')"

definition sample_node :: "string \<Rightarrow> string list \<Rightarrow> jsval" where
  "sample_node i deps = JObj [(''id'', JStr i), (''manifestId'', JStr ''m''), (''manifestDigest'', JStr zeros),
     (''inputRef'', JStr ''input:x''), (''resultRef'', JStr (''result:'' @ i)), (''dependsOn'', JArr (map JStr deps))]"

definition sample_graph_json :: jsval where
  "sample_graph_json = JObj [(''schemaVersion'', JInt 1), (''id'', JStr ''g''), (''nodes'', JArr [sample_node ''b'' [''a''], sample_node ''a'' []])]"

definition the_node :: "string \<Rightarrow> string list \<Rightarrow> agent_node" where
  "the_node i deps = \<lparr>an_id = i, an_manifestId = ''m'', an_manifestDigest = zeros, an_inputRef = ''input:x'',
     an_resultRef = ''result:'' @ i, an_dependsOn = deps, an_timeoutMs = None\<rparr>"

definition sample_graph :: agent_graph where
  "sample_graph = \<lparr>ag_id = ''g'', ag_nodes = [the_node ''a'' [], the_node ''b'' [''a'']], ag_digest = zeros\<rparr>"

lemma zeros_hex: "sha256_hex zeros" by (simp add: zeros_def zero_hash_hex)

lemma zero_hash_json: "hash_json zero_hash v = zeros" by (simp add: hash_json_def zero_hash_def zeros_def)

lemma sample_call: "take 48 zeros = replicate 48 (CHR ''0'')" by code_simp

lemma sample_refs:
  "typedReference (JStr ''input:x'') l [''input'', ''artifact'', ''memory''] = Inr ''input:x''"
  "typedReference (JStr ''result:a'') l [''result'', ''artifact''] = Inr ''result:a''"
  "typedReference (JStr ''result:b'') l [''result'', ''artifact''] = Inr ''result:b''"
  unfolding typedReference_Inr by code_simp+

lemma sample_ids: "GRAPH_IDENTIFIER ''a''" "GRAPH_IDENTIFIER ''b''" "GRAPH_IDENTIFIER ''m''" "GRAPH_IDENTIFIER ''g''"
  by code_simp+

lemma sample_nodes:
  "read_node (k, sample_node ''b'' [''a'']) = Inr (the_node ''b'' [''a''])"
  "read_node (k, sample_node ''a'' []) = Inr (the_node ''a'' [])"
  by (simp_all add: sample_node_def the_node_def read_node_def graph_object_def graph_exact_def read_dependencies_def
      graph_identifier_def sample_refs sample_ids zeros_hex MAX_AGENT_GRAPH_NODES_def cong: bindR_weak)

lemma sample_clean: "cleanJson sample_graph_json l = Inr sample_graph_json"
  by (simp add: cleanJson_def sample_graph_json_def sample_node_def zeros_def graph_eval)

lemma sample_sorted: "compare_ids (the_node ''b'' d) (the_node ''a'' e) = 1"
  by (simp add: compare_ids_def the_node_def)

lemma sample_checked: "check_graph [the_node ''a'' [], the_node ''b'' [''a'']] = Inr ()"
  by (simp add: graph_eval the_node_def cong: bindR_weak)

lemma solo_checked: "check_graph [the_node ''a'' []] = Inr ()"
  by (simp add: graph_eval the_node_def cong: bindR_weak)

lemma sample_graph_valid: "validateAgentRunGraph zero_hash sample_graph_json = Inr sample_graph"
  unfolding validateAgentRunGraph_def sample_clean
  by (simp add: sample_graph_json_def graph_object_def graph_exact_def AGENT_RUN_GRAPH_SCHEMA_VERSION_def MAX_AGENT_GRAPH_NODES_def
      enumerate_eq_zip Let_def sample_nodes sample_sorted sample_checked graph_identifier_def sample_ids zero_hash_json sample_graph_def
      cong: bindR_weak)

theorem accepted_graph_well_formed_witness:
  "sorted (map an_id (ag_nodes sample_graph)) \<and> node_ok (the_node ''b'' [''a''])"
  using accepted_graph_well_formed [OF sample_graph_valid] by (simp add: sample_graph_def)

section \<open>A run\<close>

definition sample_manifest :: agent_manifest where
  "sample_manifest = \<lparr>am_id = ''m'', am_revision = 1, am_registryRef = ''registry:m'', am_tools = [''workspace.read''],
     am_capabilities = [''workspace.inspect''], am_maxChildren = 1, am_defaultTimeoutMs = 1000, am_digest = zeros\<rparr>"

definition sample_input :: run_input where
  "sample_input = \<lparr>ri_graphRunId = JStr ''a'', ri_principal = JStr ''b'', ri_graph = sample_graph, ri_manifests = [sample_manifest],
     ri_bindings = (\<lambda>_. None), ri_inputDigests = (\<lambda>_. None),
     ri_parentCapabilities = JArr [JStr ''workspace.inspect'', JStr ''network.access''], ri_maxConcurrency = JUndef, ri_maxRunMs = JUndef\<rparr>"

definition sample_runner :: runner where
  "sample_runner = \<lparr>rn_maxPhysicalSlots = 4, rn_physical = [], rn_active = None, rn_stopped = False\<rparr>"

definition sample_context :: run_context where
  "sample_context = \<lparr>cx_graphRunId = ''a'', cx_principal = ''b'', cx_graph = sample_graph, cx_manifests = [sample_manifest],
     cx_authority = [(''m'', [''workspace.inspect''])], cx_bindings = (\<lambda>_. None), cx_inputDigests = (\<lambda>_. None),
     cx_maxSlots = 4, cx_concurrency = 4\<rparr>"

lemma sample_authority:
  "intersectChildCapabilities (JArr [JStr ''workspace.inspect'', JStr ''network.access'']) (JArr [JStr ''workspace.inspect''])
     (JArr [JStr ''workspace.read'']) = Inr [''workspace.inspect'']"
  by code_simp

lemma sample_begin: "run_begin sample_runner sample_input = Inr sample_context"
  by (simp add: run_begin_def sample_runner_def sample_input_def sample_context_def graph_identifier_def sample_ids lift_run_def
      principal_def starts_with_def FORBIDDEN_IDENTITY_def manifest_authority_def sample_manifest_def sample_authority
      check_node_def manifest_of_def sample_graph_def the_node_def nullish_def bounded_positive_def MAX_AGENT_TIMEOUT_MS_def
      is_safe_int_def MAX_SAFE_INTEGER_def cong: bindR_weak)

lemma sample_batches:
  "run_batches 4 [the_node ''a'' [], the_node ''b'' [''a'']] = [[the_node ''a'' []], [the_node ''b'' [''a'']]]"
  by code_simp

definition uncertain_env :: batch_env where
  "uncertain_env = \<lparr>be_aborted = False, be_settled = [], be_end = (\<lambda>_. Ends_uncertain)\<rparr>"

lemma node_parts [simp]: "an_id (the_node i ds) = i" "an_dependsOn (the_node i ds) = ds"
  by (simp_all add: the_node_def)

lemma context_parts [simp]: "cx_maxSlots sample_context = 4" "cx_concurrency sample_context = 4" "cx_graph sample_context = sample_graph"
  by (simp_all add: sample_context_def)

lemmas batch_eval = run_batch_def uncertain_env_def set_results_def dependency_open_def Let_def add_call_def

definition sample_review :: node_result where
  "sample_review = run_node zero_hash sample_context (the_manifest sample_context (the_node ''a'' [])) (the_node ''a'' []) Ends_uncertain"

lemma sample_end:
  "run_end zero_hash sample_context (\<lambda>_. uncertain_env) =
     \<lparr>rs_results = [(''a'', sample_review), (''b'', plain_result (the_node ''b'' [''a'']) ''blocked'' ''DEPENDENCY_NOT_COMPLETED'')],
      rs_physical = [call_id zero_hash sample_context (the_node ''a'' [])], rs_aborted = False\<rparr>"
proof -
  have a: "run_batch zero_hash sample_context uncertain_env [the_node ''a'' []] \<lparr>rs_results = [], rs_physical = [], rs_aborted = False\<rparr> =
      \<lparr>rs_results = [(''a'', sample_review)], rs_physical = [call_id zero_hash sample_context (the_node ''a'' [])], rs_aborted = False\<rparr>"
    by (simp add: batch_eval sample_review_def)
  have r: "nr_status sample_review = JStr ''needs-review''" by (simp add: sample_review_def run_node_uncertain)
  have b: "run_batch zero_hash sample_context uncertain_env [the_node ''b'' [''a'']] \<lparr>rs_results = [(''a'', sample_review)],
        rs_physical = [call_id zero_hash sample_context (the_node ''a'' [])], rs_aborted = False\<rparr> =
      \<lparr>rs_results = [(''a'', sample_review), (''b'', plain_result (the_node ''b'' [''a'']) ''blocked'' ''DEPENDENCY_NOT_COMPLETED'')],
       rs_physical = [call_id zero_hash sample_context (the_node ''a'' [])], rs_aborted = False\<rparr>"
    by (simp add: batch_eval r)
  show ?thesis by (simp add: run_end_def sample_graph_def sample_batches a b)
qed

lemma sample_run:
  "\<exists>r' res. run_graph zero_hash sample_runner sample_input (\<lambda>_. uncertain_env) = (r', Inr res) \<and>
     map nr_status (rr_nodes res) = [JStr ''needs-review'', JStr ''blocked''] \<and> rr_pending res = 1"
  unfolding run_graph_def sample_begin sum.case sample_end Let_def
  by (simp add: sample_graph_def complete_results_def set_results_def sample_review_def run_node_uncertain plain_result_def)

theorem run_gives_each_node_its_outcome_witness:
  "\<exists>r' res. run_graph zero_hash sample_runner sample_input (\<lambda>_. uncertain_env) = (r', Inr res) \<and>
     map nr_nodeId (rr_nodes res) = [''a'', ''b'']"
proof -
  obtain r' res where run: "run_graph zero_hash sample_runner sample_input (\<lambda>_. uncertain_env) = (r', Inr res)"
    using sample_run by blast
  have "map nr_nodeId (rr_nodes res) = map an_id (ag_nodes (ri_graph sample_input))"
    using run_gives_each_node_its_outcome [OF _ run, of zero_hash sample_graph_json] sample_graph_valid
    by (simp add: sample_input_def) blast
  with run show ?thesis by (simp add: sample_input_def sample_graph_def)
qed

theorem run_pending_reviewed_witness:
  "\<exists>r' res. run_graph zero_hash sample_runner sample_input (\<lambda>_. uncertain_env) = (r', Inr res) \<and> length (rn_physical r') = 1"
proof -
  obtain r' res where run: "run_graph zero_hash sample_runner sample_input (\<lambda>_. uncertain_env) = (r', Inr res)" "rr_pending res = 1"
    using sample_run by blast
  with run_pending_reviewed [OF _ run(1), of zero_hash sample_graph_json] sample_graph_valid
  show ?thesis by (simp add: sample_input_def)
qed

theorem dispatch_authority_within_parent_witness:
  "set (rq_capabilities (make_request zero_hash sample_context sample_manifest (the_node ''a'' []))) \<subseteq>
     {''workspace.inspect'', ''network.access''}"
proof -
  have m: "the_manifest sample_context (the_node ''a'' []) = sample_manifest"
    by (simp add: the_manifest_def sample_context_def manifest_of_def sample_manifest_def the_node_def)
  have n: "the_node ''a'' [] \<in> set (ag_nodes (ri_graph sample_input))" by (simp add: sample_input_def sample_graph_def)
  have ps: "map JStr ps = [JStr ''workspace.inspect'', JStr ''network.access''] \<Longrightarrow> set ps = {''workspace.inspect'', ''network.access''}" for ps
    by (auto simp: map_eq_Cons_conv)
  show ?thesis
    using dispatch_authority_within_parent [OF sample_begin n, of zero_hash] ps by (auto simp: m sample_input_def)
qed

section \<open>A receipt with a list for its status\<close>

definition solo_json :: jsval where
  "solo_json = JObj [(''schemaVersion'', JInt 1), (''id'', JStr ''g''), (''nodes'', JArr [sample_node ''a'' []])]"

definition solo_graph :: agent_graph where
  "solo_graph = \<lparr>ag_id = ''g'', ag_nodes = [the_node ''a'' []], ag_digest = zeros\<rparr>"

definition solo_receipt :: jsval where
  "solo_receipt = JObj [(''graphRunId'', JStr ''a''), (''nodeCallId'', JStr (''call:'' @ replicate 48 (CHR ''0''))),
     (''principalNamespace'', JStr ''b''), (''graphDigest'', JStr zeros), (''manifestDigest'', JStr zeros), (''requestDigest'', JStr zeros),
     (''producerNodeId'', JStr ''a''), (''resultRef'', JStr ''result:a''), (''resultDigest'', JStr zeros),
     (''terminalStatus'', JArr [JStr ''failed'']), (''auditRef'', JStr ''audit:x'')]"

definition solo_env :: batch_env where
  "solo_env = \<lparr>be_aborted = False, be_settled = [], be_end = (\<lambda>_. Ends_with_receipt solo_receipt)\<rparr>"

lemma solo_clean: "cleanJson solo_json l = Inr solo_json" "cleanJson solo_receipt l = Inr solo_receipt"
  by (simp_all add: cleanJson_def solo_json_def solo_receipt_def sample_node_def zeros_def graph_eval)

lemma solo_graph_valid: "validateAgentRunGraph zero_hash solo_json = Inr solo_graph"
  unfolding validateAgentRunGraph_def solo_clean
  by (simp add: solo_json_def graph_object_def graph_exact_def AGENT_RUN_GRAPH_SCHEMA_VERSION_def MAX_AGENT_GRAPH_NODES_def
      enumerate_eq_zip Let_def sample_nodes solo_checked graph_identifier_def sample_ids zero_hash_json solo_graph_def
      cong: bindR_weak)

definition solo_input :: run_input where
  "solo_input = sample_input\<lparr>ri_graph := solo_graph\<rparr>"

definition solo_context :: run_context where
  "solo_context = sample_context\<lparr>cx_graph := solo_graph\<rparr>"

lemma solo_begin: "run_begin sample_runner solo_input = Inr solo_context"
  by (simp add: run_begin_def sample_runner_def sample_input_def solo_input_def solo_context_def sample_context_def graph_identifier_def
      sample_ids lift_run_def principal_def starts_with_def FORBIDDEN_IDENTITY_def manifest_authority_def sample_manifest_def
      sample_authority check_node_def manifest_of_def solo_graph_def nullish_def bounded_positive_def MAX_AGENT_TIMEOUT_MS_def
      is_safe_int_def MAX_SAFE_INTEGER_def cong: bindR_weak) (simp add: the_node_def)

lemma solo_batches: "run_batches 4 [the_node ''a'' []] = [[the_node ''a'' []]]"
  by code_simp

definition solo_result :: node_result where
  "solo_result = \<lparr>nr_nodeId = ''a'', nr_status = JArr [JStr ''failed''], nr_nodeCallId = Some (''call:'' @ replicate 48 (CHR ''0'')),
     nr_requestDigest = Some zeros, nr_receipt = Some (''audit:x'', zeros, ''result:a''), nr_errorCode = Some ''AUDITED_TERMINAL''\<rparr>"

lemma solo_manifest: "the_manifest solo_context (the_node ''a'' []) = sample_manifest"
  by (simp add: the_manifest_def solo_context_def sample_context_def manifest_of_def sample_manifest_def the_node_def)

lemma solo_audit: "typedReference (JStr ''audit:x'') l [''audit''] = Inr ''audit:x''"
  unfolding typedReference_Inr by code_simp

lemma solo_accepted:
  "validateReceipt zero_hash (make_request zero_hash solo_context sample_manifest (the_node ''a'' [])) solo_receipt =
     Inr \<lparr>rc_resultDigest = zeros, rc_terminalStatus = JArr [JStr ''failed''], rc_auditRef = ''audit:x''\<rparr>"
proof -
  have q: "make_request zero_hash solo_context sample_manifest (the_node ''a'' []) =
      \<lparr>rq_graphRunId = ''a'', rq_nodeCallId = ''call:'' @ replicate 48 (CHR ''0''), rq_principal = ''b'', rq_graphDigest = zeros,
       rq_manifestDigest = zeros, rq_requestDigest = zeros, rq_nodeId = ''a'', rq_manifest = sample_manifest, rq_agentBinding = None,
       rq_inputDigest = None, rq_capabilities = [''workspace.inspect''], rq_inputRef = ''input:x'', rq_resultRef = ''result:a''\<rparr>"
    by (simp add: make_request_def call_id_def zero_hash_json sample_call Let_def solo_context_def sample_context_def sample_manifest_def
        solo_graph_def) (simp add: the_node_def)
  show ?thesis
    unfolding validateReceipt_def solo_clean q
    by (simp add: solo_receipt_def graph_object_def graph_exact_def check_binding_def zeros_hex solo_audit
        TERMINAL_RESULTS_def cong: bindR_weak)
qed

lemma solo_node:
  "run_node zero_hash solo_context sample_manifest (the_node ''a'' []) (Ends_with_receipt solo_receipt) = solo_result"
  unfolding run_node_def Let_def dispatch_end.case solo_accepted sum.case
  by (simp add: solo_result_def make_request_def Let_def call_id_def zero_hash_json sample_call) (simp add: the_node_def)

lemma solo_end:
  "run_end zero_hash solo_context (\<lambda>_. solo_env) = \<lparr>rs_results = [(''a'', solo_result)], rs_physical = [], rs_aborted = False\<rparr>"
  by (simp add: run_end_def solo_context_def solo_graph_def solo_batches run_batch_def solo_env_def set_results_def dependency_open_def
      Let_def solo_manifest [unfolded solo_context_def solo_graph_def] solo_node [unfolded solo_context_def solo_graph_def])

text \<open>
  A receipt whose terminal status is the list \<open>["failed"]\<close> is accepted, because it is compared
  as a text; the run of a graph with that one node is then reported as completed, though the node
  carries an error code.
\<close>

lemma list_status_reported_completed:
  "validateAgentRunGraph zero_hash solo_json = Inr solo_graph \<and> ri_graph solo_input = solo_graph \<and>
   run_graph zero_hash sample_runner solo_input (\<lambda>_. solo_env) =
     (sample_runner, Inr \<lparr>rr_status = ''completed'', rr_nodes = [solo_result], rr_pending = 0\<rparr>) \<and>
   nr_status solo_result = JArr [JStr ''failed''] \<and> nr_errorCode solo_result = Some ''AUDITED_TERMINAL''"
  unfolding run_graph_def solo_begin sum.case solo_end Let_def
  by (simp add: solo_graph_valid solo_input_def sample_runner_def solo_context_def solo_graph_def complete_results_def set_results_def
      run_status_def) (simp add: solo_result_def)

theorem graph_check_exact_witness:
  "check_graph [the_node ''a'' [], the_node ''b'' [''a'']] = Inr () \<and> distinct (map an_id [the_node ''a'' [], the_node ''b'' [''a'']])"
  using sample_checked graph_check_exact [of "[the_node ''a'' [], the_node ''b'' [''a'']]"] by blast

end
