(* ===== verification/Redaction.thy ===== *)
theory Redaction
  imports Prelude
begin

text \<open>
  The sanitizer of everything that is stored, from \<open>packages/protocol/src/index.ts\<close>: values under the
  name of a secret become a mark, texts lose private keys and what the patterns of secrets match,
  and depth and width are bounded.

  The replacement by the regular expressions \<open>URL_CREDENTIAL\<close>, \<open>SECRET_VALUES\<close> and
  \<open>SECRET_ASSIGNMENT\<close> is the argument \<open>pat\<close>.  A text cut inside a surrogate pair loses the pair.
\<close>

section \<open>Texts\<close>

definition REDACTED :: string where "REDACTED = ''[redacted]''"
definition PRIVATE_KEY_BEGIN :: string where "PRIVATE_KEY_BEGIN = ''-----BEGIN ''"
definition PRIVATE_KEY_SUFFIX :: string where "PRIVATE_KEY_SUFFIX = ''PRIVATE KEY-----''"

text \<open>The text before and after the first occurrence of \<open>p\<close>.\<close>

fun find_text :: "string \<Rightarrow> string \<Rightarrow> (string \<times> string) option" where
  "find_text p [] = (if p = [] then Some ([], []) else None)"
| "find_text p (c # s) =
     (if starts_with (c # s) p then Some ([], drop (length p) (c # s))
      else map_option (\<lambda>(a, b). (c # a, b)) (find_text p s))"

lemma find_text_split: "find_text p s = Some (a, b) \<Longrightarrow> s = a @ p @ b"
  by (induction s arbitrary: a) (auto simp: starts_with_iff split: if_splits)

definition valid_label :: "string \<Rightarrow> bool" where
  "valid_label l \<longleftrightarrow> l = [] \<or> last l = CHR '' '' \<and> list_all (\<lambda>c. c = CHR '' '' \<or> is_upper c \<or> is_digit c) l"

function redactPrivateKeyBlocks :: "string \<Rightarrow> string" where
  "redactPrivateKeyBlocks s =
     (case find_text PRIVATE_KEY_BEGIN s of
        None \<Rightarrow> s
      | Some (before, rest) \<Rightarrow>
          (case find_text PRIVATE_KEY_SUFFIX rest of
             None \<Rightarrow> s
           | Some (label, body) \<Rightarrow>
               if \<not> valid_label label then before @ PRIVATE_KEY_BEGIN @ redactPrivateKeyBlocks rest
               else
                 (case find_text (''-----END '' @ label @ PRIVATE_KEY_SUFFIX) body of
                    None \<Rightarrow> s
                  | Some (_, after) \<Rightarrow> before @ REDACTED @ redactPrivateKeyBlocks after)))"
  by pat_completeness auto
termination
  by (relation "measure length") (auto dest!: find_text_split simp: PRIVATE_KEY_BEGIN_def)

declare redactPrivateKeyBlocks.simps [simp del]

fun js_prefix :: "int \<Rightarrow> string \<Rightarrow> string" where
  "js_prefix n [] = []"
| "js_prefix n (c # s) = (if int (utf16_units c) \<le> n then c # js_prefix (n - int (utf16_units c)) s else [])"

definition redact_text :: "(string \<Rightarrow> string) \<Rightarrow> string \<Rightarrow> string" where
  "redact_text pat s = js_prefix 100000 (pat (redactPrivateKeyBlocks s))"

section \<open>Values\<close>

definition SECRET_KEYS :: "string list" where
  "SECRET_KEYS = [''apikey'', ''token'', ''accesstoken'', ''refreshtoken'', ''idtoken'', ''capability'', ''capabilitytoken'',
     ''authorization'', ''cookie'', ''credential'', ''credentials'', ''password'', ''passwordhash'', ''passwd'', ''secret'',
     ''clientsecret'', ''botsecret'', ''bottoken'', ''privatekey'']"

text \<open>\<open>toLowerCase\<close>, as far as it gives ASCII letters: the Kelvin sign is a \<open>k\<close>.\<close>

fun lower_key :: "string \<Rightarrow> string" where
  "lower_key [] = []"
| "lower_key (c # s) =
     (if c = CHR 0xE2 \<and> take 2 s = [CHR 0x84, CHR 0xAA] then CHR ''k'' # lower_key (drop 2 s)
      else ascii_lower c # lower_key s)"

definition isSecretKey :: "string \<Rightarrow> bool" where
  "isSecretKey k \<longleftrightarrow> lower_key (filter (\<lambda>c. c \<noteq> CHR ''-'') (filter (\<lambda>c. c \<noteq> CHR ''_'') k)) \<in> set SECRET_KEYS"

definition context_tool :: "(string \<times> jsval) list \<Rightarrow> string option \<Rightarrow> string option" where
  "context_tool r t =
     (if is_str (js_field r ''toolName'') then Some (the_str (js_field r ''toolName''))
      else if is_str (js_field r ''tool'') then Some (the_str (js_field r ''tool''))
      else t)"

text \<open>The entries of an object that are kept, and what is stored for one that is hidden by its name.\<close>

definition kept_entries :: "(string \<times> jsval) list \<Rightarrow> (string \<times> jsval) list" where
  "kept_entries r = filter (\<lambda>(k, v). v \<noteq> JUndef) (take 1000 r)"

definition hidden_entry :: "string option \<Rightarrow> bool \<Rightarrow> bool \<Rightarrow> string \<Rightarrow> jsval option" where
  "hidden_entry t inp sensitive k =
     (if t = Some ''browser.type'' \<and> inp \<and> k = ''value'' \<or> t = Some ''process.exec'' \<and> inp \<and> k = ''command'' \<or> sensitive \<and> k = ''value''
      then Some (JStr REDACTED)
      else if t = Some ''process.exec'' \<and> inp \<and> k = ''args'' then Some (JArr [JStr REDACTED])
      else None)"

function redactDurableNode :: "(string \<Rightarrow> string) \<Rightarrow> string option \<Rightarrow> bool \<Rightarrow> nat \<Rightarrow> string \<Rightarrow> jsval \<Rightarrow> jsval" where
  "redactDurableNode pat t inp d key v =
     (if 8 < d then JStr ''[redacted-depth]''
      else if isSecretKey key then JStr REDACTED
      else case v of
          JStr s \<Rightarrow> JStr (redact_text pat s)
        | JArr vs \<Rightarrow> JArr (map (redactDurableNode pat t inp (Suc d) []) (take 1000 vs))
        | JObj r \<Rightarrow>
            JObj (map (\<lambda>(k, item).
              (k, case hidden_entry (context_tool r t) (inp \<or> k = ''input'') (js_field r ''sensitive'' = JBool True) k of
                    Some h \<Rightarrow> h
                  | None \<Rightarrow> redactDurableNode pat (context_tool r t) (inp \<or> k = ''input'') (Suc d) k item)) (kept_entries r))
        | _ \<Rightarrow> v)"
  by pat_completeness auto
termination
  by (relation "measure (\<lambda>(pat, t, inp, d, key, v). 9 - d)") auto

declare redactDurableNode.simps [simp del]

definition redactDurableValue :: "(string \<Rightarrow> string) \<Rightarrow> string option \<Rightarrow> bool \<Rightarrow> jsval \<Rightarrow> jsval" where
  "redactDurableValue pat t inp v = redactDurableNode pat t inp 0 [] v"

section \<open>What is stored\<close>

lemma js_prefix_length: "0 \<le> n \<Longrightarrow> int (js_length (js_prefix n s)) \<le> n"
  by (induction n s rule: js_prefix.induct) (auto simp: js_length_def)

lemma js_prefix_all: "int (js_length s) \<le> n \<Longrightarrow> js_prefix n s = s"
  by (induction n s rule: js_prefix.induct) (auto simp: js_length_def)

text \<open>
  A stored value: at most \<open>n\<close> levels of at most 1,000 entries each, texts of at most 100,000 units that
  are marks or went through the patterns, and nothing but a mark under the name of a secret.
\<close>

definition marks :: "jsval set" where
  "marks = {JStr REDACTED, JStr ''[redacted-depth]''}"

fun stored_value :: "(string \<Rightarrow> string) \<Rightarrow> nat \<Rightarrow> jsval \<Rightarrow> bool" where
  "stored_value pat n (JStr s) = (js_length s \<le> 100000 \<and> (JStr s \<in> marks \<or> s \<in> range (redact_text pat)))"
| "stored_value pat n (JArr vs) = (0 < n \<and> length vs \<le> 1000 \<and> (\<forall>v\<in>set vs. stored_value pat (n - 1) v))"
| "stored_value pat n (JObj fs) =
     (0 < n \<and> length fs \<le> 1000 \<and> (\<forall>(k, v)\<in>set fs. (isSecretKey k \<longrightarrow> v \<in> marks) \<and> stored_value pat (n - 1) v))"
| "stored_value pat n v = True"

lemma stored_mark: "v \<in> marks \<Longrightarrow> stored_value pat n v"
  by (auto simp: marks_def REDACTED_def js_length_def utf16_units_def)

lemma kept_entries_length: "length (kept_entries r) \<le> 1000"
  using length_filter_le [of _ "take 1000 r"] by (auto simp: kept_entries_def intro: le_trans)

lemma hidden_entry_shape: "hidden_entry t inp s k = Some h \<Longrightarrow> h \<in> {JStr REDACTED, JArr [JStr REDACTED]} \<and> \<not> isSecretKey k"
  by (auto simp: hidden_entry_def isSecretKey_def SECRET_KEYS_def ascii_lower_def split: if_splits)

lemma redacted_stored:
  "d \<le> 9 \<Longrightarrow> stored_value pat (10 - d) (redactDurableNode pat t inp d key v)"
proof (induction pat t inp d key v rule: redactDurableNode.induct)
  case (1 pat t inp d key v)
  show ?case
  proof (cases "8 < d \<or> isSecretKey key")
    case True
    then have "redactDurableNode pat t inp d key v \<in> marks" by (subst redactDurableNode.simps) (auto simp: marks_def)
    then show ?thesis by (rule stored_mark)
  next
    case False
    then have d: "\<not> 8 < d" "\<not> isSecretKey key" "Suc d \<le> 9" "10 - Suc d = 10 - d - 1" by auto
    show ?thesis
    proof (cases v)
      case (JStr s)
      with d show ?thesis by (subst redactDurableNode.simps) (use js_prefix_length [of 100000] in \<open>force simp: redact_text_def\<close>)
    next
      case (JArr vs)
      have "stored_value pat (10 - d - 1) (redactDurableNode pat t inp (Suc d) [] u)" if "u \<in> set (take 1000 vs)" for u
        using 1(1) [OF d(1,2) JArr that d(3)] d(4) by simp
      with d(1,2,3) JArr show ?thesis by (subst redactDurableNode.simps) auto
    next
      case (JObj r)
      let ?t = "context_tool r t" and ?s = "js_field r ''sensitive'' = JBool True"
      have e: "(isSecretKey k \<longrightarrow> u \<in> marks) \<and> stored_value pat (10 - d - 1) u"
        if k: "(k, item) \<in> set (kept_entries r)" and u: "u = (case hidden_entry ?t (inp \<or> k = ''input'') ?s k of
              Some h \<Rightarrow> h | None \<Rightarrow> redactDurableNode pat ?t (inp \<or> k = ''input'') (Suc d) k item)" for k item u
      proof (cases "hidden_entry ?t (inp \<or> k = ''input'') ?s k")
        case None
        with 1(2) [OF d(1,2) JObj k refl _ d(3)] d(4) u have "stored_value pat (10 - d - 1) u" by simp
        moreover have "u \<in> marks" if "isSecretKey k"
          using u None that by (subst (asm) redactDurableNode.simps) (auto simp: marks_def)
        ultimately show ?thesis by blast
      next
        case (Some h)
        then show ?thesis
          using u hidden_entry_shape [OF Some] d(3) by (auto simp: marks_def REDACTED_def js_length_def utf16_units_def)
      qed
      show ?thesis
        using d(1,2,3) JObj kept_entries_length [of r] e by (subst redactDurableNode.simps) auto
    qed (use d in \<open>subst redactDurableNode.simps; simp\<close>)+
  qed
qed

text \<open>
  C28. What is stored of a value is bounded in depth, width and the length of its texts, and under the
  name of a secret there is nothing but a mark.
\<close>

theorem redaction_stores_no_secret: "stored_value pat 10 (redactDurableValue pat t inp v)"
  using redacted_stored [of 0] by (simp add: redactDurableValue_def)

section \<open>Fields of a stored object\<close>

lemma kept_field:
  assumes "length r \<le> 1000" "js_field r k \<noteq> JUndef"
  shows "js_field (map (\<lambda>(k, v). (k, f k v)) (kept_entries r)) k = f k (js_field r k)"
proof -
  have "js_field (map (\<lambda>(k, v). (k, f k v)) (filter (\<lambda>(k, v). v \<noteq> JUndef) m)) k = f k (js_field m k)"
    if "js_field m k \<noteq> JUndef" for m
    using that by (induction m) (auto split: if_splits)
  with assms show ?thesis by (simp add: kept_entries_def)
qed

text \<open>What is stored for a field of the outermost object.\<close>

definition stored_field :: "(string \<Rightarrow> string) \<Rightarrow> string option \<Rightarrow> bool \<Rightarrow> bool \<Rightarrow> string \<Rightarrow> jsval \<Rightarrow> jsval" where
  "stored_field pat t inp sensitive k v =
     (case hidden_entry t inp sensitive k of Some h \<Rightarrow> h | None \<Rightarrow> redactDurableNode pat t inp 1 k v)"

definition stored_fields :: "(string \<Rightarrow> string) \<Rightarrow> string option \<Rightarrow> bool \<Rightarrow> (string \<times> jsval) list \<Rightarrow> (string \<times> jsval) list" where
  "stored_fields pat t inp r =
     map (\<lambda>(k, v). (k, stored_field pat (context_tool r t) (inp \<or> k = ''input'') (js_field r ''sensitive'' = JBool True) k v)) (kept_entries r)"

lemma redacted_object: "redactDurableValue pat t inp (JObj r) = JObj (stored_fields pat t inp r)"
proof -
  have "\<not> isSecretKey []" by (simp add: isSecretKey_def SECRET_KEYS_def)
  then show ?thesis
    unfolding redactDurableValue_def stored_fields_def
    by (subst redactDurableNode.simps) (simp add: stored_field_def case_prod_beta cong: option.case_cong)
qed

lemma stored_field_plain:
  assumes "\<not> isSecretKey k" "k \<notin> {''value'', ''command'', ''args''}"
  shows "stored_field pat t inp sensitive k (JStr s) = JStr (redact_text pat s)" "stored_field pat t inp sensitive k (JInt n) = JInt n"
proof -
  have "hidden_entry t inp sensitive k = None" using assms(2) by (simp add: hidden_entry_def)
  with assms(1) show "stored_field pat t inp sensitive k (JStr s) = JStr (redact_text pat s)" "stored_field pat t inp sensitive k (JInt n) = JInt n"
    by (simp_all add: stored_field_def redactDurableNode.simps [of pat t inp "Suc 0" k])
qed

lemma redacted_field:
  assumes "length r \<le> 1000" "\<not> isSecretKey k" "k \<notin> {''value'', ''command'', ''args''}"
  shows "js_field r k = JStr s \<Longrightarrow> js_field (stored_fields pat t inp r) k = JStr (redact_text pat s)"
    and "js_field r k = JInt n \<Longrightarrow> js_field (stored_fields pat t inp r) k = JInt n"
  unfolding stored_fields_def
  by (subst kept_field [OF assms(1)]; simp add: stored_field_plain [OF assms(2,3)])+

lemma stored_keys: "fst ` set (stored_fields pat t inp r) \<subseteq> fst ` set r"
  by (force simp: stored_fields_def kept_entries_def dest: in_set_takeD)

lemma stored_length: "length (stored_fields pat t inp r) \<le> length r"
  using length_filter_le [of _ "take 1000 r"] by (auto simp: stored_fields_def kept_entries_def intro: order_trans)

end
