(* ===== verification/Durable_Input.thy ===== *)
theory Durable_Input
  imports Redaction
begin

text \<open>
  What is kept of a tool request when it is stored: \<open>projectDurableToolInput\<close> of
  \<open>packages/protocol/src/index.ts\<close> and the projections it chooses from.  Texts that carry content
  are replaced by their digest and their length.

  SHA-256 (as hexadecimal text) and \<open>String.prototype.toLowerCase\<close> are arguments.
\<close>

section \<open>Bounded values\<close>

record durable_env =
  de_hash :: "string \<Rightarrow> string"
  de_lower :: "string \<Rightarrow> string"

definition sha256Reference :: "durable_env \<Rightarrow> string \<Rightarrow> string" where
  "sha256Reference D s = ''sha256:'' @ de_hash D s"

definition visible_text :: "string \<Rightarrow> bool" where
  "visible_text s \<longleftrightarrow> list_all (\<lambda>c. let b = (of_char c :: int) in 32 \<le> b \<and> b \<noteq> 127) s"

fun boundedEmailString :: "jsval \<Rightarrow> nat \<Rightarrow> string option" where
  "boundedEmailString (JStr s) m = (if length s \<le> m then Some s else None)"
| "boundedEmailString _ m = None"

fun boundedComputerString :: "jsval \<Rightarrow> nat \<Rightarrow> string option" where
  "boundedComputerString (JStr s) m = (if s \<noteq> [] \<and> length s \<le> m \<and> visible_text s then Some s else None)"
| "boundedComputerString _ m = None"

fun boundedProcessString :: "jsval \<Rightarrow> nat \<Rightarrow> string option" where
  "boundedProcessString (JStr s) m = (if length s \<le> m \<and> visible_text s then Some s else None)"
| "boundedProcessString _ m = None"

fun safe_integer :: "jsval \<Rightarrow> bool" where
  "safe_integer (JInt n) = is_safe_int n"
| "safe_integer _ = False"

fun boundedProcessInteger :: "jsval \<Rightarrow> int \<Rightarrow> int \<Rightarrow> jsval option" where
  "boundedProcessInteger (JInt n) l u = (if is_safe_int n \<and> l \<le> n \<and> n \<le> u then Some (JInt n) else None)"
| "boundedProcessInteger _ l u = None"

definition text_size :: "string \<Rightarrow> jsval" where
  "text_size s = JInt (int (length s))"

text \<open>The digest and the length of a text, under the name of the field it comes from.\<close>

definition digested :: "durable_env \<Rightarrow> string \<Rightarrow> string \<Rightarrow> (string \<times> jsval) list" where
  "digested D k s = [(k @ ''Digest'', JStr (sha256Reference D s)), (k @ ''Bytes'', text_size s)]"

definition digestComputerField :: "durable_env \<Rightarrow> (string \<times> jsval) list \<Rightarrow> string \<Rightarrow> (string \<times> jsval) list" where
  "digestComputerField D r k = (case boundedComputerString (js_field r k) 4096 of None \<Rightarrow> [] | Some s \<Rightarrow> digested D k s)"

definition field_if :: "(jsval \<Rightarrow> bool) \<Rightarrow> (string \<times> jsval) list \<Rightarrow> string \<Rightarrow> (string \<times> jsval) list" where
  "field_if ok r k = (if ok (js_field r k) then [(k, js_field r k)] else [])"

definition optional :: "string \<Rightarrow> jsval option \<Rightarrow> (string \<times> jsval) list" where
  "optional k v = (case v of None \<Rightarrow> [] | Some x \<Rightarrow> [(k, x)])"

fun is_bool :: "jsval \<Rightarrow> bool" where
  "is_bool (JBool b) = True"
| "is_bool _ = False"

fun is_number :: "jsval \<Rightarrow> bool" where
  "is_number (JInt n) = True"
| "is_number (JFlt n t) = True"
| "is_number JNaN = True"
| "is_number (JInf b) = True"
| "is_number _ = False"

section \<open>Files, processes, computers\<close>

definition MUTATION_PAYLOAD_FIELDS :: "string list" where
  "MUTATION_PAYLOAD_FIELDS = [''content'', ''find'', ''replace'']"

text \<open>The fields one entry of an object gives, then the object rebuilt entry by entry.\<close>

definition payload_entry :: "durable_env \<Rightarrow> string \<Rightarrow> jsval \<Rightarrow> jsval \<Rightarrow> (string \<times> jsval) list" where
  "payload_entry D k v v' = (if k \<in> set MUTATION_PAYLOAD_FIELDS \<and> is_str v then digested D k (the_str v) else [(k, v')])"

fun projectMutationPayload :: "durable_env \<Rightarrow> jsval \<Rightarrow> jsval" where
  "projectMutationPayload D (JArr vs) = JArr (map (projectMutationPayload D) vs)"
| "projectMutationPayload D (JObj fs) =
     JObj (js_assign [] (concat (map (\<lambda>(k, v). payload_entry D k v (projectMutationPayload D v)) fs)))"
| "projectMutationPayload D v = v"

fun boundedProcessArgs :: "jsval \<Rightarrow> string list option" where
  "boundedProcessArgs (JArr vs) =
     (if 256 < length vs \<or> list_ex (\<lambda>v. boundedProcessString v 65536 = None) vs then None
      else if sum_list (map (\<lambda>v. length (the_str v)) vs) \<le> 16777216 then Some (map the_str vs) else None)"
| "boundedProcessArgs _ = None"

definition projectProcessInput :: "durable_env \<Rightarrow> jsval \<Rightarrow> jsval" where
  "projectProcessInput D v =
     (case v of
        JObj r \<Rightarrow> JObj (
          (case boundedProcessString (js_field r ''command'') 4096 of None \<Rightarrow> [] | Some c \<Rightarrow> digested D ''command'' c) @
          (case boundedProcessArgs (js_field r ''args'') of
             None \<Rightarrow> []
           | Some as \<Rightarrow>
               [(''argsDigest'', JStr (sha256Reference D (the (json_stringify (JArr (map JStr as)))))), (''argsCount'', JInt (int (length as))),
                (''argsBytes'', JInt (int (sum_list (map length as))))]) @
          optional ''cwd'' (map_option JStr (boundedProcessString (js_field r ''cwd'') 4096)) @
          optional ''timeoutMs'' (boundedProcessInteger (js_field r ''timeoutMs'') 1 86400000) @
          optional ''maxOutputBytes'' (boundedProcessInteger (js_field r ''maxOutputBytes'') 1 16777216))
      | _ \<Rightarrow> JObj [])"

definition projectComputerInput :: "durable_env \<Rightarrow> string \<Rightarrow> jsval \<Rightarrow> jsval" where
  "projectComputerInput D t v =
     (case v of
        JObj r \<Rightarrow>
          if t = ''computer.screen'' \<or> t = ''computer.recovery.status'' then JObj []
          else if t = ''computer.recovery.resolve'' then
            JObj (digestComputerField D r ''recoveryId'' @
              field_if (\<lambda>x. x = JStr ''confirmed-applied'' \<or> x = JStr ''confirmed-not-applied'') r ''outcome'')
          else
            JObj (digestComputerField D r ''frameId'' @
              (case js_field r ''action'' of
                 JStr a \<Rightarrow>
                   [(''action'', JStr a)] @
                   (if a = ''click'' \<or> a = ''move'' then
                      field_if safe_integer r ''x'' @ field_if safe_integer r ''y'' @
                      (if a = ''click'' then field_if (\<lambda>b. js_String b \<in> {''left'', ''middle'', ''right''}) r ''button'' else [])
                    else if a = ''type'' then digestComputerField D r ''text'' @ field_if is_bool r ''sensitive''
                    else if a = ''key'' then digestComputerField D r ''key''
                    else if a = ''scroll'' then field_if safe_integer r ''deltaX'' @ field_if safe_integer r ''deltaY''
                    else if a = ''wait'' then field_if safe_integer r ''durationMs''
                    else [])
               | _ \<Rightarrow> []))
      | _ \<Rightarrow> JObj [])"

definition projectGitInput :: "durable_env \<Rightarrow> jsval \<Rightarrow> jsval" where
  "projectGitInput D v =
     (case v of
        JObj r \<Rightarrow> JObj (
          concat (map (\<lambda>k. if is_str (js_field r k) then digested D k (the_str (js_field r k)) else []) [''path'', ''ref'']) @
          concat (map (field_if (\<lambda>x. is_number x \<or> is_bool x) r) [''limit'', ''maxBytes'', ''staged'']))
      | _ \<Rightarrow> JObj [])"

text \<open>Tools that read the content of the workspace: texts that were there, or are looked for, are digested.\<close>

definition WORKSPACE_CONTENT_TOOLS :: "string list" where
  "WORKSPACE_CONTENT_TOOLS = [''workspace.readText'', ''workspace.read'', ''workspace.search'', ''workspace.diff'', ''git.status'', ''git.diff'', ''git.log'']"

definition hide_text :: "durable_env \<Rightarrow> string \<Rightarrow> (string \<times> jsval) list \<Rightarrow> (string \<times> jsval) list" where
  "hide_text D k r = (if is_str (js_field r k) then jm_delete k (js_assign r (digested D k (the_str (js_field r k)))) else r)"

definition projectWorkspaceInput :: "durable_env \<Rightarrow> string \<Rightarrow> jsval \<Rightarrow> jsval" where
  "projectWorkspaceInput D t v =
     (case v of
        JObj r \<Rightarrow>
          if t \<in> set WORKSPACE_CONTENT_TOOLS
          then JObj ((if t = ''workspace.search'' then hide_text D ''query'' else id) (hide_text D ''before'' r))
          else v
      | _ \<Rightarrow> v)"

section \<open>Skills, MCP, sessions, remote services\<close>

definition projectSkillHydrateInput :: "jsval \<Rightarrow> jsval" where
  "projectSkillHydrateInput v =
     (case v of JObj r \<Rightarrow> JObj (optional ''id'' (map_option JStr (boundedEmailString (js_field r ''id'') 64))) | _ \<Rightarrow> JObj [])"

definition projectSkillLifecycleInput :: "durable_env \<Rightarrow> jsval \<Rightarrow> jsval" where
  "projectSkillLifecycleInput D v =
     (case v of
        JObj r \<Rightarrow>
          let fs = concat (map (\<lambda>k. optional k (map_option JStr (boundedEmailString (js_field r k)
                (if k = ''integrity'' \<or> k = ''requestDigest'' then 128 else 256))))
              [''skillId'', ''action'', ''version'', ''integrity'', ''requestDigest'', ''approvalId'']) in
          JObj (if fs = [] then [(''manifestDigest'', JStr (sha256Reference D (the (json_stringify v))))] else fs)
      | _ \<Rightarrow> JObj [])"

definition short_text :: "nat \<Rightarrow> jsval \<Rightarrow> bool" where
  "short_text m v \<longleftrightarrow> is_str v \<and> js_length (the_str v) \<le> m"

definition projectMcpDiscoverInput :: "jsval \<Rightarrow> jsval" where
  "projectMcpDiscoverInput v =
     (case v of JObj r \<Rightarrow> JObj (field_if (short_text 64) r ''serverId'' @ field_if is_bool r ''refresh'') | _ \<Rightarrow> JObj [])"

definition projectMcpInvokeInput :: "durable_env \<Rightarrow> jsval \<Rightarrow> jsval" where
  "projectMcpInvokeInput D v =
     (case v of
        JObj r \<Rightarrow> JObj (
          concat (map (field_if (short_text 256) r) [''serverId'', ''snapshotFingerprint'', ''extensionFingerprint'', ''toolName'', ''toolSchemaFingerprint'']) @
          concat (map (field_if safe_integer r) [''generation'', ''timeoutMs'']) @
          (if js_field r ''arguments'' = JUndef then []
           else digested D ''arguments'' (case json_stringify (js_field r ''arguments'') of None \<Rightarrow> ''null'' | Some t \<Rightarrow> t)))
      | _ \<Rightarrow> JObj [])"

definition LIVE_ONLY_SESSION_CONTENT_PLACEHOLDER :: string where
  "LIVE_ONLY_SESSION_CONTENT_PLACEHOLDER =
     ''[Live provider content is unavailable in saved session history. Run a fresh authorized read to view current content.]''"

definition lower_hex :: "char \<Rightarrow> bool" where
  "lower_hex c \<longleftrightarrow> (let b = (of_char c :: int) in 97 \<le> b \<and> b \<le> 102 \<or> 48 \<le> b \<and> b \<le> 57)"

definition digest_reference :: "jsval \<Rightarrow> bool" where
  "digest_reference v \<longleftrightarrow> is_str v \<and> starts_with (the_str v) ''sha256:'' \<and>
     length (drop 7 (the_str v)) = 64 \<and> list_all lower_hex (drop 7 (the_str v))"

definition normalizedLiveOnlySessionRetention :: "jsval \<Rightarrow> jsval option" where
  "normalizedLiveOnlySessionRetention v =
     (case v of
        JObj r \<Rightarrow>
          if js_field r ''schemaVersion'' = JInt 1 \<and> js_field r ''mode'' = JStr ''live-only-provider-read'' \<and>
            js_field r ''contentUnavailable'' = JBool True \<and> digest_reference (js_field r ''contentDigest'') \<and>
            (case js_field r ''contentBytes'' of JInt n \<Rightarrow> is_safe_int n \<and> 0 \<le> n | _ \<Rightarrow> False)
          then Some (JObj [(''schemaVersion'', JInt 1), (''mode'', JStr ''live-only-provider-read''), (''contentUnavailable'', JBool True),
            (''contentDigest'', js_field r ''contentDigest''), (''contentBytes'', js_field r ''contentBytes'')])
          else None
      | _ \<Rightarrow> None)"

definition projectSessionMessage :: "jsval \<Rightarrow> jsval" where
  "projectSessionMessage v =
     (case v of
        JObj r \<Rightarrow>
          (case normalizedLiveOnlySessionRetention (js_field r ''contentRetention'') of
             None \<Rightarrow> v
           | Some m \<Rightarrow> JObj (js_assign r [(''content'', JStr LIVE_ONLY_SESSION_CONTENT_PLACEHOLDER), (''contentRetention'', m)]))
      | _ \<Rightarrow> v)"

definition lowered :: "durable_env \<Rightarrow> jsval \<Rightarrow> jsval" where
  "lowered D v = (case v of JStr s \<Rightarrow> JStr (de_lower D s) | _ \<Rightarrow> JNull)"

definition or_null :: "(jsval \<Rightarrow> bool) \<Rightarrow> jsval \<Rightarrow> jsval" where
  "or_null ok v = (if ok v then v else JNull)"

definition list_digest :: "durable_env \<Rightarrow> jsval list \<Rightarrow> jsval" where
  "list_digest D vs = JStr (sha256Reference D (the (json_stringify (JArr vs))))"

definition projectGitHubInput :: "durable_env \<Rightarrow> string \<Rightarrow> jsval \<Rightarrow> jsval" where
  "projectGitHubInput D t v =
     (case v of
        JObj r \<Rightarrow> JObj ([(''targetDigest'', list_digest D [JStr t, lowered D (js_field r ''repository''),
            or_null safe_integer (js_field r ''issueNumber''), or_null safe_integer (js_field r ''pullNumber''), lowered D (js_field r ''ref'')])] @
          field_if safe_integer r ''limit'')
      | _ \<Rightarrow> JObj [])"

definition projectRemoteNodeInput :: "durable_env \<Rightarrow> string \<Rightarrow> jsval \<Rightarrow> jsval" where
  "projectRemoteNodeInput D t v = JObj [(''targetDigest'', list_digest D [JStr t, or_null is_str (js_field (the_obj v) ''nodeId'')])]"

section \<open>Mail and calendars\<close>

definition provider_identifier :: "durable_env \<Rightarrow> string \<Rightarrow> jsval \<Rightarrow> string \<Rightarrow> string + string" where
  "provider_identifier D context v label =
     (case boundedComputerString v 256 of
        None \<Rightarrow> Inl (label @ '' must be a bounded visible provider identifier'')
      | Some s \<Rightarrow> Inr (sha256Reference D (context @ s)))"

definition hashEmailProviderIdentifier :: "durable_env \<Rightarrow> jsval \<Rightarrow> string \<Rightarrow> string + string" where
  "hashEmailProviderIdentifier D = provider_identifier D ''odinn:email-provider-identifier:''"

definition hashCalendarProviderIdentifier :: "durable_env \<Rightarrow> jsval \<Rightarrow> string \<Rightarrow> string + string" where
  "hashCalendarProviderIdentifier D = provider_identifier D ''odinn:calendar-provider-identifier:''"

definition hasOwn :: "(string \<times> jsval) list \<Rightarrow> string \<Rightarrow> bool" where
  "hasOwn r k \<longleftrightarrow> k \<in> set (map fst r)"

text \<open>The digest of a target, or the one the request already carries when it has no target of its own.\<close>

definition target_digest :: "durable_env \<Rightarrow> bool \<Rightarrow> jsval list \<Rightarrow> (string \<times> jsval) list \<Rightarrow> (string \<times> jsval) list" where
  "target_digest D live target r =
     [(''targetDigest'',
       if live then list_digest D target
       else case boundedEmailString (js_field r ''targetDigest'') 128 of Some d \<Rightarrow> JStr d | None \<Rightarrow> list_digest D target)]"

definition email_text :: "durable_env \<Rightarrow> (string \<times> jsval) list \<Rightarrow> string \<Rightarrow> (string \<times> jsval) list" where
  "email_text D r k =
     (case boundedEmailString (js_field r k) 4096 of
        Some raw \<Rightarrow> digested D k raw
      | None \<Rightarrow>
          (case boundedEmailString (js_field r (k @ ''Digest'')) 128 of
             Some d \<Rightarrow> [(k @ ''Digest'', JStr d)] @ field_if safe_integer r (k @ ''Bytes'')
           | None \<Rightarrow> []))"

definition projectEmailInput :: "durable_env \<Rightarrow> jsval \<Rightarrow> string + jsval" where
  "projectEmailInput D v =
     (case v of
        JObj r \<Rightarrow>
          bindR (mapR (\<lambda>k. if hasOwn r k then bindR (hashEmailProviderIdentifier D (js_field r k) (''email input '' @ k)) (\<lambda>h. Inr (JStr h))
              else Inr JNull) [''accountId'', ''messageId'', ''threadId'']) (\<lambda>identifiers.
          Inr (JObj (target_digest D (\<exists>i\<in>set identifiers. i \<noteq> JNull) identifiers r @ field_if safe_integer r ''limit'' @
            email_text D r ''query'' @ email_text D r ''cursor'')))
      | _ \<Rightarrow> Inr (JObj []))"

definition projectCalendarInput :: "durable_env \<Rightarrow> string \<Rightarrow> jsval \<Rightarrow> string + jsval" where
  "projectCalendarInput D t v =
     (case v of
        JObj r \<Rightarrow>
          bindR (mapR (\<lambda>k. if hasOwn r k then bindR (hashCalendarProviderIdentifier D (js_field r k) (''calendar input '' @ k)) (\<lambda>h. Inr (JStr h))
              else Inr JNull) [''accountId'', ''calendarId'', ''eventId'']) (\<lambda>identifiers.
          let times = map (\<lambda>k. case boundedEmailString (js_field r k) 64 of None \<Rightarrow> JNull | Some s \<Rightarrow> JStr (sha256Reference D s)) [''start'', ''end''];
              target = JStr t # identifiers @ times in
          Inr (JObj (target_digest D (\<exists>i\<in>set (identifiers @ times). i \<noteq> JNull) target r @ field_if safe_integer r ''limit'')))
      | _ \<Rightarrow> Inr (JObj []))"

section \<open>Agents\<close>

definition agent_char :: "char \<Rightarrow> bool" where
  "agent_char c \<longleftrightarrow> is_upper c \<or> is_lower c \<or> is_digit c"

definition AGENT_INPUT_REFERENCE :: "string \<Rightarrow> bool" where
  "AGENT_INPUT_REFERENCE s \<longleftrightarrow>
     list_ex (\<lambda>p. starts_with s p \<and> matches agent_char (\<lambda>c. agent_char c \<or> c \<in> {CHR ''.'', CHR ''_'', CHR ''-''}) 127 (drop (length p) s))
       [''input:'', ''artifact:'', ''memory:'']"

definition AGENT_IDENTIFIER :: "string \<Rightarrow> bool" where
  "AGENT_IDENTIFIER s \<longleftrightarrow> matches agent_char (\<lambda>c. agent_char c \<or> c \<in> {CHR ''.'', CHR ''_'', CHR '':'', CHR ''-''}) 63 s"

definition AGENT_FORBIDDEN_IDENTITY :: "string \<Rightarrow> bool" where
  "AGENT_FORBIDDEN_IDENTITY s \<longleftrightarrow> list_ex (js_includes (map ascii_lower s)) [''token'', ''secret'', ''auth'', ''credential'', ''approval'']"

definition boundedAgentPrincipalReference :: "durable_env \<Rightarrow> jsval \<Rightarrow> jsval option" where
  "boundedAgentPrincipalReference D v =
     (case v of
        JStr s \<Rightarrow> if AGENT_IDENTIFIER s \<and> \<not> AGENT_FORBIDDEN_IDENTITY s then Some (JStr (sha256Reference D s)) else None
      | _ \<Rightarrow> None)"

definition agent_text :: "nat \<Rightarrow> jsval \<Rightarrow> jsval option" where
  "agent_text m v = map_option JStr (boundedProcessString v m)"

definition copyAgentField :: "(string \<times> jsval) list \<Rightarrow> string \<Rightarrow> (jsval \<Rightarrow> jsval option) \<Rightarrow> (string \<times> jsval) list" where
  "copyAgentField r k ok =
     (if js_field r k = JUndef then []
      else case ok (js_field r k) of None \<Rightarrow> [(k @ ''Invalid'', JBool True)] | Some x \<Rightarrow> [(k, x)])"

definition MAX_AGENT_PROJECTED_TEXT_BYTES :: nat where "MAX_AGENT_PROJECTED_TEXT_BYTES = 262144"

definition agent_content :: "durable_env \<Rightarrow> (string \<times> jsval) list \<Rightarrow> string \<Rightarrow> (string \<times> jsval) list" where
  "agent_content D r k =
     (case boundedProcessString (js_field r k) MAX_AGENT_PROJECTED_TEXT_BYTES of
        Some s \<Rightarrow> digested D k s
      | None \<Rightarrow> if js_field r k = JUndef then [] else [(k @ ''Invalid'', JBool True)])"

definition agent_message :: "durable_env \<Rightarrow> jsval \<Rightarrow> jsval" where
  "agent_message D v =
     (case v of
        JObj r \<Rightarrow>
          if js_field r ''role'' \<in> {JStr ''system'', JStr ''user'', JStr ''assistant''}
          then JObj ([(''role'', js_field r ''role'')] @ agent_content D r ''content'')
          else JObj [(''invalid'', JBool True)]
      | _ \<Rightarrow> JObj [(''invalid'', JBool True)])"

definition agent_fields :: "durable_env \<Rightarrow> (string \<times> jsval) list \<Rightarrow> (string \<times> jsval) list" where
  "agent_fields D r =
     copyAgentField r ''model'' (agent_text 256) @
     copyAgentField r ''maxTurns'' (\<lambda>v. boundedProcessInteger v 1 4) @
     copyAgentField r ''maxTokens'' (\<lambda>v. boundedProcessInteger v 1 4096) @
     copyAgentField r ''sessionId'' (agent_text 256) @
     copyAgentField r ''projectId'' (agent_text 256) @
     copyAgentField r ''reasoningBudgetRecovery'' (\<lambda>v. if is_bool v then Some v else None) @
     copyAgentField r ''principalNamespace'' (boundedAgentPrincipalReference D) @
     copyAgentField r ''maxConcurrency'' (\<lambda>v. boundedProcessInteger v 1 1) @
     copyAgentField r ''maxRunMs'' (\<lambda>v. boundedProcessInteger v 1 300000) @
     agent_content D r ''prompt'' @
     (case js_field r ''messages'' of
        JArr ms \<Rightarrow>
          [(''messages'', JArr (map (agent_message D) (take 128 ms)))] @ (if 128 < length ms then [(''messagesTruncated'', JBool True)] else [])
      | JUndef \<Rightarrow> []
      | _ \<Rightarrow> [(''messagesInvalid'', JBool True)])"

definition delegated_text :: "durable_env \<Rightarrow> (string \<times> jsval) list \<Rightarrow> string \<Rightarrow> (string \<times> jsval) list" where
  "delegated_text D r k =
     (case js_field r k of
        JStr s \<Rightarrow> digested D (k @ ''Input'') s
      | JUndef \<Rightarrow> []
      | _ \<Rightarrow> [(k @ ''InputInvalid'', JBool True)])"

definition agent_child :: "durable_env \<Rightarrow> jsval \<Rightarrow> jsval" where
  "agent_child D v = (case v of JObj r \<Rightarrow> JObj (agent_fields D r) | _ \<Rightarrow> JObj [])"

definition delegation_fields :: "durable_env \<Rightarrow> (string \<times> jsval) list \<Rightarrow> (string \<times> jsval) list" where
  "delegation_fields D r =
     delegated_text D r ''graph'' @ delegated_text D r ''manifests'' @
     (case js_field r ''inputs'' of
        JObj entries \<Rightarrow>
          let (safe, other) = partition (\<lambda>(k, v). AGENT_INPUT_REFERENCE k) (take 128 entries) in
          (if other \<noteq> [] then [(''inputsInvalid'', JBool True)] else []) @
          (if 128 < length entries then [(''inputsTruncated'', JBool True)] else []) @
          [(''inputs'', JObj (map (\<lambda>(k, v). (k, agent_child D v)) safe))]
      | JUndef \<Rightarrow> []
      | _ \<Rightarrow> [(''inputsInvalid'', JBool True)])"

definition projectAgentInput :: "durable_env \<Rightarrow> jsval \<Rightarrow> bool \<Rightarrow> jsval" where
  "projectAgentInput D v delegation =
     (case v of JObj r \<Rightarrow> JObj (agent_fields D r @ (if delegation then delegation_fields D r else [])) | _ \<Rightarrow> JObj [])"

section \<open>The projection of a request\<close>

definition projectDurableToolInput :: "durable_env \<Rightarrow> string \<Rightarrow> jsval \<Rightarrow> string + jsval" where
  "projectDurableToolInput D t v =
     (if t \<in> {''workspace.mutate'', ''workspace.patch''} then Inr (projectMutationPayload D v)
      else if t = ''process.exec'' then Inr (projectProcessInput D v)
      else if t \<in> {''agent.run'', ''agent.delegate''} then Inr (projectAgentInput D v (t = ''agent.delegate''))
      else if t = ''skill.catalog'' then Inr (JObj [])
      else if t = ''skill.hydrate'' then Inr (projectSkillHydrateInput v)
      else if t \<in> {''skill.install'', ''skill.lifecycle''} then Inr (projectSkillLifecycleInput D v)
      else if t = ''mcp.discover'' then Inr (projectMcpDiscoverInput v)
      else if t = ''mcp.invoke'' then Inr (projectMcpInvokeInput D v)
      else if t = ''session.message'' then Inr (projectSessionMessage v)
      else if t \<in> {''github.repository'', ''github.issue'', ''github.pull-request'', ''github.checks''} then Inr (projectGitHubInput D t v)
      else if t \<in> {''node.status'', ''node.diagnostics''} then Inr (projectRemoteNodeInput D t v)
      else if t \<in> {''email.accounts'', ''email.search'', ''email.read'', ''email.thread''} then projectEmailInput D v
      else if t \<in> {''calendar.calendars'', ''calendar.events'', ''calendar.read''} then projectCalendarInput D t v
      else if t \<in> {''computer.screen'', ''computer.act'', ''computer.recovery.status'', ''computer.recovery.resolve''} then Inr (projectComputerInput D t v)
      else if starts_with t ''git.'' then Inr (projectGitInput D v)
      else Inr (projectWorkspaceInput D t v))"

text \<open>The stored payload of a job.\<close>

definition projectDurableJobPayload :: "durable_env \<Rightarrow> (string \<Rightarrow> string) \<Rightarrow> (string \<times> jsval) list \<Rightarrow> string + jsval" where
  "projectDurableJobPayload D pat payload =
     (case js_field payload ''task'' of
        JObj task \<Rightarrow>
          bindR (projectDurableToolInput D (the_str (js_field task ''tool'')) (js_field task ''input'')) (\<lambda>inp.
          Inr (redactDurableValue pat None True (JObj (jm_set ''task'' (JObj (jm_set ''input'' inp task)) payload))))
      | _ \<Rightarrow> Inr (redactDurableValue pat None True (JObj payload)))"

section \<open>Projections hide the content of a mutation\<close>

text \<open>
  The names under which a mutation carries content, and a value without a text under one of them, in objects
  with distinct names.
\<close>

abbreviation content_names :: "string set" where
  "content_names \<equiv> {''content'', ''find'', ''replace''}"

fun payload_free :: "jsval \<Rightarrow> bool" where
  "payload_free (JArr vs) = (\<forall>v\<in>set vs. payload_free v)"
| "payload_free (JObj fs) =
     (distinct (map fst fs) \<and> (\<forall>(k, v)\<in>set fs. \<not> (k \<in> content_names \<and> is_str v) \<and> payload_free v))"
| "payload_free v = True"

text \<open>
  The scalars of a value, those of them that are not content, the texts that are content, and the names of
  fields, at any depth.
\<close>

fun scalars :: "jsval \<Rightarrow> jsval set" where
  "scalars (JArr vs) = (\<Union>v\<in>set vs. scalars v)"
| "scalars (JObj fs) = (\<Union>(k, v)\<in>set fs. scalars v)"
| "scalars v = {v}"

fun open_scalars :: "jsval \<Rightarrow> jsval set" where
  "open_scalars (JArr vs) = (\<Union>v\<in>set vs. open_scalars v)"
| "open_scalars (JObj fs) = (\<Union>(k, v)\<in>set fs. if k \<in> content_names \<and> is_str v then {} else open_scalars v)"
| "open_scalars v = {v}"

fun content_texts :: "jsval \<Rightarrow> string set" where
  "content_texts (JArr vs) = (\<Union>v\<in>set vs. content_texts v)"
| "content_texts (JObj fs) = (\<Union>(k, v)\<in>set fs. if k \<in> content_names \<and> is_str v then {the_str v} else content_texts v)"
| "content_texts v = {}"

fun field_names :: "jsval \<Rightarrow> string set" where
  "field_names (JArr vs) = (\<Union>v\<in>set vs. field_names v)"
| "field_names (JObj fs) = (\<Union>(k, v)\<in>set fs. insert k (field_names v))"
| "field_names v = {}"

lemma js_assign_distinct: "distinct (map fst a) \<Longrightarrow> distinct (map fst (js_assign a b))"
  by (induction b arbitrary: a) (auto simp: jm_keys_set)

lemma js_assign_subset: "set (js_assign a b) \<subseteq> set a \<union> set b"
proof (induction b arbitrary: a)
  case (Cons p b)
  obtain k v where "p = (k, v)" by (cases p)
  with Cons [of "jm_set k v a"] jm_set_subset [of k v a] show ?case by auto
qed simp

lemma js_assign_new: "distinct (map fst (a @ b)) \<Longrightarrow> js_assign a b = a @ b"
proof (induction b arbitrary: a)
  case (Cons p b)
  obtain k v where p: "p = (k, v)" by (cases p)
  have "k \<notin> fst ` set a" using Cons.prems p by auto
  then have "jm_set k v a = a @ [(k, v)]" by (induction a) auto
  with Cons.IH [of "a @ [(k, v)]"] Cons.prems p show ?case by simp
qed simp

lemma projected_str: "is_str (projectMutationPayload D v) = is_str v"
  by (cases v) auto

lemma digest_name: "k @ ''Digest'' \<notin> set MUTATION_PAYLOAD_FIELDS" "k @ ''Bytes'' \<notin> set MUTATION_PAYLOAD_FIELDS"
proof -
  have f: "last (butlast x) \<in> {CHR ''n'', CHR ''c''}" if "x \<in> set MUTATION_PAYLOAD_FIELDS" for x
    using that by (auto simp: MUTATION_PAYLOAD_FIELDS_def)
  have "last (butlast (k @ ''Digest'')) = CHR ''s''" "last (butlast (k @ ''Bytes'')) = CHR ''e''" by (simp_all add: butlast_append)
  then show "k @ ''Digest'' \<notin> set MUTATION_PAYLOAD_FIELDS" "k @ ''Bytes'' \<notin> set MUTATION_PAYLOAD_FIELDS" using f by fastforce+
qed

lemma payload_names: "set MUTATION_PAYLOAD_FIELDS = content_names"
  by (simp add: MUTATION_PAYLOAD_FIELDS_def)

text \<open>What is in an object is in one of its fields; the fields of a projected object come from those of the object.\<close>

lemma projected_field:
  assumes "(k, x) \<in> set (js_assign [] (concat (map (\<lambda>(k, v). payload_entry D k v (projectMutationPayload D v)) fs)))"
  obtains k' v where "(k', v) \<in> set fs" "(k, x) \<in> set (payload_entry D k' v (projectMutationPayload D v))"
  using assms js_assign_subset [of "[]" "concat (map (\<lambda>(k, v). payload_entry D k v (projectMutationPayload D v)) fs)"] by fastforce

text \<open>The scalars that may be stored: those that are not content, and the digest and the length of each text that is.\<close>

definition stored_scalars :: "durable_env \<Rightarrow> jsval \<Rightarrow> jsval set" where
  "stored_scalars D v =
     open_scalars v \<union> (\<lambda>s. JStr (sha256Reference D s)) ` content_texts v \<union> (\<lambda>s. JInt (int (length s))) ` content_texts v"

lemma scalars_of_array: "v \<in> set vs \<Longrightarrow> stored_scalars D v \<subseteq> stored_scalars D (JArr vs)"
  by (fastforce simp: stored_scalars_def)

lemma scalars_of_field:
  assumes "(k, v) \<in> set fs" "\<not> (k \<in> content_names \<and> is_str v)"
  shows "stored_scalars D v \<subseteq> stored_scalars D (JObj fs)"
proof -
  have "open_scalars v \<subseteq> open_scalars (JObj fs)" "content_texts v \<subseteq> content_texts (JObj fs)"
    using assms by (simp_all only: open_scalars.simps content_texts.simps) (rule subsetI, rule UN_I [of "(k, v)"], simp_all only: split if_False)+
  then show ?thesis unfolding stored_scalars_def by blast
qed

lemma scalars_of_text:
  assumes "(k, v) \<in> set fs" "k \<in> content_names \<and> is_str v"
  shows "JStr (sha256Reference D (the_str v)) \<in> stored_scalars D (JObj fs)" "JInt (int (length (the_str v))) \<in> stored_scalars D (JObj fs)"
proof -
  have "the_str v \<in> content_texts (JObj fs)"
    unfolding content_texts.simps
    by (rule UN_I [OF assms(1)]) (simp only: split if_P [OF assms(2)] singleton_iff)
  then show "JStr (sha256Reference D (the_str v)) \<in> stored_scalars D (JObj fs)" "JInt (int (length (the_str v))) \<in> stored_scalars D (JObj fs)"
    by (simp_all add: stored_scalars_def)
qed

lemma projected_scalars: "scalars (projectMutationPayload D v) \<subseteq> stored_scalars D v"
proof (induction D v rule: projectMutationPayload.induct)
  case (1 D vs)
  show ?case
  proof
    fix x assume "x \<in> scalars (projectMutationPayload D (JArr vs))"
    then obtain v where v: "v \<in> set vs" "x \<in> scalars (projectMutationPayload D v)" by auto
    with 1 [OF v(1)] scalars_of_array [OF v(1), of D] show "x \<in> stored_scalars D (JArr vs)" by blast
  qed
next
  case (2 D fs)
  show ?case
  proof
    fix x assume "x \<in> scalars (projectMutationPayload D (JObj fs))"
    then obtain k y where y: "(k, y) \<in> set (js_assign [] (concat (map (\<lambda>(k, v). payload_entry D k v (projectMutationPayload D v)) fs)))" "x \<in> scalars y"
      by auto
    from projected_field [OF y(1)] obtain k' v where v: "(k', v) \<in> set fs" "(k, y) \<in> set (payload_entry D k' v (projectMutationPayload D v))" .
    show "x \<in> stored_scalars D (JObj fs)"
    proof (cases "k' \<in> content_names \<and> is_str v")
      case True
      then have "x = JStr (sha256Reference D (the_str v)) \<or> x = JInt (int (length (the_str v)))"
        using v(2) y(2) by (auto simp: payload_entry_def payload_names digested_def text_size_def)
      then show ?thesis using scalars_of_text [OF v(1) True, of D] by blast
    next
      case False
      then have "payload_entry D k' v (projectMutationPayload D v) = [(k', projectMutationPayload D v)]"
        unfolding payload_entry_def payload_names by (rule if_not_P)
      with v(2) y(2) have "x \<in> scalars (projectMutationPayload D v)" by simp
      with 2 [OF v(1) refl] scalars_of_field [OF v(1) False, of D] show ?thesis by blast
    qed
  qed
qed (simp_all add: stored_scalars_def)

definition digest_names :: "string set" where
  "digest_names = {''contentDigest'', ''contentBytes'', ''findDigest'', ''findBytes'', ''replaceDigest'', ''replaceBytes''}"

lemma entry_names: "k \<in> content_names \<Longrightarrow> (x, y) \<in> set (digested D k s) \<Longrightarrow> x \<in> digest_names \<and> field_names y = {}"
  by (auto simp: digested_def digest_names_def text_size_def)

lemma projected_names: "field_names (projectMutationPayload D v) \<subseteq> field_names v \<union> digest_names"
proof (induction D v rule: projectMutationPayload.induct)
  case (1 D vs)
  show ?case
  proof
    fix x assume "x \<in> field_names (projectMutationPayload D (JArr vs))"
    then obtain v where v: "v \<in> set vs" "x \<in> field_names (projectMutationPayload D v)" by auto
    with 1 [OF v(1)] show "x \<in> field_names (JArr vs) \<union> digest_names" by auto
  qed
next
  case (2 D fs)
  show ?case
  proof
    fix x assume "x \<in> field_names (projectMutationPayload D (JObj fs))"
    then obtain k y where y: "(k, y) \<in> set (js_assign [] (concat (map (\<lambda>(k, v). payload_entry D k v (projectMutationPayload D v)) fs)))"
        "x = k \<or> x \<in> field_names y"
      by auto
    from projected_field [OF y(1)] obtain k' v where v: "(k', v) \<in> set fs" "(k, y) \<in> set (payload_entry D k' v (projectMutationPayload D v))" .
    show "x \<in> field_names (JObj fs) \<union> digest_names"
    proof (cases "k' \<in> content_names \<and> is_str v")
      case True
      then have "payload_entry D k' v (projectMutationPayload D v) = digested D k' (the_str v)"
        unfolding payload_entry_def payload_names by (rule if_P)
      with v(2) True y(2) entry_names [of k' k y D "the_str v"] show ?thesis by auto
    next
      case False
      then have "payload_entry D k' v (projectMutationPayload D v) = [(k', projectMutationPayload D v)]"
        unfolding payload_entry_def payload_names by (rule if_not_P)
      with v(2) y(2) have "x = k' \<or> x \<in> field_names (projectMutationPayload D v)" by auto
      moreover have "insert k' (field_names v) \<subseteq> field_names (JObj fs)" using v(1) by force
      ultimately show ?thesis using 2 [OF v(1) refl] by blast
    qed
  qed
qed simp_all

lemma projected_payload_free: "payload_free (projectMutationPayload D v)"
proof (induction D v rule: projectMutationPayload.induct)
  case (2 D fs)
  let ?es = "concat (map (\<lambda>(k, v). payload_entry D k v (projectMutationPayload D v)) fs)"
  have "\<not> (k \<in> content_names \<and> is_str x) \<and> payload_free x" if "(k, x) \<in> set ?es" for k x
  proof -
    obtain k' v where e: "(k', v) \<in> set fs" "(k, x) \<in> set (payload_entry D k' v (projectMutationPayload D v))"
      using \<open>(k, x) \<in> set ?es\<close> by auto
    with 2 have "payload_free (projectMutationPayload D v)" by fastforce
    with e(2) digest_name [of k'] show ?thesis
      unfolding payload_names by (auto simp: payload_entry_def payload_names digested_def text_size_def projected_str split: if_splits)
  qed
  then show ?case
    using js_assign_subset [of "[]" ?es] js_assign_distinct [of "[]" ?es] by force
qed auto

lemma payload_free_fixed: "payload_free v \<Longrightarrow> projectMutationPayload D v = v"
proof (induction D v rule: projectMutationPayload.induct)
  case (1 D vs)
  then show ?case by (simp add: map_idI)
next
  case (2 D fs)
  have "payload_entry D k v (projectMutationPayload D v) = [(k, v)]" if "(k, v) \<in> set fs" for k v
    using that 2 by (fastforce simp: payload_entry_def payload_names)
  then have "map (\<lambda>(k, v). payload_entry D k v (projectMutationPayload D v)) fs = map (\<lambda>p. [p]) fs" by auto
  moreover have "concat (map (\<lambda>p. [p]) fs) = fs" by (induction fs) auto
  ultimately have "concat (map (\<lambda>(k, v). payload_entry D k v (projectMutationPayload D v)) fs) = fs" by metis
  with 2(2) js_assign_new [of "[]" fs] show ?case by simp
qed auto

text \<open>
  C29. The stored request of a workspace mutation has no text under \<open>content\<close>, \<open>find\<close> or \<open>replace\<close> at any
  depth, and of these texts only their digests and their lengths: every scalar of it is one of the request
  that is not such a text, or the digest or the length of one, and no other names are added than those of the
  digests and the lengths. Projecting it again changes nothing.
\<close>

theorem mutation_content_hidden:
  "\<exists>p. projectDurableToolInput D ''workspace.mutate'' v = Inr p \<and> projectDurableToolInput D ''workspace.patch'' v = Inr p \<and>
     payload_free p \<and>
     scalars p \<subseteq> open_scalars v \<union> (\<lambda>s. JStr (sha256Reference D s)) ` content_texts v \<union> (\<lambda>s. JInt (int (length s))) ` content_texts v \<and>
     field_names p \<subseteq> field_names v \<union>
       {''contentDigest'', ''contentBytes'', ''findDigest'', ''findBytes'', ''replaceDigest'', ''replaceBytes''} \<and>
     projectDurableToolInput D ''workspace.mutate'' p = Inr p"
  using projected_scalars [of D v] projected_names [of D v]
  by (simp only: projectDurableToolInput_def insert_iff simp_thms if_True sum.inject ex_simps projected_payload_free
      payload_free_fixed [OF projected_payload_free] stored_scalars_def digest_names_def)

end
