(* ===== verification/Approvals.thy ===== *)
theory Approvals
  imports Capabilities Job_Store Durable_Input
begin

text \<open>
  The approval store of \<open>packages/kernel/src/approvals.ts\<close>: an action is created pending, claimed,
  and then consumed once, with the exact input it was created with.

  A store has the approvals in memory (\<open>pending\<close>), the exact actions kept only by the process
  (\<open>volatile\<close>) and, when it has a path, a file shared with other processes.  Every operation of
  a store with a path runs under the lock of the file; the lock protocol itself (lock files,
  stale owners, waiting) is not modelled, only that the lock may not be had.  A failing write is an
  outcome of the call.  The clock is read once per operation.

  Arguments, in the record \<open>approval_env\<close>: whether there is a path, the patterns of secret texts, SHA-256,
  the keyed MAC, the decoding of base64url, AES-GCM sealing and unsealing, and whether the text of a
  state is over 4 MiB.  The fields of an action have their declared types: its input is an object and
  its binding tag a text.
\<close>

section \<open>Environment and state\<close>

type_synonym approval_action = "(string \<times> jsval) list"

record approval_env =
  av_path :: bool
  av_patterns :: "string \<Rightarrow> string"
  av_durable :: durable_env
  av_mac :: "string \<Rightarrow> string"
  av_bytes :: "string \<Rightarrow> string"
  av_seal :: "string \<Rightarrow> jsval \<Rightarrow> string \<times> string \<times> string"
  av_unseal :: "string \<Rightarrow> string \<Rightarrow> string \<Rightarrow> string \<Rightarrow> jsval option"
  av_large :: "jsval \<Rightarrow> bool"

datatype approval_file = No_file | Unreadable string | Approval_text jsval

record approvals =
  as_file :: approval_file
  as_pending :: "(string \<times> approval_action) list"
  as_volatile :: "(string \<times> approval_action) list"

record approval_call =
  cl_now :: int
  cl_writes :: bool
  cl_abort :: "string option"
  cl_lock :: "string option"

definition MAX_PENDING_APPROVALS :: nat where "MAX_PENDING_APPROVALS = 500"

type_synonym 'a approval_m = "(approvals, string, 'a) stateR"

section \<open>Actions\<close>

lemma strip_front_shorter: "List.find (\<lambda>w. w \<noteq> [] \<and> starts_with s w) ws = Some w \<Longrightarrow> length (strip_front ws s) < length s"
proof -
  assume w: "List.find (\<lambda>w. w \<noteq> [] \<and> starts_with s w) ws = Some w"
  then have "w \<noteq> []" "take (length w) s = w" by (auto simp: find_Some_iff starts_with_def)
  then have "length (drop (length w) s) < length s" by (cases s) auto
  moreover obtain p where "drop (length w) s = p @ strip_front ws (drop (length w) s)" using strip_front_suffix by blast
  then have "length (strip_front ws (drop (length w) s)) \<le> length (drop (length w) s)" by (metis length_append le_add2)
  moreover have "strip_front ws s = strip_front ws (drop (length w) s)" by (subst strip_front.simps) (simp add: w)
  ultimately show ?thesis by simp
qed

text \<open>\<open>replace(/\s+/gu, " ")\<close>\<close>

function collapse_ws :: "string \<Rightarrow> string" where
  "collapse_ws s =
     (case List.find (\<lambda>w. w \<noteq> [] \<and> starts_with s w) ws_seqs of
        Some w \<Rightarrow> CHR '' '' # collapse_ws (strip_front ws_seqs s)
      | None \<Rightarrow> (case s of [] \<Rightarrow> [] | c # r \<Rightarrow> c # collapse_ws r))"
  by pat_completeness auto
termination
  by (relation "measure length") (auto dest: strip_front_shorter)

declare collapse_ws.simps [simp del]

definition boundedEffectText :: "approval_env \<Rightarrow> jsval \<Rightarrow> string \<Rightarrow> string" where
  "boundedEffectText E v fallback =
     (let t = js_trim (collapse_ws (js_String (nullish (redactDurableValue (av_patterns E) None False v) (JStr [])))) in
      if t = [] \<or> t = REDACTED then fallback else js_prefix 160 t)"

definition object_of :: "jsval \<Rightarrow> approval_action" where
  "object_of v = the_obj v"

definition LEGACY_BROWSER_APPROVAL_HINT_TOOLS :: "string list" where
  "LEGACY_BROWSER_APPROVAL_HINT_TOOLS = [''browser.click'', ''browser.type'', ''browser.press'']"

definition normalizeApprovalExecutionInput :: "string \<Rightarrow> approval_action \<Rightarrow> approval_action" where
  "normalizeApprovalExecutionInput t inp =
     (if t \<in> set LEGACY_BROWSER_APPROVAL_HINT_TOOLS then jm_delete ''approvalId'' (jm_delete ''confirmed'' inp)
      else if t = ''process.exec'' then jm_delete ''approvalId'' inp
      else inp)"

text \<open>\<open>JSON.stringify\<close> with sorted fields and \<open>null\<close> for what has no text.\<close>

fun stableApprovalValue :: "jsval \<Rightarrow> string" where
  "stableApprovalValue (JArr vs) = ''['' @ js_join '','' (map stableApprovalValue vs) @ '']''"
| "stableApprovalValue (JObj fs) =
     ''{'' @ js_join '','' (map (\<lambda>(k, t). json_string k @ '':'' @ t)
       (sort_key fst (map (\<lambda>(k, v). (k, stableApprovalValue v)) fs))) @ ''}''"
| "stableApprovalValue v = (case json_stringify v of None \<Rightarrow> ''null'' | Some t \<Rightarrow> t)"

fun reversible_text :: "effect_reversible \<Rightarrow> string" where
  "reversible_text ER_reversible = ''reversible''"
| "reversible_text ER_irreversible = ''irreversible''"
| "reversible_text ER_uncertain = ''uncertain''"

fun idempotency_text :: "effect_idempotency \<Rightarrow> string" where
  "idempotency_text EI_idempotent = ''idempotent''"
| "idempotency_text EI_non_idempotent = ''non-idempotent''"
| "idempotency_text EI_unknown = ''unknown''"

definition effect_base :: "approval_env \<Rightarrow> string \<Rightarrow> approval_action \<Rightarrow> approval_action" where
  "effect_base E t inp =
     [(''version'', JInt 1), (''tool'', JStr t),
      (''summary'', JStr (''Perform one approved '' @ (if t = [] then ''runtime'' else t) @ '' action.'')),
      (''capability'', JStr t), (''inputDigest'', JStr (de_hash (av_durable E) (stableApprovalValue (JObj inp)))),
      (''reversible'', JStr ''uncertain''), (''idempotency'', JStr ''unknown'')]"

definition process_effect :: "approval_env \<Rightarrow> approval_action \<Rightarrow> approval_action" where
  "process_effect E inp =
     (let commandDigest = take 16 (de_hash (av_durable E) (js_String (nullish (js_field inp ''command'') (JStr [])))) in
      [(''summary'', JStr (''Run one approved process inside the configured process sandbox (command digest '' @ commandDigest @ '').'')),
       (''effectClass'', JStr ''process execution''), (''isolation'', JStr ''configured sandbox''), (''command'', JStr ''[redacted]''),
       (''cwd'', JStr (boundedEffectText E (js_field inp ''cwd'') ''.'')),
       (''argsCount'', JInt (case js_field inp ''args'' of JArr vs \<Rightarrow> int (min (length vs) 100) | _ \<Rightarrow> 0)),
       (''commandDigest'', JStr commandDigest),
       (''recovery'', JStr ''An uncertain process outcome requires operator review before retry.''),
       (''reversible'', JStr ''uncertain''), (''idempotency'', JStr ''unknown'')])"

definition browser_effect :: "approval_env \<Rightarrow> string \<Rightarrow> approval_action \<Rightarrow> approval_action" where
  "browser_effect E t inp =
     (let url = nullish (js_field inp ''expectedUrl'') (js_field inp ''url'');
          target = boundedEffectText E (nullish url (js_field inp ''tabId'')) ''the approved browser tab'' in
      [(''summary'', JStr (''Perform one approved browser mutation on '' @ target @ ''.'')),
       (''effectClass'', JStr ''browser mutation''), (''target'', JStr target),
       (''tabId'', JStr (boundedEffectText E (js_field inp ''tabId'') [])), (''expectedUrl'', JStr (boundedEffectText E url [])),
       (''selector'', JStr (boundedEffectText E (nullish (js_field inp ''selector'') (js_field inp ''name'')) [])),
       (''mutation'', JStr (drop (length ''browser.'') t)),
       (''recovery'', JStr ''An uncertain browser mutation requires operator review before retry.''),
       (''reversible'', JStr ''uncertain''), (''idempotency'', JStr ''non-idempotent'')])"

definition mcp_effect :: "approval_env \<Rightarrow> approval_action \<Rightarrow> approval_action" where
  "mcp_effect E inp =
     (let server = boundedEffectText E (nullish (js_field inp ''serverId'') (js_field inp ''server'')) ''configured MCP server'';
          digest = take 16 (de_hash (av_durable E) (stableApprovalValue (JObj inp))) in
      [(''summary'', JStr (''Invoke one approved MCP tool on '' @ server @ ''.'')), (''effectClass'', JStr ''MCP invocation''),
       (''server'', JStr server), (''mcpTool'', JStr (boundedEffectText E (js_field inp ''tool'') ''configured tool'')),
       (''argsDigest'', JStr (boundedEffectText E (js_field inp ''argsDigest'') digest)),
       (''recovery'', JStr ''An uncertain MCP outcome requires operator review before retry.''),
       (''reversible'', JStr ''uncertain''), (''idempotency'', JStr ''unknown'')])"

definition external_effect :: "approval_env \<Rightarrow> string \<Rightarrow> approval_effect \<Rightarrow> approval_action \<Rightarrow> approval_action" where
  "external_effect E t e inp =
     (let targetValue = (case List.find (\<lambda>v. v \<noteq> JUndef) (map (js_field inp) (ae_targetFields e)) of None \<Rightarrow> JUndef | Some v \<Rightarrow> v);
          target = boundedEffectText E targetValue (ae_targetFallback e);
          mutation = (if t = ''computer.act'' then boundedEffectText E (js_field inp ''action'') (ae_mutation e) else ae_mutation e);
          summaryAction = (if t = ''computer.act'' then mutation @ '' computer input'' else ae_summaryAction e) in
      [(''summary'', JStr (''Perform one approved '' @ summaryAction @ '' on '' @ target @ ''.'')),
       (''effectClass'', JStr (ae_effectClass e)), (''target'', JStr target), (''mutation'', JStr mutation),
       (''payloadDigest'', JStr (take 16 (de_hash (av_durable E) (stableApprovalValue (JObj inp))))), (''recovery'', JStr (ae_recovery e)),
       (''reversible'', JStr (reversible_text (ae_reversible e))), (''idempotency'', JStr (idempotency_text (ae_idempotency e)))])"

definition skill_effect :: "approval_env \<Rightarrow> approval_action \<Rightarrow> approval_action" where
  "skill_effect E inp =
     (let skill = boundedEffectText E (nullish (js_field inp ''skillId'') (js_field inp ''id'')) ''the selected skill'' in
      [(''summary'', JStr (''Change the lifecycle state of approved skill '' @ skill @ ''.'')), (''effectClass'', JStr ''skill lifecycle''),
       (''skillId'', JStr skill), (''skillVersion'', JStr (boundedEffectText E (js_field inp ''version'') [])),
       (''action'', JStr (boundedEffectText E (js_field inp ''action'') ''change'')),
       (''recovery'', JStr ''A failed lifecycle change remains auditable and must be reviewed before retry.''),
       (''reversible'', JStr ''uncertain''), (''idempotency'', JStr ''unknown'')])"

definition hidden_key :: "string \<Rightarrow> bool" where
  "hidden_key k \<longleftrightarrow> list_ex (js_includes (map ascii_lower k))
     [''token'', ''secret'', ''password'', ''credential'', ''authorization'', ''cookie'', ''content'', ''prompt'']"

definition buildApprovalEffect :: "approval_env \<Rightarrow> string \<Rightarrow> approval_action \<Rightarrow> approval_action" where
  "buildApprovalEffect E t inp =
     js_assign (effect_base E t inp)
       (if t = ''process.exec'' then process_effect E inp
        else if starts_with t ''browser.'' then browser_effect E t inp
        else if t = ''mcp.invoke'' then mcp_effect E inp
        else case approvalEffectPolicyForTool t of
            Some e \<Rightarrow> external_effect E t e inp
          | None \<Rightarrow>
              if t = ''skill.lifecycle'' \<or> t = ''skill.install'' then skill_effect E inp
              else [(''inputKeys'', JArr (map JStr (take 20 (filter (\<lambda>k. \<not> hidden_key k) (map fst inp)))))])"

definition text_of :: "approval_action \<Rightarrow> string \<Rightarrow> string" where
  "text_of a k = js_trim (js_String (nullish (js_field a k) (JStr [])))"

definition normalizeApprovalAction :: "approval_env \<Rightarrow> approval_action \<Rightarrow> approval_action" where
  "normalizeApprovalAction E a =
     (let t = text_of a ''tool'';
          inp = normalizeApprovalExecutionInput t (object_of (nullish (js_field a ''executionInput'') (js_field a ''input''))) in
      [(''tool'', JStr t), (''runId'', JStr (text_of a ''runId'')), (''accountId'', JStr (text_of a ''accountId'')),
       (''actor'', JStr (text_of a ''actor'')), (''input'', JObj inp), (''effect'', JObj (buildApprovalEffect E t inp))])"

text \<open>What the binding tag of an action is taken of.\<close>

definition bound_text :: "approval_action \<Rightarrow> string" where
  "bound_text a = stableApprovalValue (JObj [(''tool'', js_field a ''tool''), (''runId'', nullish (js_field a ''runId'') (JStr [])),
     (''accountId'', nullish (js_field a ''accountId'') (JStr [])), (''actor'', nullish (js_field a ''actor'') (JStr [])),
     (''input'', nullish (js_field a ''input'') (JObj []))])"

definition approvalBindingTag :: "approval_env \<Rightarrow> approval_action \<Rightarrow> string" where
  "approvalBindingTag E a = av_mac E (bound_text a)"

definition safeEqualTag :: "approval_env \<Rightarrow> string \<Rightarrow> string \<Rightarrow> bool" where
  "safeEqualTag E l r \<longleftrightarrow> av_bytes E l = av_bytes E r"

definition publicApprovalAction :: "approval_action \<Rightarrow> approval_action" where
  "publicApprovalAction a = jm_delete ''sealedInput'' (jm_delete ''bindingTag'' a)"

definition sealApprovalInput :: "approval_env \<Rightarrow> string \<Rightarrow> jsval \<Rightarrow> jsval" where
  "sealApprovalInput E i inp =
     (case av_seal E i inp of (iv, content, tag) \<Rightarrow>
        JObj [(''version'', JInt 1), (''iv'', JStr iv), (''data'', JStr content), (''authTag'', JStr tag)])"

definition recoverSealedApprovalAction :: "approval_env \<Rightarrow> string \<Rightarrow> approval_action \<Rightarrow> approval_action option" where
  "recoverSealedApprovalAction E i a =
     (case js_field a ''sealedInput'' of
        JObj sealed \<Rightarrow>
          if js_field sealed ''version'' = JInt 1 \<and> is_str (js_field sealed ''iv'') \<and> is_str (js_field sealed ''data'') \<and>
            is_str (js_field sealed ''authTag'')
          then (case av_unseal E i (the_str (js_field sealed ''iv'')) (the_str (js_field sealed ''data'')) (the_str (js_field sealed ''authTag'')) of
              Some (JObj inp) \<Rightarrow> Some (normalizeApprovalAction E [(''tool'', js_field a ''tool''), (''runId'', js_field a ''runId''),
                (''accountId'', js_field a ''accountId''), (''actor'', js_field a ''actor''), (''input'', JObj inp)])
            | _ \<Rightarrow> None)
          else None
      | _ \<Rightarrow> None)"

text \<open>The exact action of an approval, if its tag is the one of that action.\<close>

definition exact_action :: "approval_env \<Rightarrow> string \<Rightarrow> approval_action \<Rightarrow> (string \<times> approval_action) list \<Rightarrow> approval_action option" where
  "exact_action E i a vol =
     (case (case jm_get vol i of Some x \<Rightarrow> Some x | None \<Rightarrow> recoverSealedApprovalAction E i a) of
        None \<Rightarrow> None
      | Some x \<Rightarrow>
          (case js_field a ''bindingTag'' of
             JStr tag \<Rightarrow> if tag \<noteq> [] \<and> safeEqualTag E tag (approvalBindingTag E x) then Some x else None
           | _ \<Rightarrow> None))"

section \<open>Reading and writing\<close>

text \<open>\<open>Number(v) <= now\<close>\<close>

definition not_after :: "jsval \<Rightarrow> int \<Rightarrow> bool" where
  "not_after v now \<longleftrightarrow>
     (case js_Number v of JInt n \<Rightarrow> n \<le> now | JFlt n _ \<Rightarrow> n < now | JInf neg \<Rightarrow> neg | _ \<Rightarrow> False)"

definition expired :: "int \<Rightarrow> approval_action \<Rightarrow> bool" where
  "expired now a \<longleftrightarrow> not_after (js_field a ''expiresAt'') now"

fun load_record :: "approval_env \<Rightarrow> jsval \<Rightarrow> (string \<times> approval_action) list \<Rightarrow> (string \<times> approval_action) list" where
  "load_record E (JObj fs) m =
     (if is_str (js_field fs ''id'')
      then jm_set (the_str (js_field fs ''id'')) (jm_delete ''bindingDigest''
        (the_obj (redactDurableValue (av_patterns E) (if is_str (js_field fs ''tool'') then Some (the_str (js_field fs ''tool'')) else None)
           False (JObj fs)))) m
      else m)"
| "load_record E _ m = m"

definition state_records :: "jsval \<Rightarrow> jsval list" where
  "state_records v =
     (case v of
        JArr rs \<Rightarrow> rs
      | JObj fs \<Rightarrow> (case js_field fs ''approvals'' of JArr rs \<Rightarrow> if js_field fs ''schemaVersion'' = JInt 1 then rs else [] | _ \<Rightarrow> [])
      | _ \<Rightarrow> [])"

definition refresh :: "approval_env \<Rightarrow> unit approval_m" where
  "refresh E s =
     (if \<not> av_path E then (s, Inr ())
      else case as_file s of
          No_file \<Rightarrow> (s, Inr ())
        | Unreadable e \<Rightarrow> (s, Inl e)
        | Approval_text v \<Rightarrow>
            if av_large E v then (s, Inl ''approval state exceeds the 4194304-byte limit'')
            else if MAX_PENDING_APPROVALS < length (state_records v) then (s, Inl ''approval state exceeds the 500-approval limit'')
            else (s\<lparr>as_pending := fold (load_record E) (state_records v) []\<rparr>, Inr ()))"

definition state_json :: "(string \<times> approval_action) list \<Rightarrow> jsval" where
  "state_json m = JObj [(''schemaVersion'', JInt 1), (''approvals'', JArr (map (\<lambda>(i, a). JObj a) m))]"

definition persist :: "approval_env \<Rightarrow> approval_call \<Rightarrow> unit approval_m" where
  "persist E c s =
     (if \<not> av_path E then (s, Inr ())
      else if cl_writes c then (s\<lparr>as_file := Approval_text (json_clone (state_json (as_pending s)))\<rparr>, Inr ())
      else (s, Inl ''approval state could not be written''))"

definition expire :: "int \<Rightarrow> approvals \<Rightarrow> approvals" where
  "expire now s =
     (let gone = map fst (filter (\<lambda>(i, a). expired now a) (as_pending s)) in
      s\<lparr>as_pending := filter (\<lambda>(i, a). \<not> expired now a) (as_pending s),
        as_volatile := filter (\<lambda>(i, a). i \<notin> set gone) (as_volatile s)\<rparr>)"

definition drop_pending :: "string \<Rightarrow> approvals \<Rightarrow> approvals" where
  "drop_pending i s = s\<lparr>as_pending := jm_delete i (as_pending s)\<rparr>"

definition drop_volatile :: "string \<Rightarrow> approvals \<Rightarrow> approvals" where
  "drop_volatile i s = s\<lparr>as_volatile := jm_delete i (as_volatile s)\<rparr>"

definition key_of :: "jsval \<Rightarrow> string" where
  "key_of i = js_String (nullish i (JStr []))"

section \<open>Operations\<close>

definition with_lock :: "approval_env \<Rightarrow> approval_call \<Rightarrow> 'a approval_m \<Rightarrow> 'a approval_m" where
  "with_lock E c m =
     (case cl_abort c of
        Some e \<Rightarrow> throwS e
      | None \<Rightarrow> if av_path E then (case cl_lock c of Some e \<Rightarrow> throwS e | None \<Rightarrow> m) else m)"

text \<open>The record that is stored for a new approval.\<close>

definition stored_record :: "approval_env \<Rightarrow> int \<Rightarrow> string \<Rightarrow> approval_action \<Rightarrow> approval_action \<Rightarrow> jsval \<Rightarrow> approval_action" where
  "stored_record E now i a n durable =
     (let t = the_str (js_field n ''tool'');
          sanitized = the_obj (redactDurableValue (av_patterns E) (Some t) False (JObj (js_assign (jm_delete ''executionInput'' a)
            [(''tool'', JStr t), (''actor'', js_field n ''actor''), (''summary'', js_field (the_obj (js_field n ''effect'')) ''summary''),
             (''effect'', js_field n ''effect''), (''input'', durable)]))) in
      js_assign (js_assign [(''id'', JStr i)] sanitized)
        ([(''bindingTag'', JStr (approvalBindingTag E n))] @
         (if av_path E then [(''sealedInput'', sealApprovalInput E i (nullish (js_field n ''input'') (JObj [])))] else []) @
         [(''status'', JStr ''pending''), (''createdAt'', JStr (iso_text now)), (''expiresAt'', JInt (now + 300000))]))"

definition durable_input :: "approval_env \<Rightarrow> string \<Rightarrow> approval_action \<Rightarrow> string + jsval" where
  "durable_input E t a =
     (let given = nullish (js_field (jm_delete ''executionInput'' a) ''input'') (JObj []) in
      if starts_with t ''computer.'' then projectDurableToolInput (av_durable E) t given else Inr given)"

definition createApproval :: "approval_env \<Rightarrow> approval_call \<Rightarrow> string \<Rightarrow> approval_action \<Rightarrow> string approval_m" where
  "createApproval E c uuid a =
     bindS (refresh E) (\<lambda>_.
     bindS (modifyS (expire (cl_now c))) (\<lambda>_.
     bindS (getS (\<lambda>s. length (as_pending s))) (\<lambda>size.
     if MAX_PENDING_APPROVALS \<le> size then throwS ''approval state is at its 500-approval limit''
     else
       let i = ''approval_'' @ uuid; n = normalizeApprovalAction E a in
       bindS (liftS (durable_input E (the_str (js_field n ''tool'')) a)) (\<lambda>durable.
       bindS (modifyS (\<lambda>s. s\<lparr>as_volatile := jm_set i n (as_volatile s),
         as_pending := jm_set i (stored_record E (cl_now c) i a n durable) (as_pending s)\<rparr>)) (\<lambda>_.
       bindS (persist E c) (\<lambda>_. returnS i))))))"

definition claimApproval :: "approval_env \<Rightarrow> approval_call \<Rightarrow> jsval \<Rightarrow> approval_action option approval_m" where
  "claimApproval E c i =
     bindS (refresh E) (\<lambda>_.
     bindS (modifyS (expire (cl_now c))) (\<lambda>_.
     bindS (getS (\<lambda>s. jm_get (as_pending s) (key_of i))) (\<lambda>found.
     case found of
       None \<Rightarrow> bindS (modifyS (drop_volatile (key_of i))) (\<lambda>_. bindS (persist E c) (\<lambda>_. returnS None))
     | Some a \<Rightarrow>
         if expired (cl_now c) a
         then bindS (modifyS (drop_volatile (key_of i))) (\<lambda>_. bindS (persist E c) (\<lambda>_. returnS None))
         else if js_field a ''status'' = JStr ''approved'' then returnS (Some (publicApprovalAction a))
         else
           let claimed = js_assign a [(''status'', JStr ''approved''), (''approvedAt'', JStr (iso_text (cl_now c)))] in
           bindS (modifyS (\<lambda>s. s\<lparr>as_pending := jm_set (key_of i) claimed (as_pending s)\<rparr>)) (\<lambda>_.
           bindS (persist E c) (\<lambda>_. returnS (Some (publicApprovalAction claimed)))))))"

definition recoverApproval :: "approval_env \<Rightarrow> approval_call \<Rightarrow> jsval \<Rightarrow> approval_action option approval_m" where
  "recoverApproval E c i =
     bindS (refresh E) (\<lambda>_.
     bindS (modifyS (expire (cl_now c))) (\<lambda>_.
     bindS (persist E c) (\<lambda>_.
     getS (\<lambda>s.
       case jm_get (as_pending s) (key_of i) of
         None \<Rightarrow> None
       | Some a \<Rightarrow>
           if js_field a ''status'' \<noteq> JStr ''approved'' \<or> expired (cl_now c) a then None
           else map_option (js_assign (publicApprovalAction a)) (exact_action E (key_of i) a (as_volatile s))))))"

definition consumeApproval :: "approval_env \<Rightarrow> approval_call \<Rightarrow> jsval \<Rightarrow> approval_action \<Rightarrow> approval_action option approval_m" where
  "consumeApproval E c i wanted =
     bindS (refresh E) (\<lambda>_.
     bindS (modifyS (expire (cl_now c))) (\<lambda>_.
     bindS (getS (\<lambda>s. jm_get (as_pending s) (key_of i))) (\<lambda>found.
     bindS (getS as_volatile) (\<lambda>vol.
     case found of
       None \<Rightarrow> bindS (modifyS (drop_volatile (key_of i))) (\<lambda>_. bindS (persist E c) (\<lambda>_. returnS None))
     | Some a \<Rightarrow>
         if expired (cl_now c) a
         then bindS (modifyS (drop_volatile (key_of i))) (\<lambda>_. bindS (persist E c) (\<lambda>_. returnS None))
         else if js_field a ''status'' \<noteq> JStr ''approved'' then bindS (persist E c) (\<lambda>_. returnS None)
         else
           (case exact_action E (key_of i) a vol of
              None \<Rightarrow> returnS None
            | Some x \<Rightarrow>
                let n = normalizeApprovalAction E wanted;
                    exactMatch = safeEqualTag E (the_str (js_field a ''bindingTag'')) (approvalBindingTag E n);
                    redactedMatch = stableApprovalValue (JObj (normalizeApprovalAction E a)) = stableApprovalValue (JObj n) in
                if \<not> exactMatch \<and> \<not> redactedMatch then returnS None
                else
                  bindS (modifyS (\<lambda>s. drop_volatile (key_of i) (drop_pending (key_of i) s))) (\<lambda>_.
                  bindS (persist E c) (\<lambda>_. returnS (Some (js_assign (publicApprovalAction a) x)))))))))"

definition revokeApproval :: "approval_env \<Rightarrow> approval_call \<Rightarrow> jsval \<Rightarrow> bool approval_m" where
  "revokeApproval E c i =
     bindS (refresh E) (\<lambda>_.
     bindS (getS (\<lambda>s. jm_get (as_pending s) (key_of i) \<noteq> None)) (\<lambda>removed.
     bindS (modifyS (\<lambda>s. drop_volatile (key_of i) (drop_pending (key_of i) s))) (\<lambda>_.
     bindS (persist E c) (\<lambda>_. returnS removed))))"

definition redactBrowserInput :: "jsval \<Rightarrow> string + jsval" where
  "redactBrowserInput v =
     (case v of
        JUndef \<Rightarrow> Inr (JObj [])
      | JObj fs \<Rightarrow> Inr (JObj (if ''value'' \<in> set (map fst fs)
          then js_assign fs [(''value'', JStr ''[redacted]''), (''sensitive'', JBool True)] else fs))
      | _ \<Rightarrow> Inl ''input is not an object'')"

definition list_entry :: "approval_action \<Rightarrow> string + approval_action" where
  "list_entry a =
     bindR (redactBrowserInput (js_field a ''input'')) (\<lambda>inp.
     Inr (js_assign (jm_delete ''input'' (publicApprovalAction a))
       ((if js_field a ''status'' = JStr ''approved''
         then [(''status'', JStr ''claimed''), (''recovery'', JStr ''execution claim is in flight; inspect before retrying'')] else []) @
        [(''input'', inp)])))"

fun list_bound :: "jsval \<Rightarrow> int \<Rightarrow> int" where
  "list_bound (JInt n) d = (if is_safe_int n then n else d)"
| "list_bound _ d = d"

definition listApprovals :: "approval_env \<Rightarrow> approval_call \<Rightarrow> jsval \<Rightarrow> jsval \<Rightarrow> approval_action list approval_m" where
  "listApprovals E c limit offset =
     bindS (refresh E) (\<lambda>_.
     bindS (modifyS (expire (cl_now c))) (\<lambda>_.
     bindS (persist E c) (\<lambda>_.
     bindS (getS (\<lambda>s. filter (\<lambda>a. js_field a ''status'' \<in> {JStr ''pending'', JStr ''approved''}) (map snd (as_pending s)))) (\<lambda>shown.
     bindS (liftS (mapR list_entry shown)) (\<lambda>entries.
     let l = min (int MAX_PENDING_APPROVALS) (max 0 (list_bound limit (int MAX_PENDING_APPROVALS))); f = max 0 (list_bound offset 0) in
     returnS (take (nat l) (drop (nat f) entries)))))))"

definition takeApproval :: "approval_env \<Rightarrow> approval_call \<Rightarrow> approval_call \<Rightarrow> jsval \<Rightarrow> approval_action option approval_m" where
  "takeApproval E c c' i =
     bindS (with_lock E c (claimApproval E c i)) (\<lambda>a.
     case a of None \<Rightarrow> returnS None | Some x \<Rightarrow> with_lock E c' (consumeApproval E c' i x))"

section \<open>The public projection\<close>

record approval_summary =
  su_id :: string
  su_claimed :: bool
  su_createdAt :: string
  su_expiresAt :: int
  su_tool :: string
  su_more :: approval_action

definition text_fields :: "approval_action \<Rightarrow> string list \<Rightarrow> approval_action" where
  "text_fields a ks = concat (map (\<lambda>k. if is_str (js_field a k) then [(k, js_field a k)] else []) ks)"

definition read_summary :: "int \<Rightarrow> nat \<times> jsval \<Rightarrow> string + approval_summary option" where
  "read_summary now = (\<lambda>(index, item).
     let label = ''approval state record '' @ nat_digits index in
     case item of
       JObj a \<Rightarrow>
         bindR (guardR (js_field a ''status'' \<in> {JStr ''pending'', JStr ''approved''}) (label @ '' has an invalid status'')) (\<lambda>_.
         bindR (guardR (case js_field a ''expiresAt'' of JInt n \<Rightarrow> is_safe_int n \<and> 0 \<le> n | _ \<Rightarrow> False) (label @ '' has an invalid expiry'')) (\<lambda>_.
         if expired now a then Inr None
         else
           bindR (guardR (list_all (\<lambda>k. is_str (js_field a k) \<and> the_str (js_field a k) \<noteq> []) [''id'', ''tool'', ''createdAt''])
             (label @ '' is missing its public identity'')) (\<lambda>_.
           bindR (guardR (js_field a ''effect'' = JUndef \<or> is_obj (js_field a ''effect'')) (label @ '' has an invalid effect summary'')) (\<lambda>_.
           Inr (Some \<lparr>su_id = the_str (js_field a ''id''), su_claimed = (js_field a ''status'' = JStr ''approved''),
             su_createdAt = the_str (js_field a ''createdAt''),
             su_expiresAt = (case js_field a ''expiresAt'' of JInt n \<Rightarrow> n | _ \<Rightarrow> 0), su_tool = the_str (js_field a ''tool''),
             su_more = text_fields a [''type'', ''approvedAt'', ''runId'', ''accountId'', ''summary''] @
               (if is_obj (js_field a ''effect'') then [(''effect'', js_field a ''effect'')] else []) @
               (if js_field a ''status'' = JStr ''approved''
                then [(''recovery'', JStr ''execution claim is in flight; inspect before retrying'')] else text_fields a [''recovery'']) @
               text_fields a [''expectedUrl'', ''snapshotId'']\<rparr>)))))
     | _ \<Rightarrow> Inl (label @ '' must be an object''))"

definition readApprovalSummaries :: "approval_env \<Rightarrow> approval_file \<Rightarrow> int \<Rightarrow> string + approval_summary list" where
  "readApprovalSummaries E file now =
     (case file of
        No_file \<Rightarrow> Inr []
      | Unreadable e \<Rightarrow> Inl e
      | Approval_text v \<Rightarrow>
          bindR (guardR (\<not> av_large E v) ''approval state exceeds the 4194304-byte limit'') (\<lambda>_.
          bindR (guardR (case v of JArr _ \<Rightarrow> True
              | JObj fs \<Rightarrow> js_field fs ''schemaVersion'' = JInt 1 \<and> (case js_field fs ''approvals'' of JArr _ \<Rightarrow> True | _ \<Rightarrow> False)
              | _ \<Rightarrow> False) ''approval state must contain a V1 approvals array'') (\<lambda>_.
          bindR (guardR (length (state_records v) \<le> MAX_PENDING_APPROVALS) ''approval state exceeds the 500-approval limit'') (\<lambda>_.
          bindR (mapR (read_summary now) (enumerate 0 (state_records v))) (\<lambda>rows.
          Inr (map the (filter (\<lambda>r. r \<noteq> None) rows)))))))"

section \<open>Processes\<close>

text \<open>
  Any number of processes share the file; each has its own memory, lost when it restarts.  The lock
  makes every operation one step.
\<close>

datatype approval_op =
    Ap_create string approval_action
  | Ap_claim jsval
  | Ap_recover jsval
  | Ap_consume jsval approval_action
  | Ap_revoke jsval
  | Ap_list jsval jsval
  | Ap_restart

datatype approval_result =
    Ap_id string
  | Ap_action "approval_action option"
  | Ap_bool bool
  | Ap_actions "approval_action list"
  | Ap_error string
  | Ap_none

record approval_world =
  aw_file :: approval_file
  aw_procs :: "nat \<Rightarrow> (string \<times> approval_action) list \<times> (string \<times> approval_action) list"

record approval_step =
  sp_proc :: nat
  sp_call :: approval_call
  sp_op :: approval_op

definition outcome_of :: "('a \<Rightarrow> approval_result) \<Rightarrow> string + 'a \<Rightarrow> approval_result" where
  "outcome_of f r = (case r of Inl e \<Rightarrow> Ap_error e | Inr a \<Rightarrow> f a)"

definition op_step :: "approval_env \<Rightarrow> approval_call \<Rightarrow> approval_op \<Rightarrow> approvals \<Rightarrow> approvals \<times> approval_result" where
  "op_step E c op s =
     (case op of
        Ap_create uuid a \<Rightarrow> map_prod id (outcome_of Ap_id) (with_lock E c (createApproval E c uuid a) s)
      | Ap_claim i \<Rightarrow> map_prod id (outcome_of Ap_action) (with_lock E c (claimApproval E c i) s)
      | Ap_recover i \<Rightarrow> map_prod id (outcome_of Ap_action) (with_lock E c (recoverApproval E c i) s)
      | Ap_consume i a \<Rightarrow> map_prod id (outcome_of Ap_action) (with_lock E c (consumeApproval E c i a) s)
      | Ap_revoke i \<Rightarrow> map_prod id (outcome_of Ap_bool) (with_lock E c (revokeApproval E c i) s)
      | Ap_list l f \<Rightarrow> map_prod id (outcome_of Ap_actions) (with_lock E c (listApprovals E c l f) s)
      | Ap_restart \<Rightarrow> (s\<lparr>as_pending := [], as_volatile := []\<rparr>, Ap_none))"

definition view_of :: "approval_world \<Rightarrow> nat \<Rightarrow> approvals" where
  "view_of w p = \<lparr>as_file = aw_file w, as_pending = fst (aw_procs w p), as_volatile = snd (aw_procs w p)\<rparr>"

definition world_step :: "approval_env \<Rightarrow> approval_world \<Rightarrow> approval_step \<Rightarrow> approval_world \<times> approval_result" where
  "world_step E w st =
     (let (s, r) = op_step E (sp_call st) (sp_op st) (view_of w (sp_proc st)) in
      (\<lparr>aw_file = as_file s, aw_procs = (aw_procs w)(sp_proc st := (as_pending s, as_volatile s))\<rparr>, r))"

fun world_run :: "approval_env \<Rightarrow> approval_world \<Rightarrow> approval_step list \<Rightarrow> approval_world \<times> approval_result list" where
  "world_run E w [] = (w, [])"
| "world_run E w (st # sts) =
     (let (w1, r) = world_step E w st; (w2, rs) = world_run E w1 sts in (w2, r # rs))"

definition first_world :: approval_world where
  "first_world = \<lparr>aw_file = No_file, aw_procs = (\<lambda>_. ([], []))\<rparr>"

end
