(* ===== verification/Approval_Laws.thy ===== *)
theory Approval_Laws
  imports Approvals
begin

text \<open>
  An approval is consumed at most once, by any process, before it expires and after it was claimed,
  and gives the action it was created with.
\<close>

section \<open>Records\<close>

lemma js_field_clone:
  "js_field fs k \<noteq> JUndef \<Longrightarrow> js_field (the_obj (json_clone (JObj fs))) k = json_clone (js_field fs k)"
  by (induction fs) (auto split: if_splits)

lemma js_field_clone_leaf:
  "js_field fs k = JStr s \<Longrightarrow> js_field (the_obj (json_clone (JObj fs))) k = JStr s"
  "js_field fs k = JInt n \<Longrightarrow> js_field (the_obj (json_clone (JObj fs))) k = JInt n"
  by (subst js_field_clone; simp)+

text \<open>
  A record of an approval: its key is its id, it was issued with its tag and its expiry, and it is
  approved only when it was claimed.
\<close>

type_synonym issue = "string \<times> string \<times> int"

definition record_ok :: "approval_env \<Rightarrow> issue set \<Rightarrow> string set \<Rightarrow> string \<Rightarrow> approval_action \<Rightarrow> bool" where
  "record_ok E iss cl i a \<longleftrightarrow> (\<exists>u. i = ''approval_'' @ u) \<and> js_field a ''id'' = JStr i \<and>
     (\<exists>b t. (i, b, t) \<in> iss \<and> js_field a ''bindingTag'' = JStr (av_mac E b) \<and> js_field a ''expiresAt'' = JInt (t + 300000)) \<and>
     (js_field a ''status'' = JStr ''pending'' \<and> length a \<le> 999 \<or> js_field a ''status'' = JStr ''approved'' \<and> length a \<le> 1000 \<and> i \<in> cl)"

definition same_core :: "approval_action \<Rightarrow> approval_action \<Rightarrow> bool" where
  "same_core a b \<longleftrightarrow> (\<forall>k\<in>{''id'', ''bindingTag'', ''expiresAt'', ''status''}. js_field a k = js_field b k) \<and> length a \<le> length b"

lemma record_ok_core: "same_core a b \<Longrightarrow> record_ok E iss cl i b \<Longrightarrow> record_ok E iss cl i a"
  unfolding record_ok_def same_core_def by auto

lemma record_ok_mono: "record_ok E iss cl i a \<Longrightarrow> iss \<subseteq> iss' \<Longrightarrow> cl \<subseteq> cl' \<Longrightarrow> record_ok E iss' cl' i a"
  unfolding record_ok_def by blast

lemma clone_length: "length (the_obj (json_clone (JObj a))) \<le> length a"
  by (induction a) auto

lemma same_core_clone: "record_ok E iss cl i a \<Longrightarrow> same_core (the_obj (json_clone (JObj a))) a"
  unfolding same_core_def record_ok_def
  by (elim conjE exE disjE) (simp_all add: js_field_clone_leaf clone_length del: json_clone.simps)

text \<open>
  The patterns of secrets leave the fixed texts of the store, the identifiers and the tags alone.
\<close>

definition kept_text :: "approval_env \<Rightarrow> string \<Rightarrow> bool" where
  "kept_text E s \<longleftrightarrow> redact_text (av_patterns E) s = s"

definition redaction_keeps :: "approval_env \<Rightarrow> issue set \<Rightarrow> bool" where
  "redaction_keeps E iss \<longleftrightarrow> kept_text E ''pending'' \<and> kept_text E ''approved'' \<and> (\<forall>(i, b, t)\<in>iss. kept_text E i \<and> kept_text E (av_mac E b))"

lemma core_names: "k \<in> {''id'', ''bindingTag'', ''expiresAt'', ''status''} \<Longrightarrow> \<not> isSecretKey k \<and> k \<notin> {''value'', ''command'', ''args''}"
  by (auto simp: isSecretKey_def SECRET_KEYS_def ascii_lower_def)

lemma redaction_record:
  assumes "redaction_keeps E iss" "record_ok E iss cl i a"
  shows "record_ok E iss cl i (stored_fields (av_patterns E) tn inp a)"
proof -
  let ?r = "stored_fields (av_patterns E) tn inp a"
  have l: "length a \<le> 1000" using assms(2) by (auto simp: record_ok_def)
  obtain b t where r: "(i, b, t) \<in> iss" "js_field a ''id'' = JStr i" "js_field a ''bindingTag'' = JStr (av_mac E b)"
      "js_field a ''expiresAt'' = JInt (t + 300000)"
    using assms(2) by (auto simp: record_ok_def)
  have k: "kept_text E i" "kept_text E (av_mac E b)" "kept_text E ''pending''" "kept_text E ''approved''"
    using assms(1) r(1) by (auto simp: redaction_keeps_def)
  have field: "js_field ?r k = JStr x" if "k \<in> {''id'', ''bindingTag'', ''status''}" "js_field a k = JStr x" "kept_text E x" for k x
    using redacted_field(1) [OF l, of k x] core_names [of k] that by (auto simp: kept_text_def)
  have "js_field ?r ''expiresAt'' = JInt (t + 300000)"
    using redacted_field(2) [OF l, of "''expiresAt''"] core_names [of "''expiresAt''"] r(4) by blast
  moreover have "js_field ?r ''status'' = js_field a ''status''"
    using assms(2) field [of "''status''"] k(3,4) by (auto simp: record_ok_def)
  ultimately have "same_core ?r a"
    using field [of "''id''" i] field [of "''bindingTag''" "av_mac E b"] r k stored_length by (auto simp: same_core_def)
  with assms(2) show ?thesis by (rule record_ok_core [rotated])
qed

section \<open>Stores\<close>

definition file_ok :: "approval_env \<Rightarrow> issue set \<Rightarrow> string set \<Rightarrow> string set \<Rightarrow> approval_file \<Rightarrow> bool" where
  "file_ok E iss cl gone f \<longleftrightarrow>
     (\<forall>v. f = Approval_text v \<longrightarrow> (\<forall>r\<in>set (state_records v). \<exists>i a. r = JObj a \<and> record_ok E iss cl i a \<and> i \<notin> gone)) \<and>
     (gone \<noteq> {} \<longrightarrow> (\<exists>v. f = Approval_text v))"

definition memory_ok :: "approval_env \<Rightarrow> issue set \<Rightarrow> string set \<Rightarrow> approvals \<Rightarrow> bool" where
  "memory_ok E iss cl s \<longleftrightarrow> (\<forall>(i, a)\<in>set (as_pending s). record_ok E iss cl i a) \<and>
     (\<forall>(i, x)\<in>set (as_volatile s). \<exists>a. x = normalizeApprovalAction E a)"

definition store_ok :: "approval_env \<Rightarrow> issue set \<Rightarrow> string set \<Rightarrow> string set \<Rightarrow> approvals \<Rightarrow> bool" where
  "store_ok E iss cl gone s \<longleftrightarrow> memory_ok E iss cl s \<and> file_ok E iss cl gone (as_file s)"

definition fresh_ok :: "approval_env \<Rightarrow> issue set \<Rightarrow> string set \<Rightarrow> string set \<Rightarrow> approvals \<Rightarrow> bool" where
  "fresh_ok E iss cl gone s \<longleftrightarrow> store_ok E iss cl gone s \<and> fst ` set (as_pending s) \<inter> gone = {}"

lemma file_ok_mono: "file_ok E iss cl gone f \<Longrightarrow> iss \<subseteq> iss' \<Longrightarrow> cl \<subseteq> cl' \<Longrightarrow> file_ok E iss' cl' gone f"
  unfolding file_ok_def using record_ok_mono by blast

lemma memory_ok_mono: "memory_ok E iss cl s \<Longrightarrow> iss \<subseteq> iss' \<Longrightarrow> cl \<subseteq> cl' \<Longrightarrow> memory_ok E iss' cl' s"
  unfolding memory_ok_def using record_ok_mono by (metis (mono_tags, lifting) case_prodD case_prodI2)

lemma load_record_ok:
  assumes "redaction_keeps E iss" "\<exists>i a. r = JObj a \<and> record_ok E iss cl i a \<and> i \<notin> gone"
    and m: "\<forall>(i, a)\<in>set m. record_ok E iss cl i a \<and> i \<notin> gone"
  shows "\<forall>(i, a)\<in>set (load_record E r m). record_ok E iss cl i a \<and> i \<notin> gone"
proof -
  obtain i a where r: "r = JObj a" "record_ok E iss cl i a" "i \<notin> gone" using assms(2) by blast
  let ?tn = "if is_str (js_field a ''tool'') then Some (the_str (js_field a ''tool'')) else None"
  let ?c = "stored_fields (av_patterns E) ?tn False a"
  have c: "record_ok E iss cl i ?c" by (rule redaction_record [OF assms(1) r(2)])
  have "same_core (jm_delete ''bindingDigest'' r) r" for r
    unfolding same_core_def by (auto simp: js_field_delete) (simp add: jm_delete_def)
  then have "record_ok E iss cl i (jm_delete ''bindingDigest'' ?c)" using c record_ok_core by blast
  moreover have "js_field a ''id'' = JStr i" using r(2) by (simp add: record_ok_def)
  ultimately show ?thesis
    using m r(3) jm_set_subset [of i "jm_delete ''bindingDigest'' ?c" m] by (fastforce simp: r(1) redacted_object)
qed

lemma load_records_ok:
  assumes "redaction_keeps E iss"
  shows "\<forall>r\<in>set rs. \<exists>i a. r = JObj a \<and> record_ok E iss cl i a \<and> i \<notin> gone \<Longrightarrow>
    \<forall>(i, a)\<in>set m. record_ok E iss cl i a \<and> i \<notin> gone \<Longrightarrow>
    \<forall>(i, a)\<in>set (fold (load_record E) rs m). record_ok E iss cl i a \<and> i \<notin> gone"
proof (induction rs arbitrary: m)
  case (Cons r rs)
  show ?case
    using Cons.IH [OF _ load_record_ok [OF assms _ Cons.prems(2), of r]] Cons.prems(1) by simp
qed simp

lemma refresh_ok:
  assumes "redaction_keeps E iss" "av_path E"
  shows "validS (store_ok E iss cl gone) (refresh E)
    (\<lambda>r s. case r of Inl e \<Rightarrow> store_ok E iss cl gone s | Inr u \<Rightarrow> fresh_ok E iss cl gone s)"
  unfolding validS_def
proof (intro allI impI)
  fix s assume s: "store_ok E iss cl gone s"
  show "case snd (refresh E s) of Inl e \<Rightarrow> store_ok E iss cl gone (fst (refresh E s)) | Inr u \<Rightarrow> fresh_ok E iss cl gone (fst (refresh E s))"
  proof (cases "as_file s")
    case No_file
    with s assms(2) show ?thesis by (auto simp: refresh_def fresh_ok_def store_ok_def file_ok_def)
  next
    case (Approval_text v)
    have "\<forall>(i, a)\<in>set (fold (load_record E) (state_records v) []). record_ok E iss cl i a \<and> i \<notin> gone"
      using s Approval_text by (intro load_records_ok assms(1)) (auto simp: store_ok_def file_ok_def)
    with s Approval_text assms(2) show ?thesis
      by (force simp: refresh_def fresh_ok_def store_ok_def memory_ok_def)
  qed (use s assms(2) in \<open>simp add: refresh_def\<close>)
qed

lemma state_records_json: "state_records (json_clone (state_json m)) = map (\<lambda>(i, a). json_clone (JObj a)) m"
  by (simp add: state_json_def state_records_def comp_def case_prod_beta)

lemma json_clone_obj: "json_clone (JObj a) = JObj (the_obj (json_clone (JObj a)))" by simp

lemma persist_written:
  assumes "av_path E" "memory_ok E iss cl s" "fst ` set (as_pending s) \<inter> gone = {}"
  shows "file_ok E iss cl gone (Approval_text (json_clone (state_json (as_pending s))))"
proof -
  have "\<exists>j b. json_clone (JObj a) = JObj b \<and> record_ok E iss cl j b \<and> j \<notin> gone" if "(i, a) \<in> set (as_pending s)" for i a
  proof -
    have "record_ok E iss cl i a" using assms(2) that by (auto simp: memory_ok_def)
    then have "record_ok E iss cl i (the_obj (json_clone (JObj a)))" using same_core_clone record_ok_core by blast
    moreover have "i \<notin> gone" using assms(3) that by force
    ultimately show ?thesis using json_clone_obj by blast
  qed
  then show ?thesis by (auto simp: file_ok_def state_records_json simp del: json_clone.simps)
qed

lemma persist_ok: "av_path E \<Longrightarrow> keepsS (fresh_ok E iss cl gone) (persist E c)"
  unfolding validS_def persist_def
  using persist_written by (auto simp: fresh_ok_def store_ok_def memory_ok_def)

lemma expire_ok: "fresh_ok E iss cl gone s \<Longrightarrow> fresh_ok E iss cl gone (expire now s)"
  by (auto simp: fresh_ok_def store_ok_def memory_ok_def expire_def Let_def)

lemma drop_ok:
  "fresh_ok E iss cl gone s \<Longrightarrow> fresh_ok E iss cl gone (drop_volatile i s)"
  "fresh_ok E iss cl gone s \<Longrightarrow> fresh_ok E iss cl gone (drop_pending i s)"
  by (auto simp: fresh_ok_def store_ok_def memory_ok_def drop_volatile_def drop_pending_def jm_delete_def)

lemma jm_set_keys: "fst ` set (jm_set k v m) = insert k (fst ` set m)"
  unfolding list.set_map [symmetric] jm_keys_set by auto

lemma fresh_put:
  assumes "fresh_ok E iss cl gone s" "record_ok E iss cl i a" "i \<notin> gone"
  shows "fresh_ok E iss cl gone (s\<lparr>as_pending := jm_set i a (as_pending s)\<rparr>)"
proof -
  have "\<forall>(j, b)\<in>set (jm_set i a (as_pending s)). record_ok E iss cl j b"
    using assms(1,2) by (intro jm_set_all) (simp_all add: fresh_ok_def store_ok_def memory_ok_def)
  with assms(1,3) show ?thesis by (simp add: fresh_ok_def store_ok_def memory_ok_def jm_set_keys)
qed

lemma fresh_keep:
  assumes "fresh_ok E iss cl gone s"
  shows "fresh_ok E iss cl gone (s\<lparr>as_volatile := jm_set i (normalizeApprovalAction E a) (as_volatile s)\<rparr>)"
proof -
  have "\<forall>(j, x)\<in>set (jm_set i (normalizeApprovalAction E a) (as_volatile s)). \<exists>b. x = normalizeApprovalAction E b"
    using assms by (intro jm_set_all) (auto simp: fresh_ok_def store_ok_def memory_ok_def)
  with assms show ?thesis by (simp add: fresh_ok_def store_ok_def memory_ok_def)
qed

section \<open>Operations\<close>

lemma fresh_store: "fresh_ok E iss cl gone s \<Longrightarrow> store_ok E iss cl gone s"
  by (simp add: fresh_ok_def)

lemma validS_refreshed:
  assumes "redaction_keeps E iss" "av_path E" "validS (fresh_ok E iss cl gone) m Q" "\<And>e s. store_ok E iss cl gone s \<Longrightarrow> Q (Inl e) s"
  shows "validS (store_ok E iss cl gone) (bindS (refresh E) (\<lambda>_. m)) Q"
proof (rule validS_bind [where R = "\<lambda>_. fresh_ok E iss cl gone"])
  show "validS (store_ok E iss cl gone) (refresh E) (\<lambda>r s. case r of Inl e \<Rightarrow> Q (Inl e) s | Inr a \<Rightarrow> fresh_ok E iss cl gone s)"
    using refresh_ok [OF assms(1,2), of cl gone] assms(4) by (fastforce simp: validS_def split: sum.splits)
qed (rule assms(3))

lemma validS_persisted:
  "av_path E \<Longrightarrow> (\<And>s. P s \<Longrightarrow> fresh_ok E iss cl gone s) \<Longrightarrow> validS P (bindS (persist E c) (\<lambda>_. returnS a)) (\<lambda>_. store_ok E iss cl gone)"
  by (rule validS_bind [where R = "\<lambda>_. fresh_ok E iss cl gone"])
    (use persist_ok [of E iss cl gone c] in \<open>auto simp: validS_def returnS_def fresh_ok_def split: sum.splits\<close>)

lemma validS_forgotten:
  "av_path E \<Longrightarrow> (\<And>s. P s \<Longrightarrow> fresh_ok E iss cl gone s) \<Longrightarrow>
    validS P (bindS (modifyS (drop_volatile i)) (\<lambda>_. bindS (persist E c) (\<lambda>_. returnS a))) (\<lambda>_. store_ok E iss cl gone)"
  by (rule validS_modify [where R = "fresh_ok E iss cl gone"]) (auto intro: drop_ok validS_persisted)

lemma claim_ok:
  assumes E: "redaction_keeps E iss" "av_path E" and cl: "\<And>b t. (key_of i, b, t) \<in> iss \<Longrightarrow> key_of i \<in> cl"
  shows "keepsS (store_ok E iss cl gone) (claimApproval E c i)"
  unfolding claimApproval_def
proof (intro validS_refreshed E validS_modify [where R = "fresh_ok E iss cl gone"] validS_get expire_ok)
  fix found
  show "validS (\<lambda>s. fresh_ok E iss cl gone s \<and> jm_get (as_pending s) (key_of i) = found)
      (case found of
        None \<Rightarrow> bindS (modifyS (drop_volatile (key_of i))) (\<lambda>_. bindS (persist E c) (\<lambda>_. returnS None))
      | Some a \<Rightarrow>
          if expired (cl_now c) a
          then bindS (modifyS (drop_volatile (key_of i))) (\<lambda>_. bindS (persist E c) (\<lambda>_. returnS None))
          else if js_field a ''status'' = JStr ''approved'' then returnS (Some (publicApprovalAction a))
          else
            let claimed = js_assign a [(''status'', JStr ''approved''), (''approvedAt'', JStr (iso_text (cl_now c)))] in
            bindS (modifyS (\<lambda>s. s\<lparr>as_pending := jm_set (key_of i) claimed (as_pending s)\<rparr>)) (\<lambda>_.
            bindS (persist E c) (\<lambda>_. returnS (Some (publicApprovalAction claimed))))) (\<lambda>_. store_ok E iss cl gone)"
  proof (cases found)
    case None
    then show ?thesis using E(2) by (auto intro: validS_forgotten)
  next
    case (Some a)
    let ?c = "js_assign a [(''status'', JStr ''approved''), (''approvedAt'', JStr (iso_text (cl_now c)))]"
    have upd: "fresh_ok E iss cl gone (s\<lparr>as_pending := jm_set (key_of i) ?c (as_pending s)\<rparr>)"
      if s: "fresh_ok E iss cl gone s" "jm_get (as_pending s) (key_of i) = Some a" "js_field a ''status'' \<noteq> JStr ''approved''" for s
    proof -
      have m: "(key_of i, a) \<in> set (as_pending s)" using s(2) by (rule map_of_SomeD)
      then have r: "record_ok E iss cl (key_of i) a" "key_of i \<notin> gone" using s(1) by (force simp: fresh_ok_def store_ok_def memory_ok_def)+
      have "length ?c \<le> Suc (length a)" if "js_field a ''status'' = JStr ''pending''"
      proof -
        have "''status'' \<in> fst ` set a" using that js_field_none [of "''status''" a] by auto
        then show ?thesis by (simp add: jm_set_length)
      qed
      with r(1) have "record_ok E iss cl (key_of i) ?c" using cl s(3) by (auto simp: record_ok_def)
      with r(2) s(1) show ?thesis by (intro fresh_put)
    qed
    show ?thesis
      unfolding Some option.case Let_def
    proof (intro validS_if)
      assume a: "\<not> expired (cl_now c) a" "js_field a ''status'' \<noteq> JStr ''approved''"
      show "validS (\<lambda>s. fresh_ok E iss cl gone s \<and> jm_get (as_pending s) (key_of i) = Some a)
          (bindS (modifyS (\<lambda>s. s\<lparr>as_pending := jm_set (key_of i) ?c (as_pending s)\<rparr>)) (\<lambda>_.
            bindS (persist E c) (\<lambda>_. returnS (Some (publicApprovalAction ?c))))) (\<lambda>_. store_ok E iss cl gone)"
        by (rule validS_modify [where R = "fresh_ok E iss cl gone"]) (auto intro: upd [OF _ _ a(2)] validS_persisted E simp del: js_assign_simps)
    qed (auto intro: validS_forgotten E validS_return fresh_store)
  qed
qed auto

lemma js_field_assign_set: "js_field (js_assign a [(k, v)]) k' = (if k' = k then v else js_field a k')"
  by simp

lemma stored_core:
  assumes "av_path E" "''id'' \<notin> fst ` set a" "length a \<le> 900"
  shows "js_field (stored_record E now i a n durable) ''id'' = JStr i"
    "js_field (stored_record E now i a n durable) ''bindingTag'' = JStr (av_mac E (bound_text n))"
    "js_field (stored_record E now i a n durable) ''expiresAt'' = JInt (now + 300000)"
    "js_field (stored_record E now i a n durable) ''status'' = JStr ''pending''"
    "length (stored_record E now i a n durable) \<le> 999"
proof -
  let ?t = "the_str (js_field n ''tool'')"
  define public where "public = js_assign (jm_delete ''executionInput'' a)
    [(''tool'', JStr ?t), (''actor'', js_field n ''actor''), (''summary'', js_field (the_obj (js_field n ''effect'')) ''summary''),
     (''effect'', js_field n ''effect''), (''input'', durable)]"
  define sanitized where "sanitized = stored_fields (av_patterns E) (Some ?t) False public"
  define more where "more = [(''bindingTag'', JStr (approvalBindingTag E n)), (''sealedInput'', sealApprovalInput E i (nullish (js_field n ''input'') (JObj []))),
     (''status'', JStr ''pending''), (''createdAt'', JStr (iso_text now)), (''expiresAt'', JInt (now + 300000))]"
  have s: "stored_record E now i a n durable = js_assign (js_assign [(''id'', JStr i)] sanitized) more"
    using assms(1) unfolding stored_record_def sanitized_def public_def more_def redacted_object Let_def by simp
  have sub: "fst ` set public \<subseteq> insert ''tool'' (insert ''actor'' (insert ''summary'' (insert ''effect'' (insert ''input'' (fst ` set a)))))"
    by (auto simp: public_def jm_set_keys jm_delete_def)
  have "''id'' \<notin> fst ` set public"
  proof
    assume "''id'' \<in> fst ` set public"
    from subsetD [OF sub this] show False using assms(2) by simp
  qed
  then have "''id'' \<notin> fst ` set sanitized" unfolding sanitized_def using stored_keys by blast
  then have "js_field (js_assign [(''id'', JStr i)] sanitized) ''id'' = JStr i" by (subst js_field_assign) simp_all
  then show "js_field (stored_record E now i a n durable) ''id'' = JStr i"
    "js_field (stored_record E now i a n durable) ''bindingTag'' = JStr (av_mac E (bound_text n))"
    "js_field (stored_record E now i a n durable) ''expiresAt'' = JInt (now + 300000)"
    "js_field (stored_record E now i a n durable) ''status'' = JStr ''pending''"
    unfolding s more_def approvalBindingTag_def by (simp_all only: js_assign_simps js_field_set) simp_all
  have del: "length (jm_delete k a) \<le> length a" for k by (simp add: jm_delete_def)
  have "length public \<le> length (jm_delete ''executionInput'' a) + 5"
    unfolding public_def by (rule order_trans [OF js_assign_length]) simp
  also have "\<dots> \<le> 905" using assms(3) del [of "''executionInput''"] by linarith
  finally have "length sanitized \<le> 905"
    using stored_length [of "av_patterns E" "Some ?t" False public] by (simp add: sanitized_def)
  moreover have "length (stored_record E now i a n durable) \<le> 1 + length sanitized + 5"
    unfolding s using js_assign_length [of "js_assign [(''id'', JStr i)] sanitized" more] js_assign_length [of "[(''id'', JStr i)]" sanitized]
    by (simp add: more_def del: js_assign_simps)
  ultimately show "length (stored_record E now i a n durable) \<le> 999" by simp
qed

lemma create_ok:
  assumes E: "redaction_keeps E iss" "av_path E" and a: "''id'' \<notin> fst ` set a" "length a \<le> 900"
    and iss: "(''approval_'' @ u, bound_text (normalizeApprovalAction E a), cl_now c) \<in> iss" "''approval_'' @ u \<notin> gone"
  shows "keepsS (store_ok E iss cl gone) (createApproval E c u a)"
  unfolding createApproval_def Let_def
proof (intro validS_refreshed E validS_modify [where R = "fresh_ok E iss cl gone"] validS_get expire_ok validS_if)
  fix size
  let ?i = "''approval_'' @ u" and ?n = "normalizeApprovalAction E a"
  let ?P = "\<lambda>s. fresh_ok E iss cl gone s \<and> length (as_pending s) = size"
  have rec: "record_ok E iss cl ?i (stored_record E (cl_now c) ?i a ?n d)" for d
    unfolding record_ok_def using stored_core [OF E(2) a, of "cl_now c" ?i ?n d] iss(1) by blast
  have upd: "fresh_ok E iss cl gone (s\<lparr>as_volatile := jm_set ?i ?n (as_volatile s),
      as_pending := jm_set ?i (stored_record E (cl_now c) ?i a ?n d) (as_pending s)\<rparr>)" if "fresh_ok E iss cl gone s" for s d
    using fresh_put [OF fresh_keep [OF that, of ?i a] rec iss(2)] by simp
  show "validS ?P (bindS (liftS (durable_input E (the_str (js_field ?n ''tool'')) a)) (\<lambda>durable.
      bindS (modifyS (\<lambda>s. s\<lparr>as_volatile := jm_set ?i ?n (as_volatile s),
        as_pending := jm_set ?i (stored_record E (cl_now c) ?i a ?n durable) (as_pending s)\<rparr>)) (\<lambda>_.
      bindS (persist E c) (\<lambda>_. returnS ?i)))) (\<lambda>_. store_ok E iss cl gone)"
  proof (rule validS_bind [where R = "\<lambda>_. fresh_ok E iss cl gone"])
    show "validS ?P (liftS (durable_input E (the_str (js_field ?n ''tool'')) a))
        (\<lambda>r s. case r of Inl e \<Rightarrow> store_ok E iss cl gone s | Inr a \<Rightarrow> fresh_ok E iss cl gone s)"
      by (auto simp: validS_def liftS_def fresh_ok_def split: sum.splits)
  next
    fix durable
    show "validS (fresh_ok E iss cl gone) (bindS (modifyS (\<lambda>s. s\<lparr>as_volatile := jm_set ?i ?n (as_volatile s),
        as_pending := jm_set ?i (stored_record E (cl_now c) ?i a ?n durable) (as_pending s)\<rparr>)) (\<lambda>_.
      bindS (persist E c) (\<lambda>_. returnS ?i))) (\<lambda>_. store_ok E iss cl gone)"
      by (rule validS_modify [where R = "fresh_ok E iss cl gone"]) (erule upd, rule validS_persisted [OF E(2)])
  qed
qed (auto intro: validS_throw fresh_store)

lemma revoke_ok:
  assumes E: "redaction_keeps E iss" "av_path E"
  shows "keepsS (store_ok E iss cl gone) (revokeApproval E c i)"
  unfolding revokeApproval_def
  by (intro validS_refreshed E validS_get validS_modify [where R = "fresh_ok E iss cl gone"] validS_persisted drop_ok) auto

lemma validS_persist:
  assumes "av_path E" "validS (fresh_ok E iss cl gone) m Q" "\<And>e s. store_ok E iss cl gone s \<Longrightarrow> Q (Inl e) s"
  shows "validS (fresh_ok E iss cl gone) (bindS (persist E c) (\<lambda>_. m)) Q"
proof (rule validS_bind [where R = "\<lambda>_. fresh_ok E iss cl gone"])
  show "validS (fresh_ok E iss cl gone) (persist E c) (\<lambda>r s. case r of Inl e \<Rightarrow> Q (Inl e) s | Inr a \<Rightarrow> fresh_ok E iss cl gone s)"
    using persist_ok [OF assms(1), of iss cl gone c] assms(3) by (fastforce simp: validS_def fresh_ok_def split: sum.splits)
qed (rule assms(2))

lemma recover_ok:
  assumes E: "redaction_keeps E iss" "av_path E"
  shows "keepsS (store_ok E iss cl gone) (recoverApproval E c i)"
  unfolding recoverApproval_def
  by (intro validS_refreshed E validS_modify [where R = "fresh_ok E iss cl gone"] validS_persist expire_ok)
    (auto simp: validS_def getS_def intro: fresh_store)

lemma list_ok:
  assumes E: "redaction_keeps E iss" "av_path E"
  shows "keepsS (store_ok E iss cl gone) (listApprovals E c l f)"
  unfolding listApprovals_def
  by (intro validS_refreshed E validS_modify [where R = "fresh_ok E iss cl gone"] validS_persist expire_ok)
    (auto simp: validS_def getS_def bindS_def liftS_def returnS_def Let_def split: sum.splits intro: fresh_store)

section \<open>Consumption\<close>

lemma exact_action_Some:
  assumes "exact_action E k a vol = Some x" "\<forall>(i, x)\<in>set vol. \<exists>b. x = normalizeApprovalAction E b"
  shows "(\<exists>b. x = normalizeApprovalAction E b) \<and>
    (\<exists>tag. js_field a ''bindingTag'' = JStr tag \<and> av_bytes E tag = av_bytes E (av_mac E (bound_text x)))"
proof -
  obtain x' where x': "(case jm_get vol k of Some x \<Rightarrow> Some x | None \<Rightarrow> recoverSealedApprovalAction E k a) = Some x'"
    using assms(1) by (auto simp: exact_action_def split: option.splits)
  with assms(1) have tag: "x' = x" "\<exists>tag. js_field a ''bindingTag'' = JStr tag \<and> av_bytes E tag = av_bytes E (av_mac E (bound_text x))"
    by (auto simp: exact_action_def safeEqualTag_def approvalBindingTag_def split: jsval.splits if_splits)
  have "\<exists>b. x' = normalizeApprovalAction E b"
  proof (cases "jm_get vol k")
    case None
    with x' show ?thesis by (auto simp: recoverSealedApprovalAction_def split: jsval.splits if_splits option.splits)
  next
    case (Some y)
    with x' assms(2) show ?thesis by (auto dest: map_of_SomeD)
  qed
  with tag show ?thesis by blast
qed

lemma bound_text_assign:
  "bound_text (js_assign p (normalizeApprovalAction E b)) = bound_text (normalizeApprovalAction E b)"
  by (simp add: normalizeApprovalAction_def bound_text_def Let_def)

text \<open>What a consumption of \<open>k\<close> that gives \<open>x\<close> means.\<close>

definition rightful :: "approval_env \<Rightarrow> issue set \<Rightarrow> string set \<Rightarrow> int \<Rightarrow> string \<Rightarrow> approval_action \<Rightarrow> bool" where
  "rightful E iss cl now k x \<longleftrightarrow> k \<in> cl \<and>
     (\<exists>b t. (k, b, t) \<in> iss \<and> now < t + 300000 \<and> av_bytes E (av_mac E b) = av_bytes E (av_mac E (bound_text x)))"

definition consumed_ok :: "approval_env \<Rightarrow> issue set \<Rightarrow> string set \<Rightarrow> string set \<Rightarrow> int \<Rightarrow> string \<Rightarrow>
    string + approval_action option \<Rightarrow> approvals \<Rightarrow> bool" where
  "consumed_ok E iss cl gone now k r s \<longleftrightarrow> store_ok E iss cl gone s \<and>
     (\<forall>x. r = Inr (Some x) \<longrightarrow> store_ok E iss cl (insert k gone) s \<and> k \<notin> gone \<and> rightful E iss cl now k x)"

lemma not_expired: "js_field a ''expiresAt'' = JInt n \<Longrightarrow> \<not> expired now a \<longleftrightarrow> now < n"
  by (auto simp: expired_def not_after_def)

lemma persist_gone:
  assumes "av_path E" "fresh_ok E iss cl gone s" "k \<notin> fst ` set (as_pending s)" "persist E c s = (s', Inr ())"
  shows "store_ok E iss cl (insert k gone) s'"
proof -
  have s': "s' = s\<lparr>as_file := Approval_text (json_clone (state_json (as_pending s)))\<rparr>"
    using assms(1,4) by (auto simp: persist_def split: if_splits)
  have m: "memory_ok E iss cl s" "fst ` set (as_pending s) \<inter> insert k gone = {}"
    using assms(2,3) by (auto simp: fresh_ok_def store_ok_def)
  have "memory_ok E iss cl s'" using m(1) by (simp add: s' memory_ok_def)
  with persist_written [OF assms(1) m] show ?thesis by (simp add: store_ok_def s')
qed

lemma consume_taken:
  assumes E: "av_path E" and s: "fresh_ok E iss cl gone s" "jm_get (as_pending s) k = Some a"
    and a: "\<not> expired now a" "js_field a ''status'' = JStr ''approved''" "exact_action E k a (as_volatile s) = Some x"
  shows "consumed_ok E iss cl gone now k
    (snd (bindS (modifyS (\<lambda>s. drop_volatile k (drop_pending k s))) (\<lambda>_.
      bindS (persist E c) (\<lambda>_. returnS (Some (js_assign (publicApprovalAction a) x)))) s))
    (fst (bindS (modifyS (\<lambda>s. drop_volatile k (drop_pending k s))) (\<lambda>_.
      bindS (persist E c) (\<lambda>_. returnS (Some (js_assign (publicApprovalAction a) x)))) s))"
proof -
  let ?t = "drop_volatile k (drop_pending k s)"
  have m: "(k, a) \<in> set (as_pending s)" using s(2) by (rule map_of_SomeD)
  then have r: "record_ok E iss cl k a" "k \<notin> gone" using s(1) by (force simp: fresh_ok_def store_ok_def memory_ok_def)+
  have vol: "\<forall>(i, x)\<in>set (as_volatile s). \<exists>b. x = normalizeApprovalAction E b"
    using s(1) by (simp add: fresh_ok_def store_ok_def memory_ok_def)
  from exact_action_Some [OF a(3) vol] obtain b tag where
    x: "x = normalizeApprovalAction E b" "js_field a ''bindingTag'' = JStr tag" "av_bytes E tag = av_bytes E (av_mac E (bound_text x))"
    by blast
  from r(1) x(2) obtain bt t where i: "(k, bt, t) \<in> iss" "tag = av_mac E bt" "js_field a ''expiresAt'' = JInt (t + 300000)"
    by (auto simp: record_ok_def)
  have "now < t + 300000" using a(1) not_expired [OF i(3)] by simp
  moreover have "k \<in> cl" using r(1) a(2) by (auto simp: record_ok_def)
  ultimately have right: "rightful E iss cl now k (js_assign (publicApprovalAction a) x)"
    unfolding rightful_def using i(1,2) x(3) by (auto simp: x(1) bound_text_assign)
  have t: "fresh_ok E iss cl gone ?t" using s(1) drop_ok by blast
  have nk: "k \<notin> fst ` set (as_pending ?t)" by (auto simp: drop_volatile_def drop_pending_def jm_delete_def)
  obtain s' u where p: "persist E c ?t = (s', u)" by (cases "persist E c ?t")
  have st: "store_ok E iss cl gone s'"
    using persist_ok [OF E, of iss cl gone c] t p by (auto simp: validS_def fresh_ok_def)
  show ?thesis
  proof (cases u)
    case (Inl e)
    with p st show ?thesis by (simp add: bindS_def modifyS_def consumed_ok_def)
  next
    case (Inr u)
    with persist_gone [OF E t nk] p have "store_ok E iss cl (insert k gone) s'" by simp
    with p st right r(2) Inr show ?thesis by (simp add: bindS_def modifyS_def returnS_def consumed_ok_def)
  qed
qed

lemma consume_ok:
  assumes E: "redaction_keeps E iss" "av_path E"
  shows "validS (store_ok E iss cl gone) (consumeApproval E c i a) (consumed_ok E iss cl gone (cl_now c) (key_of i))"
  unfolding consumeApproval_def
proof (intro validS_refreshed E validS_modify [where R = "fresh_ok E iss cl gone"] validS_get expire_ok)
  let ?k = "key_of i" and ?Q = "consumed_ok E iss cl gone (cl_now c) (key_of i)"
  have kept: "validS P (bindS (persist E c) (\<lambda>_. returnS None)) ?Q" if "\<And>s. P s \<Longrightarrow> fresh_ok E iss cl gone s" for P
    by (rule validS_pre [of "fresh_ok E iss cl gone", OF validS_persist [OF E(2)]])
      (auto simp: validS_def returnS_def consumed_ok_def intro: fresh_store that)
  have forgotten: "validS P (bindS (modifyS (drop_volatile ?k)) (\<lambda>_. bindS (persist E c) (\<lambda>_. returnS None))) ?Q"
    if "\<And>s. P s \<Longrightarrow> fresh_ok E iss cl gone s" for P
    using that by (intro validS_modify [where R = "fresh_ok E iss cl gone"] kept) (auto intro: drop_ok)
  fix found vol
  let ?P = "\<lambda>s. (fresh_ok E iss cl gone s \<and> jm_get (as_pending s) ?k = found) \<and> as_volatile s = vol"
  let ?forget = "bindS (modifyS (drop_volatile ?k)) (\<lambda>_. bindS (persist E c) (\<lambda>_. returnS None))"
  show "validS ?P (case found of None \<Rightarrow> ?forget
     | Some b \<Rightarrow>
         if expired (cl_now c) b then ?forget
         else if js_field b ''status'' \<noteq> JStr ''approved'' then bindS (persist E c) (\<lambda>_. returnS None)
         else
           (case exact_action E ?k b vol of
              None \<Rightarrow> returnS None
            | Some x \<Rightarrow>
                let n = normalizeApprovalAction E a;
                    exactMatch = safeEqualTag E (the_str (js_field b ''bindingTag'')) (approvalBindingTag E n);
                    redactedMatch = stableApprovalValue (JObj (normalizeApprovalAction E b)) = stableApprovalValue (JObj n) in
                if \<not> exactMatch \<and> \<not> redactedMatch then returnS None
                else
                  bindS (modifyS (\<lambda>s. drop_volatile ?k (drop_pending ?k s))) (\<lambda>_.
                  bindS (persist E c) (\<lambda>_. returnS (Some (js_assign (publicApprovalAction b) x)))))) ?Q"
  proof (cases found)
    case None
    then show ?thesis unfolding None option.case by (intro forgotten) blast
  next
    case (Some b)
    consider (old) "expired (cl_now c) b" | (unclaimed) "\<not> expired (cl_now c) b" "js_field b ''status'' \<noteq> JStr ''approved''"
      | (inexact) "\<not> expired (cl_now c) b" "js_field b ''status'' = JStr ''approved''" "exact_action E ?k b vol = None"
      | (taken) x where "\<not> expired (cl_now c) b" "js_field b ''status'' = JStr ''approved''" "exact_action E ?k b vol = Some x"
      by blast
    then show ?thesis
    proof cases
      case old
      show ?thesis unfolding Some option.case if_P [OF old] by (rule forgotten) blast
    next
      case unclaimed
      show ?thesis unfolding Some option.case if_not_P [OF unclaimed(1)] if_P [OF unclaimed(2)] by (rule kept) blast
    next
      case inexact
      show ?thesis
        unfolding Some option.case if_not_P [OF inexact(1)] inexact(2,3)
        by (auto simp: validS_def returnS_def consumed_ok_def fresh_ok_def)
    next
      case taken
      have t: "validS ?P (bindS (modifyS (\<lambda>s. drop_volatile ?k (drop_pending ?k s))) (\<lambda>_.
          bindS (persist E c) (\<lambda>_. returnS (Some (js_assign (publicApprovalAction b) x))))) ?Q"
        unfolding validS_def using consume_taken [OF E(2), of iss cl gone _ ?k b "cl_now c" x c] Some taken by blast
      have n: "validS ?P (returnS None) ?Q" by (auto simp: validS_def returnS_def consumed_ok_def fresh_ok_def)
      show ?thesis
        unfolding Some option.case if_not_P [OF taken(1)] taken(2,3) Let_def
        by (simp only: not_True_eq_False if_False simp_thms) (intro validS_if n [unfolded Some] t [unfolded Some])
    qed
  qed
qed (auto simp: consumed_ok_def)

section \<open>Steps and runs\<close>

lemma validS_lock:
  "validS P m Q \<Longrightarrow> (\<And>e s. P s \<Longrightarrow> Q (Inl e) s) \<Longrightarrow> validS P (with_lock E c m) Q"
  by (auto simp: with_lock_def validS_def throwS_def split: option.splits)

definition op_known :: "approval_env \<Rightarrow> issue set \<Rightarrow> string set \<Rightarrow> string set \<Rightarrow> approval_call \<Rightarrow> approval_op \<Rightarrow> bool" where
  "op_known E iss cl gone c op \<longleftrightarrow>
     (\<forall>u a. op = Ap_create u a \<longrightarrow> ''id'' \<notin> fst ` set a \<and> length a \<le> 900 \<and> ''approval_'' @ u \<notin> gone \<and>
        (''approval_'' @ u, bound_text (normalizeApprovalAction E a), cl_now c) \<in> iss) \<and>
     (\<forall>i b t. op = Ap_claim i \<and> (key_of i, b, t) \<in> iss \<longrightarrow> key_of i \<in> cl)"

definition consumes :: "approval_op \<Rightarrow> approval_result \<Rightarrow> (string \<times> approval_action) option" where
  "consumes op r = (case op of Ap_consume i a \<Rightarrow> (case r of Ap_action (Some x) \<Rightarrow> Some (key_of i, x) | _ \<Rightarrow> None) | _ \<Rightarrow> None)"

lemma op_step_ok:
  assumes E: "redaction_keeps E iss" "av_path E" and s: "store_ok E iss cl gone s" and known: "op_known E iss cl gone c op"
    and step: "op_step E c op s = (s', r)"
  shows "store_ok E iss cl gone s' \<and>
    (\<forall>k x. consumes op r = Some (k, x) \<longrightarrow> store_ok E iss cl (insert k gone) s' \<and> k \<notin> gone \<and> rightful E iss cl (cl_now c) k x)"
proof -
  have keep: "store_ok E iss cl gone s'"
    if m: "keepsS (store_ok E iss cl gone) m" and f: "map_prod id f (with_lock E c m s) = (s', r)" for m :: "'a approval_m" and f
  proof -
    have "store_ok E iss cl gone (fst (with_lock E c m s))" using validS_lock [OF m] s by (auto simp: validS_def)
    with f show ?thesis by (cases "with_lock E c m s") simp
  qed
  show ?thesis
  proof (cases op)
    case (Ap_create u a)
    with known have "keepsS (store_ok E iss cl gone) (createApproval E c u a)"
      by (intro create_ok E) (auto simp: op_known_def)
    from keep [OF this] step Ap_create show ?thesis by (auto simp: op_step_def consumes_def)
  next
    case (Ap_claim i)
    with known have "keepsS (store_ok E iss cl gone) (claimApproval E c i)"
      by (intro claim_ok E) (auto simp: op_known_def)
    from keep [OF this] step Ap_claim show ?thesis by (auto simp: op_step_def consumes_def)
  next
    case (Ap_recover i)
    from keep [OF recover_ok [OF E]] step Ap_recover show ?thesis by (auto simp: op_step_def consumes_def)
  next
    case (Ap_consume i a)
    have "validS (store_ok E iss cl gone) (with_lock E c (consumeApproval E c i a)) (consumed_ok E iss cl gone (cl_now c) (key_of i))"
      by (rule validS_lock [OF consume_ok [OF E]]) (simp add: consumed_ok_def)
    with s have q: "consumed_ok E iss cl gone (cl_now c) (key_of i) (snd (with_lock E c (consumeApproval E c i a) s))
        (fst (with_lock E c (consumeApproval E c i a) s))" by (simp add: validS_def)
    obtain t v where t: "with_lock E c (consumeApproval E c i a) s = (t, v)" by (cases "with_lock E c (consumeApproval E c i a) s")
    with step Ap_consume have "s' = t" "r = outcome_of Ap_action v" by (simp_all add: op_step_def)
    with q t Ap_consume show ?thesis
      by (cases v) (auto simp: consumed_ok_def consumes_def outcome_of_def split: option.splits)
  next
    case (Ap_revoke i)
    from keep [OF revoke_ok [OF E]] step Ap_revoke show ?thesis by (auto simp: op_step_def consumes_def)
  next
    case (Ap_list l f)
    from keep [OF list_ok [OF E]] step Ap_list show ?thesis by (auto simp: op_step_def consumes_def)
  next
    case Ap_restart
    with step s show ?thesis by (auto simp: op_step_def consumes_def store_ok_def memory_ok_def)
  qed
qed

definition world_ok :: "approval_env \<Rightarrow> issue set \<Rightarrow> string set \<Rightarrow> string set \<Rightarrow> approval_world \<Rightarrow> bool" where
  "world_ok E iss cl gone w \<longleftrightarrow> (\<forall>p. store_ok E iss cl gone (view_of w p))"

lemma world_ok_mono: "world_ok E iss cl gone w \<Longrightarrow> iss \<subseteq> iss' \<Longrightarrow> cl \<subseteq> cl' \<Longrightarrow> world_ok E iss' cl' gone w"
  by (auto simp: world_ok_def store_ok_def intro: memory_ok_mono file_ok_mono)

lemma memory_view: "memory_ok E iss cl (view_of w p) \<longleftrightarrow> (\<forall>(i, a)\<in>set (fst (aw_procs w p)). record_ok E iss cl i a) \<and>
    (\<forall>(i, x)\<in>set (snd (aw_procs w p)). \<exists>a. x = normalizeApprovalAction E a)"
  by (simp add: memory_ok_def view_of_def)

lemma world_step_ok:
  assumes E: "redaction_keeps E iss" "av_path E" and w: "world_ok E iss cl gone w" and known: "op_known E iss cl gone (sp_call st) (sp_op st)"
    and step: "world_step E w st = (w', r)"
  shows "world_ok E iss cl (gone \<union> set_option (map_option fst (consumes (sp_op st) r))) w'"
    and "consumes (sp_op st) r = Some (k, x) \<Longrightarrow> k \<notin> gone \<and> rightful E iss cl (cl_now (sp_call st)) k x"
proof -
  obtain s' where s': "op_step E (sp_call st) (sp_op st) (view_of w (sp_proc st)) = (s', r)"
      "w' = \<lparr>aw_file = as_file s', aw_procs = (aw_procs w)(sp_proc st := (as_pending s', as_volatile s'))\<rparr>"
    using step by (auto simp: world_step_def split: prod.splits)
  have v: "store_ok E iss cl gone (view_of w (sp_proc st))" using w by (simp add: world_ok_def)
  note o = op_step_ok [OF E v known s'(1)]
  then show "consumes (sp_op st) r = Some (k, x) \<Longrightarrow> k \<notin> gone \<and> rightful E iss cl (cl_now (sp_call st)) k x" by blast
  have all: "world_ok E iss cl g w'" if "store_ok E iss cl g s'" for g
    unfolding world_ok_def
  proof
    fix p show "store_ok E iss cl g (view_of w' p)"
    proof (cases "p = sp_proc st")
      case True
      with that show ?thesis by (cases s') (simp add: s'(2) view_of_def)
    next
      case False
      have "memory_ok E iss cl (view_of w p)" using w by (simp add: world_ok_def store_ok_def)
      with False that show ?thesis unfolding store_ok_def memory_view by (simp add: s'(2) view_of_def)
    qed
  qed
  show "world_ok E iss cl (gone \<union> set_option (map_option fst (consumes (sp_op st) r))) w'"
    using o all by (cases "consumes (sp_op st) r") auto
qed

text \<open>What has been issued, claimed and consumed in a run.\<close>

definition issue_of :: "approval_env \<Rightarrow> approval_step \<Rightarrow> issue set" where
  "issue_of E st = {(''approval_'' @ u, bound_text (normalizeApprovalAction E a), cl_now (sp_call st)) |u a. sp_op st = Ap_create u a}"

definition issued :: "approval_env \<Rightarrow> approval_step list \<Rightarrow> issue set" where
  "issued E sts = (\<Union>st\<in>set sts. issue_of E st)"

definition claimed_in :: "approval_env \<Rightarrow> approval_step list \<Rightarrow> string set" where
  "claimed_in E sts = {k. \<exists>xs st zs i. sts = xs @ st # zs \<and> sp_op st = Ap_claim i \<and> key_of i = k \<and> k \<in> fst ` issued E xs}"

definition consumed :: "approval_step list \<Rightarrow> approval_result list \<Rightarrow> string list" where
  "consumed sts rs = List.map_filter (\<lambda>(st, r). map_option fst (consumes (sp_op st) r)) (zip sts rs)"

fun created :: "approval_op \<Rightarrow> string list" where
  "created (Ap_create u a) = [u]"
| "created _ = []"

text \<open>
  A run with fresh identifiers, whose actions have at most 900 fields and no \<open>id\<close>, and whose identifiers
  and tags do not look like secrets.
\<close>

definition well_created :: "approval_env \<Rightarrow> approval_step list \<Rightarrow> bool" where
  "well_created E sts \<longleftrightarrow> distinct (concat (map (\<lambda>st. created (sp_op st)) sts)) \<and> kept_text E ''pending'' \<and> kept_text E ''approved'' \<and>
     list_all (\<lambda>st. case sp_op st of
         Ap_create u a \<Rightarrow> ''id'' \<notin> fst ` set a \<and> length a \<le> 900 \<and> kept_text E (''approval_'' @ u) \<and>
           kept_text E (approvalBindingTag E (normalizeApprovalAction E a))
       | _ \<Rightarrow> True) sts"

lemma well_created_snoc: "well_created E (sts @ [st]) \<Longrightarrow> well_created E sts"
  by (simp add: well_created_def)

lemma well_created_op:
  assumes "well_created E sts" "st \<in> set sts" "sp_op st = Ap_create u a"
  shows "''id'' \<notin> fst ` set a" "length a \<le> 900" "kept_text E (''approval_'' @ u)" "kept_text E (approvalBindingTag E (normalizeApprovalAction E a))"
proof -
  have "case sp_op st of
         Ap_create u a \<Rightarrow> ''id'' \<notin> fst ` set a \<and> length a \<le> 900 \<and> kept_text E (''approval_'' @ u) \<and>
           kept_text E (approvalBindingTag E (normalizeApprovalAction E a))
       | _ \<Rightarrow> True"
    using assms(1,2) unfolding well_created_def list_all_iff by blast
  then show "''id'' \<notin> fst ` set a" "length a \<le> 900" "kept_text E (''approval_'' @ u)" "kept_text E (approvalBindingTag E (normalizeApprovalAction E a))"
    unfolding assms(3) by simp_all
qed

lemma well_created_issued:
  assumes "well_created E sts"
  shows "redaction_keeps E (issued E sts)"
proof -
  have "kept_text E i \<and> kept_text E (av_mac E b)" if "(i, b, t) \<in> issued E sts" for i b t
  proof -
    have "\<exists>st\<in>set sts. \<exists>u a. (i, b, t) = (''approval_'' @ u, bound_text (normalizeApprovalAction E a), cl_now (sp_call st)) \<and> sp_op st = Ap_create u a"
      using that unfolding issued_def issue_of_def by blast
    then obtain st u a where "st \<in> set sts" "sp_op st = Ap_create u a" "i = ''approval_'' @ u" "b = bound_text (normalizeApprovalAction E a)"
      by (metis prod.inject)
    with well_created_op(3,4) [OF assms] show ?thesis by (simp add: approvalBindingTag_def)
  qed
  moreover have "kept_text E ''pending''" "kept_text E ''approved''" using assms by (simp_all add: well_created_def)
  ultimately show ?thesis unfolding redaction_keeps_def by blast
qed

lemma world_run_snoc:
  "world_run E w (sts @ [st]) = (case world_run E w sts of (w1, rs) \<Rightarrow> (case world_step E w1 st of (w2, r) \<Rightarrow> (w2, rs @ [r])))"
  by (induction sts arbitrary: w) (auto split: prod.splits)

lemma world_run_length: "world_run E w sts = (w', rs) \<Longrightarrow> length rs = length sts"
  by (induction sts arbitrary: w w' rs) (auto split: prod.splits)

lemma claimed_in_snoc: "claimed_in E sts \<subseteq> claimed_in E (sts @ [st])"
proof
  fix k assume "k \<in> claimed_in E sts"
  then obtain xs c zs i where "sts = xs @ c # zs" "sp_op c = Ap_claim i" "key_of i = k" "k \<in> fst ` issued E xs"
    unfolding claimed_in_def by blast
  then have "sts @ [st] = xs @ c # (zs @ [st])" "sp_op c = Ap_claim i" "key_of i = k" "k \<in> fst ` issued E xs" by simp_all
  then show "k \<in> claimed_in E (sts @ [st])" unfolding claimed_in_def by blast
qed

lemma issued_ids: "''approval_'' @ u \<in> fst ` issued E sts \<Longrightarrow> u \<in> set (concat (map (\<lambda>st. created (sp_op st)) sts))"
  by (force simp: issued_def issue_of_def)

lemma run_ok:
  assumes E: "av_path E"
  shows "well_created E sts \<Longrightarrow> world_run E first_world sts = (w, rs) \<Longrightarrow>
    world_ok E (issued E sts) (claimed_in E sts) (set (consumed sts rs)) w \<and> set (consumed sts rs) \<subseteq> fst ` issued E sts \<and>
    distinct (consumed sts rs)"
proof (induction sts arbitrary: w rs rule: rev_induct)
  case Nil
  then show ?case
    by (auto simp: consumed_def map_filter_simps world_ok_def store_ok_def memory_ok_def file_ok_def view_of_def first_world_def)
next
  case (snoc st sts)
  obtain w1 rs1 r where run: "world_run E first_world sts = (w1, rs1)" "world_step E w1 st = (w, r)" "rs = rs1 @ [r]"
    using snoc.prems(2) by (auto simp: world_run_snoc split: prod.splits)
  have f: "well_created E sts" by (rule well_created_snoc [OF snoc.prems(1)])
  note ih = snoc.IH [OF f run(1)]
  let ?g = "set (consumed sts rs1)" and ?iss = "issued E (sts @ [st])" and ?cl = "claimed_in E (sts @ [st])"
  have iss: "issued E sts \<subseteq> ?iss" "issue_of E st \<subseteq> ?iss" by (auto simp: issued_def)
  have sub: "fst ` issued E sts \<subseteq> fst ` ?iss" using iss(1) by (rule image_mono)
  have w1: "world_ok E ?iss ?cl ?g w1" using ih world_ok_mono [OF _ iss(1) claimed_in_snoc] by blast
  have "op_known E ?iss ?cl ?g (sp_call st) (sp_op st)"
    unfolding op_known_def
  proof (intro conjI allI impI)
    fix u a assume op: "sp_op st = Ap_create u a"
    with well_created_op(1,2) [OF snoc.prems(1), of st u a] show "''id'' \<notin> fst ` set a" "length a \<le> 900" by simp_all
    show "(''approval_'' @ u, bound_text (normalizeApprovalAction E a), cl_now (sp_call st)) \<in> ?iss"
      using iss(2) op by (auto simp: issue_of_def)
    have "u \<notin> set (concat (map (\<lambda>st. created (sp_op st)) sts))" using snoc.prems(1) op by (auto simp: well_created_def)
    then show "''approval_'' @ u \<notin> ?g" using ih issued_ids by blast
  next
    fix i b t assume a: "sp_op st = Ap_claim i \<and> (key_of i, b, t) \<in> ?iss"
    then have "(key_of i, b, t) \<in> issued E sts" by (auto simp: issued_def issue_of_def)
    then have "key_of i \<in> fst ` issued E sts" by force
    with a show "key_of i \<in> ?cl" unfolding claimed_in_def by blast
  qed
  note step = world_step_ok [OF well_created_issued [OF snoc.prems(1)] E w1 this run(2)]
  have c: "consumed (sts @ [st]) rs = consumed sts rs1 @ (case consumes (sp_op st) r of None \<Rightarrow> [] | Some (k, x) \<Rightarrow> [k])"
    using world_run_length [OF run(1)] by (auto simp: consumed_def run(3) map_filter_def split: option.splits)
  show ?case
  proof (cases "consumes (sp_op st) r")
    case None
    with step(1) ih sub show ?thesis by (auto simp: c)
  next
    case (Some p)
    obtain k x where p: "p = (k, x)" by (cases p)
    have "k \<notin> ?g" "k \<in> fst ` ?iss" using step(2) [of k x] Some p by (force simp: rightful_def)+
    with step(1) ih sub Some p show ?thesis by (auto simp: c)
  qed
qed

text \<open>
  C30. No approval is consumed twice, whatever the processes that share the file do, restart or fail
  to write.
\<close>

theorem approval_single_use:
  assumes "av_path E" "well_created E sts" "world_run E first_world sts = (w, rs)"
  shows "distinct (consumed sts rs)"
  using run_ok [OF assms] by blast

lemma created_once:
  "distinct (concat (map f sts)) \<Longrightarrow> c \<in> set sts \<Longrightarrow> c' \<in> set sts \<Longrightarrow> u \<in> set (f c) \<Longrightarrow> u \<in> set (f c') \<Longrightarrow> c = c'"
  by (induction sts) auto

text \<open>
  C31. A consumption that gives an action is of an approval that was created, then claimed, has not
  expired and has not been consumed before; and what it gives has the tag of the action it was created
  with: tool, run, account, actor and input are the same unless exactly these two texts share a MAC.
\<close>

theorem approval_consumed_as_granted:
  assumes E: "av_path E" and ids: "well_created E sts" and run: "world_run E first_world sts = (w, rs)"
    and st: "sp_op st = Ap_consume i given" "world_step E w st = (w', Ap_action (Some x))"
  shows "\<exists>xs c ys l zs u a j. sts = xs @ c # ys @ l # zs \<and> sp_op c = Ap_create u a \<and> key_of i = ''approval_'' @ u \<and>
    sp_op l = Ap_claim j \<and> key_of j = key_of i \<and> cl_now (sp_call st) < cl_now (sp_call c) + 300000 \<and>
    key_of i \<notin> set (consumed sts rs) \<and>
    av_bytes E (av_mac E (bound_text (normalizeApprovalAction E a))) = av_bytes E (av_mac E (bound_text x))"
proof -
  have known: "op_known E (issued E sts) (claimed_in E sts) (set (consumed sts rs)) (sp_call st) (sp_op st)"
    by (simp add: op_known_def st(1))
  have "consumes (sp_op st) (Ap_action (Some x)) = Some (key_of i, x)" by (simp add: consumes_def st(1))
  with world_step_ok(2) [OF well_created_issued [OF ids] E _ known st(2)] run_ok [OF E ids run]
  have r: "key_of i \<notin> set (consumed sts rs)" "rightful E (issued E sts) (claimed_in E sts) (cl_now (sp_call st)) (key_of i) x"
    by blast+
  obtain b t where bt: "(key_of i, b, t) \<in> issued E sts" "cl_now (sp_call st) < t + 300000"
      "av_bytes E (av_mac E b) = av_bytes E (av_mac E (bound_text x))"
    using r(2) unfolding rightful_def by blast
  obtain c u a where c: "c \<in> set sts" "sp_op c = Ap_create u a" "key_of i = ''approval_'' @ u"
      "b = bound_text (normalizeApprovalAction E a)" "t = cl_now (sp_call c)"
    using bt(1) by (auto simp: issued_def issue_of_def)
  obtain xs' l zs j where l: "sts = xs' @ l # zs" "sp_op l = Ap_claim j" "key_of j = key_of i" "key_of i \<in> fst ` issued E xs'"
    using r(2) unfolding rightful_def claimed_in_def by blast
  then obtain c' a' u' where c': "c' \<in> set xs'" "sp_op c' = Ap_create u' a'" "key_of i = ''approval_'' @ u'"
    by (auto simp: issued_def issue_of_def)
  have "c = c'"
    using created_once [of "\<lambda>st. created (sp_op st)" sts c c' u] ids c c' l(1) by (simp add: well_created_def)
  then obtain xs ys where "xs' = xs @ c # ys" using c'(1) by (auto dest: split_list)
  with l have "sts = xs @ c # ys @ l # zs" "sp_op l = Ap_claim j" "key_of j = key_of i" by simp_all
  then show ?thesis using c(2,3,4,5) bt(2,3) r(1) by metis
qed

section \<open>Samples\<close>

definition grant_env :: approval_env where
  "grant_env = \<lparr>av_path = True, av_patterns = (\<lambda>s. s), av_durable = \<lparr>de_hash = (\<lambda>_. ''h''), de_lower = (\<lambda>s. s)\<rparr>, av_mac = (\<lambda>s. s),
     av_bytes = (\<lambda>s. s), av_seal = (\<lambda>_ _. ([], [], [])), av_unseal = (\<lambda>_ _ _ _. None), av_large = (\<lambda>_. False)\<rparr>"

definition grant_call_at :: "int \<Rightarrow> approval_call" where
  "grant_call_at t = \<lparr>cl_now = t, cl_writes = True, cl_abort = None, cl_lock = None\<rparr>"

definition grant_act :: approval_action where
  "grant_act = [(''tool'', JStr ''x'')]"

definition at_step :: "int \<Rightarrow> approval_op \<Rightarrow> approval_step" where
  "at_step t op = \<lparr>sp_proc = 0, sp_call = grant_call_at t, sp_op = op\<rparr>"

definition grant_start :: "approval_step list" where
  "grant_start = [at_step 0 (Ap_create ''u'' grant_act), at_step 1 (Ap_claim (JStr ''approval_u''))]"

definition grant_use :: approval_step where
  "grant_use = at_step 2 (Ap_consume (JStr ''approval_u'') grant_act)"

definition grant_effect :: approval_action where
  "grant_effect = [(''version'', JInt 1), (''tool'', JStr ''x''), (''summary'', JStr ''Perform one approved x action.''),
     (''capability'', JStr ''x''), (''inputDigest'', JStr ''h''), (''reversible'', JStr ''uncertain''), (''idempotency'', JStr ''unknown''),
     (''inputKeys'', JArr [])]"

definition grant_stored_effect :: approval_action where
  "grant_stored_effect = jm_set ''capability'' (JStr REDACTED) grant_effect"

definition grant_norm :: approval_action where
  "grant_norm = [(''tool'', JStr ''x''), (''runId'', JStr []), (''accountId'', JStr []), (''actor'', JStr []), (''input'', JObj []),
     (''effect'', JObj grant_effect)]"

definition grant_tag :: string where
  "grant_tag = concat (map (\<lambda>(k, v). CHR 0x22 # k @ [CHR 0x22, CHR '':''] @ v)
     [(''accountId'', [CHR 0x22, CHR 0x22, CHR '','']), (''actor'', [CHR 0x22, CHR 0x22, CHR '','']), (''input'', ''{},''),
      (''runId'', [CHR 0x22, CHR 0x22, CHR '','']), (''tool'', [CHR 0x22, CHR ''x'', CHR 0x22])])"

definition grant_stored :: "string \<Rightarrow> approval_action \<Rightarrow> approval_action" where
  "grant_stored status rest =
     [(''id'', JStr ''approval_u''), (''tool'', JStr ''x''), (''actor'', JStr []), (''summary'', JStr ''Perform one approved x action.''),
      (''effect'', JObj grant_stored_effect), (''input'', JObj []), (''bindingTag'', JStr (CHR ''{'' # grant_tag @ ''}'')),
      (''sealedInput'', JObj [(''version'', JInt 1), (''iv'', JStr []), (''data'', JStr []), (''authTag'', JStr [])]),
      (''status'', JStr status), (''createdAt'', JStr ''1970-01-01T00:00:00.000Z''), (''expiresAt'', JInt 300000)] @ rest"

definition grant_state :: "(string \<times> approval_action) list \<Rightarrow> (string \<times> approval_action) list \<Rightarrow> approvals" where
  "grant_state m v = \<lparr>as_file = Approval_text (state_json m), as_pending = m, as_volatile = v\<rparr>"

definition grant_created :: approvals where
  "grant_created = grant_state [(''approval_u'', grant_stored ''pending'' [])] [(''approval_u'', grant_norm)]"

definition grant_claimed :: approvals where
  "grant_claimed = grant_state [(''approval_u'', grant_stored ''approved'' [(''approvedAt'', JStr ''1970-01-01T00:00:00.001Z'')])]
     [(''approval_u'', grant_norm)]"

definition grant_given :: approval_action where
  "grant_given = js_assign (publicApprovalAction (grant_stored ''approved'' [(''approvedAt'', JStr ''1970-01-01T00:00:00.001Z'')])) grant_norm"

definition grant_none :: approvals where "grant_none = \<lparr>as_file = No_file, as_pending = [], as_volatile = []\<rparr>"

lemma grant_norms:
  "normalizeApprovalAction grant_env grant_act = grant_norm"
  by code_simp

lemma grant_tags:
  "approvalBindingTag grant_env grant_norm = CHR ''{'' # grant_tag @ ''}''"
  by code_simp

lemma grant_create:
  "op_step grant_env (grant_call_at 0) (Ap_create ''u'' grant_act) grant_none = (grant_created, Ap_id ''approval_u'')"
  unfolding op_step_def approval_op.case createApproval_def grant_norms Let_def grant_tags
  by code_simp

lemma grant_claim:
  "fst (op_step grant_env (grant_call_at 1) (Ap_claim (JStr ''approval_u'')) grant_created) = grant_claimed"
  by code_simp

lemma grant_consume:
  "op_step grant_env (grant_call_at 2) (Ap_consume (JStr ''approval_u'') grant_act) grant_claimed =
     (grant_state [] [], Ap_action (Some grant_given))"
  unfolding op_step_def approval_op.case consumeApproval_def grant_norms Let_def grant_tags
  by code_simp

lemma grant_consume_again:
  "snd (op_step grant_env (grant_call_at 2) (Ap_consume (JStr ''approval_u'') grant_act) (grant_state [] [])) = Ap_action None"
  by code_simp

lemma world_step_view:
  assumes "op_step E (sp_call st) (sp_op st) (view_of w (sp_proc st)) = (s, r)"
  shows "snd (world_step E w st) = r" "view_of (fst (world_step E w st)) (sp_proc st) = s"
  using assms by (simp_all add: world_step_def view_of_def)

lemma grant_run:
  obtains w2 w3 w4 r2 where
    "world_run grant_env first_world grant_start = (w2, [Ap_id ''approval_u'', r2])"
    "world_step grant_env w2 grant_use = (w3, Ap_action (Some grant_given))"
    "world_step grant_env w3 grant_use = (w4, Ap_action None)"
proof -
  let ?c = "at_step 0 (Ap_create ''u'' grant_act)" and ?l = "at_step 1 (Ap_claim (JStr ''approval_u''))"
  obtain w1 r1 w2 r2 w3 r3 w4 r4 where w: "world_step grant_env first_world ?c = (w1, r1)" "world_step grant_env w1 ?l = (w2, r2)"
      "world_step grant_env w2 grant_use = (w3, r3)" "world_step grant_env w3 grant_use = (w4, r4)"
    by (metis surj_pair)
  have "view_of first_world 0 = grant_none" by (simp add: view_of_def first_world_def grant_none_def)
  with world_step_view [of grant_env ?c first_world grant_created "Ap_id ''approval_u''"] w(1) grant_create
  have 1: "r1 = Ap_id ''approval_u''" "view_of w1 0 = grant_created" by (simp_all add: at_step_def)
  obtain q where "op_step grant_env (grant_call_at 1) (Ap_claim (JStr ''approval_u'')) grant_created = (grant_claimed, q)"
    using grant_claim by (metis prod.collapse)
  with world_step_view(2) [of grant_env ?l w1 grant_claimed q] w(2) 1
  have 2: "view_of w2 0 = grant_claimed" by (simp add: at_step_def)
  have 3: "r3 = Ap_action (Some grant_given)" "view_of w3 0 = grant_state [] []"
    using world_step_view [of grant_env grant_use w2 "grant_state [] []" "Ap_action (Some grant_given)"] w(3) 2 grant_consume
    by (simp_all add: grant_use_def at_step_def)
  obtain q' where "op_step grant_env (grant_call_at 2) (Ap_consume (JStr ''approval_u'') grant_act) (grant_state [] []) = (q', Ap_action None)"
    using grant_consume_again by (metis prod.collapse)
  with world_step_view(1) [of grant_env grant_use w3 q' "Ap_action None"] w(4) 3
  have "r4 = Ap_action None" by (simp add: grant_use_def at_step_def)
  with that w 1 3 show thesis by (simp add: grant_start_def)
qed

lemma world_run_then:
  "world_run E w0 sts = (w, rs) \<Longrightarrow> world_step E w st = (w', r) \<Longrightarrow> world_run E w0 (sts @ [st]) = (w', rs @ [r])"
  by (simp add: world_run_snoc)

lemma grant_kept: "kept_text grant_env ''pending''" "kept_text grant_env ''approved''" "kept_text grant_env ''approval_u''"
    "kept_text grant_env (CHR ''{'' # grant_tag @ ''}'')"
  by code_simp+

lemma grant_short: "''id'' \<notin> fst ` set grant_act" "length grant_act \<le> 900"
  by (simp_all add: grant_act_def)

lemma grant_fresh: "well_created grant_env (grant_start @ [grant_use, grant_use])" "well_created grant_env grant_start"
  using grant_kept
  by (simp_all add: well_created_def grant_norms grant_tags grant_start_def grant_use_def at_step_def grant_short)

lemma approval_single_use_witness:
  "\<exists>w rs. world_run grant_env first_world (grant_start @ [grant_use, grant_use]) = (w, rs) \<and>
     consumed (grant_start @ [grant_use, grant_use]) rs = [''approval_u''] \<and>
     distinct (consumed (grant_start @ [grant_use, grant_use]) rs)"
proof -
  obtain w2 w3 w4 r2 where r: "world_run grant_env first_world grant_start = (w2, [Ap_id ''approval_u'', r2])"
      "world_step grant_env w2 grant_use = (w3, Ap_action (Some grant_given))" "world_step grant_env w3 grant_use = (w4, Ap_action None)"
    by (rule grant_run)
  from world_run_then [OF world_run_then [OF r(1,2)] r(3)]
  have run: "world_run grant_env first_world (grant_start @ [grant_use, grant_use]) =
      (w4, [Ap_id ''approval_u'', r2, Ap_action (Some grant_given), Ap_action None])" by simp
  have "consumed (grant_start @ [grant_use, grant_use]) [Ap_id ''approval_u'', r2, Ap_action (Some grant_given), Ap_action None] = [''approval_u'']"
    by (simp add: consumed_def grant_start_def grant_use_def at_step_def consumes_def key_of_def nullish_def)
  with run approval_single_use [OF _ grant_fresh(1) run] show ?thesis by (auto simp: grant_env_def)
qed

lemma approval_consumed_as_granted_witness:
  "\<exists>w rs w'. world_run grant_env first_world grant_start = (w, rs) \<and>
     world_step grant_env w grant_use = (w', Ap_action (Some grant_given)) \<and>
     (\<exists>xs c ys l zs u a j. grant_start = xs @ c # ys @ l # zs \<and> sp_op c = Ap_create u a \<and> ''approval_u'' = ''approval_'' @ u \<and>
      sp_op l = Ap_claim j \<and> key_of j = ''approval_u'' \<and> 2 < cl_now (sp_call c) + 300000 \<and> ''approval_u'' \<notin> set (consumed grant_start rs) \<and>
      av_bytes grant_env (av_mac grant_env (bound_text (normalizeApprovalAction grant_env a))) =
        av_bytes grant_env (av_mac grant_env (bound_text grant_given)))"
proof -
  obtain w2 w3 w4 r2 where r: "world_run grant_env first_world grant_start = (w2, [Ap_id ''approval_u'', r2])"
      "world_step grant_env w2 grant_use = (w3, Ap_action (Some grant_given))" "world_step grant_env w3 grant_use = (w4, Ap_action None)"
    by (rule grant_run)
  have "av_path grant_env" "sp_op grant_use = Ap_consume (JStr ''approval_u'') grant_act" "key_of (JStr ''approval_u'') = ''approval_u''" "cl_now (sp_call grant_use) = 2"
    by (simp_all add: grant_env_def grant_use_def at_step_def key_of_def nullish_def grant_call_at_def)
  with r approval_consumed_as_granted [OF _ grant_fresh(2) r(1) _ r(2), of "JStr ''approval_u''" grant_act]
  show ?thesis by simp
qed

end
