(* ===== verification/Checkpoints.thy ===== *)
theory Checkpoints
  imports Policy Job_Store Durable_Input
begin

text \<open>
  The checkpoints of mutations, \<open>packages/kernel/src/checkpoint-coordinator.ts\<close>: a boundary is opened
  before a mutation of the workspace, the previews of its mutations are journalled, and it is published
  with a manifest that is verified byte by byte; what a crash leaves is settled_status by \<open>recover\<close>.

  The tables \<open>mutation_groups\<close>, \<open>mutation_checkpoints\<close>, \<open>mutation_journal_entries\<close> and
  \<open>checkpoint_manifest_artifacts\<close> are lists of rows in the order of their insertion.  Every transaction and
  every appended event is one write; whether it succeeds is the next element of \<open>cd_io\<close>, so that a list of
  failures after some point is a crash there.  A time is read once per operation.  A value stored as JSON
  text is stored as what is read back from it.  Of the artifact store the digest, path and size it gives are
  modelled; the bytes that are read back from a path, SHA-256 and the patterns of secrets are arguments, the
  bytes of every call anew, so that files may be lost, cut short or changed at any time.
\<close>

section \<open>Tables\<close>

datatype boundary_status = GS_created | GS_checkpointing | GS_conflict | GS_completed | GS_needs_review

datatype checkpoint_status =
  CS_created | CS_checkpointing | CS_ready | CS_publishing | CS_verifying | CS_conflict | CS_completed | CS_needs_review

record boundary =
  bd_id :: string
  bd_runId :: string
  bd_purpose :: string
  bd_stepId :: "string option"
  bd_foundation :: string
  bd_metadata :: jsval
  bd_status :: boundary_status
  bd_createdAt :: string
  bd_updatedAt :: string

record checkpoint =
  ck_id :: string
  ck_runId :: string
  ck_groupId :: string
  ck_status :: checkpoint_status
  ck_manifest :: "jsval option"
  ck_digest :: "string option"
  ck_createdAt :: string
  ck_completedAt :: "string option"
  ck_error :: "string option"

record journal_entry =
  mj_id :: string
  mj_runId :: string
  mj_groupId :: string
  mj_checkpointId :: string
  mj_stepId :: "string option"
  mj_operation :: string
  mj_ready :: bool
  mj_payload :: jsval
  mj_manifest :: jsval
  mj_coveredPaths :: "string list"
  mj_conflicts :: jsval
  mj_createdAt :: string

record bound_artifact =
  ba_id :: string
  ba_checkpointId :: string
  ba_manifestDigest :: string
  ba_artifactDigest :: string
  ba_path :: string
  ba_mediaType :: string
  ba_size :: int

record coordinator =
  cd_groups :: "boundary list"
  cd_checkpoints :: "checkpoint list"
  cd_journal :: "journal_entry list"
  cd_bindings :: "bound_artifact list"
  cd_events :: "(string \<times> string \<times> string) list"
  cd_io :: "bool list"

record artifact =
  ar_digest :: string
  ar_path :: string
  ar_mediaType :: string
  ar_size :: int

record coordinator_env =
  ce_now :: string
  ce_root :: "string list"
  ce_patterns :: "string \<Rightarrow> string"
  ce_file :: "string list \<Rightarrow> string option"
  ce_hash :: "string \<Rightarrow> string"
  ce_durable :: durable_env

type_synonym 'a coord_m = "(coordinator, string, 'a) stateR"

definition tick :: "coordinator \<Rightarrow> coordinator" where
  "tick s = s\<lparr>cd_io := tl (cd_io s)\<rparr>"

text \<open>A write: all of it, or an error and nothing; with no outcome left it succeeds.\<close>

definition writeS :: "(coordinator \<Rightarrow> coordinator) \<Rightarrow> unit coord_m" where
  "writeS f s = (if cd_io s = [] \<or> hd (cd_io s) then (tick (f s), Inr ()) else (tick s, Inl ''write failed''))"

text \<open>An \<open>INSERT\<close> in a transaction: a key that is already there undoes the transaction.\<close>

definition insertS :: "(coordinator \<Rightarrow> bool) \<Rightarrow> (coordinator \<Rightarrow> coordinator) \<Rightarrow> unit coord_m" where
  "insertS taken f s = (if taken s then (s, Inl ''UNIQUE constraint failed'') else writeS f s)"

definition checkpoint_event :: "string \<Rightarrow> string \<Rightarrow> string \<Rightarrow> unit coord_m" where
  "checkpoint_event t b c = writeS (\<lambda>s. s\<lparr>cd_events := cd_events s @ [(t, b, c)]\<rparr>)"

definition set_group :: "boundary_status \<Rightarrow> string \<Rightarrow> string \<Rightarrow> coordinator \<Rightarrow> coordinator" where
  "set_group g now i s =
     s\<lparr>cd_groups := map (\<lambda>b. if bd_id b = i then b\<lparr>bd_status := g, bd_updatedAt := now\<rparr> else b) (cd_groups s)\<rparr>"

definition set_checkpoint :: "(checkpoint \<Rightarrow> checkpoint) \<Rightarrow> string \<Rightarrow> coordinator \<Rightarrow> coordinator" where
  "set_checkpoint f i s = s\<lparr>cd_checkpoints := map (\<lambda>c. if ck_id c = i then f c else c) (cd_checkpoints s)\<rparr>"

section \<open>Reading\<close>

definition ACTIVE_GROUPS :: "boundary_status list" where
  "ACTIVE_GROUPS = [GS_created, GS_checkpointing]"

fun normalizedInput :: "jsval \<Rightarrow> string \<Rightarrow> string" where
  "normalizedInput (JStr s) fallback = (if js_trim s \<noteq> [] then js_trim s else fallback)"
| "normalizedInput _ fallback = fallback"

definition readBoundary :: "string \<Rightarrow> coordinator \<Rightarrow> boundary option" where
  "readBoundary i s =
     map_option (\<lambda>b. b\<lparr>bd_stepId := (if bd_stepId b = Some [] then None else bd_stepId b)\<rparr>) (List.find (\<lambda>b. bd_id b = i) (cd_groups s))"

text \<open>\<open>ORDER BY created_at DESC LIMIT 1\<close>\<close>

fun latest :: "checkpoint list \<Rightarrow> checkpoint option" where
  "latest [] = None"
| "latest (c # cs) = (case latest cs of None \<Rightarrow> Some c | Some d \<Rightarrow> if lex_cmp (ck_createdAt c) (ck_createdAt d) < 0 then Some d else Some c)"

definition currentCheckpoint :: "string \<Rightarrow> coordinator \<Rightarrow> checkpoint option" where
  "currentCheckpoint g s = latest (filter (\<lambda>c. ck_groupId c = g) (cd_checkpoints s))"

text \<open>The row that the index on the checkpoint and the digest gives first.\<close>

fun least_binding :: "bound_artifact list \<Rightarrow> bound_artifact option" where
  "least_binding [] = None"
| "least_binding (b # bs) =
     (case least_binding bs of None \<Rightarrow> Some b
      | Some d \<Rightarrow> if lex_cmp (ba_manifestDigest d) (ba_manifestDigest b) < 0 then Some d else Some b)"

definition slashes :: "string \<Rightarrow> string" where
  "slashes p = map (\<lambda>c. if c = CHR 0x5C then CHR ''/'' else c) p"

definition readManifestBinding :: "string \<Rightarrow> coordinator \<Rightarrow> bound_artifact option" where
  "readManifestBinding c s =
     map_option (\<lambda>b. b\<lparr>ba_path := slashes (ba_path b)\<rparr>) (least_binding (filter (\<lambda>b. ba_checkpointId b = c) (cd_bindings s)))"

definition verifyManifestArtifact :: "coordinator_env \<Rightarrow> bound_artifact \<Rightarrow> bool" where
  "verifyManifestArtifact E b =
     (let p = resolve_segs (ce_root E) (ba_path b) in
      within_root p (ce_root E) \<and>
      (case ce_file E p of
         None \<Rightarrow> False
       | Some bytes \<Rightarrow> int (length bytes) = ba_size b \<and> ce_hash E bytes = ba_artifactDigest b \<and> ba_manifestDigest b = ba_artifactDigest b))"

definition hasCheckpointManifest :: "coordinator_env \<Rightarrow> string \<Rightarrow> coordinator \<Rightarrow> bool" where
  "hasCheckpointManifest E c s = (case readManifestBinding c s of None \<Rightarrow> False | Some b \<Rightarrow> verifyManifestArtifact E b)"

definition journal_of :: "(journal_entry \<Rightarrow> bool) \<Rightarrow> coordinator \<Rightarrow> journal_entry list" where
  "journal_of p s = sort_cmp (\<lambda>a b. lex_cmp (mj_createdAt a) (mj_createdAt b)) (filter p (cd_journal s))"

section \<open>Boundaries\<close>

definition setNeedsReview :: "coordinator_env \<Rightarrow> string \<Rightarrow> string \<Rightarrow> string \<Rightarrow> unit coord_m" where
  "setNeedsReview E g c reason =
     bindS (writeS (\<lambda>s. set_group GS_needs_review (ce_now E) g
       (set_checkpoint (\<lambda>k. k\<lparr>ck_status := CS_needs_review, ck_error := Some reason, ck_completedAt := Some (ce_now E)\<rparr>) c s))) (\<lambda>_.
     bindS (getS (\<lambda>s. List.find (\<lambda>k. ck_id k = c) (cd_checkpoints s))) (\<lambda>k.
     case k of
       Some r \<Rightarrow> if ck_runId r \<noteq> [] then checkpoint_event ''checkpoint-boundary-needs-review'' g c else returnS ()
     | None \<Rightarrow> returnS ()))"

definition setCompleted :: "string \<Rightarrow> string \<Rightarrow> string \<Rightarrow> unit coord_m" where
  "setCompleted g c at =
     writeS (\<lambda>s. set_group GS_completed at g
       (set_checkpoint (\<lambda>k. k\<lparr>ck_status := CS_completed,
          ck_completedAt := (case ck_completedAt k of None \<Rightarrow> Some at | Some t \<Rightarrow> Some t), ck_error := None\<rparr>) c s))"

definition startBoundary ::
    "coordinator_env \<Rightarrow> string \<Rightarrow> string \<Rightarrow> jsval \<Rightarrow> string option \<Rightarrow> jsval \<Rightarrow> jsval \<Rightarrow> jsval \<Rightarrow> (string \<times> string) coord_m" where
  "startBoundary E uuid uuid' runId stepId purpose foundation metadata =
     (let run = normalizedInput runId []; g = ''norn_group_'' @ uuid; c = ''norn_checkpoint_'' @ uuid' in
      bindS (guardS (run \<noteq> []) ''checkpoint boundary requires runId'') (\<lambda>_.
      bindS (writeS id) (\<lambda>_.
      bindS (insertS (\<lambda>s. g \<in> bd_id ` set (cd_groups s) \<or> c \<in> ck_id ` set (cd_checkpoints s)) (\<lambda>s. s\<lparr>
        cd_groups := cd_groups s @ [\<lparr>bd_id = g, bd_runId = run, bd_purpose = normalizedInput purpose ''mutation-group'', bd_stepId = stepId,
          bd_foundation = normalizedInput foundation ''agent'', bd_metadata = json_clone (if metadata = JUndef then JObj [] else metadata), bd_status = GS_created,
          bd_createdAt = ce_now E, bd_updatedAt = ce_now E\<rparr>],
        cd_checkpoints := cd_checkpoints s @ [\<lparr>ck_id = c, ck_runId = run, ck_groupId = g, ck_status = CS_checkpointing, ck_manifest = None,
          ck_digest = None, ck_createdAt = ce_now E, ck_completedAt = None, ck_error = None\<rparr>]\<rparr>)) (\<lambda>_.
      bindS (checkpoint_event ''checkpoint-boundary-started'' g c) (\<lambda>_. returnS (g, c))))))"

record mutation_preview =
  mp_operation :: jsval
  mp_status :: jsval
  mp_coveredPaths :: jsval
  mp_conflicts :: jsval
  mp_manifest :: jsval
  mp_payload :: jsval

definition or_else :: "string option \<Rightarrow> string option \<Rightarrow> string option" where
  "or_else a b = (case a of None \<Rightarrow> b | Some x \<Rightarrow> Some x)"

definition step_id_json :: "string option \<Rightarrow> jsval" where
  "step_id_json a = (case a of None \<Rightarrow> JUndef | Some x \<Rightarrow> JStr x)"

definition recordMutationPreview ::
    "coordinator_env \<Rightarrow> string \<Rightarrow> string \<Rightarrow> string \<Rightarrow> string option \<Rightarrow> mutation_preview \<Rightarrow> (string \<times> bool \<times> string) coord_m" where
  "recordMutationPreview E uuid g operation stepId pv =
     bindS (getS (readBoundary g)) (\<lambda>found.
     case found of
       None \<Rightarrow> throwS (''checkpoint boundary not found: '' @ g)
     | Some b \<Rightarrow>
         bindS (guardS (bd_status b \<in> set ACTIVE_GROUPS) (''checkpoint boundary '' @ g @ '' is not in a mutable state'')) (\<lambda>_.
         bindS (getS (currentCheckpoint g)) (\<lambda>current.
         case current of
           None \<Rightarrow> throwS (''checkpoint boundary missing checkpoint: '' @ g)
         | Some k \<Rightarrow>
             let ready = (mp_status pv = JStr ''ready''); i = ''mutation_journal_'' @ uuid;
                 op = normalizedInput (mp_operation pv) operation; step = or_else stepId (bd_stepId b);
                 paths = (case mp_coveredPaths pv of JArr vs \<Rightarrow> map the_str (filter is_str vs) | _ \<Rightarrow> []);
                 conflicts = (case mp_conflicts pv of JArr vs \<Rightarrow> JArr vs | _ \<Rightarrow> JArr []);
                 manifest = nullish (mp_manifest pv) (JObj [(''operation'', JStr op), (''stepId'', step_id_json step), (''status'', mp_status pv)]);
                 entry = \<lparr>mj_id = i, mj_runId = bd_runId b, mj_groupId = g, mj_checkpointId = ck_id k, mj_stepId = step, mj_operation = op,
                   mj_ready = ready, mj_payload = json_clone (projectMutationPayload (ce_durable E) (nullish (mp_payload pv) (JObj []))),
                   mj_manifest = json_clone (projectMutationPayload (ce_durable E) manifest), mj_coveredPaths = paths,
                   mj_conflicts = json_clone (projectMutationPayload (ce_durable E) conflicts), mj_createdAt = ce_now E\<rparr> in
             bindS (insertS (\<lambda>s. i \<in> mj_id ` set (cd_journal s)) (\<lambda>s.
               set_checkpoint (\<lambda>k. k\<lparr>ck_status := (if ready then CS_ready else CS_conflict)\<rparr>) (ck_id k)
                 (set_group (if ready then GS_checkpointing else GS_conflict) (ce_now E) g (s\<lparr>cd_journal := cd_journal s @ [entry]\<rparr>)))) (\<lambda>_.
             bindS (checkpoint_event ''checkpoint-boundary-preview'' g (ck_id k)) (\<lambda>_.
             returnS (i, ready, ck_id k))))))"

section \<open>Publication\<close>

definition option_json :: "('a \<Rightarrow> jsval) \<Rightarrow> 'a option \<Rightarrow> jsval" where
  "option_json f v = (case v of None \<Rightarrow> JNull | Some x \<Rightarrow> f x)"

definition entry_json :: "journal_entry \<Rightarrow> jsval" where
  "entry_json e = JObj [(''id'', JStr (mj_id e)), (''operation'', JStr (mj_operation e)),
     (''status'', JStr (if mj_ready e then ''ready'' else ''conflict'')), (''stepId'', option_json JStr (mj_stepId e)),
     (''coveredPaths'', JArr (map JStr (mj_coveredPaths e))), (''conflicts'', mj_conflicts e), (''manifest'', mj_manifest e), (''payload'', mj_payload e)]"

record replay =
  ry_boundary :: boundary
  ry_checkpoint :: checkpoint
  ry_journal :: "journal_entry list"
  ry_conflicts :: nat
  ry_artifacts :: "bound_artifact list"

definition conflict_count :: "journal_entry list \<Rightarrow> nat" where
  "conflict_count es = length (filter (\<lambda>e. \<not> mj_ready e) es)"

definition replayBoundary :: "string \<Rightarrow> coordinator \<Rightarrow> string + replay" where
  "replayBoundary g s =
     (case readBoundary g s of
        None \<Rightarrow> Inl (''checkpoint boundary not found: '' @ g)
      | Some b \<Rightarrow>
          (case currentCheckpoint g s of
             None \<Rightarrow> Inl (''checkpoint boundary missing checkpoint: '' @ g)
           | Some k \<Rightarrow>
               let es = journal_of (\<lambda>e. mj_groupId e = g) s in
               Inr \<lparr>ry_boundary = b, ry_checkpoint = k, ry_journal = es, ry_conflicts = conflict_count es,
                 ry_artifacts = map (\<lambda>a. a\<lparr>ba_id := ba_manifestDigest a, ba_checkpointId := ck_id k\<rparr>)
                   (sort_cmp (\<lambda>a b. lex_cmp (ba_manifestDigest a) (ba_manifestDigest b)) (filter (\<lambda>a. ba_checkpointId a = ck_id k) (cd_bindings s)))\<rparr>))"

definition boundary_manifest :: "string \<Rightarrow> string \<Rightarrow> boundary \<Rightarrow> checkpoint \<Rightarrow> journal_entry list \<Rightarrow> jsval" where
  "boundary_manifest now g b k es =
     JObj [(''boundaryId'', JStr g), (''checkpointId'', JStr (ck_id k)), (''runId'', JStr (bd_runId b)), (''foundation'', JStr (bd_foundation b)),
       (''status'', JStr ''ready''), (''purpose'', JStr (bd_purpose b)), (''stepId'', step_id_json (bd_stepId b)), (''startedAt'', JStr (ck_createdAt k)),
       (''completedAt'', JStr now), (''journal'', JArr (map entry_json es))]"

text \<open>\<open>ArtifactStore.putJson\<close>: a file named by its digest, which is not written again when it is there.\<close>

definition artifact_of :: "coordinator_env \<Rightarrow> string \<Rightarrow> string \<Rightarrow> artifact" where
  "artifact_of E mediaType bytes =
     (let h = ce_hash E bytes in
      \<lparr>ar_digest = h, ar_path = ''sha256/'' @ take 2 h @ ''/'' @ h, ar_mediaType = mediaType, ar_size = int (length bytes)\<rparr>)"

definition put_artifact :: "coordinator_env \<Rightarrow> string \<Rightarrow> string \<Rightarrow> artifact coord_m" where
  "put_artifact E mediaType bytes =
     (let a = artifact_of E mediaType bytes in
      bindS (writeS id) (\<lambda>_.
      bindS (if ce_file E (resolve_segs (ce_root E) (ar_path a)) = None then writeS id else returnS ()) (\<lambda>_. returnS a)))"

definition putJson :: "coordinator_env \<Rightarrow> jsval \<Rightarrow> artifact coord_m" where
  "putJson E v =
     put_artifact E ''application/json''
       (case json_stringify (redactDurableValue (ce_patterns E) None False v) of None \<Rightarrow> ''undefined'' | Some t \<Rightarrow> t)"

text \<open>The transaction that stores the manifest and its binding; a binding the checkpoint already has is refused.\<close>

definition storeManifest :: "coordinator_env \<Rightarrow> string \<Rightarrow> string \<Rightarrow> jsval \<Rightarrow> artifact \<Rightarrow> unit coord_m" where
  "storeManifest E uuid c manifest a =
     insertS (\<lambda>s. list_ex (\<lambda>b. ba_id b = ''manifest_'' @ uuid \<or> ba_checkpointId b = c \<and> ba_manifestDigest b = ar_digest a) (cd_bindings s))
       (\<lambda>s. set_checkpoint (\<lambda>k. k\<lparr>ck_status := CS_verifying, ck_completedAt := Some (ce_now E),
            ck_manifest := Some (json_clone manifest), ck_digest := Some (ar_digest a)\<rparr>) c
          (s\<lparr>cd_bindings := cd_bindings s @ [\<lparr>ba_id = ''manifest_'' @ uuid, ba_checkpointId = c, ba_manifestDigest = ar_digest a,
            ba_artifactDigest = ar_digest a, ba_path = ar_path a, ba_mediaType = ar_mediaType a, ba_size = ar_size a\<rparr>]\<rparr>))"

definition publish_checked :: "coordinator_env \<Rightarrow> string \<Rightarrow> string \<Rightarrow> replay \<Rightarrow> (string \<times> string \<times> bound_artifact) coord_m" where
  "publish_checked E uuid g r =
     (let k = ry_checkpoint r; c = ck_id k; manifest = boundary_manifest (ce_now E) g (ry_boundary r) k (ry_journal r) in
      bindS (guardS (ry_journal r \<noteq> []) (''checkpoint boundary '' @ g @ '' has no mutations'')) (\<lambda>_.
      bindS (guardS (ry_conflicts r = 0) ''checkpoint boundary has conflicts'') (\<lambda>_.
      bindS (putJson E manifest) (\<lambda>a.
      bindS (storeManifest E uuid c manifest a) (\<lambda>_.
      bindS (getS (readManifestBinding c)) (\<lambda>bound.
      case bound of
        None \<Rightarrow> throwS ''published checkpoint manifest artifact failed verification''
      | Some ba \<Rightarrow>
          bindS (guardS (verifyManifestArtifact E ba) ''published checkpoint manifest artifact failed verification'') (\<lambda>_.
          bindS (writeS (\<lambda>s. set_group GS_completed (ce_now E) g (set_checkpoint (\<lambda>k. k\<lparr>ck_status := CS_completed\<rparr>) c s))) (\<lambda>_.
          bindS (checkpoint_event ''checkpoint-boundary-published'' g c) (\<lambda>_.
          returnS (ar_digest a, ar_path a, ba))))))))))"

definition publishBoundary :: "coordinator_env \<Rightarrow> string \<Rightarrow> string \<Rightarrow> (string \<times> string \<times> bound_artifact) coord_m" where
  "publishBoundary E uuid g =
     bindS (getS (replayBoundary g)) (\<lambda>replayed.
     bindS (liftS replayed) (\<lambda>r.
     let c = ck_id (ry_checkpoint r) in
     bindS (writeS (set_checkpoint (\<lambda>k. k\<lparr>ck_status := CS_publishing\<rparr>) c)) (\<lambda>_.
     catchS (publish_checked E uuid g r) (\<lambda>e. bindS (setNeedsReview E g c (''publish failed: '' @ e)) (\<lambda>_. throwS e)))))"

definition failBoundary :: "coordinator_env \<Rightarrow> string \<Rightarrow> string \<Rightarrow> unit coord_m" where
  "failBoundary E g reason =
     bindS (getS (replayBoundary g)) (\<lambda>replayed.
     bindS (liftS replayed) (\<lambda>r. setNeedsReview E g (ck_id (ry_checkpoint r)) reason))"

section \<open>Recovery\<close>

definition UNSTABLE :: "checkpoint_status list" where
  "UNSTABLE = [CS_created, CS_checkpointing, CS_publishing, CS_verifying, CS_ready]"

text \<open>Whether an interrupted checkpoint is complete.\<close>

definition classifyRecoveredCheckpoint :: "coordinator_env \<Rightarrow> string \<Rightarrow> checkpoint_status \<Rightarrow> coordinator \<Rightarrow> bool" where
  "classifyRecoveredCheckpoint E c st s =
     (if st \<notin> set UNSTABLE then False
      else if st = CS_verifying then hasCheckpointManifest E c s
      else st = CS_created \<and> length (filter (\<lambda>e. mj_checkpointId e = c) (cd_journal s)) = 0)"

definition recover_one :: "coordinator_env \<Rightarrow> checkpoint \<Rightarrow> unit coord_m" where
  "recover_one E k =
     bindS (getS (classifyRecoveredCheckpoint E (ck_id k) (ck_status k))) (\<lambda>complete.
     if complete then setCompleted (ck_groupId k) (ck_id k) (ce_now E)
     else setNeedsReview E (ck_groupId k) (ck_id k) ''recovered after interruption'')"

definition recover_checkpoints :: "coordinator_env \<Rightarrow> string list coord_m" where
  "recover_checkpoints E =
     bindS (getS (\<lambda>s. filter (\<lambda>k. ck_status k \<in> set UNSTABLE) (cd_checkpoints s))) (\<lambda>unstable.
     bindS (eachS (recover_one E) unstable) (\<lambda>_. returnS (map ck_id unstable)))"

definition assertReady :: "unit coord_m" where
  "assertReady =
     bindS (getS (\<lambda>s. length (filter (\<lambda>b. bd_status b = GS_needs_review) (cd_groups s)))) (\<lambda>n.
     guardS (n = 0) ''CHECKPOINT_RECOVERY_REQUIRED'')"

section \<open>Inspection and the plan of a restore\<close>

record boundary_report =
  br_boundaryStatus :: boundary_status
  br_checkpoint :: "(string \<times> checkpoint_status) option"
  br_journalCount :: nat
  br_conflictCount :: nat

definition boundaryStatus :: "string \<Rightarrow> coordinator \<Rightarrow> boundary_report option" where
  "boundaryStatus g s =
     map_option (\<lambda>b. \<lparr>br_boundaryStatus = bd_status b, br_checkpoint = map_option (\<lambda>k. (ck_id k, ck_status k)) (currentCheckpoint g s),
       br_journalCount = length (filter (\<lambda>e. mj_groupId e = g) (cd_journal s)),
       br_conflictCount = conflict_count (filter (\<lambda>e. mj_groupId e = g) (cd_journal s))\<rparr>) (readBoundary g s)"

definition describeCheckpoint :: "string \<Rightarrow> coordinator \<Rightarrow> string + checkpoint \<times> journal_entry list" where
  "describeCheckpoint c s =
     (case List.find (\<lambda>k. ck_id k = c) (cd_checkpoints s) of
        None \<Rightarrow> Inl (''checkpoint not found: '' @ c)
      | Some k \<Rightarrow>
          (case readBoundary (ck_groupId k) s of
             None \<Rightarrow> Inl (''checkpoint boundary not found for checkpoint '' @ c)
           | Some b \<Rightarrow> Inr (k, journal_of (\<lambda>e. mj_checkpointId e = c) s)))"

datatype restore_conflict =
    MISSING_MANIFEST string
  | MANIFEST_ARTIFACT_INVALID string
  | TARGET_DIGEST_MISMATCH string
  | CHECKPOINT_NOT_READY string
  | TARGET_ENTRY_CONFLICT string
  | COVERED_PATH_CONFLICT string "string list"

record restore_plan =
  rt_boundaryId :: string
  rt_runId :: string
  rt_manifestDigest :: string
  rt_ready :: bool
  rt_conflicts :: "restore_conflict list"
  rt_journal :: "journal_entry list"

text \<open>Every covered path with the entries that cover it.\<close>

definition add_hit :: "string \<Rightarrow> string \<Rightarrow> (string \<times> string list) list \<Rightarrow> (string \<times> string list) list" where
  "add_hit i p hits = jm_set p ((case jm_get hits p of None \<Rightarrow> [] | Some ids \<Rightarrow> ids) @ [i]) hits"

definition path_hits :: "journal_entry list \<Rightarrow> (string \<times> string list) list" where
  "path_hits es = fold (\<lambda>(p, i). add_hit i p) (concat (map (\<lambda>e. map (\<lambda>p. (p, mj_id e)) (mj_coveredPaths e)) es)) []"

definition planCheckpointRestore :: "coordinator_env \<Rightarrow> string \<Rightarrow> string option \<Rightarrow> coordinator \<Rightarrow> string + restore_plan" where
  "planCheckpointRestore E c digest s =
     bindR (describeCheckpoint c s) (\<lambda>(k, es).
     let plan = (\<lambda>d ok conflicts. \<lparr>rt_boundaryId = ck_groupId k, rt_runId = ck_runId k, rt_manifestDigest = d, rt_ready = ok,
                   rt_conflicts = conflicts, rt_journal = es\<rparr>) in
     case readManifestBinding c s of
       None \<Rightarrow> Inr (plan (case digest of None \<Rightarrow> [] | Some d \<Rightarrow> d) False [MISSING_MANIFEST c])
     | Some b \<Rightarrow>
         if \<not> verifyManifestArtifact E b then Inr (plan (ba_manifestDigest b) False [MANIFEST_ARTIFACT_INVALID c])
         else if digest \<noteq> None \<and> digest \<noteq> Some (ba_manifestDigest b) then Inr (plan (ba_manifestDigest b) False [TARGET_DIGEST_MISMATCH c])
         else
           Inr (plan (ba_manifestDigest b) (ck_status k = CS_completed)
             ((if ck_status k = CS_completed then [] else [CHECKPOINT_NOT_READY c]) @
              map (\<lambda>e. TARGET_ENTRY_CONFLICT (mj_id e)) (filter (\<lambda>e. \<not> mj_ready e) es) @
              map (\<lambda>(p, ids). COVERED_PATH_CONFLICT p ids) (filter (\<lambda>(p, ids). 1 < length ids) (path_hits es)))))"

section \<open>Histories\<close>

text \<open>Any calls, each with its environment and the outcomes of its writes.\<close>

datatype coord_op =
    Co_start string string jsval "string option" jsval jsval jsval
  | Co_record string string string "string option" mutation_preview
  | Co_publish string string
  | Co_fail string string
  | Co_recover

definition run_coord :: "coordinator_env \<Rightarrow> coord_op \<Rightarrow> coordinator \<Rightarrow> coordinator" where
  "run_coord E op s =
     (case op of
        Co_start u u' r st p f m \<Rightarrow> fst (startBoundary E u u' r st p f m s)
      | Co_record u g o' st pv \<Rightarrow> fst (recordMutationPreview E u g o' st pv s)
      | Co_publish u g \<Rightarrow> fst (publishBoundary E u g s)
      | Co_fail g r \<Rightarrow> fst (failBoundary E g r s)
      | Co_recover \<Rightarrow> fst (recover_checkpoints E s))"

definition empty_coordinator :: coordinator where
  "empty_coordinator = \<lparr>cd_groups = [], cd_checkpoints = [], cd_journal = [], cd_bindings = [], cd_events = [], cd_io = []\<rparr>"

inductive coord_reached :: "coordinator \<Rightarrow> bool" where
  start: "coord_reached empty_coordinator"
| call: "coord_reached s \<Longrightarrow> coord_reached (run_coord E op (s\<lparr>cd_io := io\<rparr>))"

end
