(* ===== verification/Checkpoint_Laws.thy ===== *)
theory Checkpoint_Laws
  imports Checkpoints
begin

text \<open>
  A checkpoint is completed only with mutations, without conflicts and with a verified manifest; recovery
  leaves nothing unsettled; and the exact condition under which a restore has no conflicts.
\<close>

section \<open>The invariant\<close>

abbreviation entries :: "string \<Rightarrow> journal_entry list \<Rightarrow> journal_entry list" where
  "entries g js \<equiv> filter (\<lambda>e. mj_groupId e = g) js"

text \<open>
  A row of the bindings of a manifest whose file was read, as one of the given environments has it: it lies
  within the root of the store, and its bytes have the recorded size and digest.
\<close>

definition stored_as :: "coordinator_env \<Rightarrow> bound_artifact \<Rightarrow> bool" where
  "stored_as E a \<longleftrightarrow>
     (\<exists>bytes. within_root (resolve_segs (ce_root E) (slashes (ba_path a))) (ce_root E) \<and>
        ce_file E (resolve_segs (ce_root E) (slashes (ba_path a))) = Some bytes \<and>
        int (length bytes) = ba_size a \<and> ce_hash E bytes = ba_artifactDigest a \<and> ba_manifestDigest a = ba_artifactDigest a)"

text \<open>A boundary and its checkpoint, completed only when an environment of the history verified its manifest.\<close>

definition pair_ok :: "coordinator_env set \<Rightarrow> journal_entry list \<Rightarrow> bound_artifact list \<Rightarrow> boundary \<Rightarrow> checkpoint \<Rightarrow> bool" where
  "pair_ok V js bs b k \<longleftrightarrow>
     ck_runId k = bd_runId b \<and> ck_runId k \<noteq> [] \<and> ck_status k \<noteq> CS_created \<and>
     (ck_status k \<in> {CS_verifying, CS_completed} \<longrightarrow> entries (bd_id b) js \<noteq> [] \<and> list_all mj_ready (entries (bd_id b) js)) \<and>
     (ck_status k = CS_completed \<longrightarrow> bd_status b = GS_completed \<and>
        list_ex (\<lambda>a. ba_checkpointId a = ck_id k \<and> (\<exists>E\<in>V. stored_as E a)) bs) \<and>
     (ck_status k = CS_needs_review \<longrightarrow> bd_status b = GS_needs_review)"

definition refs_ok :: "coordinator \<Rightarrow> bool" where
  "refs_ok s \<longleftrightarrow> distinct (map bd_id (cd_groups s)) \<and> distinct (map ck_id (cd_checkpoints s)) \<and>
     map ck_groupId (cd_checkpoints s) = map bd_id (cd_groups s) \<and>
     (\<forall>e\<in>set (cd_journal s). \<exists>k\<in>set (cd_checkpoints s). ck_id k = mj_checkpointId e \<and> ck_groupId k = mj_groupId e)"

definition coord_ok :: "coordinator_env set \<Rightarrow> coordinator \<Rightarrow> bool" where
  "coord_ok V s \<longleftrightarrow> refs_ok s \<and>
     (\<forall>b\<in>set (cd_groups s). \<forall>k\<in>set (cd_checkpoints s). ck_groupId k = bd_id b \<longrightarrow> pair_ok V (cd_journal s) (cd_bindings s) b k)"

lemma same_io [simp]: "coord_ok V (s\<lparr>cd_io := io\<rparr>) = coord_ok V s" "coord_ok V (s\<lparr>cd_events := es\<rparr>) = coord_ok V s" "coord_ok V (tick s) = coord_ok V s"
  by (simp_all add: coord_ok_def refs_ok_def tick_def)

text \<open>One update of a boundary and its checkpoint, with what is added to the journal and the bindings.\<close>

lemma inj_mapD: "distinct (map f xs) \<Longrightarrow> x \<in> set xs \<Longrightarrow> y \<in> set xs \<Longrightarrow> f x = f y \<Longrightarrow> x = y"
  by (simp add: distinct_map inj_on_def)

lemma update_ok:
  assumes s: "coord_ok V s" and k: "k \<in> set (cd_checkpoints s)" and b: "b \<in> set (cd_groups s)" "ck_groupId k = bd_id b"
    and keep: "\<And>x. ck_id (fk x) = ck_id x" "\<And>x. ck_groupId (fk x) = ck_groupId x" "\<And>x. bd_id (fb x) = bd_id x"
    and js: "\<And>g. g \<noteq> bd_id b \<Longrightarrow> entries g js = entries g (cd_journal s)"
      "\<forall>e\<in>set js. e \<in> set (cd_journal s) \<or> mj_checkpointId e = ck_id k \<and> mj_groupId e = bd_id b"
    and bs: "set (cd_bindings s) \<subseteq> set bs"
    and ok: "pair_ok V js bs (fb b) (fk k)"
    and t: "cd_groups t = map (\<lambda>x. if bd_id x = bd_id b then fb x else x) (cd_groups s)"
      "cd_checkpoints t = map (\<lambda>x. if ck_id x = ck_id k then fk x else x) (cd_checkpoints s)" "cd_journal t = js" "cd_bindings t = bs"
  shows "coord_ok V t"
proof -
  have ids: "map bd_id (cd_groups t) = map bd_id (cd_groups s)" "map ck_id (cd_checkpoints t) = map ck_id (cd_checkpoints s)"
      "map ck_groupId (cd_checkpoints t) = map ck_groupId (cd_checkpoints s)"
    by (simp_all add: t keep)
  have r: "refs_ok s" using s by (simp add: coord_ok_def)
  have cid: "ck_id ` set (cd_checkpoints t) = ck_id ` set (cd_checkpoints s)" using ids(2) by (metis list.set_map)
  have ref: "\<exists>k'\<in>set (cd_checkpoints t). ck_id k' = i \<and> ck_groupId k' = g"
    if "\<exists>k'\<in>set (cd_checkpoints s). ck_id k' = i \<and> ck_groupId k' = g" for i g
  proof -
    from that obtain x where "x \<in> set (cd_checkpoints s)" "ck_id x = i" "ck_groupId x = g" by blast
    then have "(if ck_id x = ck_id k then fk x else x) \<in> set (cd_checkpoints t)" "ck_id (if ck_id x = ck_id k then fk x else x) = i"
        "ck_groupId (if ck_id x = ck_id k then fk x else x) = g"
      by (simp_all add: t keep)
    then show ?thesis by blast
  qed
  have "refs_ok t"
    unfolding refs_ok_def ids t(3)
  proof (intro conjI ballI)
    fix e assume e: "e \<in> set js"
    have "\<exists>x\<in>set (cd_checkpoints s). ck_id x = mj_checkpointId e \<and> ck_groupId x = mj_groupId e"
    proof (cases "e \<in> set (cd_journal s)")
      case True
      with r show ?thesis unfolding refs_ok_def by blast
    next
      case False
      with js(2) e k b(2) show ?thesis by (intro bexI [of _ k]) auto
    qed
    then show "\<exists>k\<in>set (cd_checkpoints t). ck_id k = mj_checkpointId e \<and> ck_groupId k = mj_groupId e" by (rule ref)
  qed (use r in \<open>simp_all add: refs_ok_def\<close>)
  moreover have "pair_ok V js bs b' k'" if bk: "b' \<in> set (cd_groups t)" "k' \<in> set (cd_checkpoints t)" "ck_groupId k' = bd_id b'" for b' k'
  proof -
    obtain b0 k0 where 0: "b0 \<in> set (cd_groups s)" "k0 \<in> set (cd_checkpoints s)" "b' = (if bd_id b0 = bd_id b then fb b0 else b0)"
        "k' = (if ck_id k0 = ck_id k then fk k0 else k0)"
      using bk(1,2) by (auto simp: t)
    then have g: "ck_groupId k0 = bd_id b0" using bk(3) keep by (simp split: if_splits)
    have d: "distinct (map bd_id (cd_groups s))" "distinct (map ck_id (cd_checkpoints s))" "distinct (map ck_groupId (cd_checkpoints s))"
      using r by (simp_all add: refs_ok_def)
    show ?thesis
    proof (cases "bd_id b0 = bd_id b")
      case True
      then have "b0 = b" "k0 = k" using inj_mapD [OF d(1) 0(1) b(1)] inj_mapD [OF d(3) 0(2) k] g b(2) by auto
      with 0 ok show ?thesis by simp
    next
      case False
      then have "ck_id k0 \<noteq> ck_id k" using inj_mapD [OF d(2) 0(2) k] g b(2) by auto
      moreover have "pair_ok V (cd_journal s) (cd_bindings s) b0 k0" using s 0(1,2) g by (simp add: coord_ok_def)
      ultimately show ?thesis using False 0(3,4) js(1) [of "bd_id b0"] bs by (auto simp: pair_ok_def list_ex_iff)
    qed
  qed
  ultimately show ?thesis by (simp add: coord_ok_def t(3,4))
qed


text \<open>A write either fails and changes nothing but the outcomes, or does its update.\<close>

lemma validS_write:
  assumes "\<And>s. P s \<Longrightarrow> R (tick (f s))" "\<And>s. P s \<Longrightarrow> Q (Inl ''write failed'') (tick s)" "validS R m Q"
  shows "validS P (bindS (writeS f) (\<lambda>_. m)) Q"
  using assms by (auto simp: validS_def bindS_def writeS_def)

lemma validS_insert:
  assumes "\<And>s. P s \<Longrightarrow> \<not> taken s \<Longrightarrow> R (tick (f s))" "\<And>s. P s \<Longrightarrow> Q (Inl ''write failed'') (tick s)"
    "\<And>s. P s \<Longrightarrow> Q (Inl ''UNIQUE constraint failed'') s" "validS R m Q"
  shows "validS P (bindS (insertS taken f) (\<lambda>_. m)) Q"
  using assms by (auto simp: validS_def bindS_def insertS_def writeS_def)

definition has :: "string \<Rightarrow> string \<Rightarrow> coordinator \<Rightarrow> bool" where
  "has g c s \<longleftrightarrow> (\<exists>k\<in>set (cd_checkpoints s). ck_id k = c \<and> ck_groupId k = g)"

lemma has_tick [simp]: "has g c (tick s) = has g c s" "cd_journal (tick s) = cd_journal s" "cd_bindings (tick s) = cd_bindings s"
  "cd_checkpoints (tick s) = cd_checkpoints s" "cd_groups (tick s) = cd_groups s"
  by (simp_all add: has_def tick_def)

lemma has_set [simp]: "(\<And>x. ck_id (f x) = ck_id x \<and> ck_groupId (f x) = ck_groupId x) \<Longrightarrow> has g c (set_checkpoint f i s) = has g c s"
  "has g c (set_group st now i s) = has g c s"
  by (auto simp: has_def set_checkpoint_def set_group_def)

lemma fields_set [simp]: "cd_journal (set_checkpoint f i s) = cd_journal s" "cd_bindings (set_checkpoint f i s) = cd_bindings s"
  "cd_journal (set_group st now i s) = cd_journal s" "cd_bindings (set_group st now i s) = cd_bindings s"
  "cd_groups (set_checkpoint f i s) = cd_groups s" "cd_checkpoints (set_group st now i s) = cd_checkpoints s"
  by (simp_all add: set_checkpoint_def set_group_def)

lemma has_pair:
  assumes "coord_ok V s" "has g c s"
  obtains b k where "b \<in> set (cd_groups s)" "bd_id b = g" "k \<in> set (cd_checkpoints s)" "ck_id k = c" "ck_groupId k = g"
    "pair_ok V (cd_journal s) (cd_bindings s) b k"
proof -
  obtain k where k: "k \<in> set (cd_checkpoints s)" "ck_id k = c" "ck_groupId k = g" using assms(2) by (auto simp: has_def)
  have "map ck_groupId (cd_checkpoints s) = map bd_id (cd_groups s)" using assms(1) by (simp add: coord_ok_def refs_ok_def)
  then have "g \<in> set (map bd_id (cd_groups s))" using k by (metis in_set_conv_nth length_map nth_map nth_mem)
  then obtain b where b: "b \<in> set (cd_groups s)" "bd_id b = g" by auto
  show thesis by (rule that [OF b k]) (use assms(1) b k in \<open>simp add: coord_ok_def\<close>)
qed

lemma set_both_ok:
  assumes s: "coord_ok V s" "has g c s" and keep: "\<And>x. ck_id (fk x) = ck_id x \<and> ck_groupId (fk x) = ck_groupId x"
    and ok: "\<And>b k. pair_ok V (cd_journal s) (cd_bindings s) b k \<Longrightarrow> k \<in> set (cd_checkpoints s) \<Longrightarrow> bd_id b = g \<Longrightarrow> ck_id k = c \<Longrightarrow>
      pair_ok V (cd_journal s) (cd_bindings s) (b\<lparr>bd_status := st, bd_updatedAt := now\<rparr>) (fk k)"
  shows "coord_ok V (set_group st now g (set_checkpoint fk c s))"
proof -
  obtain b k where p: "b \<in> set (cd_groups s)" "bd_id b = g" "k \<in> set (cd_checkpoints s)" "ck_id k = c" "ck_groupId k = g"
      "pair_ok V (cd_journal s) (cd_bindings s) b k"
    by (rule has_pair [OF s])
  show ?thesis
    by (rule update_ok [OF s(1) p(3) p(1), where fb = "\<lambda>b. b\<lparr>bd_status := st, bd_updatedAt := now\<rparr>" and fk = fk and js = "cd_journal s" and bs = "cd_bindings s"])
      (use p keep ok [OF p(6,3,2,4)] in \<open>auto simp: set_group_def set_checkpoint_def\<close>)
qed

lemma set_one_ok:
  assumes s: "coord_ok V s" "has g c s" and keep: "\<And>x. ck_id (fk x) = ck_id x \<and> ck_groupId (fk x) = ck_groupId x"
    and ok: "\<And>b k. pair_ok V (cd_journal s) (cd_bindings s) b k \<Longrightarrow> bd_id b = g \<Longrightarrow> ck_id k = c \<Longrightarrow> pair_ok V (cd_journal s) bs b (fk k)"
    and bs: "set (cd_bindings s) \<subseteq> set bs"
  shows "coord_ok V (set_checkpoint fk c (s\<lparr>cd_bindings := bs\<rparr>))"
proof -
  obtain b k where p: "b \<in> set (cd_groups s)" "bd_id b = g" "k \<in> set (cd_checkpoints s)" "ck_id k = c" "ck_groupId k = g"
      "pair_ok V (cd_journal s) (cd_bindings s) b k"
    by (rule has_pair [OF s])
  show ?thesis
    by (rule update_ok [OF s(1) p(3) p(1), where fb = "\<lambda>b. b" and fk = fk and js = "cd_journal s" and bs = bs])
      (use p keep bs ok [OF p(6,2,4)] in \<open>auto simp: set_checkpoint_def\<close>)
qed

section \<open>Operations\<close>

lemma review_ok: "validS (\<lambda>s. coord_ok V s \<and> has g c s) (setNeedsReview E g c reason) (\<lambda>_. coord_ok V)"
  unfolding setNeedsReview_def
proof (rule validS_write [where R = "coord_ok V"])
  fix s assume "coord_ok V s \<and> has g c s"
  then show "coord_ok V (tick (set_group GS_needs_review (ce_now E) g
      (set_checkpoint (\<lambda>k. k\<lparr>ck_status := CS_needs_review, ck_error := Some reason, ck_completedAt := Some (ce_now E)\<rparr>) c s)))"
    by (auto intro!: set_both_ok simp: pair_ok_def)
next
  show "validS (coord_ok V) (bindS (getS (\<lambda>s. List.find (\<lambda>k. ck_id k = c) (cd_checkpoints s)))
      (\<lambda>k. case k of None \<Rightarrow> returnS () | Some r \<Rightarrow> if ck_runId r \<noteq> [] then checkpoint_event ''checkpoint-boundary-needs-review'' g c else returnS ()))
      (\<lambda>_. coord_ok V)"
    by (intro validS_get) (auto simp: validS_def checkpoint_event_def writeS_def returnS_def split: option.splits)
qed simp

lemma boundary_event_ok: "validS (coord_ok V) (bindS (checkpoint_event t g c) (\<lambda>_. returnS a)) (\<lambda>_. coord_ok V)"
  by (auto simp: validS_def bindS_def checkpoint_event_def writeS_def returnS_def)

lemma start_ok: "keepsS (coord_ok V) (startBoundary E u u' r st p f m)"
  unfolding startBoundary_def Let_def
proof (intro validS_guard)
  let ?run = "normalizedInput r []" and ?g = "''norn_group_'' @ u" and ?c = "''norn_checkpoint_'' @ u'"
  assume run: "?run \<noteq> []"
  let ?b = "\<lparr>bd_id = ?g, bd_runId = ?run, bd_purpose = normalizedInput p ''mutation-group'', bd_stepId = st,
          bd_foundation = normalizedInput f ''agent'', bd_metadata = json_clone (if m = JUndef then JObj [] else m), bd_status = GS_created,
          bd_createdAt = ce_now E, bd_updatedAt = ce_now E\<rparr>"
  let ?k = "\<lparr>ck_id = ?c, ck_runId = ?run, ck_groupId = ?g, ck_status = CS_checkpointing, ck_manifest = None,
          ck_digest = None, ck_createdAt = ce_now E, ck_completedAt = None, ck_error = None\<rparr>"
  have new: "coord_ok V (tick (s\<lparr>cd_groups := cd_groups s @ [?b], cd_checkpoints := cd_checkpoints s @ [?k]\<rparr>))"
    if s: "coord_ok V s" "?g \<notin> bd_id ` set (cd_groups s)" "?c \<notin> ck_id ` set (cd_checkpoints s)" for s
  proof -
    have r: "refs_ok s" using s(1) by (simp add: coord_ok_def)
    then have "?g \<notin> ck_groupId ` set (cd_checkpoints s)" using s(2) unfolding refs_ok_def by (metis list.set_map)
    moreover have "pair_ok V (cd_journal s) (cd_bindings s) ?b ?k" using run by (simp add: pair_ok_def)
    ultimately show ?thesis
      using s r unfolding same_io coord_ok_def refs_ok_def by (fastforce simp: image_iff)
  qed
  show "validS (coord_ok V) (bindS (writeS id) (\<lambda>_. bindS (insertS (\<lambda>s. ?g \<in> bd_id ` set (cd_groups s) \<or> ?c \<in> ck_id ` set (cd_checkpoints s))
      (\<lambda>s. s\<lparr>cd_groups := cd_groups s @ [?b], cd_checkpoints := cd_checkpoints s @ [?k]\<rparr>)) (\<lambda>_.
      bindS (checkpoint_event ''checkpoint-boundary-started'' ?g ?c) (\<lambda>_. returnS (?g, ?c))))) (\<lambda>_. coord_ok V)"
    by (rule validS_write [where R = "coord_ok V"], simp, simp, rule validS_insert [where R = "coord_ok V"])
      (use new in \<open>simp_all add: boundary_event_ok\<close>)
qed

lemma latest_in: "latest cs = Some k \<Longrightarrow> k \<in> set cs"
  by (induction cs arbitrary: k) (auto split: option.splits if_splits)

lemma current_in: "currentCheckpoint g s = Some k \<Longrightarrow> k \<in> set (cd_checkpoints s) \<and> ck_groupId k = g"
  by (auto simp: currentCheckpoint_def dest!: latest_in)

lemma boundary_in: "readBoundary g s = Some b \<Longrightarrow> \<exists>b'\<in>set (cd_groups s). bd_id b' = g \<and> bd_status b' = bd_status b \<and> bd_runId b' = bd_runId b"
  by (auto simp: readBoundary_def find_Some_iff)

lemma record_ok: "keepsS (coord_ok V) (recordMutationPreview E u g operation st pv)"
  unfolding recordMutationPreview_def Let_def
proof (rule validS_get, goal_cases)
  case (1 found)
  show ?case
  proof (cases found)
    case None
    then show ?thesis by (auto intro: validS_throw)
  next
    case (Some b)
    show ?thesis
      unfolding Some option.case
    proof (rule validS_guard, rule validS_get, goal_cases)
      case (1 current)
      let ?active = "\<lambda>s. (coord_ok V s \<and> readBoundary g s = Some b)"
      show ?case
      proof (cases current)
        case None
        then show ?thesis by (auto intro: validS_throw)
      next
        case k: (Some k)
        have new: "coord_ok V (tick (set_checkpoint (\<lambda>x. x\<lparr>ck_status := (if r then CS_ready else CS_conflict)\<rparr>) (ck_id k)
            (set_group (if r then GS_checkpointing else GS_conflict) now g (s\<lparr>cd_journal := cd_journal s @ [e]\<rparr>))))"
          if s: "coord_ok V s" "currentCheckpoint g s = Some k" and e: "mj_checkpointId e = ck_id k" "mj_groupId e = g" for s r e now
        proof -
          have ks: "k \<in> set (cd_checkpoints s)" "ck_groupId k = g" using current_in [OF s(2)] by auto
          have "has g (ck_id k) s" using ks by (auto simp: has_def)
          then obtain b' k' where p: "b' \<in> set (cd_groups s)" "bd_id b' = g" "k' \<in> set (cd_checkpoints s)" "ck_id k' = ck_id k"
              "pair_ok V (cd_journal s) (cd_bindings s) b' k'"
            by (rule has_pair [OF s(1)])
          have "k' = k" using inj_mapD [of ck_id "cd_checkpoints s" k' k] s(1) p(3,4) ks(1) by (simp add: coord_ok_def refs_ok_def)
          with p(5) have ok: "pair_ok V (cd_journal s @ [e]) (cd_bindings s) (b'\<lparr>bd_status := (if r then GS_checkpointing else GS_conflict), bd_updatedAt := now\<rparr>)
              (k\<lparr>ck_status := (if r then CS_ready else CS_conflict)\<rparr>)"
            by (cases r) (auto simp: pair_ok_def)
          show ?thesis
            unfolding same_io
            by (rule update_ok [OF s(1) ks(1) p(1), where fb = "\<lambda>b. b\<lparr>bd_status := (if r then GS_checkpointing else GS_conflict), bd_updatedAt := now\<rparr>"
                and fk = "\<lambda>k. k\<lparr>ck_status := (if r then CS_ready else CS_conflict)\<rparr>" and js = "cd_journal s @ [e]" and bs = "cd_bindings s"])
              (use ok e p(2) ks(2) in \<open>simp_all add: set_group_def set_checkpoint_def\<close>)
        qed
        show ?thesis
          unfolding k option.case
          by (rule validS_insert [where R = "coord_ok V"]) (use new in \<open>simp_all add: boundary_event_ok\<close>)
      qed
    qed auto
  qed
qed

text \<open>What is known while a boundary is published: its journal is the one that was read.\<close>

definition publishing :: "coordinator_env set \<Rightarrow> string \<Rightarrow> string \<Rightarrow> journal_entry list \<Rightarrow> coordinator \<Rightarrow> bool" where
  "publishing V g c es s \<longleftrightarrow> coord_ok V s \<and> has g c s \<and> set (entries g (cd_journal s)) = set es"

lemma publishing_tick [simp]: "publishing V g c es (tick s) = publishing V g c es s" "publishing V g c es (s\<lparr>cd_events := ev\<rparr>) = publishing V g c es s"
  by (simp_all add: publishing_def has_def)

lemma validS_catch:
  assumes "validS P m (\<lambda>r s. case r of Inl e \<Rightarrow> R s | Inr a \<Rightarrow> Q (Inr a) s)" "\<And>e. validS R (h e) Q"
  shows "validS P (catchS m h) Q"
  unfolding validS_def
proof (intro allI impI)
  fix s assume "P s"
  with assms show "Q (snd (catchS m h s)) (fst (catchS m h s))"
    by (cases "m s"; cases "snd (m s)") (force simp: validS_def catchS_def)+
qed

lemma journal_set: "set (journal_of p s) = set (filter p (cd_journal s))"
  by (simp add: journal_of_def)

lemma least_in: "least_binding bs = Some b \<Longrightarrow> b \<in> set bs"
  by (induction bs arbitrary: b) (auto split: option.splits if_splits)

lemma verified_binding:
  assumes "readManifestBinding c s = Some ba" "verifyManifestArtifact E ba" "E \<in> V"
  shows "list_ex (\<lambda>a. ba_checkpointId a = c \<and> (\<exists>E\<in>V. stored_as E a)) (cd_bindings s)"
proof -
  obtain a where a: "least_binding (filter (\<lambda>b. ba_checkpointId b = c) (cd_bindings s)) = Some a" "ba = a\<lparr>ba_path := slashes (ba_path a)\<rparr>"
    using assms(1) by (auto simp: readManifestBinding_def)
  have "stored_as E a"
    using assms(2) by (auto simp: a(2) stored_as_def verifyManifestArtifact_def Let_def split: option.splits)
  with least_in [OF a(1)] assms(3) show ?thesis by (auto simp: list_ex_iff)
qed

lemma publishing_entries:
  assumes "publishing V g c es s" "es \<noteq> []" "list_all mj_ready es"
  shows "entries g (cd_journal s) \<noteq> [] \<and> list_all mj_ready (entries g (cd_journal s))"
proof -
  have "set (entries g (cd_journal s)) = set es" using assms(1) by (simp add: publishing_def)
  with assms(2,3) show ?thesis by (metis list_all_iff set_empty)
qed

lemma completed_ok:
  assumes "publishing V g c es s" "es \<noteq> []" "list_all mj_ready es" "readManifestBinding c s = Some ba" "verifyManifestArtifact E ba" "E \<in> V"
  shows "publishing V g c es (set_group GS_completed now g (set_checkpoint (\<lambda>k. k\<lparr>ck_status := CS_completed\<rparr>) c s))"
proof -
  have "pair_ok V (cd_journal s) (cd_bindings s) (b\<lparr>bd_status := GS_completed, bd_updatedAt := now\<rparr>) (k\<lparr>ck_status := CS_completed\<rparr>)"
    if "pair_ok V (cd_journal s) (cd_bindings s) b k" "bd_id b = g" "ck_id k = c" for b k
    using that publishing_entries [OF assms(1-3)] verified_binding [OF assms(4,5,6)] by (auto simp: pair_ok_def)
  with assms(1) show ?thesis by (auto simp: publishing_def intro!: set_both_ok)
qed

lemma store_ok:
  assumes "publishing V g c es s" "es \<noteq> []" "list_all mj_ready es" "set (cd_bindings s) \<subseteq> set bs"
  shows "publishing V g c es (set_checkpoint (\<lambda>k. k\<lparr>ck_status := CS_verifying, ck_completedAt := at, ck_manifest := m, ck_digest := d\<rparr>) c (s\<lparr>cd_bindings := bs\<rparr>))"
proof -
  have "coord_ok V (set_checkpoint (\<lambda>k. k\<lparr>ck_status := CS_verifying, ck_completedAt := at, ck_manifest := m, ck_digest := d\<rparr>) c (s\<lparr>cd_bindings := bs\<rparr>))"
    using assms(1,4) publishing_entries [OF assms(1-3)]
    by (intro set_one_ok [where g = g]) (auto simp: publishing_def pair_ok_def list_ex_iff)
  moreover have "has g c (s\<lparr>cd_bindings := bs\<rparr>)" using assms(1) by (simp add: publishing_def has_def)
  ultimately show ?thesis using assms(1) by (simp add: publishing_def)
qed

lemma event_publishing: "validS (publishing V g c es) (bindS (checkpoint_event t b k) (\<lambda>_. returnS a)) (\<lambda>_. publishing V g c es)"
  by (auto simp: validS_def bindS_def checkpoint_event_def writeS_def returnS_def)

lemma put_ok:
  "validS (publishing V g c es) (putJson E v) (\<lambda>r s. case r of Inl e \<Rightarrow> publishing V g c es s | Inr a \<Rightarrow> publishing V g c es s)"
  by (auto simp: validS_def putJson_def put_artifact_def Let_def bindS_def writeS_def returnS_def)

lemma checked_ok:
  assumes "ck_id (ry_checkpoint r) = c" "set (ry_journal r) = set es" "ry_conflicts r = conflict_count (ry_journal r)" "E \<in> V"
  shows "validS (publishing V g c es) (publish_checked E u g r) (\<lambda>_. publishing V g c es)"
  unfolding publish_checked_def Let_def assms(1)
proof (intro validS_guard, rule validS_bind [OF put_ok])
  fix a assume "ry_journal r \<noteq> []" "ry_conflicts r = 0"
  then have es: "es \<noteq> []" "list_all mj_ready es"
    using assms(2,3) by (auto simp: conflict_count_def list_all_iff filter_empty_conv)
  show "validS (publishing V g c es)
     (bindS (storeManifest E u c (boundary_manifest (ce_now E) g (ry_boundary r) (ry_checkpoint r) (ry_journal r)) a)
       (\<lambda>_. bindS (getS (readManifestBinding c)) (\<lambda>bound. case bound of
          None \<Rightarrow> throwS ''published checkpoint manifest artifact failed verification''
        | Some ba \<Rightarrow> bindS (guardS (verifyManifestArtifact E ba) ''published checkpoint manifest artifact failed verification'') (\<lambda>_.
            bindS (writeS (\<lambda>s. set_group GS_completed (ce_now E) g (set_checkpoint (\<lambda>k. k\<lparr>ck_status := CS_completed\<rparr>) c s))) (\<lambda>_.
            bindS (checkpoint_event ''checkpoint-boundary-published'' g c) (\<lambda>_. returnS (ar_digest a, ar_path a, ba)))))))
     (\<lambda>_. publishing V g c es)"
    unfolding storeManifest_def
  proof (rule validS_insert [where R = "publishing V g c es"], goal_cases)
    case (1 s)
    then show ?case unfolding publishing_tick by (intro store_ok es) auto
  next
    case 4
    show ?case
    proof (rule validS_get, goal_cases)
      case (1 bound)
      show ?case
      proof (cases bound)
        case None
        then show ?thesis by (auto intro: validS_throw)
      next
        case (Some ba)
        show ?thesis
          unfolding Some option.case
          by (rule validS_guard, rule validS_write [where R = "publishing V g c es"])
            (use es assms(4) in \<open>simp_all add: completed_ok event_publishing\<close>)
      qed
    qed
  qed simp_all
qed simp_all

lemma publish_ok:
  assumes "E \<in> V"
  shows "keepsS (coord_ok V) (publishBoundary E u g)"
  unfolding publishBoundary_def Let_def
proof (rule validS_get, rule validS_lift, goal_cases)
  case (1 replayed r)
  let ?c = "ck_id (ry_checkpoint r)" and ?es = "ry_journal r"
  have c: "ry_conflicts r = conflict_count ?es"
    if "replayBoundary g s = Inr r" for s
    using that by (auto simp: replayBoundary_def Let_def split: option.splits)
  show ?case
  proof (rule validS_write [where R = "\<lambda>s. publishing V g ?c ?es s \<and> ry_conflicts r = conflict_count ?es"], goal_cases)
    case (1 s)
    then have r: "coord_ok V s" "replayBoundary g s = Inr r" using \<open>replayed = Inr r\<close> by auto
    then obtain k where k: "currentCheckpoint g s = Some k" "ry_checkpoint r = k" "?es = journal_of (\<lambda>e. mj_groupId e = g) s"
      by (auto simp: replayBoundary_def Let_def split: option.splits)
    have h: "has g ?c s" using current_in [OF k(1)] k(2) by (auto simp: has_def)
    have "coord_ok V (set_checkpoint (\<lambda>k. k\<lparr>ck_status := CS_publishing\<rparr>) ?c (s\<lparr>cd_bindings := cd_bindings s\<rparr>))"
      using r(1) h by (intro set_one_ok [where g = g]) (auto simp: pair_ok_def)
    then show ?case using h k(3) c [OF r(2)] by (simp add: publishing_def journal_set)
  next
    case 3
    show ?case
    proof (rule validS_catch [where R = "\<lambda>s. coord_ok V s \<and> has g ?c s"], goal_cases)
      case 1
      show ?case
      proof (cases "ry_conflicts r = conflict_count ?es")
        case True
        from checked_ok [OF refl refl this assms, where g = g and u = u] show ?thesis
          by (auto simp: validS_def publishing_def split: sum.splits)
      qed (simp add: validS_def)
    next
      case (2 e)
      show ?case
        by (rule validS_bind [where R = "\<lambda>_. coord_ok V"])
          (use review_ok [of V g ?c E] in \<open>auto simp: validS_def throwS_def split: sum.splits\<close>)
    qed
  qed auto
qed simp_all

lemma fail_ok: "keepsS (coord_ok V) (failBoundary E g reason)"
  unfolding failBoundary_def
proof (rule validS_get, rule validS_lift, goal_cases)
  case (1 replayed r)
  show ?case
    by (rule validS_pre [OF review_ok])
      (use 1 in \<open>auto simp: replayBoundary_def Let_def has_def split: option.splits dest!: current_in\<close>)
qed simp_all

section \<open>Recovery\<close>

text \<open>What becomes of a checkpoint that was interrupted.\<close>

definition settled_status :: "coordinator_env \<Rightarrow> coordinator \<Rightarrow> checkpoint \<Rightarrow> checkpoint_status" where
  "settled_status E s k =
     (if ck_status k \<notin> set UNSTABLE then ck_status k
      else if ck_status k = CS_verifying \<and> hasCheckpointManifest E (ck_id k) s then CS_completed
      else CS_needs_review)"

text \<open>While recovery runs, the checkpoints of the list are as they were read.\<close>

definition recovering :: "coordinator_env set \<Rightarrow> coordinator \<Rightarrow> checkpoint list \<Rightarrow> coordinator \<Rightarrow> bool" where
  "recovering V s0 ks s \<longleftrightarrow> coord_ok V s \<and> set ks \<subseteq> set (cd_checkpoints s) \<and> distinct (map ck_id ks) \<and>
     cd_journal s = cd_journal s0 \<and> cd_bindings s = cd_bindings s0"

lemma recovering_tick [simp]: "recovering V s0 ks (tick s) = recovering V s0 ks s" "recovering V s0 ks (s\<lparr>cd_events := ev\<rparr>) = recovering V s0 ks s"
  by (simp_all add: recovering_def)

lemma others_kept:
  assumes "recovering V s0 (k # ks) s"
  shows "set ks \<subseteq> set (cd_checkpoints (set_checkpoint f (ck_id k) s))"
proof
  fix x assume x: "x \<in> set ks"
  with assms have "x \<in> set (cd_checkpoints s)" "ck_id x \<in> ck_id ` set ks" "ck_id k \<notin> ck_id ` set ks" by (auto simp: recovering_def)
  then have "x \<in> set (cd_checkpoints s)" "ck_id x \<noteq> ck_id k" by metis+
  then show "x \<in> set (cd_checkpoints (set_checkpoint f (ck_id k) s))" by (auto simp: set_checkpoint_def image_iff intro!: bexI [of _ x])
qed

lemma classify_completed:
  assumes "coord_ok V s" "k \<in> set (cd_checkpoints s)"
  shows "classifyRecoveredCheckpoint E (ck_id k) (ck_status k) s \<longleftrightarrow> ck_status k = CS_verifying \<and> hasCheckpointManifest E (ck_id k) s"
proof -
  have "has (ck_groupId k) (ck_id k) s" using assms(2) by (auto simp: has_def)
  then obtain b k' where p: "k' \<in> set (cd_checkpoints s)" "ck_id k' = ck_id k" "pair_ok V (cd_journal s) (cd_bindings s) b k'"
    by (rule has_pair [OF assms(1)])
  have "k' = k" using inj_mapD [of ck_id "cd_checkpoints s" k' k] assms p(1,2) by (simp add: coord_ok_def refs_ok_def)
  with p(3) have "ck_status k \<noteq> CS_created" by (simp add: pair_ok_def)
  then show ?thesis by (auto simp: classifyRecoveredCheckpoint_def UNSTABLE_def)
qed

lemma recovered_completed:
  assumes s: "recovering V s0 (k # ks) s" and m: "ck_status k = CS_verifying" "hasCheckpointManifest E (ck_id k) s" and E: "E \<in> V"
  shows "recovering V s0 ks (set_group GS_completed at (ck_groupId k) (set_checkpoint (\<lambda>k. k\<lparr>ck_status := CS_completed,
    ck_completedAt := (case ck_completedAt k of None \<Rightarrow> Some at | Some t \<Rightarrow> Some t), ck_error := None\<rparr>) (ck_id k) s))"
proof -
  have k: "coord_ok V s" "k \<in> set (cd_checkpoints s)" "has (ck_groupId k) (ck_id k) s" using s by (auto simp: recovering_def has_def)
  obtain ba where ba: "readManifestBinding (ck_id k) s = Some ba" "verifyManifestArtifact E ba"
    using m(2) by (auto simp: hasCheckpointManifest_def split: option.splits)
  have "coord_ok V (set_group GS_completed at (ck_groupId k) (set_checkpoint (\<lambda>k. k\<lparr>ck_status := CS_completed,
    ck_completedAt := (case ck_completedAt k of None \<Rightarrow> Some at | Some t \<Rightarrow> Some t), ck_error := None\<rparr>) (ck_id k) s))"
  proof (rule set_both_ok [OF k(1,3)])
    fix b k' assume p: "pair_ok V (cd_journal s) (cd_bindings s) b k'" "k' \<in> set (cd_checkpoints s)" "bd_id b = ck_groupId k" "ck_id k' = ck_id k"
    have "k' = k" using inj_mapD [of ck_id "cd_checkpoints s" k' k] k(1,2) p(2,4) by (simp add: coord_ok_def refs_ok_def)
    with p(1) m(1) verified_binding [OF ba E]
    show "pair_ok V (cd_journal s) (cd_bindings s) (b\<lparr>bd_status := GS_completed, bd_updatedAt := at\<rparr>)
        (k'\<lparr>ck_status := CS_completed, ck_completedAt := (case ck_completedAt k' of None \<Rightarrow> Some at | Some t \<Rightarrow> Some t), ck_error := None\<rparr>)"
      by (auto simp: pair_ok_def)
  qed simp
  with s others_kept [OF s] show ?thesis by (simp add: recovering_def)
qed

lemma recovered_review:
  "validS (recovering V s0 (k # ks)) (setNeedsReview E (ck_groupId k) (ck_id k) reason)
     (\<lambda>r s. case r of Inl _ \<Rightarrow> coord_ok V s | Inr _ \<Rightarrow> recovering V s0 ks s)"
  unfolding setNeedsReview_def
proof (rule validS_write [where R = "recovering V s0 ks"], goal_cases)
  case (1 s)
  have k: "coord_ok V s" "has (ck_groupId k) (ck_id k) s" using 1 by (auto simp: recovering_def has_def)
  have "coord_ok V (set_group GS_needs_review (ce_now E) (ck_groupId k) (set_checkpoint (\<lambda>k. k\<lparr>ck_status := CS_needs_review,
      ck_error := Some reason, ck_completedAt := Some (ce_now E)\<rparr>) (ck_id k) s))"
    by (rule set_both_ok [OF k]) (auto simp: pair_ok_def)
  with 1 others_kept [OF 1] show ?case unfolding recovering_tick by (simp add: recovering_def)
next
  case (2 s)
  then show ?case by (simp add: recovering_def)
next
  case 3
  show ?case
    by (intro validS_get)
      (auto simp: validS_def checkpoint_event_def writeS_def returnS_def recovering_def split: option.splits)
qed

lemma recover_one_ok:
  assumes E: "E \<in> V"
  shows "validS (recovering V s0 (k # ks)) (recover_one E k) (\<lambda>r s. case r of Inl _ \<Rightarrow> coord_ok V s | Inr _ \<Rightarrow> recovering V s0 ks s)"
  unfolding recover_one_def
proof (rule validS_get, goal_cases)
  case (1 complete)
  show ?case
  proof (cases complete)
    case True
    show ?thesis
      unfolding validS_def
    proof (intro allI impI, elim conjE)
      fix s assume s: "recovering V s0 (k # ks) s" "classifyRecoveredCheckpoint E (ck_id k) (ck_status k) s = complete"
      then have "ck_status k = CS_verifying" "hasCheckpointManifest E (ck_id k) s"
        using True classify_completed [where V = V and s = s and k = k and E = E] by (auto simp: recovering_def)
      from recovered_completed [OF s(1) this E] s(1)
      show "case snd ((if complete then setCompleted (ck_groupId k) (ck_id k) (ce_now E) else setNeedsReview E (ck_groupId k) (ck_id k) ''recovered after interruption'') s) of
          Inl x \<Rightarrow> coord_ok V (fst ((if complete then setCompleted (ck_groupId k) (ck_id k) (ce_now E) else setNeedsReview E (ck_groupId k) (ck_id k) ''recovered after interruption'') s))
        | Inr x \<Rightarrow> recovering V s0 ks (fst ((if complete then setCompleted (ck_groupId k) (ck_id k) (ce_now E) else setNeedsReview E (ck_groupId k) (ck_id k) ''recovered after interruption'') s))"
        using True by (simp add: setCompleted_def writeS_def recovering_def)
    qed
  next
    case False
    then show ?thesis by simp (rule validS_pre [OF recovered_review], simp)
  qed
qed

lemma recover_each_ok:
  assumes "E \<in> V"
  shows "validS (recovering V s0 ks) (eachS (recover_one E) ks) (\<lambda>_. coord_ok V)"
proof (induction ks)
  case Nil
  show ?case by (simp add: validS_def returnS_def recovering_def)
next
  case (Cons k ks)
  show ?case
    unfolding eachS.simps
  proof (rule validS_bind [where R = "\<lambda>_. recovering V s0 ks"])
    show "validS (recovering V s0 (k # ks)) (recover_one E k) (\<lambda>r s. case r of Inl e \<Rightarrow> coord_ok V s | Inr a \<Rightarrow> recovering V s0 ks s)"
      by (rule recover_one_ok [OF assms])
  qed (rule Cons.IH)
qed

lemma recovery_ok:
  assumes "E \<in> V"
  shows "keepsS (coord_ok V) (recover_checkpoints E)"
  unfolding recover_checkpoints_def
proof (rule validS_get, goal_cases)
  case (1 unstable)
  show ?case
  proof (rule validS_bind [where R = "\<lambda>_. coord_ok V"])
    show "validS (\<lambda>s. coord_ok V s \<and> filter (\<lambda>k. ck_status k \<in> set UNSTABLE) (cd_checkpoints s) = unstable) (eachS (recover_one E) unstable)
        (\<lambda>r s. case r of Inl e \<Rightarrow> coord_ok V s | Inr a \<Rightarrow> coord_ok V s)"
      unfolding validS_def
    proof (intro allI impI, elim conjE)
      fix s assume s: "coord_ok V s" "filter (\<lambda>k. ck_status k \<in> set UNSTABLE) (cd_checkpoints s) = unstable"
      then have "recovering V s unstable s" by (auto simp: recovering_def coord_ok_def refs_ok_def distinct_map_filter)
      with recover_each_ok [OF assms, of s unstable]
      show "case snd (eachS (recover_one E) unstable s) of Inl e \<Rightarrow> coord_ok V (fst (eachS (recover_one E) unstable s))
          | Inr a \<Rightarrow> coord_ok V (fst (eachS (recover_one E) unstable s))"
        by (auto simp: validS_def split: sum.splits)
    qed
  qed (simp add: validS_return)
qed

text \<open>Any calls, with the environments in which they were made.\<close>

inductive coord_history :: "coordinator_env list \<Rightarrow> coordinator \<Rightarrow> bool" where
  start: "coord_history [] empty_coordinator"
| call: "coord_history Es s \<Longrightarrow> coord_history (E # Es) (run_coord E op (s\<lparr>cd_io := io\<rparr>))"

lemma empty_ok: "coord_ok V empty_coordinator"
  by (simp add: empty_coordinator_def coord_ok_def refs_ok_def)

lemma coord_run_ok:
  assumes "coord_ok V s" "E \<in> V"
  shows "coord_ok V (run_coord E op (s\<lparr>cd_io := io\<rparr>))"
proof -
  let ?s = "s\<lparr>cd_io := io\<rparr>"
  have s: "coord_ok V ?s" using assms(1) by simp
  have step: "coord_ok V (fst (m ?s))" if "keepsS (coord_ok V) m" for m :: "'a coord_m" using that s by (simp add: validS_def)
  show ?thesis
    using step [OF start_ok] step [OF record_ok] step [OF publish_ok [OF assms(2)]] step [OF fail_ok] step [OF recovery_ok [OF assms(2)]]
    by (cases op) (simp_all add: run_coord_def)
qed

lemma reached_ok: "coord_reached s \<Longrightarrow> coord_ok UNIV s"
  by (induction rule: coord_reached.induct) (simp_all add: empty_ok coord_run_ok)

lemma more_environments: "coord_ok V s \<Longrightarrow> V \<subseteq> W \<Longrightarrow> coord_ok W s"
  by (fastforce simp: coord_ok_def pair_ok_def list_ex_iff)

lemma history_ok: "coord_history Es s \<Longrightarrow> coord_ok (set Es) s"
proof (induction rule: coord_history.induct)
  case (call Es s E op io)
  then have "coord_ok (set (E # Es)) s" by (intro more_environments [OF call.IH]) auto
  then show ?case by (rule coord_run_ok) simp
qed (rule empty_ok)

text \<open>A history is a run of calls.\<close>

lemma history_reached: "coord_history Es s \<Longrightarrow> coord_reached s"
  by (induction rule: coord_history.induct) (auto intro: coord_reached.intros)

text \<open>With writes that succeed, recovery settles every checkpoint.\<close>

abbreviation statuses :: "coordinator \<Rightarrow> (string \<times> checkpoint_status) list" where
  "statuses s \<equiv> map (\<lambda>k. (ck_id k, ck_status k)) (cd_checkpoints s)"

definition status_set :: "string \<Rightarrow> checkpoint_status \<Rightarrow> (string \<times> checkpoint_status) list \<Rightarrow> (string \<times> checkpoint_status) list" where
  "status_set i st = map (\<lambda>(j, x). (j, if j = i then st else x))"

lemma statuses_set: "(\<And>k. ck_id (f k) = ck_id k \<and> ck_status (f k) = st) \<Longrightarrow> statuses (set_checkpoint f i s) = status_set i st (statuses s)"
  by (simp add: set_checkpoint_def status_set_def)

lemma statuses_other [simp]: "statuses (set_group st now i s) = statuses s" "statuses (tick s) = statuses s" "statuses (s\<lparr>cd_events := ev\<rparr>) = statuses s"
  by simp_all

lemma recover_one_settles:
  assumes s: "recovering V s0 (k # ks) s" "cd_io s = []" and u: "ck_status k \<in> set UNSTABLE" and E: "E \<in> V"
  shows "\<exists>s'. recover_one E k s = (s', Inr ()) \<and> cd_io s' = [] \<and> recovering V s0 ks s' \<and> statuses s' = status_set (ck_id k) (settled_status E s0 k) (statuses s)"
proof -
  have m: "hasCheckpointManifest E (ck_id k) s = hasCheckpointManifest E (ck_id k) s0"
    using s(1) by (simp add: recovering_def hasCheckpointManifest_def readManifestBinding_def)
  have c: "classifyRecoveredCheckpoint E (ck_id k) (ck_status k) s \<longleftrightarrow> ck_status k = CS_verifying \<and> hasCheckpointManifest E (ck_id k) s0"
    using classify_completed [where V = V and s = s and k = k and E = E] s(1) m by (simp add: recovering_def)
  obtain s' r where r: "recover_one E k s = (s', r)" by fastforce
  have ok: "case r of Inl _ \<Rightarrow> coord_ok V s' | Inr _ \<Rightarrow> recovering V s0 ks s'"
    using recover_one_ok [OF E, of s0 k ks, unfolded validS_def, rule_format, OF s(1)] unfolding r fst_conv snd_conv .
  have "r = Inr () \<and> cd_io s' = [] \<and> statuses s' = status_set (ck_id k) (settled_status E s0 k) (statuses s)"
  proof (cases "classifyRecoveredCheckpoint E (ck_id k) (ck_status k) s")
    case True
    with r s(2) c u have "r = Inr ()" "cd_io s' = []" "s' = tick (set_group GS_completed (ce_now E) (ck_groupId k)
        (set_checkpoint (\<lambda>k. k\<lparr>ck_status := CS_completed, ck_completedAt := (case ck_completedAt k of None \<Rightarrow> Some (ce_now E) | Some t \<Rightarrow> Some t),
          ck_error := None\<rparr>) (ck_id k) s))"
      by (auto simp: recover_one_def bindS_def getS_def setCompleted_def writeS_def tick_def set_group_def set_checkpoint_def)
    moreover have "settled_status E s0 k = CS_completed" using True c u by (simp add: settled_status_def)
    ultimately show ?thesis by (simp add: statuses_set del: map_map)
  next
    case False
    let ?s = "tick (set_group GS_needs_review (ce_now E) (ck_groupId k)
        (set_checkpoint (\<lambda>x. x\<lparr>ck_status := CS_needs_review, ck_error := Some ''recovered after interruption'', ck_completedAt := Some (ce_now E)\<rparr>) (ck_id k) s))"
    from False r s(2) have "r = Inr () \<and> cd_io s' = [] \<and> cd_checkpoints s' = cd_checkpoints ?s"
      by (auto simp: recover_one_def bindS_def getS_def setNeedsReview_def writeS_def checkpoint_event_def returnS_def tick_def set_group_def set_checkpoint_def
        split: option.splits if_splits)
    moreover have "settled_status E s0 k = CS_needs_review" using False c u by (simp add: settled_status_def)
    ultimately show ?thesis by (simp add: statuses_set del: map_map)
  qed
  with ok r show ?thesis by simp
qed

lemma recover_each_settles:
  assumes "recovering V s0 ks s" "cd_io s = []" "\<And>k. k \<in> set ks \<Longrightarrow> ck_status k \<in> set UNSTABLE" "E \<in> V"
  shows "\<exists>s'. eachS (recover_one E) ks s = (s', Inr ()) \<and> coord_ok V s' \<and> statuses s' = fold (\<lambda>k. status_set (ck_id k) (settled_status E s0 k)) ks (statuses s)"
  using assms
proof (induction ks arbitrary: s)
  case Nil
  then show ?case by (simp add: returnS_def recovering_def)
next
  case (Cons k ks)
  obtain s1 where 1: "recover_one E k s = (s1, Inr ())" "cd_io s1 = []" "recovering V s0 ks s1" "statuses s1 = status_set (ck_id k) (settled_status E s0 k) (statuses s)"
    using recover_one_settles [OF Cons.prems(1,2) _ Cons.prems(4)] Cons.prems(3) by auto
  from Cons.IH [OF 1(3,2) _ Cons.prems(4)] Cons.prems(3) 1(1,4) show ?case by (simp add: bindS_def)
qed

lemma fold_status_set:
  "fold (\<lambda>k. status_set (ck_id k) (g k)) ks xs = map (\<lambda>(j, x). (j, case List.find (\<lambda>k. ck_id k = j) (rev ks) of None \<Rightarrow> x | Some k \<Rightarrow> g k)) xs"
  by (induction ks rule: rev_induct) (auto simp: status_set_def split: option.splits)

lemma find_unique: "distinct (map f xs) \<Longrightarrow> x \<in> set xs \<Longrightarrow> List.find (\<lambda>y. f y = f x) xs = Some x"
  by (induction xs) auto

lemma recover_settles:
  assumes s: "coord_ok V s" "cd_io s = []" and E: "E \<in> V"
  shows "\<exists>s'. recover_checkpoints E s = (s', Inr (map ck_id (filter (\<lambda>k. ck_status k \<in> set UNSTABLE) (cd_checkpoints s)))) \<and> coord_ok V s' \<and>
    statuses s' = map (\<lambda>k. (ck_id k, settled_status E s k)) (cd_checkpoints s)"
proof -
  let ?ks = "filter (\<lambda>k. ck_status k \<in> set UNSTABLE) (cd_checkpoints s)"
  have d: "distinct (map ck_id (cd_checkpoints s))" using s(1) by (simp add: coord_ok_def refs_ok_def)
  then have r: "recovering V s ?ks s" using s(1) by (auto simp: recovering_def distinct_map_filter)
  obtain s' where s': "eachS (recover_one E) ?ks s = (s', Inr ())" "coord_ok V s'"
      "statuses s' = fold (\<lambda>k. status_set (ck_id k) (settled_status E s k)) ?ks (statuses s)"
    using recover_each_settles [OF r s(2) _ E] by auto
  have "(case List.find (\<lambda>x. ck_id x = ck_id k) (rev ?ks) of None \<Rightarrow> ck_status k | Some x \<Rightarrow> settled_status E s x) = settled_status E s k"
    if k: "k \<in> set (cd_checkpoints s)" for k
  proof (cases "ck_status k \<in> set UNSTABLE")
    case True
    have "List.find (\<lambda>x. ck_id x = ck_id k) (rev ?ks) = Some k"
      using find_unique [of ck_id "rev ?ks" k] k True d by (simp add: rev_map [symmetric] distinct_map_filter)
    then show ?thesis by simp
  next
    case False
    have "List.find (\<lambda>x. ck_id x = ck_id k) (rev ?ks) = None"
      using False inj_mapD [OF d _ k] by (auto simp: find_None_iff)
    then show ?thesis using False by (simp add: settled_status_def)
  qed
  then have "statuses s' = map (\<lambda>k. (ck_id k, settled_status E s k)) (cd_checkpoints s)"
    unfolding s'(3) fold_status_set by simp
  with s'(1,2) show ?thesis by (simp add: recover_checkpoints_def bindS_def getS_def returnS_def)
qed

section \<open>The plan of a restore\<close>

definition hits :: "('a \<times> string list) list \<Rightarrow> 'a \<Rightarrow> nat" where
  "hits m p = (case jm_get m p of None \<Rightarrow> 0 | Some ids \<Rightarrow> length ids)"

lemma hits_add: "hits (add_hit i p m) q = (if q = p then Suc (hits m q) else hits m q)"
  by (simp add: hits_def add_hit_def jm_get_set split: option.splits)

lemma distinct_add: "distinct (jm_keys m) \<Longrightarrow> distinct (jm_keys (add_hit i p m))"
  by (simp add: add_hit_def jm.distinct_put)

lemma hits_fold:
  "distinct (jm_keys m) \<Longrightarrow>
     distinct (jm_keys (fold (\<lambda>(p, i). add_hit i p) xs m)) \<and> hits (fold (\<lambda>(p, i). add_hit i p) xs m) q = hits m q + count_list (map fst xs) q"
  by (induction xs arbitrary: m) (auto simp: hits_add distinct_add)

lemma distinct_count_le: "distinct xs \<longleftrightarrow> (\<forall>x. count_list xs x \<le> 1)"
  by (induction xs) (auto simp: count_list_0_iff le_Suc_eq split: if_splits)

lemma path_hits_distinct:
  "filter (\<lambda>(p, ids). 1 < length ids) (path_hits es) = [] \<longleftrightarrow> distinct (concat (map mj_coveredPaths es))"
proof -
  let ?xs = "concat (map (\<lambda>e. map (\<lambda>p. (p, mj_id e)) (mj_coveredPaths e)) es)"
  have paths: "map fst ?xs = concat (map mj_coveredPaths es)" by (simp add: map_concat comp_def)
  have h: "distinct (jm_keys (path_hits es))" "hits (path_hits es) q = count_list (concat (map mj_coveredPaths es)) q" for q
    using hits_fold [of "[]" ?xs q] unfolding path_hits_def paths by (simp_all add: hits_def)
  have "(\<exists>(p, ids)\<in>set (path_hits es). 1 < length ids) \<longleftrightarrow> (\<exists>q. 1 < hits (path_hits es) q)"
  proof
    assume "\<exists>(p, ids)\<in>set (path_hits es). 1 < length ids"
    then obtain p ids where "(p, ids) \<in> set (path_hits es)" "1 < length ids" by blast
    then have "1 < hits (path_hits es) p" using h(1) by (simp add: hits_def)
    then show "\<exists>q. 1 < hits (path_hits es) q" ..
  next
    assume "\<exists>q. 1 < hits (path_hits es) q"
    then obtain q ids where "jm_get (path_hits es) q = Some ids" "1 < length ids" by (auto simp: hits_def split: option.splits)
    then show "\<exists>(p, ids)\<in>set (path_hits es). 1 < length ids" by (auto dest: map_of_SomeD)
  qed
  moreover have "filter (\<lambda>(p, ids). 1 < length ids) (path_hits es) = [] \<longleftrightarrow> \<not> (\<exists>(p, ids)\<in>set (path_hits es). 1 < length ids)"
    by (simp add: filter_empty_conv case_prod_unfold)
  ultimately show ?thesis by (simp add: distinct_count_le h(2) not_less)
qed

section \<open>Properties\<close>

text \<open>An environment with one stored file, and a boundary that is started, journalled and published in it.\<close>

definition cp_env :: coordinator_env where
  "cp_env = \<lparr>ce_now = ''t'', ce_root = [''r''], ce_patterns = (\<lambda>s. s),
     ce_file = (\<lambda>p. if p = [''r'', ''sha256'', ''d'', ''d''] then Some (replicate 357 CHR ''x'') else None),
     ce_hash = (\<lambda>_. ''d''), ce_durable = \<lparr>de_hash = (\<lambda>s. s), de_lower = (\<lambda>s. s)\<rparr>\<rparr>"

definition cp_started :: coordinator where
  "cp_started = run_coord cp_env (Co_start ''g'' ''c'' (JStr ''r'') None JUndef JUndef JUndef) empty_coordinator"

definition cp_recorded :: coordinator where
  "cp_recorded = run_coord cp_env (Co_record ''e'' ''norn_group_g'' ''o'' None
     \<lparr>mp_operation = JUndef, mp_status = JStr ''ready'', mp_coveredPaths = JArr [JStr ''p''], mp_conflicts = JUndef, mp_manifest = JUndef, mp_payload = JUndef\<rparr>) cp_started"

definition cp_published :: coordinator where
  "cp_published = run_coord cp_env (Co_publish ''a'' ''norn_group_g'') cp_recorded"

lemma cp_started_value: "statuses cp_started = [(''norn_checkpoint_c'', CS_checkpointing)]"
  by code_simp

lemma cp_recorded_value: "statuses cp_recorded = [(''norn_checkpoint_c'', CS_ready)]"
  by code_simp

lemma cp_published_value: "statuses cp_published = [(''norn_checkpoint_c'', CS_completed)]"
  by code_simp

lemma review_blocks:
  assumes "coord_ok V s" "(c, CS_needs_review) \<in> set (statuses s)"
  shows "snd (assertReady s) = Inl ''CHECKPOINT_RECOVERY_REQUIRED''"
proof -
  obtain k where k: "k \<in> set (cd_checkpoints s)" "ck_status k = CS_needs_review" using assms(2) by auto
  then have "has (ck_groupId k) (ck_id k) s" by (auto simp: has_def)
  then obtain b k' where p: "b \<in> set (cd_groups s)" "k' \<in> set (cd_checkpoints s)" "ck_id k' = ck_id k"
      "pair_ok V (cd_journal s) (cd_bindings s) b k'"
    by (rule has_pair [OF assms(1)])
  have "k' = k" using inj_mapD [of ck_id "cd_checkpoints s" k' k] assms(1) k(1) p(2,3) by (simp add: coord_ok_def refs_ok_def)
  with p(4) k(2) have "bd_status b = GS_needs_review" by (simp add: pair_ok_def)
  with p(1) show ?thesis
    by (auto simp: assertReady_def bindS_def getS_def guardS_def throwS_def filter_empty_conv)
qed

text \<open>
  C32. In every history of calls, whatever writes failed and wherever a crash interrupted an operation: a
  checkpoint that is completed belongs to a completed boundary, the journal of the boundary is not empty
  and has no entry in conflict, and in one of the calls the file of a manifest bound to the checkpoint was
  there, within the root of the store, with the size and the digest of its record.
\<close>

theorem completed_checkpoint_verified:
  assumes "coord_history Es s" "k \<in> set (cd_checkpoints s)" "ck_status k = CS_completed"
  shows "(\<exists>b\<in>set (cd_groups s). bd_id b = ck_groupId k \<and> bd_runId b = ck_runId k \<and> bd_status b = GS_completed) \<and>
    entries (ck_groupId k) (cd_journal s) \<noteq> [] \<and> list_all mj_ready (entries (ck_groupId k) (cd_journal s)) \<and>
    (\<exists>a\<in>set (cd_bindings s). \<exists>E\<in>set Es. \<exists>bytes. ba_checkpointId a = ck_id k \<and>
       within_root (resolve_segs (ce_root E) (slashes (ba_path a))) (ce_root E) \<and>
       ce_file E (resolve_segs (ce_root E) (slashes (ba_path a))) = Some bytes \<and>
       int (length bytes) = ba_size a \<and> ce_hash E bytes = ba_artifactDigest a \<and> ba_manifestDigest a = ba_artifactDigest a)"
proof -
  have ok: "coord_ok (set Es) s" by (rule history_ok [OF assms(1)])
  have "has (ck_groupId k) (ck_id k) s" using assms(2) by (auto simp: has_def)
  then obtain b k' where p: "b \<in> set (cd_groups s)" "bd_id b = ck_groupId k" "k' \<in> set (cd_checkpoints s)" "ck_id k' = ck_id k"
      "pair_ok (set Es) (cd_journal s) (cd_bindings s) b k'"
    by (rule has_pair [OF ok])
  have "k' = k" using inj_mapD [of ck_id "cd_checkpoints s" k' k] ok assms(2) p(3,4) by (simp add: coord_ok_def refs_ok_def)
  with p assms(3) show ?thesis by (auto simp: pair_ok_def stored_as_def list_ex_iff)
qed

lemma cp_history: "coord_history [cp_env, cp_env, cp_env] cp_published" "coord_history [cp_env, cp_env] cp_recorded"
proof -
  have io: "cd_io empty_coordinator = []" "cd_io cp_started = []" "cd_io cp_recorded = []" by code_simp+
  have keep: "cd_io s = [] \<Longrightarrow> s\<lparr>cd_io := []\<rparr> = s" for s :: coordinator by simp
  have 1: "coord_history [cp_env] cp_started"
    using coord_history.call [OF coord_history.start, of cp_env _ "[]"] unfolding keep [OF io(1)] cp_started_def by this
  show 2: "coord_history [cp_env, cp_env] cp_recorded"
    using coord_history.call [OF 1, of cp_env _ "[]"] unfolding keep [OF io(2)] cp_recorded_def by this
  show "coord_history [cp_env, cp_env, cp_env] cp_published"
    using coord_history.call [OF 2, of cp_env _ "[]"] unfolding keep [OF io(3)] cp_published_def by this
qed

theorem completed_checkpoint_verified_witness:
  "\<exists>k a. cd_checkpoints cp_published = [k] \<and> ck_status k = CS_completed \<and> a \<in> set (cd_bindings cp_published) \<and> ba_checkpointId a = ck_id k"
proof -
  obtain k where k: "cd_checkpoints cp_published = [k]" "ck_status k = CS_completed" using cp_published_value by auto
  then have "k \<in> set (cd_checkpoints cp_published)" by simp
  from completed_checkpoint_verified [OF cp_history(1) this k(2)] k show ?thesis by blast
qed

text \<open>
  C33. From every reachable state recovery returns when its writes succeed, and settles every checkpoint: an
  interrupted one is completed exactly when it was being verified and its stored manifest verifies, else
  it needs review; the others keep their status.  No new mutation may start while one needs review.
\<close>

theorem recovery_settles_all:
  assumes "coord_reached s"
  shows "\<exists>s'. recover_checkpoints E (s\<lparr>cd_io := []\<rparr>) =
      (s', Inr (map ck_id (filter (\<lambda>k. ck_status k \<in> set UNSTABLE) (cd_checkpoints s)))) \<and>
    map (\<lambda>k. (ck_id k, ck_status k)) (cd_checkpoints s') = map (\<lambda>k. (ck_id k, settled_status E s k)) (cd_checkpoints s) \<and>
    (snd (assertReady s') = Inr () \<longrightarrow> list_all (\<lambda>k. settled_status E s k \<noteq> CS_needs_review) (cd_checkpoints s))"
proof -
  let ?s = "s\<lparr>cd_io := []\<rparr>"
  have ok: "coord_ok UNIV ?s" "cd_io ?s = []" using reached_ok [OF assms] by simp_all
  have same: "settled_status E ?s = settled_status E s" "cd_checkpoints ?s = cd_checkpoints s"
    by (simp_all add: settled_status_def hasCheckpointManifest_def readManifestBinding_def fun_eq_iff)
  obtain s' where s': "recover_checkpoints E ?s = (s', Inr (map ck_id (filter (\<lambda>k. ck_status k \<in> set UNSTABLE) (cd_checkpoints s))))"
      "coord_ok UNIV s'" "statuses s' = map (\<lambda>k. (ck_id k, settled_status E s k)) (cd_checkpoints s)"
    using recover_settles [OF ok UNIV_I, of E] unfolding same by blast
  have "settled_status E s k \<noteq> CS_needs_review" if "snd (assertReady s') = Inr ()" "k \<in> set (cd_checkpoints s)" for k
  proof
    assume "settled_status E s k = CS_needs_review"
    then have "(ck_id k, CS_needs_review) \<in> set (statuses s')" using that(2) unfolding s'(3) by force
    with review_blocks [OF s'(2) this] that(1) show False by simp
  qed
  with s' show ?thesis by (auto simp: list_all_iff)
qed

theorem recovery_settles_all_witness:
  "map (\<lambda>k. (ck_id k, ck_status k)) (cd_checkpoints (fst (recover_checkpoints cp_env (cp_recorded\<lparr>cd_io := []\<rparr>)))) =
     [(''norn_checkpoint_c'', CS_needs_review)]"
proof -
  obtain k where k: "cd_checkpoints cp_recorded = [k]" "ck_id k = ''norn_checkpoint_c''" "ck_status k = CS_ready"
    using cp_recorded_value by auto
  have "settled_status cp_env cp_recorded k = CS_needs_review" using k(3) by (simp add: settled_status_def UNSTABLE_def)
  with recovery_settles_all [OF history_reached [OF cp_history(2)], of cp_env] k(1,2) show ?thesis by auto
qed

text \<open>
  C34. The plan of a restore is free of conflicts exactly when the checkpoint is completed, its stored
  manifest verifies and has the digest that was asked for, every journalled mutation is ready, and no
  path is covered twice.
\<close>

theorem restore_plan_clear_iff:
  assumes "planCheckpointRestore E c digest s = Inr p"
  shows "rt_conflicts p = [] \<longleftrightarrow>
    (\<exists>k b. List.find (\<lambda>k. ck_id k = c) (cd_checkpoints s) = Some k \<and> readManifestBinding c s = Some b \<and>
       ck_status k = CS_completed \<and> verifyManifestArtifact E b \<and> (digest = None \<or> digest = Some (ba_manifestDigest b)) \<and>
       list_all mj_ready (journal_of (\<lambda>e. mj_checkpointId e = c) s) \<and>
       distinct (concat (map mj_coveredPaths (journal_of (\<lambda>e. mj_checkpointId e = c) s))))"
proof -
  obtain k where k: "List.find (\<lambda>k. ck_id k = c) (cd_checkpoints s) = Some k"
      "describeCheckpoint c s = Inr (k, journal_of (\<lambda>e. mj_checkpointId e = c) s)"
    using assms by (auto simp: planCheckpointRestore_def describeCheckpoint_def split: option.splits)
  have e: "filter (\<lambda>e. \<not> mj_ready e) es = [] \<longleftrightarrow> list_all mj_ready es" for es by (auto simp: filter_empty_conv list_all_iff)
  show ?thesis
    using assms k(1) path_hits_distinct [of "journal_of (\<lambda>e. mj_checkpointId e = c) s"] e [of "journal_of (\<lambda>e. mj_checkpointId e = c) s"]
    unfolding planCheckpointRestore_def k(2)
    by (auto simp: Let_def split: option.splits if_splits)
qed

theorem restore_plan_clear_iff_witness:
  "\<exists>k b. readManifestBinding ''norn_checkpoint_c'' cp_published = Some b \<and>
    List.find (\<lambda>k. ck_id k = ''norn_checkpoint_c'') (cd_checkpoints cp_published) = Some k \<and> verifyManifestArtifact cp_env b"
proof -
  have clear: "case planCheckpointRestore cp_env ''norn_checkpoint_c'' (Some ''d'') cp_published of Inl _ \<Rightarrow> False | Inr p \<Rightarrow> rt_conflicts p = []"
    by code_simp
  then obtain p where p: "planCheckpointRestore cp_env ''norn_checkpoint_c'' (Some ''d'') cp_published = Inr p" "rt_conflicts p = []"
    by (auto split: sum.splits)
  from restore_plan_clear_iff [OF p(1)] p(2) show ?thesis by blast
qed

text \<open>
  An operation interrupted right after the start of its boundary: recovery leaves it to be reviewed, though
  nothing was mutated, because the row is inserted as \<open>checkpointing\<close> and only an empty \<open>created\<close> one is
  completed.
\<close>

lemma interrupted_start_blocks:
  assumes s: "coord_reached s" and b: "startBoundary E u u' r st p f m (s\<lparr>cd_io := []\<rparr>) = (s1, Inr (g, c))"
  shows "snd (assertReady (fst (recover_checkpoints E' (s1\<lparr>cd_io := []\<rparr>)))) = Inl ''CHECKPOINT_RECOVERY_REQUIRED''"
proof -
  have ok: "coord_ok UNIV (s1\<lparr>cd_io := []\<rparr>)"
    using start_ok [of UNIV E u u' r st p f m, unfolded validS_def, rule_format, of "s\<lparr>cd_io := []\<rparr>"] reached_ok [OF s] b by simp
  have "\<exists>k\<in>set (cd_checkpoints s1). ck_status k = CS_checkpointing"
    using b by (auto simp: startBoundary_def Let_def bindS_def guardS_def writeS_def insertS_def checkpoint_event_def returnS_def throwS_def tick_def
      split: if_splits)
  then obtain k where k: "k \<in> set (cd_checkpoints s1)" "ck_status k = CS_checkpointing" by blast
  obtain s' where s': "recover_checkpoints E' (s1\<lparr>cd_io := []\<rparr>) = (s', Inr (map ck_id (filter (\<lambda>k. ck_status k \<in> set UNSTABLE) (cd_checkpoints s1))))"
      "coord_ok UNIV s'" "statuses s' = map (\<lambda>k. (ck_id k, settled_status E' (s1\<lparr>cd_io := []\<rparr>) k)) (cd_checkpoints s1)"
    using recover_settles [OF ok _ UNIV_I, of E'] by auto
  have "(ck_id k, CS_needs_review) \<in> set (statuses s')" using k unfolding s'(3) by (force simp: settled_status_def UNSTABLE_def)
  from review_blocks [OF s'(2) this] s'(1) show ?thesis by simp
qed

end
