(* ===== verification/Durable_Output.thy ===== *)
theory Durable_Output
  imports Durable_Input
begin

text \<open>
  What is kept of the result of a tool when it is stored: \<open>projectDurableToolOutput\<close> of
  \<open>packages/protocol/src/index.ts\<close> and the projections it chooses from, and the two normalisations of
  requests and audit events.  Fields are set one after the other, a name that is set again keeps its place.
\<close>

section \<open>Fields\<close>

definition pickWorkspaceMetadata :: "(string \<times> jsval) list \<Rightarrow> string list \<Rightarrow> (string \<times> jsval) list" where
  "pickWorkspaceMetadata r ks = concat (map (field_if (\<lambda>x. x \<noteq> JUndef) r) ks)"

text \<open>The number of elements of a field, 0 when it is not an array; and only when it is one.\<close>

definition items :: "(string \<times> jsval) list \<Rightarrow> string \<Rightarrow> jsval list" where
  "items r k = (case js_field r k of JArr vs \<Rightarrow> vs | _ \<Rightarrow> [])"

definition size_field :: "string \<Rightarrow> (string \<times> jsval) list \<Rightarrow> string \<Rightarrow> string \<times> jsval" where
  "size_field name r k = (name, JInt (int (length (items r k))))"

definition count_field :: "string \<Rightarrow> (string \<times> jsval) list \<Rightarrow> string \<Rightarrow> (string \<times> jsval) list" where
  "count_field name r k = (case js_field r k of JArr vs \<Rightarrow> [(name, JInt (int (length vs)))] | _ \<Rightarrow> [])"

definition encoded :: "jsval \<Rightarrow> string" where
  "encoded v = (case json_stringify v of None \<Rightarrow> ''null'' | Some t \<Rightarrow> t)"

definition payload_digest :: "durable_env \<Rightarrow> jsval \<Rightarrow> (string \<times> jsval) list" where
  "payload_digest D v = [(''payloadDigest'', JStr (sha256Reference D (encoded v))), (''payloadBytes'', text_size (encoded v))]"

definition text_in :: "string list \<Rightarrow> jsval \<Rightarrow> bool" where
  "text_in ts v \<longleftrightarrow> js_String v \<in> set ts"

section \<open>Files and processes\<close>

definition projectProcessOutput :: "durable_env \<Rightarrow> jsval \<Rightarrow> jsval" where
  "projectProcessOutput D v =
     (case v of
        JObj r \<Rightarrow> JObj (js_assign [] (
          (case boundedProcessString (js_field r ''command'') 4096 of None \<Rightarrow> [] | Some c \<Rightarrow> digested D ''command'' c) @
          (case boundedProcessArgs (js_field r ''args'') of
             None \<Rightarrow> []
           | Some as \<Rightarrow> [(''argsDigest'', list_digest D (map JStr as)), (''argsCount'', JInt (int (length as)))]) @
          optional ''cwd'' (map_option JStr (boundedProcessString (js_field r ''cwd'') 4096)) @
          optional ''exitCode'' (boundedProcessInteger (js_field r ''exitCode'') (-32768) 32768) @
          optional ''signal'' (map_option JStr (boundedProcessString (js_field r ''signal'') 64)) @
          concat (map (\<lambda>k. optional k (boundedProcessInteger (js_field r k) 0 16777216)) [''stdoutBytes'', ''stderrBytes'']) @
          concat (map (field_if is_bool r) [''timedOut'', ''outputTruncated'']) @
          optional ''durationMs'' (boundedProcessInteger (js_field r ''durationMs'') 0 86400000) @
          concat (map (\<lambda>k. case boundedProcessString (js_field r k) 16777216 of None \<Rightarrow> [] | Some s \<Rightarrow> digested D k s) [''stdout'', ''stderr''])))
      | _ \<Rightarrow> JObj [])"

text \<open>One match of a search; reading a field of null or undefined throws.\<close>

definition search_match :: "jsval \<Rightarrow> string + jsval" where
  "search_match v =
     (case v of
        JUndef \<Rightarrow> Inl ''Cannot read properties of undefined (reading 'path')''
      | JNull \<Rightarrow> Inl ''Cannot read properties of null (reading 'path')''
      | _ \<Rightarrow> Inr (JObj (pickWorkspaceMetadata (the_obj v) [''path'', ''resolvedPath'', ''digest'', ''digestComplete'', ''truncated''] @
          [size_field ''matchCount'' (the_obj v) ''matches''])))"

definition projectWorkspaceOutput :: "string \<Rightarrow> jsval \<Rightarrow> string + jsval" where
  "projectWorkspaceOutput t v =
     (case v of
        JObj r \<Rightarrow>
          if t = ''workspace.read'' \<or> t = ''workspace.readText'' then
            Inr (JObj (pickWorkspaceMetadata r [''path'', ''resolvedPath'', ''type'', ''binary'', ''bytes'', ''bytesRead'', ''truncated'', ''digest'', ''digestComplete'']))
          else if t = ''workspace.search'' then
            bindR (mapR search_match (items r ''matches'')) (\<lambda>ms.
            Inr (JObj (pickWorkspaceMetadata r [''path'', ''resolvedPath'', ''nextCursor'', ''searchedFiles'', ''searchedBytes''] @
              [size_field ''matchCount'' r ''matches'', (''matches'', JArr ms)])))
          else if t = ''workspace.diff'' then
            Inr (JObj (pickWorkspaceMetadata r [''path'', ''resolvedPath'', ''basePath'', ''beforeDigest'', ''digest'', ''digestComplete'', ''diffDigest'', ''truncated'']))
          else if t = ''workspace.list'' then
            Inr (JObj (pickWorkspaceMetadata r [''path'', ''resolvedPath'', ''nextCursor'', ''visited'', ''omittedSensitive'', ''limits''] @
              [size_field ''entryCount'' r ''entries'']))
          else if t = ''workspace.stat'' then
            Inr (JObj (pickWorkspaceMetadata r [''path'', ''resolvedPath'', ''type'', ''binary'', ''bytes'', ''modifiedAt'', ''mode'', ''digest'', ''digestComplete'']))
          else Inr v
      | _ \<Rightarrow> Inr v)"

definition projectGitOutput :: "string \<Rightarrow> jsval \<Rightarrow> jsval" where
  "projectGitOutput t v =
     (case v of
        JObj r \<Rightarrow>
          JObj (pickWorkspaceMetadata r [''type'', ''repositoryId'', ''worktreeId'', ''headState'', ''headOid'', ''truncated''] @
            (if t = ''git.status'' then [size_field ''entryCount'' r ''entries'']
             else if t = ''git.diff'' then pickWorkspaceMetadata r [''patchBytes'', ''patchDigest'', ''digestComplete'', ''staged'']
             else [size_field ''commitCount'' r ''commits'']))
      | _ \<Rightarrow> JObj [])"

section \<open>Computers\<close>

text \<open>\<open>Buffer.byteLength(s, "base64")\<close>: three bytes for four characters, without the padding.\<close>

definition base64_bytes :: "string \<Rightarrow> nat" where
  "base64_bytes s =
     (let u = concat (map (\<lambda>c. replicate (utf16_units c) c) s); n = length u;
          n1 = (if u \<noteq> [] \<and> last u = CHR ''='' then n - 1 else n);
          n2 = (if 1 < n1 \<and> u ! (n - 2) = CHR ''='' then n1 - 1 else n1) in
      (n2 * 3) mod 2 ^ 32 div 4)"

definition projectComputerScreenOutput :: "durable_env \<Rightarrow> jsval \<Rightarrow> jsval" where
  "projectComputerScreenOutput D v =
     JObj ([(''type'', JStr ''computer.screen''), (''contentUnavailableOnReplay'', JBool True)] @
       (case v of
          JObj r \<Rightarrow>
            let target = the_obj (js_field r ''target'') in
            concat (map (field_if (short_text 256) r) [''frameId'', ''capturedAt'']) @
            (if short_text 128 (js_field target ''nodeId'') \<and> short_text 128 (js_field target ''displayId'')
             then [(''target'', JObj [(''nodeId'', js_field target ''nodeId''), (''displayId'', js_field target ''displayId'')])] else []) @
            concat (map (field_if (\<lambda>x. boundedProcessInteger x 1 9007199254740991 \<noteq> None) r) [''width'', ''height'']) @
            field_if (\<lambda>x. x = JStr ''image/png'' \<or> x = JStr ''image/jpeg'') r ''mimeType'' @
            (case js_field r ''imageBase64'' of
               JStr s \<Rightarrow> [(''imageDigest'', JStr (sha256Reference D s)), (''imageBytes'', JInt (int (base64_bytes s)))]
             | _ \<Rightarrow> [])
        | _ \<Rightarrow> []))"

definition computer_action :: "(string \<times> jsval) list \<Rightarrow> (string \<times> jsval) list" where
  "computer_action r = field_if (text_in [''click'', ''type'', ''key'', ''move'', ''scroll'', ''wait'']) r ''action''"

definition uncertain_reason :: "(string \<times> jsval) list \<Rightarrow> (string \<times> jsval) list" where
  "uncertain_reason r = field_if (text_in [''cancelled-after-dispatch'', ''timeout'', ''transport-lost'', ''provider-uncertain'']) r ''reason''"

definition projectComputerOutput :: "durable_env \<Rightarrow> string \<Rightarrow> jsval \<Rightarrow> jsval" where
  "projectComputerOutput D t v =
     (let r = the_obj v in
      if t = ''computer.screen'' then projectComputerScreenOutput D v
      else if t = ''computer.act'' then
        JObj ([(''type'', JStr ''computer.act''), (''contentUnavailableOnReplay'', JBool True)] @
          field_if (\<lambda>x. x = JStr ''completed'' \<or> x = JStr ''needs-review'') r ''status'' @
          computer_action r @ digestComputerField D r ''beforeFrameId'' @
          (if js_field r ''status'' = JStr ''completed'' \<and> js_field r ''afterFrame'' \<noteq> JUndef
           then [(''afterFrame'', projectComputerScreenOutput D (js_field r ''afterFrame''))] else []) @
          (if js_field r ''status'' = JStr ''needs-review'' then digestComputerField D r ''recoveryId'' @ uncertain_reason r else []))
      else if t = ''computer.recovery.status'' then
        JObj ([(''type'', JStr t), (''unresolved'', JBool (js_field r ''unresolved'' = JBool True))] @
          (if js_field r ''unresolved'' = JBool True
           then digestComputerField D r ''recoveryId'' @ digestComputerField D r ''frameId'' @ computer_action r @ uncertain_reason r else []))
      else
        JObj ([(''type'', JStr ''computer.recovery.resolve'')] @
          field_if (\<lambda>x. x = JStr ''resolved'') r ''status'' @
          digestComputerField D r ''recoveryId'' @
          field_if (\<lambda>x. x = JStr ''confirmed-applied'' \<or> x = JStr ''confirmed-not-applied'') r ''outcome''))"

section \<open>Remote services\<close>

definition unavailable :: "string \<Rightarrow> (string \<times> jsval) list" where
  "unavailable t = [(''type'', JStr t), (''contentUnavailableOnReplay'', JBool True)]"

definition projectGitHubOutput :: "durable_env \<Rightarrow> string \<Rightarrow> jsval \<Rightarrow> jsval" where
  "projectGitHubOutput D t v =
     (case v of
        JObj r \<Rightarrow> JObj (js_assign (unavailable t) (
          [(''targetDigest'', list_digest D [JStr t, lowered D (js_field r ''repository''), or_null safe_integer (js_field r ''issueNumber''),
             or_null safe_integer (js_field r ''pullNumber''), lowered D (js_field r ''ref'')])] @
          payload_digest D v @ count_field ''itemCount'' r ''checks'' @ count_field ''itemCount'' r ''labels''))
      | _ \<Rightarrow> JObj (unavailable t))"

definition projectRemoteNodeOutput :: "durable_env \<Rightarrow> string \<Rightarrow> jsval \<Rightarrow> jsval" where
  "projectRemoteNodeOutput D t v =
     JObj ([(''type'', JStr t), (''schemaVersion'', JInt 1), (''contentUnavailableOnReplay'', JBool True)] @
       (case v of
          JObj r \<Rightarrow>
            [(''targetDigest'', list_digest D [JStr t, or_null is_str (js_field r ''nodeId'')])] @ payload_digest D v @
            (if t = ''node.status'' then field_if (text_in [''ready'', ''degraded'', ''unavailable'']) r ''status'' else []) @
            (if t = ''node.diagnostics'' then field_if (text_in [''healthy'', ''degraded'', ''unavailable'']) r ''status'' else []) @
            count_field ''itemCount'' r ''checks''
        | _ \<Rightarrow> []))"

text \<open>The digests of the identifiers of an object: null for a name it does not have, or only the names it has.\<close>

definition own_identifiers ::
    "(jsval \<Rightarrow> string \<Rightarrow> string + string) \<Rightarrow> (string \<times> jsval) list \<Rightarrow> string \<Rightarrow> string list \<Rightarrow> string + jsval list" where
  "own_identifiers h r label ks =
     mapR (\<lambda>k. if hasOwn r k then bindR (h (js_field r k) (label @ k)) (\<lambda>d. Inr (JStr d)) else Inr JNull) ks"

definition held_identifiers ::
    "(jsval \<Rightarrow> string \<Rightarrow> string + string) \<Rightarrow> string \<Rightarrow> string list \<Rightarrow> jsval \<Rightarrow> string + jsval list" where
  "held_identifiers h label ks v =
     (case v of
        JObj r \<Rightarrow> mapR (\<lambda>k. bindR (h (js_field r k) (label @ k)) (\<lambda>d. Inr (JStr d))) (filter (hasOwn r) ks)
      | _ \<Rightarrow> Inr [])"

definition listed_identifiers ::
    "(jsval \<Rightarrow> string \<Rightarrow> string + string) \<Rightarrow> (nat \<Rightarrow> string) \<Rightarrow> string list \<Rightarrow> jsval list \<Rightarrow> string + jsval list" where
  "listed_identifiers h label ks vs =
     bindR (mapR (\<lambda>(i, v). held_identifiers h (label i) ks v) (enumerate 0 vs)) (\<lambda>ds. Inr (concat ds))"

definition projectEmailOutput :: "durable_env \<Rightarrow> string \<Rightarrow> jsval \<Rightarrow> string + jsval" where
  "projectEmailOutput D t v =
     (case v of
        JObj r \<Rightarrow>
          let h = hashEmailProviderIdentifier D; messages = take 100 (items r ''messages'') in
          bindR (own_identifiers h r (''email '' @ t @ '' output.'') [''providerId'', ''accountId'', ''threadId'', ''messageId'']) (\<lambda>own.
          bindR
            (if t = ''email.accounts'' then
               bindR (listed_identifiers h (\<lambda>_. ''email account.'') [''accountId''] (take 32 (items r ''accounts''))) (\<lambda>accounts.
               Inr (accounts, [(''accountCount'', JInt (int (length accounts)))]))
             else if t = ''email.search'' \<or> t = ''email.thread'' then
               bindR (listed_identifiers h
                 (\<lambda>i. (if t = ''email.thread'' then ''email thread message['' else ''email message['') @ int_text (int i) @ ''].'')
                 [''messageId'', ''threadId''] messages) (\<lambda>ids.
               Inr (ids, [(''messageCount'', JInt (int (length messages)))]))
             else if t = ''email.read'' then
               Inr ([], count_field ''toCount'' r ''to'' @ count_field ''ccCount'' r ''cc'' @ count_field ''attachmentCount'' r ''attachments'')
             else Inr ([], [])) (\<lambda>(ids, counts).
          Inr (JObj (unavailable t @ counts @ [(''targetDigest'', list_digest D (own @ ids))] @ payload_digest D v))))
      | _ \<Rightarrow> Inr (JObj (unavailable t)))"

definition projectCalendarOutput :: "durable_env \<Rightarrow> string \<Rightarrow> jsval \<Rightarrow> string + jsval" where
  "projectCalendarOutput D t v =
     (case v of
        JObj r \<Rightarrow>
          let h = hashCalendarProviderIdentifier D;
              entries = (if t = ''calendar.calendars'' then ''calendars'' else if t = ''calendar.events'' then ''events'' else []) in
          bindR (own_identifiers h r (''calendar '' @ t @ '' output.'') [''providerId'', ''accountId'', ''calendarId'', ''eventId'']) (\<lambda>own.
          bindR (if entries = [] then Inr []
                 else listed_identifiers h (\<lambda>i. ''calendar '' @ t @ '' item['' @ int_text (int i) @ ''].'') [''calendarId'', ''eventId'']
                   (take 100 (items r entries))) (\<lambda>ids.
          Inr (JObj (unavailable t @ (if entries = [] then [] else count_field ''itemCount'' r entries) @
            (if t = ''calendar.read'' then count_field ''attendeeCount'' r ''attendees'' else []) @
            [(''targetDigest'', list_digest D (JStr t # own @ ids))] @ payload_digest D v))))
      | _ \<Rightarrow> Inr (JObj (unavailable t)))"

section \<open>Skills and MCP\<close>

definition boundedSkillList :: "jsval \<Rightarrow> jsval" where
  "boundedSkillList v =
     (case v of JArr vs \<Rightarrow> JArr (filter (\<lambda>x. boundedEmailString x 256 \<noteq> None) (take 128 vs)) | _ \<Rightarrow> JArr [])"

definition skill_text :: "durable_env \<Rightarrow> string \<Rightarrow> jsval \<Rightarrow> nat \<Rightarrow> (string \<times> jsval) list" where
  "skill_text D k v m = (case boundedEmailString v m of None \<Rightarrow> [] | Some s \<Rightarrow> digested D k s)"

definition skill_lists :: "(string \<times> jsval) list \<Rightarrow> (string \<times> jsval) list" where
  "skill_lists r = map (\<lambda>k. (k, boundedSkillList (js_field r k))) [''requestedTools'', ''requestedCapabilities'']"

definition catalog_entry :: "durable_env \<Rightarrow> jsval \<Rightarrow> jsval list" where
  "catalog_entry D v =
     (case v of
        JObj r \<Rightarrow>
          (case (boundedEmailString (js_field r ''id'') 64, boundedEmailString (js_field r ''version'') 128, boundedEmailString (js_field r ''name'') 120) of
             (Some i, Some ver, Some n) \<Rightarrow>
               [JObj ([(''id'', JStr i), (''version'', JStr ver), (''name'', JStr n)] @ skill_text D ''description'' (js_field r ''description'') 65536 @ skill_lists r)]
           | _ \<Rightarrow> [])
      | _ \<Rightarrow> [])"

definition projectSkillCatalogOutput :: "durable_env \<Rightarrow> jsval \<Rightarrow> jsval" where
  "projectSkillCatalogOutput D v =
     (case v of
        JObj r \<Rightarrow>
          let entries = concat (map (catalog_entry D) (take 128 (items r ''entries''))) in
          JObj (field_if is_str r ''type'' @ [(''count'', JInt (int (length entries))), (''entries'', JArr entries)])
      | _ \<Rightarrow> JObj [])"

definition projectSkillHydrateOutput :: "durable_env \<Rightarrow> jsval \<Rightarrow> jsval" where
  "projectSkillHydrateOutput D v =
     (case v of
        JObj r \<Rightarrow> JObj (
          concat (map (\<lambda>k. optional k (map_option JStr (boundedEmailString (js_field r k) 256))) [''id'', ''version'', ''name'', ''integrity'']) @
          skill_text D ''description'' (js_field r ''description'') 65536 @
          skill_text D ''skillMarkdown'' (nullish (js_field r ''skillMarkdown'') (js_field r ''content'')) 262144 @ skill_lists r)
      | _ \<Rightarrow> JObj [])"

definition skill_identity :: "durable_env \<Rightarrow> (string \<times> jsval) list \<Rightarrow> (string \<times> jsval) list" where
  "skill_identity D r =
     the_obj (projectSkillLifecycleInput D (JObj (jm_set ''skillId'' (nullish (js_field r ''skillId'') (js_field r ''id'')) r)))"

definition projectSkillLifecycleOutput :: "durable_env \<Rightarrow> jsval \<Rightarrow> jsval" where
  "projectSkillLifecycleOutput D v =
     (case v of
        JObj r \<Rightarrow> JObj (skill_identity D r @
          concat (map (field_if (\<lambda>x. is_str x \<or> is_bool x \<or> is_number x) r) [''type'', ''status'', ''trusted'', ''expiresInSeconds'']) @
          (case js_field r ''skill'' of JObj skill \<Rightarrow> [(''skill'', JObj (skill_identity D skill))] | _ \<Rightarrow> []))
      | _ \<Rightarrow> JObj [])"

definition discovered_tool :: "jsval \<Rightarrow> jsval list" where
  "discovered_tool v =
     (case v of
        JObj r \<Rightarrow>
          if is_str (js_field r ''name'') \<and> is_str (js_field r ''schemaFingerprint'')
          then [JObj [(''name'', js_field r ''name''), (''schemaFingerprint'', js_field r ''schemaFingerprint'')]] else []
      | _ \<Rightarrow> [])"

definition projectMcpDiscoverOutput :: "jsval \<Rightarrow> jsval" where
  "projectMcpDiscoverOutput v =
     (case v of
        JObj r \<Rightarrow> JObj (
          concat (map (field_if (short_text 256) r) [''type'', ''serverId'', ''fingerprint'', ''extensionFingerprint'']) @
          concat (map (field_if safe_integer r) [''generation'', ''discoveredAtMs'', ''expiresAtMs'', ''staleUntilMs'']) @
          [size_field ''toolCount'' r ''tools'', (''tools'', JArr (concat (map discovered_tool (take 128 (items r ''tools'')))))])
      | _ \<Rightarrow> JObj [])"

definition projectMcpInvokeOutput :: "jsval \<Rightarrow> jsval" where
  "projectMcpInvokeOutput v =
     (case v of
        JObj r \<Rightarrow> JObj (
          concat (map (field_if (short_text 256) r) [''status'', ''callId'', ''requestDigest'', ''argumentDigest'', ''resultRef'', ''resultDigest'',
            ''authorizationRef'', ''auditRef'', ''errorCode'']) @
          (if js_field r ''status'' = JStr ''needs-review'' then [(''physicalPending'', JBool True)] else []))
      | _ \<Rightarrow> JObj [])"

section \<open>Agents\<close>

definition when_text :: "(string \<Rightarrow> bool) \<Rightarrow> jsval \<Rightarrow> jsval option" where
  "when_text ok v = (case v of JStr s \<Rightarrow> if ok s then Some v else None | _ \<Rightarrow> None)"

definition boundedAgentIdentifier :: "jsval \<Rightarrow> jsval option" where
  "boundedAgentIdentifier = when_text (\<lambda>s. AGENT_IDENTIFIER s \<and> \<not> AGENT_FORBIDDEN_IDENTITY s)"

definition hex_digest :: "string \<Rightarrow> bool" where
  "hex_digest s \<longleftrightarrow> length s = 64 \<and> list_all lower_hex s"

definition reference_in :: "string list \<Rightarrow> string \<Rightarrow> string \<Rightarrow> bool" where
  "reference_in prefixes extra s \<longleftrightarrow>
     list_ex (\<lambda>p. starts_with s p \<and> matches agent_char (\<lambda>c. agent_char c \<or> c \<in> set extra) 127 (drop (length p) s)) prefixes"

definition error_code :: "string \<Rightarrow> bool" where
  "error_code s \<longleftrightarrow> matches (\<lambda>c. is_upper c \<or> is_lower c) (\<lambda>c. agent_char c \<or> c \<in> set ''_:-'') 127 s"

definition agent_node_report :: "jsval \<Rightarrow> jsval" where
  "agent_node_report v =
     (case v of
        JObj r \<Rightarrow> JObj (
          copyAgentField r ''nodeId'' boundedAgentIdentifier @
          copyAgentField r ''status'' (when_text (\<lambda>s. s \<in> set [''completed'', ''failed'', ''cancelled'', ''needs-review'', ''blocked''])) @
          copyAgentField r ''nodeCallId'' boundedAgentIdentifier @
          concat (map (\<lambda>k. copyAgentField r k (when_text hex_digest)) [''requestDigest'', ''resultDigest'']) @
          copyAgentField r ''auditRef'' (when_text (reference_in [''audit:''] ''._:-'')) @
          copyAgentField r ''resultRef'' (when_text (reference_in [''input:'', ''result:'', ''artifact:'', ''memory:''] ''._-'')) @
          copyAgentField r ''errorCode'' (when_text error_code))
      | _ \<Rightarrow> JObj [(''invalid'', JBool True)])"

definition delegation_report :: "durable_env \<Rightarrow> (string \<times> jsval) list \<Rightarrow> (string \<times> jsval) list" where
  "delegation_report D r =
     copyAgentField r ''graphRunId'' boundedAgentIdentifier @
     copyAgentField r ''principalNamespace'' (boundedAgentPrincipalReference D) @
     copyAgentField r ''graphDigest'' (when_text hex_digest) @
     copyAgentField r ''status'' (when_text (\<lambda>s. s \<in> set [''completed'', ''failed'', ''cancelled'', ''needs-review''])) @
     copyAgentField r ''pendingPhysicalDispatches'' (\<lambda>v. boundedProcessInteger v 0 32) @
     (case js_field r ''nodes'' of
        JArr ns \<Rightarrow> [(''nodes'', JArr (map agent_node_report (take 32 ns)))] @ (if 32 < length ns then [(''nodesTruncated'', JBool True)] else [])
      | JUndef \<Rightarrow> []
      | _ \<Rightarrow> [(''nodesInvalid'', JBool True)])"

definition session_projection :: "durable_env \<Rightarrow> (string \<times> jsval) list \<Rightarrow> (string \<times> jsval) list" where
  "session_projection D r =
     (case (normalizedLiveOnlySessionRetention (js_field r ''durableSessionProjection''), js_field r ''content'') of
        (Some retention, JStr c) \<Rightarrow>
          if js_field (the_obj retention) ''contentDigest'' = JStr (sha256Reference D c)
          then [(''durableSessionProjection'', JObj (the_obj retention @ [(''content'', JStr LIVE_ONLY_SESSION_CONTENT_PLACEHOLDER)]))] else []
      | _ \<Rightarrow> [])"

fun is_object :: "jsval \<Rightarrow> bool" where
  "is_object (JObj r) = True"
| "is_object (JArr vs) = True"
| "is_object _ = False"

definition agent_result :: "durable_env \<Rightarrow> (string \<Rightarrow> string) \<Rightarrow> (string \<times> jsval) list \<Rightarrow> (string \<times> jsval) list" where
  "agent_result D pat r =
     (case js_field r ''content'' of JStr c \<Rightarrow> digested D ''content'' c | _ \<Rightarrow> []) @ session_projection D r @
     concat (map (\<lambda>k. if js_field r k = JUndef then [] else [(k, redactDurableValue pat None False (js_field r k))])
       [''provider'', ''model'', ''usage'', ''answerShape'', ''memory'', ''modelRecovery'']) @
     (if is_object (js_field r ''pendingApproval'') then
        let a = the_obj (js_field r ''pendingApproval'') in
        [(''pendingApproval'', JObj (map (\<lambda>k. (k, js_field a k)) [''type'', ''tool'', ''expiresInSeconds'']))]
      else [])"

definition projectAgentOutput :: "durable_env \<Rightarrow> (string \<Rightarrow> string) \<Rightarrow> jsval \<Rightarrow> bool \<Rightarrow> jsval" where
  "projectAgentOutput D pat v delegation =
     (case v of JObj r \<Rightarrow> JObj (if delegation then delegation_report D r else agent_result D pat r) | _ \<Rightarrow> JObj [])"

section \<open>The projection of a result\<close>

definition projectDurableToolOutput :: "durable_env \<Rightarrow> (string \<Rightarrow> string) \<Rightarrow> string \<Rightarrow> jsval \<Rightarrow> string + jsval" where
  "projectDurableToolOutput D pat t v =
     (if t \<in> {''workspace.mutate'', ''workspace.patch''} then Inr (projectMutationPayload D v)
      else if t = ''process.exec'' then Inr (projectProcessOutput D v)
      else if t \<in> {''agent.run'', ''agent.delegate''} then Inr (projectAgentOutput D pat v (t = ''agent.delegate''))
      else if t = ''skill.catalog'' then Inr (projectSkillCatalogOutput D v)
      else if t = ''skill.hydrate'' then Inr (projectSkillHydrateOutput D v)
      else if t \<in> {''skill.install'', ''skill.lifecycle''} then Inr (projectSkillLifecycleOutput D v)
      else if t = ''mcp.discover'' then Inr (projectMcpDiscoverOutput v)
      else if t = ''mcp.invoke'' then Inr (projectMcpInvokeOutput v)
      else if t = ''session.message'' then Inr (projectSessionMessage v)
      else if t \<in> {''github.repository'', ''github.issue'', ''github.pull-request'', ''github.checks''} then Inr (projectGitHubOutput D t v)
      else if t \<in> {''node.status'', ''node.diagnostics''} then Inr (projectRemoteNodeOutput D t v)
      else if t \<in> {''email.accounts'', ''email.search'', ''email.read'', ''email.thread''} then projectEmailOutput D t v
      else if t \<in> {''calendar.calendars'', ''calendar.events'', ''calendar.read''} then projectCalendarOutput D t v
      else if t \<in> {''computer.screen'', ''computer.act'', ''computer.recovery.status'', ''computer.recovery.resolve''} then Inr (projectComputerOutput D t v)
      else if starts_with t ''git.'' then Inr (projectGitOutput t v)
      else if \<not> starts_with t ''workspace.'' then Inr v
      else projectWorkspaceOutput t v)"

section \<open>Live content in a session\<close>

definition projectLiveOnlySessionContent :: "durable_env \<Rightarrow> jsval \<Rightarrow> jsval" where
  "projectLiveOnlySessionContent D v =
     (let t = (case v of JStr s \<Rightarrow> s | _ \<Rightarrow> []) in
      JObj ([(''schemaVersion'', JInt 1), (''mode'', JStr ''live-only-provider-read''), (''content'', JStr LIVE_ONLY_SESSION_CONTENT_PLACEHOLDER),
        (''contentUnavailable'', JBool True)] @ digested D ''content'' t))"

text \<open>An identifier of a provider is kept when it is opaque, else hashed.\<close>

definition OPAQUE_EMAIL_IDENTIFIER :: "string \<Rightarrow> bool" where
  "OPAQUE_EMAIL_IDENTIFIER s \<longleftrightarrow> matches agent_char (\<lambda>c. agent_char c \<or> c \<in> set ''._:/#-'') 255 s"

definition durableEmailProviderIdentifier :: "durable_env \<Rightarrow> jsval \<Rightarrow> string \<Rightarrow> string + string" where
  "durableEmailProviderIdentifier D v label =
     (case boundedComputerString v 256 of
        Some s \<Rightarrow> if OPAQUE_EMAIL_IDENTIFIER s then Inr s else hashEmailProviderIdentifier D v label
      | None \<Rightarrow> hashEmailProviderIdentifier D v label)"

section \<open>Requests and audit events\<close>

definition AUDIT_SCHEMA_VERSION :: int where "AUDIT_SCHEMA_VERSION = 1"

fun trimmed :: "jsval \<Rightarrow> string option" where
  "trimmed (JStr s) = (if js_trim s \<noteq> [] then Some (js_trim s) else None)"
| "trimmed _ = None"

definition normalizeTaskRequest :: "string \<Rightarrow> jsval \<Rightarrow> string + jsval" where
  "normalizeTaskRequest uuid v =
     (case v of
        JObj r \<Rightarrow>
          (case trimmed (js_field r ''tool'') of
             None \<Rightarrow> Inl ''task request requires a non-empty tool''
           | Some tool \<Rightarrow>
               Inr (JObj ([(''id'', if trimmed (js_field r ''id'') \<noteq> None then js_field r ''id'' else JStr (''run_'' @ uuid)), (''tool'', JStr tool),
                 (''input'', if is_obj (js_field r ''input'') then js_field r ''input'' else JObj []),
                 (''actor'', JStr (case trimmed (js_field r ''actor'') of None \<Rightarrow> ''local'' | Some a \<Rightarrow> a))] @
                 optional ''reason'' (map_option JStr (trimmed (js_field r ''reason''))))))
      | _ \<Rightarrow> Inl ''task request must be an object'')"

definition normalizeAuditEvent :: "string \<Rightarrow> jsval \<Rightarrow> string + jsval" where
  "normalizeAuditEvent now v =
     (case v of
        JObj r \<Rightarrow>
          if trimmed (js_field r ''runId'') = None then Inl ''audit event requires runId''
          else if trimmed (js_field r ''type'') = None then Inl ''audit event requires type''
          else Inr (JObj ([(''schemaVersion'', JInt AUDIT_SCHEMA_VERSION), (''at'', if is_str (js_field r ''at'') then js_field r ''at'' else JStr now),
            (''runId'', js_field r ''runId''), (''type'', js_field r ''type''),
            (''actor'', if is_str (js_field r ''actor'') then js_field r ''actor'' else JStr ''local'')] @
            concat (map (field_if is_str r) [''tool'', ''capability'', ''decision'', ''message'']) @ field_if is_obj r ''data''))
      | _ \<Rightarrow> Inl ''audit event must be an object'')"

text \<open>A request that has been normalised is not changed again.\<close>

lemma normalizeTaskRequest_idem:
  assumes "normalizeTaskRequest u v = Inr w" "js_trim (''run_'' @ u) \<noteq> []"
  shows "normalizeTaskRequest u' w = Inr w"
proof -
  obtain r tool where r: "v = JObj r" "trimmed (js_field r ''tool'') = Some tool"
    using assms(1) by (auto simp: normalizeTaskRequest_def split: jsval.splits option.splits)
  have t: "trimmed v = Some s \<Longrightarrow> trimmed (JStr s) = Some s" for v s by (cases v) (auto split: if_splits)
  have actor: "js_trim ''local'' = ''local''" by (rule js_trim_plain) code_simp
  show ?thesis
    using assms r actor t [OF r(2)] t [of "js_field r ''actor''"] t [of "js_field r ''reason''"]
    by (auto simp: normalizeTaskRequest_def optional_def split: option.splits if_splits)
qed

section \<open>What the providers of mail, calendars and code return is not stored\<close>

text \<open>
  The counts a stored result may hold: of the elements of lists that are named, all or the first hundred of them,
  and of at most thirty-two accounts.
\<close>

definition stored_counts :: "(string \<times> jsval) list \<Rightarrow> (string \<times> nat) set" where
  "stored_counts r =
     {(''itemCount'', length (items r ''checks'')), (''itemCount'', length (items r ''labels'')),
      (''itemCount'', length (items r ''calendars'')), (''itemCount'', length (items r ''events'')),
      (''messageCount'', min 100 (length (items r ''messages''))), (''toCount'', length (items r ''to'')),
      (''ccCount'', length (items r ''cc'')), (''attachmentCount'', length (items r ''attachments'')),
      (''attendeeCount'', length (items r ''attendees''))} \<union>
     {''accountCount''} \<times> {..min 32 (length (items r ''accounts''))}"

text \<open>
  A field of a stored result: the name of the tool, the mark that the content is not there, the digest of some
  target, the digest and the length of the whole output, or one of the counts.
\<close>

definition shown :: "durable_env \<Rightarrow> string \<Rightarrow> jsval \<Rightarrow> string \<times> jsval \<Rightarrow> bool" where
  "shown D t v p \<longleftrightarrow>
     p = (''type'', JStr t) \<or> p = (''contentUnavailableOnReplay'', JBool True) \<or>
     p \<in> {''targetDigest''} \<times> range (\<lambda>s. JStr (sha256Reference D s)) \<or>
     p = (''payloadDigest'', JStr (sha256Reference D (encoded v))) \<or> p = (''payloadBytes'', JInt (int (length (encoded v)))) \<or>
     p \<in> (\<lambda>(name, n). (name, JInt (int n))) ` stored_counts (the_obj v)"

lemma shown_parts [simp]:
  "list_all (shown D t v) (unavailable t)" "list_all (shown D t v) (payload_digest D v)" "shown D t v (''targetDigest'', list_digest D vs)"
  by (auto simp: shown_def unavailable_def payload_digest_def text_size_def list_digest_def)

lemma shown_count: "(name, n) \<in> stored_counts (the_obj v) \<Longrightarrow> shown D t v (name, JInt (int n))"
  unfolding shown_def by force

lemma shown_count_field: "(name, length (items (the_obj v) k)) \<in> stored_counts (the_obj v) \<Longrightarrow> list_all (shown D t v) (count_field name (the_obj v) k)"
  by (auto simp: count_field_def items_def intro!: shown_count split: jsval.splits)

lemma shown_counts [simp]:
  "list_all (shown D t (JObj r)) (count_field ''itemCount'' r ''checks'')" "list_all (shown D t (JObj r)) (count_field ''itemCount'' r ''labels'')"
  "list_all (shown D t (JObj r)) (count_field ''itemCount'' r ''calendars'')" "list_all (shown D t (JObj r)) (count_field ''itemCount'' r ''events'')"
  "list_all (shown D t (JObj r)) (count_field ''toCount'' r ''to'')" "list_all (shown D t (JObj r)) (count_field ''ccCount'' r ''cc'')"
  "list_all (shown D t (JObj r)) (count_field ''attachmentCount'' r ''attachments'')"
  "list_all (shown D t (JObj r)) (count_field ''attendeeCount'' r ''attendees'')"
  "shown D t (JObj r) (''messageCount'', JInt (int (min (length (items r ''messages'')) 100)))"
  using shown_count_field [of _ "JObj r", unfolded the_obj.simps] shown_count [of "''messageCount''" "min 100 (length (items r ''messages''))" "JObj r"]
  by (simp_all only: stored_counts_def min.commute [of 100] the_obj.simps) (simp_all only: Un_iff insert_iff simp_thms)

lemma shown_accounts: "n \<le> 32 \<Longrightarrow> n \<le> length (items r ''accounts'') \<Longrightarrow> shown D t (JObj r) (''accountCount'', JInt (int n))"
  by (rule shown_count) (simp add: stored_counts_def)

lemma one_identifier:
  assumes "listed_identifiers h label [k] vs = Inr ds"
  shows "length ds \<le> length vs"
proof -
  from assms obtain xs where xs: "mapR (\<lambda>(i, v). held_identifiers h (label i) [k] v) (enumerate 0 vs) = Inr xs" "ds = concat xs"
    by (auto simp: listed_identifiers_def bindR_Inr_iff)
  have one: "length ys \<le> Suc 0" if "held_identifiers h l [k] v = Inr ys" for l v ys
  proof (cases v)
    case (JObj r)
    with that show ?thesis by (cases "hasOwn r k") (auto simp: held_identifiers_def bindR_Inr_iff)
  qed (use that in \<open>simp_all add: held_identifiers_def\<close>)
  have "list_all2 (\<lambda>(i, v) ys. held_identifiers h (label i) [k] v = Inr ys) (enumerate 0 vs) xs"
    using xs(1) by (simp add: mapR_Inr_iff case_prod_beta')
  then have "list_all2 (\<lambda>_ ys. length ys \<le> Suc 0) (enumerate 0 vs) xs"
    by (rule list_all2_mono) (auto intro: one)
  then have "length (concat xs) \<le> length (enumerate 0 vs)"
    by (induction rule: list_all2_induct) auto
  then show ?thesis by (simp add: xs(2))
qed

lemma shown_assign: "list_all (shown D t v) a \<Longrightarrow> list_all (shown D t v) b \<Longrightarrow> list_all (shown D t v) (js_assign a b)"
  using js_assign_subset [of a b] unfolding list_all_iff by blast

lemma github_shown: "\<exists>fs. projectGitHubOutput D t v = JObj fs \<and> list_all (shown D t v) fs"
proof (cases v)
  case (JObj r)
  show ?thesis
    unfolding projectGitHubOutput_def JObj jsval.case by (rule exI, rule conjI [OF refl], rule shown_assign) simp_all
qed (simp_all add: projectGitHubOutput_def)

lemma email_shown:
  assumes "projectEmailOutput D t v = Inr w"
  shows "\<exists>fs. w = JObj fs \<and> list_all (shown D t v) fs"
proof (cases v)
  case (JObj r)
  have "shown D t (JObj r) (''accountCount'', JInt (int (length ds)))" if "listed_identifiers h l [k] (take 32 (items r ''accounts'')) = Inr ds" for h l k ds
    using one_identifier [OF that] by (intro shown_accounts) simp_all
  with assms JObj show ?thesis
    by (auto simp: projectEmailOutput_def Let_def bindR_Inr_iff split: if_splits)
qed (use assms in \<open>auto simp: projectEmailOutput_def\<close>)

lemma calendar_shown:
  assumes "projectCalendarOutput D t v = Inr w"
  shows "\<exists>fs. w = JObj fs \<and> list_all (shown D t v) fs"
  using assms by (cases v) (auto simp: projectCalendarOutput_def Let_def bindR_Inr_iff split: if_splits)

text \<open>
  C35. Of what a mail, calendar or code provider returns nothing is stored but the name of the tool, a digest
  of the target, the digest and the length of the whole output, and counts of named lists: whatever the output,
  every field of the stored result is one of these, so no text, number, truth value or name of the provider is.
\<close>

theorem provider_output_hidden:
  assumes "t \<in> {''github.repository'', ''github.issue'', ''github.pull-request'', ''github.checks'',
      ''email.accounts'', ''email.search'', ''email.read'', ''email.thread'', ''calendar.calendars'', ''calendar.events'', ''calendar.read''}"
    and "projectDurableToolOutput D pat t v = Inr w"
  shows "\<exists>fs. w = JObj fs \<and> list_all (\<lambda>p.
      p = (''type'', JStr t) \<or> p = (''contentUnavailableOnReplay'', JBool True) \<or>
      p \<in> {''targetDigest''} \<times> range (\<lambda>s. JStr (sha256Reference D s)) \<or>
      p = (''payloadDigest'', JStr (sha256Reference D (encoded v))) \<or> p = (''payloadBytes'', JInt (int (length (encoded v)))) \<or>
      p \<in> (\<lambda>(name, n). (name, JInt (int n))) ` stored_counts (the_obj v)) fs"
proof -
  from assms consider "w = projectGitHubOutput D t v" | "projectEmailOutput D t v = Inr w" | "projectCalendarOutput D t v = Inr w"
    by (auto simp: projectDurableToolOutput_def)
  then have "\<exists>fs. w = JObj fs \<and> list_all (shown D t v) fs" by cases (simp_all only: github_shown email_shown calendar_shown)
  then show ?thesis unfolding shown_def .
qed

theorem provider_output_hidden_witness:
  "\<exists>fs. projectDurableToolOutput \<lparr>de_hash = (\<lambda>s. ''h''), de_lower = (\<lambda>s. s)\<rparr> (\<lambda>s. s) ''email.read''
      (JObj [(''messageId'', JStr ''m''), (''body'', JStr ''secret''), (''to'', JArr [JStr ''a''])]) = Inr (JObj fs) \<and>
    (''body'', JStr ''secret'') \<notin> set fs"
proof -
  let ?D = "\<lparr>de_hash = (\<lambda>s. ''h''), de_lower = (\<lambda>s. s)\<rparr>" and ?v = "JObj [(''messageId'', JStr ''m''), (''body'', JStr ''secret''), (''to'', JArr [JStr ''a''])]"
  have "case projectDurableToolOutput ?D (\<lambda>s. s) ''email.read'' ?v of Inl e \<Rightarrow> False | Inr w \<Rightarrow> True" by code_simp
  then obtain w where w: "projectDurableToolOutput ?D (\<lambda>s. s) ''email.read'' ?v = Inr w" by (auto split: sum.splits)
  from provider_output_hidden [OF _ this] obtain fs where fs: "w = JObj fs" "list_all (shown ?D ''email.read'' ?v) fs"
    unfolding shown_def by auto
  have "\<not> shown ?D ''email.read'' ?v (''body'', JStr ''secret'')" by (auto simp: shown_def)
  with w fs show ?thesis by (auto simp: list_all_iff)
qed

end
