(* ===== verification/Execution_Envelope.thy ===== *)
theory Execution_Envelope
  imports Prelude
begin

text \<open>
  The envelope of an execution, \<open>packages/protocol/src/execution-envelope.ts\<close>: every field is checked and
  copied, unknown fields are refused, and the digest is that of the canonical text.  An envelope is the
  object of its fields, in the order in which the code writes them.  Parsing from text
  (\<open>parseExecutionEnvelopeV1\<close>) is not modelled; SHA-256 is an argument.
\<close>

section \<open>Fields\<close>

definition MAX_EXECUTION_ENVELOPE_BYTES :: nat where "MAX_EXECUTION_ENVELOPE_BYTES = 65536"
definition MAX_ID_BYTES :: nat where "MAX_ID_BYTES = 256"
definition MAX_REFERENCE_BYTES :: nat where "MAX_REFERENCE_BYTES = 2048"
definition MAX_WORKSPACE_ROOT_BYTES :: nat where "MAX_WORKSPACE_ROOT_BYTES = 4096"
definition MAX_LIST_ITEMS :: nat where "MAX_LIST_ITEMS = 128"
definition MAX_ENVELOPE_TIMEOUT_MS :: int where "MAX_ENVELOPE_TIMEOUT_MS = 86400000"

definition exactObject :: "jsval \<Rightarrow> string \<Rightarrow> string list \<Rightarrow> string + (string \<times> jsval) list" where
  "exactObject v name allowed =
     (case v of
        JObj r \<Rightarrow>
          (case filter (\<lambda>k. k \<notin> set allowed) (map fst r) of
             [] \<Rightarrow> Inr r
           | k # _ \<Rightarrow> Inl (name @ '' contains unknown field: '' @ k))
      | _ \<Rightarrow> Inl (name @ '' must be an object''))"

definition boundedString :: "jsval \<Rightarrow> string \<Rightarrow> nat \<Rightarrow> string + string" where
  "boundedString v name m =
     (case v of
        JStr s \<Rightarrow>
          if s = [] then Inl (name @ '' must be a non-empty string'')
          else if js_trim s \<noteq> s then Inl (name @ '' cannot have leading or trailing whitespace'')
          else if m < length s then Inl (name @ '' exceeds '' @ int_text (int m) @ '' bytes'')
          else Inr s
      | _ \<Rightarrow> Inl (name @ '' must be a non-empty string''))"

definition envelope_alnum :: "char \<Rightarrow> bool" where
  "envelope_alnum c \<longleftrightarrow> is_upper c \<or> is_lower c \<or> is_digit c"

definition opaque_text :: "string \<Rightarrow> string \<Rightarrow> bool" where
  "opaque_text extra s \<longleftrightarrow> (case s of [] \<Rightarrow> False | c # cs \<Rightarrow> envelope_alnum c \<and> list_all (\<lambda>c. envelope_alnum c \<or> c \<in> set extra) cs)"

definition envelope_identifier :: "jsval \<Rightarrow> string \<Rightarrow> string + jsval" where
  "envelope_identifier v name =
     bindR (boundedString v name MAX_ID_BYTES) (\<lambda>s.
     if opaque_text ''._:/-'' s then Inr (JStr s) else Inl (name @ '' contains unsupported characters''))"

definition envelope_reference :: "jsval \<Rightarrow> string \<Rightarrow> string + jsval" where
  "envelope_reference v name =
     bindR (boundedString v name MAX_REFERENCE_BYTES) (\<lambda>s.
     if opaque_text ''._:/#-'' s then Inr (JStr s) else Inl (name @ '' must be an opaque non-secret reference''))"

definition hex64 :: "string \<Rightarrow> bool" where
  "hex64 s \<longleftrightarrow> length s = 64 \<and> list_all (\<lambda>c. is_digit c \<or> c \<in> set ''abcdef'') s"

definition sha256_text :: "jsval \<Rightarrow> string \<Rightarrow> string + jsval" where
  "sha256_text v name = (if is_str v \<and> hex64 (the_str v) then Inr v else Inl (name @ '' must be a lowercase SHA-256 digest''))"

definition envelopeInteger :: "jsval \<Rightarrow> string \<Rightarrow> int \<Rightarrow> string + jsval" where
  "envelopeInteger v name m =
     (case v of
        JInt n \<Rightarrow>
          if is_safe_int n \<and> 1 \<le> n \<and> n \<le> m then Inr (JInt n)
          else Inl (name @ '' must be a positive safe integer no greater than '' @ int_text m)
      | _ \<Rightarrow> Inl (name @ '' must be a positive safe integer no greater than '' @ int_text m))"

definition enumValue :: "jsval \<Rightarrow> string \<Rightarrow> string list \<Rightarrow> string + jsval" where
  "enumValue v name values = (if is_str v \<and> the_str v \<in> set values then Inr v else Inl (name @ '' has an unsupported value''))"

text \<open>Fields checked one after the other: each is read, checked and written; an absent one may be left out.\<close>

definition checked_fields ::
    "(string \<times> bool \<times> (jsval \<Rightarrow> string \<Rightarrow> string + jsval)) list \<Rightarrow> string \<Rightarrow> (string \<times> jsval) list \<Rightarrow> string + (string \<times> jsval) list" where
  "checked_fields spec prefix r =
     bindR (mapR (\<lambda>(k, need, check).
       if \<not> need \<and> js_field r k = JUndef then Inr [] else bindR (check (js_field r k) (prefix @ k)) (\<lambda>v. Inr [(k, v)])) spec) (\<lambda>fs.
     Inr (concat fs))"

section \<open>Parts of an envelope\<close>

definition executionIdentity :: "jsval \<Rightarrow> string \<Rightarrow> string + jsval" where
  "executionIdentity v name =
     bindR (exactObject v ''execution'' [''kind'', ''id'']) (\<lambda>r.
     bindR (checked_fields
       [(''kind'', True, \<lambda>v n. enumValue v n [''tool'', ''agent'', ''skill'', ''mcp-tool'', ''workflow-node'']),
        (''id'', True, envelope_identifier)] ''execution.'' r) (\<lambda>fs. Inr (JObj fs)))"

definition approval_requirement :: "nat \<times> jsval \<Rightarrow> string + jsval" where
  "approval_requirement p =
     (case p of (i, v) \<Rightarrow>
        let name = ''approvalRequirements['' @ int_text (int i) @ '']'' in
        bindR (exactObject v name [''capability'', ''approvalId'']) (\<lambda>r.
        bindR (checked_fields [(''capability'', True, envelope_identifier), (''approvalId'', False, envelope_identifier)] (name @ ''.'') r) (\<lambda>fs.
        Inr (JObj fs))))"

definition approvalRequirements :: "jsval \<Rightarrow> string \<Rightarrow> string + jsval" where
  "approvalRequirements v name =
     (case v of
        JArr vs \<Rightarrow>
          if MAX_LIST_ITEMS < length vs then Inl ''approvalRequirements cannot contain more than 128 items''
          else bindR (mapR approval_requirement (enumerate 0 vs)) (\<lambda>ws. Inr (JArr ws))
      | _ \<Rightarrow> Inl ''approvalRequirements must be an array'')"

definition resourceLimits :: "jsval \<Rightarrow> string \<Rightarrow> string + jsval" where
  "resourceLimits v name =
     bindR (exactObject v ''resourceLimits''
       [''maxInputBytes'', ''maxOutputBytes'', ''maxPersistedStateBytes'', ''maxConcurrency'', ''memoryBytes'', ''cpuTimeMs'', ''processCount'']) (\<lambda>r.
     bindR (checked_fields
       (map (\<lambda>k. (k, True, \<lambda>v n. envelopeInteger v n MAX_SAFE_INTEGER)) [''maxInputBytes'', ''maxOutputBytes'', ''maxPersistedStateBytes'', ''maxConcurrency''] @
        map (\<lambda>k. (k, False, \<lambda>v n. envelopeInteger v n MAX_SAFE_INTEGER)) [''memoryBytes'', ''cpuTimeMs'', ''processCount''])
       ''resourceLimits.'' r) (\<lambda>fs. Inr (JObj fs)))"

definition referenceList :: "jsval \<Rightarrow> string \<Rightarrow> string + jsval" where
  "referenceList v name =
     (case v of
        JArr vs \<Rightarrow>
          if MAX_LIST_ITEMS < length vs then Inl (name @ '' cannot contain more than 128 items'')
          else
            bindR (mapR (\<lambda>(i, x). envelope_reference x (name @ ''['' @ int_text (int i) @ '']'')) (enumerate 0 vs)) (\<lambda>ws.
            if distinct ws then Inr (JArr ws) else Inl (name @ '' cannot contain duplicate references''))
      | _ \<Rightarrow> Inl (name @ '' must be an array''))"

section \<open>Envelopes\<close>

text \<open>The fields in the order in which they are read and written.\<close>

definition envelope_spec :: "(string \<times> bool \<times> (jsval \<Rightarrow> string \<Rightarrow> string + jsval)) list" where
  "envelope_spec =
     [(''runId'', True, envelope_identifier), (''principalId'', True, envelope_identifier), (''execution'', True, executionIdentity),
      (''inputDigest'', True, sha256_text), (''inputReference'', True, envelope_reference),
      (''capabilityDecisionReferences'', True, referenceList), (''approvalRequirements'', True, approvalRequirements),
      (''timeoutMs'', True, \<lambda>v n. envelopeInteger v n MAX_ENVELOPE_TIMEOUT_MS), (''resourceLimits'', True, resourceLimits),
      (''idempotencyKey'', True, envelope_identifier),
      (''retrySafety'', True, \<lambda>v n. enumValue v n [''retry-safe'', ''not-retry-safe'', ''unknown'']),
      (''workspaceRoot'', True, \<lambda>v n. bindR (boundedString v n MAX_WORKSPACE_ROOT_BYTES) (\<lambda>s. Inr (JStr s))),
      (''sandboxProfile'', True, envelope_identifier), (''auditCorrelationId'', True, envelope_identifier),
      (''cancellationControlReference'', True, envelope_reference),
      (''parentRunId'', False, envelope_identifier), (''sessionId'', False, envelope_identifier), (''projectId'', False, envelope_identifier),
      (''expectedResultReference'', False, envelope_reference), (''verificationContractReference'', False, envelope_reference)]"

definition validateExecutionEnvelopeV1 :: "jsval \<Rightarrow> string + (string \<times> jsval) list" where
  "validateExecutionEnvelopeV1 v =
     bindR (exactObject v ''execution envelope'' (''version'' # map fst envelope_spec)) (\<lambda>r.
     if js_field r ''version'' \<noteq> JInt 1 then Inl (''unsupported execution envelope version: '' @ js_String (js_field r ''version''))
     else
       bindR (checked_fields envelope_spec [] r) (\<lambda>fs.
       let e = (''version'', JInt 1) # fs in
       if js_field e ''inputReference'' \<noteq> JStr (''artifact:sha256:'' @ the_str (js_field e ''inputDigest''))
       then Inl ''inputReference must identify the artifact authenticated by inputDigest''
       else if MAX_EXECUTION_ENVELOPE_BYTES < length (canonicalJson (JObj e)) then Inl ''execution envelope exceeds 65536 bytes''
       else Inr e))"

definition canonicalizeExecutionEnvelopeV1 :: "jsval \<Rightarrow> string + string" where
  "canonicalizeExecutionEnvelopeV1 v = bindR (validateExecutionEnvelopeV1 v) (\<lambda>e. Inr (canonicalJson (JObj e)))"

definition digestExecutionEnvelopeV1 :: "(string \<Rightarrow> string) \<Rightarrow> jsval \<Rightarrow> string + string" where
  "digestExecutionEnvelopeV1 H v = bindR (canonicalizeExecutionEnvelopeV1 v) (\<lambda>t. Inr (H t))"

section \<open>A checked envelope is not changed again\<close>

definition settles :: "(jsval \<Rightarrow> string \<Rightarrow> string + jsval) \<Rightarrow> bool" where
  "settles c \<longleftrightarrow> (\<forall>v n w. c v n = Inr w \<longrightarrow> c w n = Inr w \<and> w \<noteq> JUndef)"

lemma settlesD: "settles c \<Longrightarrow> c v n = Inr w \<Longrightarrow> c w n = Inr w \<and> w \<noteq> JUndef"
  by (simp add: settles_def)

lemma field_other: "k \<notin> fst ` set a \<Longrightarrow> js_field (a @ b) k = js_field b k"
  by (induction a) auto

text \<open>The fields that one entry of a specification gives, and those of the rest.\<close>

lemma checked_Nil [simp]: "checked_fields [] p r = Inr fs \<longleftrightarrow> fs = []"
  by (auto simp: checked_fields_def)

lemma checked_Cons:
  "checked_fields ((k, need, c) # spec) p r = Inr fs \<longleftrightarrow>
     (\<exists>a bs. (if \<not> need \<and> js_field r k = JUndef then a = [] else (\<exists>v. c (js_field r k) (p @ k) = Inr v \<and> a = [(k, v)])) \<and>
        fs = a @ bs \<and> checked_fields spec p r = Inr bs)"
  by (auto simp: checked_fields_def bindR_Inr_iff)

lemma checked_keys: "checked_fields spec p r = Inr fs \<Longrightarrow> fst ` set fs \<subseteq> fst ` set spec"
proof (induction spec arbitrary: fs)
  case (Cons s spec)
  obtain k need c where s: "s = (k, need, c)" by (cases s)
  from Cons.prems obtain a bs where "a = [] \<or> (\<exists>v. a = [(k, v)])" "fs = a @ bs" "checked_fields spec p r = Inr bs"
    unfolding s checked_Cons by (auto split: if_splits)
  with Cons.IH [of bs] show ?case by (auto simp: s)
qed simp

lemma checked_idem:
  assumes "checked_fields spec p r = Inr fs" "distinct (map fst spec)" "\<forall>(k, need, c)\<in>set spec. settles c"
    "\<And>k. k \<in> fst ` set spec \<Longrightarrow> js_field r' k = js_field fs k"
  shows "checked_fields spec p r' = Inr fs"
  using assms
proof (induction spec arbitrary: fs)
  case Nil
  then show ?case by simp
next
  case (Cons s spec)
  obtain k need c where s: "s = (k, need, c)" by (cases s)
  have c: "settles c" using Cons.prems(3) s by simp
  from Cons.prems(1) obtain a bs where a: "(if \<not> need \<and> js_field r k = JUndef then a = [] else (\<exists>v. c (js_field r k) (p @ k) = Inr v \<and> a = [(k, v)]))"
      "fs = a @ bs" "checked_fields spec p r = Inr bs"
    unfolding s checked_Cons by blast
  have out: "k \<notin> fst ` set bs" using checked_keys [OF a(3)] Cons.prems(2) s by auto
  have rest: "js_field r' j = js_field bs j" if "j \<in> fst ` set spec" for j
  proof -
    have "j \<noteq> k" using that Cons.prems(2) s by auto
    then have "js_field fs j = js_field bs j" using a(1,2) by (auto simp: field_other split: if_splits)
    then show ?thesis using Cons.prems(4) that by simp
  qed
  have ih: "checked_fields spec p r' = Inr bs"
    by (rule Cons.IH [OF a(3)]) (use Cons.prems rest in auto)
  have own: "js_field r' k = js_field (a @ bs) k" using Cons.prems(4) s a(2) by simp
  have "if \<not> need \<and> js_field r' k = JUndef then a = [] else (\<exists>v. c (js_field r' k) (p @ k) = Inr v \<and> a = [(k, v)])"
  proof (cases "\<not> need \<and> js_field r k = JUndef")
    case True
    then have "js_field r' k = JUndef" "a = []" using a(1) own out by (auto simp: js_field_none)
    with True show ?thesis by simp
  next
    case False
    then obtain v where v: "c (js_field r k) (p @ k) = Inr v" "a = [(k, v)]" using a(1) by auto
    have "js_field r' k = v" using own v(2) by simp
    with settlesD [OF c v(1)] v(2) show ?thesis by auto
  qed
  with ih a(2) show ?case unfolding s checked_Cons by blast
qed

text \<open>The checks of the parts.\<close>

lemma settles_text:
  "settles envelope_identifier" "settles envelope_reference" "settles sha256_text" "settles (\<lambda>v n. envelopeInteger v n m)"
  "settles (\<lambda>v n. enumValue v n ts)" "settles (\<lambda>v n. bindR (boundedString v n k) (\<lambda>s. Inr (JStr s)))"
  by (auto simp: settles_def envelope_identifier_def envelope_reference_def sha256_text_def envelopeInteger_def enumValue_def boundedString_def
      bindR_Inr_iff split: jsval.splits if_splits)

lemma exactObject_Inr: "exactObject v name ks = Inr r \<longleftrightarrow> v = JObj r \<and> fst ` set r \<subseteq> set ks"
proof (cases v)
  case (JObj o')
  have "filter (\<lambda>k. k \<notin> set ks) (map fst o') = [] \<longleftrightarrow> fst ` set o' \<subseteq> set ks" by (auto simp: filter_empty_conv)
  with JObj show ?thesis by (cases "filter (\<lambda>k. k \<notin> set ks) (map fst o')") (auto simp: exactObject_def)
qed (simp_all add: exactObject_def)

lemma settles_object:
  assumes "distinct (map fst spec)" "\<forall>(k, need, c)\<in>set spec. settles c" "fst ` set spec \<subseteq> set ks"
  shows "settles (\<lambda>v n. bindR (exactObject v name ks) (\<lambda>r. bindR (checked_fields spec p r) (\<lambda>fs. Inr (JObj fs))))"
  unfolding settles_def
proof (intro allI impI)
  fix v n w assume "bindR (exactObject v name ks) (\<lambda>r. bindR (checked_fields spec p r) (\<lambda>fs. Inr (JObj fs))) = Inr w"
  then obtain r fs where r: "checked_fields spec p r = Inr fs" "w = JObj fs" by (auto simp: bindR_Inr_iff)
  have "checked_fields spec p fs = Inr fs" by (rule checked_idem [OF r(1) assms(1,2)]) simp
  moreover have "exactObject w name ks = Inr fs" using checked_keys [OF r(1)] assms(3) r(2) by (auto simp: exactObject_Inr)
  ultimately show "bindR (exactObject w name ks) (\<lambda>r. bindR (checked_fields spec p r) (\<lambda>fs. Inr (JObj fs))) = Inr w \<and> w \<noteq> JUndef"
    using r(2) by simp
qed

lemma settles_list:
  assumes "\<And>i v w. c (i, v) = Inr w \<Longrightarrow> c (i, w) = Inr w"
  shows "mapR c (enumerate j vs) = Inr ws \<Longrightarrow> mapR c (enumerate j ws) = Inr ws"
proof (induction vs arbitrary: j ws)
  case (Cons v vs)
  then obtain w us where w: "c (j, v) = Inr w" "mapR c (enumerate (Suc j) vs) = Inr us" "ws = w # us"
    by (auto simp: bindR_Inr_iff)
  with assms [OF w(1)] Cons.IH [OF w(2)] show ?case by simp
qed simp

lemma settles_parts: "settles executionIdentity" "settles resourceLimits" "settles approvalRequirements" "settles referenceList"
proof -
  show "settles executionIdentity"
    unfolding executionIdentity_def [abs_def] by (rule settles_object) (simp_all add: settles_text)
  show "settles resourceLimits"
    unfolding resourceLimits_def [abs_def] by (rule settles_object) (simp_all add: settles_text)
  have req: "approval_requirement (i, w) = Inr w" if "approval_requirement (i, v) = Inr w" for i v w
  proof -
    have "settles (\<lambda>v n. bindR (exactObject v (''approvalRequirements['' @ int_text (int i) @ '']'') [''capability'', ''approvalId''])
        (\<lambda>r. bindR (checked_fields [(''capability'', True, envelope_identifier), (''approvalId'', False, envelope_identifier)]
          ((''approvalRequirements['' @ int_text (int i) @ '']'') @ ''.'') r) (\<lambda>fs. Inr (JObj fs))))"
      by (rule settles_object) (simp_all add: settles_text)
    from settlesD [OF this, of v w] that show ?thesis by (simp add: approval_requirement_def Let_def)
  qed
  have reqs: "mapR approval_requirement (enumerate j ws) = Inr ws" if "mapR approval_requirement (enumerate j vs) = Inr ws" for j vs ws
    by (rule settles_list [OF req that])
  show "settles approvalRequirements"
    unfolding settles_def approvalRequirements_def
    by (auto simp: bindR_Inr_iff mapR_length dest: reqs split: jsval.splits if_splits)
  have ref: "(case (i, w) of (i, x) \<Rightarrow> envelope_reference x (n @ ''['' @ int_text (int i) @ '']'')) = Inr w"
    if "(case (i, v) of (i, x) \<Rightarrow> envelope_reference x (n @ ''['' @ int_text (int i) @ '']'')) = Inr w" for i v w n
    using that settlesD [OF settles_text(2)] by auto
  have refs: "mapR (\<lambda>(i, x). envelope_reference x (n @ ''['' @ int_text (int i) @ '']'')) (enumerate j ws) = Inr ws"
    if "mapR (\<lambda>(i, x). envelope_reference x (n @ ''['' @ int_text (int i) @ '']'')) (enumerate j vs) = Inr ws" for j vs ws n
    by (rule settles_list [OF ref that])
  show "settles referenceList"
    unfolding settles_def
  proof (intro allI impI)
    fix v n w assume "referenceList v n = Inr w"
    then obtain vs ws where v: "v = JArr vs" "\<not> MAX_LIST_ITEMS < length vs" "distinct ws" "w = JArr ws"
        "mapR (\<lambda>(i, x). envelope_reference x (n @ ''['' @ int_text (int i) @ '']'')) (enumerate 0 vs) = Inr ws"
      by (auto simp: referenceList_def bindR_Inr_iff split: jsval.splits if_splits)
    with refs [OF v(5)] mapR_length [OF v(5)] show "referenceList w n = Inr w \<and> w \<noteq> JUndef" by (simp add: referenceList_def)
  qed
qed

text \<open>So an accepted envelope is a fixed point of the validation.\<close>

lemma validated:
  assumes "validateExecutionEnvelopeV1 v = Inr e"
  obtains r fs where "v = JObj r" "fst ` set r \<subseteq> set (''version'' # map fst envelope_spec)" "js_field r ''version'' = JInt 1"
    "checked_fields envelope_spec [] r = Inr fs" "e = (''version'', JInt 1) # fs"
    "js_field e ''inputReference'' = JStr (''artifact:sha256:'' @ the_str (js_field e ''inputDigest''))"
    "length (canonicalJson (JObj e)) \<le> MAX_EXECUTION_ENVELOPE_BYTES"
  using assms that
  by (auto simp: validateExecutionEnvelopeV1_def bindR_Inr_iff exactObject_Inr Let_def simp del: canonicalJson.simps split: if_splits)

lemma validated_again:
  assumes "validateExecutionEnvelopeV1 v = Inr e"
  shows "validateExecutionEnvelopeV1 (JObj e) = Inr e"
proof -
  from assms obtain r0 r fs where r: "v = JObj r0" "js_field r ''version'' = JInt 1" "checked_fields envelope_spec [] r = Inr fs" "e = (''version'', JInt 1) # fs"
      "js_field e ''inputReference'' = JStr (''artifact:sha256:'' @ the_str (js_field e ''inputDigest''))"
      "length (canonicalJson (JObj e)) \<le> MAX_EXECUTION_ENVELOPE_BYTES"
    by (rule validated)
  have keys: "distinct (map fst envelope_spec)" "\<forall>(k, need, c)\<in>set envelope_spec. settles c" "''version'' \<notin> fst ` set envelope_spec"
    by (simp_all add: envelope_spec_def settles_text settles_parts)
  have "checked_fields envelope_spec [] e = Inr fs"
    by (rule checked_idem [OF r(3) keys(1,2)]) (use keys(3) r(4) in auto)
  moreover have "exactObject (JObj e) ''execution envelope'' (''version'' # map fst envelope_spec) = Inr e"
    using checked_keys [OF r(3)] r(4) by (auto simp: exactObject_Inr)
  ultimately show ?thesis
    using r(4-6) by (simp add: validateExecutionEnvelopeV1_def Let_def del: canonicalJson.simps)
qed

section \<open>What an accepted envelope holds\<close>

text \<open>
  Identifiers and references: a letter or a digit, then letters, digits and the marks allowed, at most \<open>m\<close>
  characters; limits; and the parts of an envelope.
\<close>

definition opaque :: "nat \<Rightarrow> string \<Rightarrow> jsval \<Rightarrow> bool" where
  "opaque m marks v \<longleftrightarrow>
     (\<exists>c cs. v = JStr (c # cs) \<and> (is_upper c \<or> is_lower c \<or> is_digit c) \<and>
        list_all (\<lambda>c. is_upper c \<or> is_lower c \<or> is_digit c \<or> c \<in> set marks) cs \<and> length (c # cs) \<le> m)"

abbreviation an_id :: "jsval \<Rightarrow> bool" where
  "an_id \<equiv> opaque 256 ''._:/-''"

abbreviation a_reference :: "jsval \<Rightarrow> bool" where
  "a_reference \<equiv> opaque 2048 ''._:/#-''"

definition a_limit :: "int \<Rightarrow> jsval \<Rightarrow> bool" where
  "a_limit m v \<longleftrightarrow> (\<exists>n. v = JInt n \<and> 1 \<le> n \<and> n \<le> m)"

definition an_execution :: "jsval \<Rightarrow> bool" where
  "an_execution v \<longleftrightarrow>
     (\<exists>kind i. v = JObj [(''kind'', JStr kind), (''id'', i)] \<and>
        kind \<in> {''tool'', ''agent'', ''skill'', ''mcp-tool'', ''workflow-node''} \<and> an_id i)"

definition reference_list :: "jsval \<Rightarrow> bool" where
  "reference_list v \<longleftrightarrow> (\<exists>vs. v = JArr vs \<and> length vs \<le> 128 \<and> distinct vs \<and> list_all a_reference vs)"

definition requirement_list :: "jsval \<Rightarrow> bool" where
  "requirement_list v \<longleftrightarrow>
     (\<exists>vs. v = JArr vs \<and> length vs \<le> 128 \<and>
        list_all (\<lambda>x. \<exists>c. an_id c \<and> (x = JObj [(''capability'', c)] \<or> (\<exists>a. an_id a \<and> x = JObj [(''capability'', c), (''approvalId'', a)]))) vs)"

definition limits :: "jsval \<Rightarrow> bool" where
  "limits v \<longleftrightarrow> is_obj v \<and>
     list_all (\<lambda>k. a_limit 9007199254740991 (js_field (the_obj v) k)) [''maxInputBytes'', ''maxOutputBytes'', ''maxPersistedStateBytes'', ''maxConcurrency''] \<and>
     list_all (\<lambda>k. js_field (the_obj v) k = JUndef \<or> a_limit 9007199254740991 (js_field (the_obj v) k)) [''memoryBytes'', ''cpuTimeMs'', ''processCount'']"

text \<open>The checks accept only such values, and give a text or a number back as it is.\<close>

lemma accepted_text:
  "envelope_identifier v n = Inr w \<Longrightarrow> w = v \<and> an_id v" "envelope_reference v n = Inr w \<Longrightarrow> w = v \<and> a_reference v"
  "envelopeInteger v n m = Inr w \<Longrightarrow> w = v \<and> a_limit m v"
  "enumValue v n ts = Inr w \<Longrightarrow> w = v \<and> v \<in> JStr ` set ts"
  by (auto simp: envelope_identifier_def envelope_reference_def opaque_def opaque_text_def envelope_alnum_def boundedString_def MAX_ID_BYTES_def
      MAX_REFERENCE_BYTES_def envelopeInteger_def a_limit_def enumValue_def bindR_Inr_iff disj_assoc
      split: jsval.splits if_splits list.splits elim!: is_str.elims)

lemma accepted_root: "bindR (boundedString v n m) (\<lambda>s. Inr (JStr s)) = Inr w \<Longrightarrow> w = v \<and> (\<exists>s. v = JStr s \<and> s \<noteq> [] \<and> js_trim s = s \<and> length s \<le> m)"
  by (auto simp: boundedString_def bindR_Inr_iff split: jsval.splits if_splits)

lemma accepted_digest: "sha256_text v n = Inr w \<Longrightarrow> w = v \<and> (\<exists>d. v = JStr d \<and> length d = 64 \<and> list_all (\<lambda>c. is_digit c \<or> c \<in> set ''abcdef'') d)"
  by (cases v) (auto simp: sha256_text_def hex64_def split: if_splits)

lemma accepted_references:
  assumes "referenceList v n = Inr w"
  shows "w = v \<and> reference_list v"
proof -
  from assms obtain vs ws where v: "v = JArr vs" "\<not> MAX_LIST_ITEMS < length vs" "distinct ws" "w = JArr ws"
      "mapR (\<lambda>(i, x). envelope_reference x (n @ ''['' @ int_text (int i) @ '']'')) (enumerate 0 vs) = Inr ws"
    by (auto simp: referenceList_def bindR_Inr_iff split: jsval.splits if_splits)
  have "list_all2 (\<lambda>p x. envelope_reference (snd p) (n @ ''['' @ int_text (int (fst p)) @ '']'') = Inr x) (enumerate 0 vs) ws"
    using v(5) by (simp add: mapR_Inr_iff case_prod_beta')
  then have "list_all2 (\<lambda>p x. x = snd p \<and> a_reference x) (enumerate 0 vs) ws"
    by (rule list_all2_mono) (auto dest: accepted_text(2))
  then have "ws = map snd (enumerate 0 vs) \<and> list_all a_reference ws" by (induction rule: list_all2_induct) auto
  then show ?thesis using v(1-4) by (auto simp: reference_list_def MAX_LIST_ITEMS_def)
qed

text \<open>The capabilities and approvals that a list of requirements names.\<close>

definition requirements_of :: "jsval \<Rightarrow> (jsval \<times> jsval) list" where
  "requirements_of v = (case v of JArr vs \<Rightarrow> map (\<lambda>x. (js_field (the_obj x) ''capability'', js_field (the_obj x) ''approvalId'')) vs | _ \<Rightarrow> [])"

lemma accepted_requirement:
  assumes "approval_requirement p = Inr w"
  shows "(\<exists>c. an_id c \<and> (w = JObj [(''capability'', c)] \<or> (\<exists>a. an_id a \<and> w = JObj [(''capability'', c), (''approvalId'', a)]))) \<and>
    js_field (the_obj w) ''capability'' = js_field (the_obj (snd p)) ''capability'' \<and>
    js_field (the_obj w) ''approvalId'' = js_field (the_obj (snd p)) ''approvalId''"
  using assms
  by (cases p) (auto simp: approval_requirement_def Let_def bindR_Inr_iff exactObject_Inr checked_Cons dest!: accepted_text(1) split: if_splits)

lemma accepted_requirements:
  assumes "approvalRequirements v n = Inr w"
  shows "requirement_list w \<and> requirements_of w = requirements_of v"
proof -
  from assms obtain vs ws where v: "v = JArr vs" "\<not> MAX_LIST_ITEMS < length vs" "w = JArr ws" "mapR approval_requirement (enumerate 0 vs) = Inr ws"
    by (auto simp: approvalRequirements_def bindR_Inr_iff split: jsval.splits if_splits)
  have a: "list_all2 (\<lambda>p x. approval_requirement p = Inr x) (enumerate 0 vs) ws" using v(4) by (simp add: mapR_Inr_iff)
  then have "list_all (\<lambda>x. \<exists>c. an_id c \<and> (x = JObj [(''capability'', c)] \<or> (\<exists>a. an_id a \<and> x = JObj [(''capability'', c), (''approvalId'', a)]))) ws"
    by (induction rule: list_all2_induct) (auto dest: accepted_requirement)
  moreover from a have "requirements_of (JArr ws) = requirements_of (JArr (map snd (enumerate 0 vs)))"
    by (induction rule: list_all2_induct) (auto simp: requirements_of_def dest: accepted_requirement)
  ultimately show ?thesis using v mapR_length [OF v(4)] by (simp add: requirement_list_def MAX_LIST_ITEMS_def)
qed

lemma accepted_execution:
  assumes "executionIdentity v n = Inr w"
  shows "an_execution w \<and> js_field (the_obj w) ''kind'' = js_field (the_obj v) ''kind'' \<and> js_field (the_obj w) ''id'' = js_field (the_obj v) ''id''"
  using assms
  by (auto simp: executionIdentity_def bindR_Inr_iff exactObject_Inr checked_Cons an_execution_def dest!: accepted_text(1,4))

text \<open>What a field of the checked object is.\<close>

lemma checked_get:
  assumes "checked_fields spec p r = Inr fs" "distinct (map fst spec)" "(k, need, c) \<in> set spec"
  shows "\<not> need \<and> js_field r k = JUndef \<and> js_field fs k = JUndef \<or> c (js_field r k) (p @ k) = Inr (js_field fs k)"
  using assms
proof (induction spec arbitrary: fs)
  case (Cons s spec)
  obtain k' need' c' where s: "s = (k', need', c')" by (cases s)
  from Cons.prems(1) obtain a bs where a: "(if \<not> need' \<and> js_field r k' = JUndef then a = [] else (\<exists>v. c' (js_field r k') (p @ k') = Inr v \<and> a = [(k', v)]))"
      "fs = a @ bs" "checked_fields spec p r = Inr bs"
    unfolding s checked_Cons by blast
  have out: "k' \<notin> fst ` set bs" using checked_keys [OF a(3)] Cons.prems(2) s by auto
  show ?case
  proof (cases "k = k'")
    case True
    then have "need = need'" "c = c'" using Cons.prems(2,3) s by (auto simp: image_iff)
    with True a(1,2) out show ?thesis by (auto simp: js_field_none split: if_splits)
  next
    case False
    then have "js_field fs k = js_field bs k" using a(1,2) by (auto simp: field_other split: if_splits)
    with Cons.IH [OF a(3)] Cons.prems(2,3) False s show ?thesis by auto
  qed
qed simp

definition envelope_ok :: "(string \<times> jsval) list \<Rightarrow> bool" where
  "envelope_ok e \<longleftrightarrow>
     js_field e ''version'' = JInt 1 \<and>
     list_all (\<lambda>k. an_id (js_field e k)) [''runId'', ''principalId'', ''idempotencyKey'', ''sandboxProfile'', ''auditCorrelationId''] \<and>
     list_all (\<lambda>k. js_field e k = JUndef \<or> an_id (js_field e k)) [''parentRunId'', ''sessionId'', ''projectId''] \<and>
     an_execution (js_field e ''execution'') \<and>
     (\<exists>d. js_field e ''inputDigest'' = JStr d \<and> length d = 64 \<and> list_all (\<lambda>c. is_digit c \<or> c \<in> set ''abcdef'') d \<and>
        js_field e ''inputReference'' = JStr (''artifact:sha256:'' @ d)) \<and>
     reference_list (js_field e ''capabilityDecisionReferences'') \<and> requirement_list (js_field e ''approvalRequirements'') \<and>
     a_limit 86400000 (js_field e ''timeoutMs'') \<and> limits (js_field e ''resourceLimits'') \<and>
     js_field e ''retrySafety'' \<in> {JStr ''retry-safe'', JStr ''not-retry-safe'', JStr ''unknown''} \<and>
     (\<exists>s. js_field e ''workspaceRoot'' = JStr s \<and> s \<noteq> [] \<and> js_trim s = s \<and> length s \<le> 4096) \<and>
     a_reference (js_field e ''cancellationControlReference'') \<and>
     list_all (\<lambda>k. js_field e k = JUndef \<or> a_reference (js_field e k)) [''expectedResultReference'', ''verificationContractReference''] \<and>
     length (canonicalJson (JObj e)) \<le> 65536"

text \<open>The fields that are copied as they are.\<close>

definition copied_fields :: "string list" where
  "copied_fields =
     [''version'', ''runId'', ''parentRunId'', ''sessionId'', ''projectId'', ''principalId'', ''inputDigest'', ''inputReference'',
      ''capabilityDecisionReferences'', ''timeoutMs'', ''idempotencyKey'', ''retrySafety'', ''workspaceRoot'', ''sandboxProfile'',
      ''expectedResultReference'', ''auditCorrelationId'', ''cancellationControlReference'', ''verificationContractReference'']"

text \<open>A check that gives back what it accepts; then one field that must be there, and one that may be.\<close>

definition gives_back :: "(jsval \<Rightarrow> string \<Rightarrow> string + jsval) \<Rightarrow> (jsval \<Rightarrow> bool) \<Rightarrow> bool" where
  "gives_back c Q \<longleftrightarrow> (\<forall>v n w. c v n = Inr w \<longrightarrow> w = v \<and> Q v)"

lemma checks_give_back:
  "gives_back envelope_identifier an_id" "gives_back envelope_reference a_reference" "gives_back referenceList reference_list"
  "gives_back (\<lambda>v n. envelopeInteger v n m) (a_limit m)" "gives_back (\<lambda>v n. enumValue v n ts) (\<lambda>v. v \<in> JStr ` set ts)"
  "gives_back sha256_text (\<lambda>v. \<exists>d. v = JStr d \<and> length d = 64 \<and> list_all (\<lambda>c. is_digit c \<or> c \<in> set ''abcdef'') d)"
  "gives_back (\<lambda>v n. bindR (boundedString v n l) (\<lambda>s. Inr (JStr s))) (\<lambda>v. \<exists>s. v = JStr s \<and> s \<noteq> [] \<and> js_trim s = s \<and> length s \<le> l)"
  unfolding gives_back_def by (intro allI impI, erule accepted_text accepted_references accepted_digest accepted_root)+

lemma field_needed:
  assumes "checked_fields spec p r = Inr fs" "distinct (map fst spec)" "(k, True, c) \<in> set spec" "gives_back c Q"
  shows "js_field fs k = js_field r k \<and> Q (js_field r k)"
  using checked_get [OF assms(1-3)] assms(4) unfolding gives_back_def by blast

lemma field_allowed:
  assumes "checked_fields spec p r = Inr fs" "distinct (map fst spec)" "(k, False, c) \<in> set spec" "gives_back c Q"
  shows "js_field fs k = js_field r k \<and> (js_field r k = JUndef \<or> Q (js_field r k))"
  using checked_get [OF assms(1-3)] assms(4) unfolding gives_back_def by metis

lemma accepted_limits:
  assumes "resourceLimits v n = Inr w"
  shows "limits w \<and> list_all (\<lambda>k. js_field (the_obj w) k = js_field (the_obj v) k)
    [''maxInputBytes'', ''maxOutputBytes'', ''maxPersistedStateBytes'', ''maxConcurrency'', ''memoryBytes'', ''cpuTimeMs'', ''processCount'']"
proof -
  define lim where "lim = (\<lambda>v n. envelopeInteger v n MAX_SAFE_INTEGER)"
  let ?spec = "map (\<lambda>k. (k, True, lim)) [''maxInputBytes'', ''maxOutputBytes'', ''maxPersistedStateBytes'', ''maxConcurrency''] @
    map (\<lambda>k. (k, False, lim)) [''memoryBytes'', ''cpuTimeMs'', ''processCount'']"
  from assms obtain r fs where r: "v = JObj r" "w = JObj fs" "checked_fields ?spec ''resourceLimits.'' r = Inr fs"
    unfolding resourceLimits_def lim_def [symmetric] by (auto simp only: bindR_Inr_iff exactObject_Inr sum.inject)
  have d: "distinct (map fst ?spec)" by simp
  have l: "gives_back lim (a_limit 9007199254740991)"
    using checks_give_back(4) [of MAX_SAFE_INTEGER] by (simp add: lim_def MAX_SAFE_INTEGER_def)
  note need = field_needed [OF r(3) d _ l] and may = field_allowed [OF r(3) d _ l]
  have "js_field fs ''maxInputBytes'' = js_field r ''maxInputBytes'' \<and> a_limit 9007199254740991 (js_field r ''maxInputBytes'')"
    "js_field fs ''maxOutputBytes'' = js_field r ''maxOutputBytes'' \<and> a_limit 9007199254740991 (js_field r ''maxOutputBytes'')"
    "js_field fs ''maxPersistedStateBytes'' = js_field r ''maxPersistedStateBytes'' \<and> a_limit 9007199254740991 (js_field r ''maxPersistedStateBytes'')"
    "js_field fs ''maxConcurrency'' = js_field r ''maxConcurrency'' \<and> a_limit 9007199254740991 (js_field r ''maxConcurrency'')"
    by (rule need, simp)+
  moreover have "js_field fs ''memoryBytes'' = js_field r ''memoryBytes'' \<and> (js_field r ''memoryBytes'' = JUndef \<or> a_limit 9007199254740991 (js_field r ''memoryBytes''))"
    "js_field fs ''cpuTimeMs'' = js_field r ''cpuTimeMs'' \<and> (js_field r ''cpuTimeMs'' = JUndef \<or> a_limit 9007199254740991 (js_field r ''cpuTimeMs''))"
    "js_field fs ''processCount'' = js_field r ''processCount'' \<and> (js_field r ''processCount'' = JUndef \<or> a_limit 9007199254740991 (js_field r ''processCount''))"
    by (rule may, simp)+
  ultimately show ?thesis unfolding limits_def r(1,2) by (simp only: the_obj.simps is_obj.simps list.pred_inject simp_thms)
qed

lemma envelope_entries:
  "(''runId'', True, envelope_identifier) \<in> set envelope_spec" "(''principalId'', True, envelope_identifier) \<in> set envelope_spec"
  "(''idempotencyKey'', True, envelope_identifier) \<in> set envelope_spec" "(''sandboxProfile'', True, envelope_identifier) \<in> set envelope_spec"
  "(''auditCorrelationId'', True, envelope_identifier) \<in> set envelope_spec"
  "(''inputReference'', True, envelope_reference) \<in> set envelope_spec"
  "(''cancellationControlReference'', True, envelope_reference) \<in> set envelope_spec"
  "(''parentRunId'', False, envelope_identifier) \<in> set envelope_spec" "(''sessionId'', False, envelope_identifier) \<in> set envelope_spec"
  "(''projectId'', False, envelope_identifier) \<in> set envelope_spec"
  "(''expectedResultReference'', False, envelope_reference) \<in> set envelope_spec"
  "(''verificationContractReference'', False, envelope_reference) \<in> set envelope_spec"
  "(''execution'', True, executionIdentity) \<in> set envelope_spec" "(''inputDigest'', True, sha256_text) \<in> set envelope_spec"
  "(''capabilityDecisionReferences'', True, referenceList) \<in> set envelope_spec"
  "(''approvalRequirements'', True, approvalRequirements) \<in> set envelope_spec" "(''resourceLimits'', True, resourceLimits) \<in> set envelope_spec"
  "(''timeoutMs'', True, \<lambda>v n. envelopeInteger v n MAX_ENVELOPE_TIMEOUT_MS) \<in> set envelope_spec"
  "(''retrySafety'', True, \<lambda>v n. enumValue v n [''retry-safe'', ''not-retry-safe'', ''unknown'']) \<in> set envelope_spec"
  "(''workspaceRoot'', True, \<lambda>v n. bindR (boundedString v n MAX_WORKSPACE_ROOT_BYTES) (\<lambda>s. Inr (JStr s))) \<in> set envelope_spec"
  by (simp_all add: envelope_spec_def)

text \<open>The checked fields are those of the object, and as they must be.\<close>

lemma checked_scalars:
  assumes r: "checked_fields envelope_spec [] r = Inr fs"
  shows "list_all (\<lambda>k. js_field fs k = js_field r k \<and> an_id (js_field r k))
      [''runId'', ''principalId'', ''idempotencyKey'', ''sandboxProfile'', ''auditCorrelationId'']" (is ?ids)
    and "list_all (\<lambda>k. js_field fs k = js_field r k \<and> a_reference (js_field r k)) [''inputReference'', ''cancellationControlReference'']" (is ?refs)
    and "list_all (\<lambda>k. js_field fs k = js_field r k \<and> (js_field r k = JUndef \<or> an_id (js_field r k)))
      [''parentRunId'', ''sessionId'', ''projectId'']" (is ?ids')
    and "list_all (\<lambda>k. js_field fs k = js_field r k \<and> (js_field r k = JUndef \<or> a_reference (js_field r k)))
      [''expectedResultReference'', ''verificationContractReference'']" (is ?refs')
    and "js_field fs ''capabilityDecisionReferences'' = js_field r ''capabilityDecisionReferences'' \<and>
      reference_list (js_field r ''capabilityDecisionReferences'')" (is ?list)
    and "js_field fs ''timeoutMs'' = js_field r ''timeoutMs'' \<and> a_limit 86400000 (js_field r ''timeoutMs'')" (is ?limit)
    and "js_field fs ''retrySafety'' = js_field r ''retrySafety'' \<and>
      js_field r ''retrySafety'' \<in> {JStr ''retry-safe'', JStr ''not-retry-safe'', JStr ''unknown''}" (is ?enum)
    and "js_field fs ''workspaceRoot'' = js_field r ''workspaceRoot'' \<and>
      (\<exists>s. js_field r ''workspaceRoot'' = JStr s \<and> s \<noteq> [] \<and> js_trim s = s \<and> length s \<le> 4096)" (is ?root)
    and "js_field fs ''inputDigest'' = js_field r ''inputDigest'' \<and>
      (\<exists>d. js_field r ''inputDigest'' = JStr d \<and> length d = 64 \<and> list_all (\<lambda>c. is_digit c \<or> c \<in> set ''abcdef'') d)" (is ?digest)
proof -
  have d: "distinct (map fst envelope_spec)" by (simp add: envelope_spec_def)
  note need = field_needed [OF r d] and may = field_allowed [OF r d]
  show ?ids
    using need [OF envelope_entries(1) checks_give_back(1)] need [OF envelope_entries(2) checks_give_back(1)]
      need [OF envelope_entries(3) checks_give_back(1)] need [OF envelope_entries(4) checks_give_back(1)] need [OF envelope_entries(5) checks_give_back(1)]
    by simp
  show ?refs using need [OF envelope_entries(6) checks_give_back(2)] need [OF envelope_entries(7) checks_give_back(2)] by simp
  show ?ids'
    using may [OF envelope_entries(8) checks_give_back(1)] may [OF envelope_entries(9) checks_give_back(1)] may [OF envelope_entries(10) checks_give_back(1)]
    by simp
  show ?refs' using may [OF envelope_entries(11) checks_give_back(2)] may [OF envelope_entries(12) checks_give_back(2)] by simp
  show ?list by (rule need [OF envelope_entries(15) checks_give_back(3)])
  show ?limit using need [OF envelope_entries(18) checks_give_back(4)] by (simp add: MAX_ENVELOPE_TIMEOUT_MS_def)
  show ?enum using need [OF envelope_entries(19) checks_give_back(5)] by simp
  show ?root using need [OF envelope_entries(20) checks_give_back(7)] by (simp add: MAX_WORKSPACE_ROOT_BYTES_def)
  show ?digest by (rule need [OF envelope_entries(14) checks_give_back(6)])
qed

lemma checked_parts:
  assumes r: "checked_fields envelope_spec [] r = Inr fs"
  shows "executionIdentity (js_field r ''execution'') ''execution'' = Inr (js_field fs ''execution'')"
    and "approvalRequirements (js_field r ''approvalRequirements'') ''approvalRequirements'' = Inr (js_field fs ''approvalRequirements'')"
    and "resourceLimits (js_field r ''resourceLimits'') ''resourceLimits'' = Inr (js_field fs ''resourceLimits'')"
proof -
  have d: "distinct (map fst envelope_spec)" by (simp add: envelope_spec_def)
  show "executionIdentity (js_field r ''execution'') ''execution'' = Inr (js_field fs ''execution'')"
      "approvalRequirements (js_field r ''approvalRequirements'') ''approvalRequirements'' = Inr (js_field fs ''approvalRequirements'')"
      "resourceLimits (js_field r ''resourceLimits'') ''resourceLimits'' = Inr (js_field fs ''resourceLimits'')"
    using checked_get [OF r d envelope_entries(13)] checked_get [OF r d envelope_entries(16)] checked_get [OF r d envelope_entries(17)] by simp_all
qed

lemma accepted_envelope_ok:
  assumes r: "checked_fields envelope_spec [] r = Inr fs" and e: "e = (''version'', JInt 1) # fs"
    and i: "js_field e ''inputReference'' = JStr (''artifact:sha256:'' @ the_str (js_field e ''inputDigest''))"
    and n: "length (canonicalJson (JObj e)) \<le> MAX_EXECUTION_ENVELOPE_BYTES"
  shows "envelope_ok e"
  unfolding envelope_ok_def
proof (intro conjI)
  have f: "js_field e k = js_field fs k" if "k \<noteq> ''version''" for k using that e by simp
  note s = checked_scalars [OF r] and p = checked_parts [OF r]
  show "length (canonicalJson (JObj e)) \<le> 65536" using n unfolding MAX_EXECUTION_ENVELOPE_BYTES_def .
  show "\<exists>d. js_field e ''inputDigest'' = JStr d \<and> length d = 64 \<and> list_all (\<lambda>c. is_digit c \<or> c \<in> set ''abcdef'') d \<and>
      js_field e ''inputReference'' = JStr (''artifact:sha256:'' @ d)"
    using s(9) i f [of "''inputDigest''"] by auto
  show "an_execution (js_field e ''execution'')" using accepted_execution [OF p(1)] f [of "''execution''"] by simp
  show "requirement_list (js_field e ''approvalRequirements'')" using accepted_requirements [OF p(2)] f [of "''approvalRequirements''"] by simp
  show "limits (js_field e ''resourceLimits'')" using accepted_limits [OF p(3)] f [of "''resourceLimits''"] by simp
  show "js_field e ''retrySafety'' \<in> {JStr ''retry-safe'', JStr ''not-retry-safe'', JStr ''unknown''}"
    using s(7) f [of "''retrySafety''"] by simp
  show "\<exists>s. js_field e ''workspaceRoot'' = JStr s \<and> s \<noteq> [] \<and> js_trim s = s \<and> length s \<le> 4096" using s(8) f [of "''workspaceRoot''"] by simp
qed (use checked_scalars [OF r] e in simp_all)

text \<open>
  C36. What it means that an envelope is accepted: it comes from an object without unknown fields, of version
  1; every identifier, reference, limit, list and enumeration of it is of the documented form and size, the
  reference of the input is that of its digest, the canonical text has at most 65,536 bytes, and all this is
  copied from the object. It is a fixed point of the validation and has the digest of what was accepted.
\<close>

theorem accepted_envelope_wellformed:
  assumes "validateExecutionEnvelopeV1 v = Inr e"
  shows "\<exists>r. v = JObj r \<and>
    fst ` set r \<subseteq> set (copied_fields @ [''execution'', ''approvalRequirements'', ''resourceLimits'']) \<and>
    envelope_ok e \<and> list_all (\<lambda>k. js_field e k = js_field r k) copied_fields \<and>
    list_all (\<lambda>k. js_field (the_obj (js_field e ''execution'')) k = js_field (the_obj (js_field r ''execution'')) k) [''kind'', ''id''] \<and>
    requirements_of (js_field e ''approvalRequirements'') = requirements_of (js_field r ''approvalRequirements'') \<and>
    list_all (\<lambda>k. js_field (the_obj (js_field e ''resourceLimits'')) k = js_field (the_obj (js_field r ''resourceLimits'')) k)
      [''maxInputBytes'', ''maxOutputBytes'', ''maxPersistedStateBytes'', ''maxConcurrency'', ''memoryBytes'', ''cpuTimeMs'', ''processCount''] \<and>
    validateExecutionEnvelopeV1 (JObj e) = Inr e \<and> digestExecutionEnvelopeV1 H (JObj e) = digestExecutionEnvelopeV1 H v"
proof -
  from assms obtain r fs where r: "v = JObj r" "fst ` set r \<subseteq> set (''version'' # map fst envelope_spec)" "js_field r ''version'' = JInt 1"
      "checked_fields envelope_spec [] r = Inr fs" "e = (''version'', JInt 1) # fs"
      "js_field e ''inputReference'' = JStr (''artifact:sha256:'' @ the_str (js_field e ''inputDigest''))"
      "length (canonicalJson (JObj e)) \<le> MAX_EXECUTION_ENVELOPE_BYTES"
    by (rule validated)
  have e: "js_field e k = js_field fs k" if "k \<noteq> ''version''" for k using that r(5) by simp
  note parts = checked_parts [OF r(4)]
  have "list_all (\<lambda>k. js_field e k = js_field r k) copied_fields"
    using checked_scalars [OF r(4)] r(3,5) by (simp add: copied_fields_def)
  moreover have "fst ` set r \<subseteq> set (copied_fields @ [''execution'', ''approvalRequirements'', ''resourceLimits''])"
    using r(2) by (auto simp: copied_fields_def envelope_spec_def)
  moreover note accepted_envelope_ok [OF r(4-7)] validated_again [OF assms] accepted_execution [OF parts(1)] accepted_requirements [OF parts(2)]
    accepted_limits [OF parts(3)] e [of "''execution''"] e [of "''approvalRequirements''"] e [of "''resourceLimits''"]
  ultimately show ?thesis
    using r(1) assms
    by (intro exI [of _ r]) (simp add: digestExecutionEnvelopeV1_def canonicalizeExecutionEnvelopeV1_def del: canonicalJson.simps)
qed

definition sample_digest :: string where "sample_digest = replicate 64 CHR ''a''"
definition sample_reference :: string where "sample_reference = ''artifact:sha256:'' @ sample_digest"

definition sample_envelope :: jsval where
  "sample_envelope = JObj [(''version'', JInt 1), (''runId'', JStr ''r''), (''principalId'', JStr ''p''),
     (''execution'', JObj [(''kind'', JStr ''tool''), (''id'', JStr ''t'')]), (''inputDigest'', JStr sample_digest),
     (''inputReference'', JStr sample_reference), (''capabilityDecisionReferences'', JArr [JStr ''c'']),
     (''approvalRequirements'', JArr [JObj [(''capability'', JStr ''c'')]]), (''timeoutMs'', JInt 5),
     (''resourceLimits'', JObj [(''maxInputBytes'', JInt 1), (''maxOutputBytes'', JInt 1), (''maxPersistedStateBytes'', JInt 1), (''maxConcurrency'', JInt 1)]),
     (''idempotencyKey'', JStr ''k''), (''retrySafety'', JStr ''unknown''), (''workspaceRoot'', JStr ''/w''), (''sandboxProfile'', JStr ''s''),
     (''auditCorrelationId'', JStr ''a''), (''cancellationControlReference'', JStr ''x'')]"

lemma sample_identifiers [simp]: "envelope_identifier (JStr [c]) n = Inr (JStr [c])" if "c \<in> set ''rptckas''"
  using that by (auto simp: envelope_identifier_def boundedString_def MAX_ID_BYTES_def js_trim_plain plain_ends_def plain_char_def opaque_text_def
      envelope_alnum_def is_lower_def)

lemma sample_parts:
  "executionIdentity (JObj [(''kind'', JStr ''tool''), (''id'', JStr ''t'')]) n = Inr (JObj [(''kind'', JStr ''tool''), (''id'', JStr ''t'')])"
  "sha256_text (JStr sample_digest) n = Inr (JStr sample_digest)"
  "referenceList (JArr [JStr ''c'']) n = Inr (JArr [JStr ''c''])"
  "approvalRequirements (JArr [JObj [(''capability'', JStr ''c'')]]) n = Inr (JArr [JObj [(''capability'', JStr ''c'')]])"
  "resourceLimits (JObj [(''maxInputBytes'', JInt 1), (''maxOutputBytes'', JInt 1), (''maxPersistedStateBytes'', JInt 1), (''maxConcurrency'', JInt 1)]) n =
     Inr (JObj [(''maxInputBytes'', JInt 1), (''maxOutputBytes'', JInt 1), (''maxPersistedStateBytes'', JInt 1), (''maxConcurrency'', JInt 1)])"
  "envelope_reference (JStr sample_reference) n = Inr (JStr sample_reference)"
  "envelope_reference (JStr ''x'') n = Inr (JStr ''x'')"
  "boundedString (JStr ''/w'') n m = (if m < 2 then Inl (n @ '' exceeds '' @ int_text (int m) @ '' bytes'') else Inr ''/w'')"
  by (code_simp, code_simp, code_simp, code_simp, code_simp, code_simp, code_simp, code_simp)

lemma sample_envelope_valid: "validateExecutionEnvelopeV1 sample_envelope = Inr (the_obj sample_envelope)"
proof -
  have c: "checked_fields envelope_spec [] (the_obj sample_envelope) = Inr (tl (the_obj sample_envelope))"
    by (simp add: sample_envelope_def checked_fields_def envelope_spec_def sample_parts envelopeInteger_def is_safe_int_def
      MAX_SAFE_INTEGER_def MAX_ENVELOPE_TIMEOUT_MS_def enumValue_def MAX_WORKSPACE_ROOT_BYTES_def)
  have x: "exactObject sample_envelope ''execution envelope'' (''version'' # map fst envelope_spec) = Inr (the_obj sample_envelope)"
    by (simp add: exactObject_def envelope_spec_def sample_envelope_def)
  have f: "js_field (the_obj sample_envelope) ''version'' = JInt 1" "(''version'', JInt 1) # tl (the_obj sample_envelope) = the_obj sample_envelope"
      "js_field (the_obj sample_envelope) ''inputReference'' = JStr (''artifact:sha256:'' @ the_str (js_field (the_obj sample_envelope) ''inputDigest''))"
      "JObj (the_obj sample_envelope) = sample_envelope"
    by (simp_all add: sample_envelope_def sample_reference_def)
  have "length (canonicalJson sample_envelope) < 1000" by code_simp
  then have "\<not> MAX_EXECUTION_ENVELOPE_BYTES < length (canonicalJson sample_envelope)" by (simp add: MAX_EXECUTION_ENVELOPE_BYTES_def)
  then show ?thesis by (simp only: validateExecutionEnvelopeV1_def x c bindR_simps Let_def f if_False simp_thms)
qed

theorem accepted_envelope_wellformed_witness:
  "\<exists>e. validateExecutionEnvelopeV1 sample_envelope = Inr e \<and> envelope_ok e \<and> validateExecutionEnvelopeV1 (JObj e) = Inr e"
  using sample_envelope_valid accepted_envelope_wellformed [OF sample_envelope_valid] by blast

end
