(* ===== verification/Runtime_Jobs.thy ===== *)
theory Runtime_Jobs
  imports Job_Store Durable_Output Execution_Envelope
begin

text \<open>
  The durable queue of runtime jobs, class \<open>SqliteJobStore\<close> of
  \<open>packages/store-sqlite/src/runtime-jobs.ts\<close>: jobs, their leases, and the attempts, envelopes and
  cancellation controls they are correlated with.

  A table is the list of its rows.  An operation is one transaction: an error (the left of a sum) leaves
  the database as it was.  A column that holds JSON text holds here what is read back from it.  The
  constraints of the schema are checked where a row is written.  The clock is read once per operation;
  times are the texts of \<open>toISOString\<close>.
\<close>

section \<open>Tables\<close>

record runtime_job =
  rj_id :: string
  rj_status :: string
  rj_payload :: jsval
  rj_recoverable :: bool
  rj_requestHash :: "string option"
  rj_retrySafe :: bool
  rj_attempts :: int
  rj_timeoutMs :: int
  rj_result :: "jsval option"
  rj_error :: "string option"
  rj_createdAt :: string
  rj_updatedAt :: string
  rj_startedAt :: "string option"
  rj_completedAt :: "string option"
  rj_recoveredAt :: "string option"
  rj_occurrenceKey :: "string option"
  rj_scheduledFor :: "string option"
  rj_nextRunAt :: "string option"
  rj_executionRunId :: "string option"
  rj_executionAttemptId :: "string option"
  rj_envelopeDigest :: "string option"
  rj_auditCorrelationId :: "string option"
  rj_cancellationReference :: "string option"
  rj_imported :: bool
  rj_leaseToken :: "string option"
  rj_leaseOwner :: "string option"
  rj_leaseEpoch :: "string option"
  rj_leaseAcquiredAt :: "string option"
  rj_leaseExpiresAt :: "string option"

record job_lease =
  ls_token :: string
  ls_jobId :: string
  ls_occurrenceKey :: "string option"
  ls_owner :: string
  ls_epoch :: string
  ls_acquiredAt :: string
  ls_expiresAt :: string
  ls_releasedAt :: "string option"
  ls_releaseReason :: "string option"

record execution_attempt =
  ea_id :: string
  ea_runId :: string
  ea_number :: int
  ea_state :: string
  ea_startedAt :: "string option"
  ea_settledAt :: "string option"
  ea_errorCode :: "string option"
  ea_ownerReleasedAt :: "string option"

record envelope_row =
  ee_runId :: string
  ee_digest :: string
  ee_json :: jsval

record cancellation_control =
  cn_id :: string
  cn_runId :: string
  cn_requestedAt :: "string option"
  cn_requestedBy :: "string option"
  cn_reason :: "string option"
  cn_acknowledgedAt :: "string option"
  cn_settledAt :: "string option"

record reassignment =
  ra_graphRunId :: string
  ra_replacementJobId :: string
  ra_requestHash :: string
  ra_identityDigest :: string
  ra_principal :: string
  ra_status :: string
  ra_submittedAt :: "string option"

record job_db =
  db_jobs :: "runtime_job list"
  db_leases :: "job_lease list"
  db_attempts :: "execution_attempt list"
  db_envelopes :: "envelope_row list"
  db_controls :: "cancellation_control list"
  db_reassignments :: "reassignment list"
  db_imports :: "(string \<times> string \<times> int) list"

record job_env =
  je_now :: int
  je_durable :: durable_env
  je_patterns :: "string \<Rightarrow> string"
  je_sha :: "string \<Rightarrow> string"
  je_ownership :: bool

definition now_text :: "job_env \<Rightarrow> string" where
  "now_text E = iso_text (je_now E)"

definition TERMINAL_JOB_STATES :: "string list" where
  "TERMINAL_JOB_STATES = [''completed'', ''failed'', ''cancelled'', ''needs-review'']"

definition JOB_STATES :: "string list" where
  "JOB_STATES = [''queued'', ''running'', ''awaiting-approval'', ''cancelling''] @ TERMINAL_JOB_STATES"

definition TERMINAL_ATTEMPT_STATES :: "string list" where
  "TERMINAL_ATTEMPT_STATES = [''completed'', ''failed'', ''cancelled'', ''needs-review'']"

section \<open>Rows and objects\<close>

fun optionalString :: "jsval \<Rightarrow> string option" where
  "optionalString (JStr s) = (if s \<noteq> [] then Some s else None)"
| "optionalString _ = None"

definition some_field :: "string \<Rightarrow> string option \<Rightarrow> (string \<times> jsval) list" where
  "some_field k v = (case v of None \<Rightarrow> [] | Some s \<Rightarrow> [(k, JStr s)])"

text \<open>\<open>String(v)\<close> of a column.\<close>

definition column_text :: "string option \<Rightarrow> jsval" where
  "column_text v = JStr (case v of None \<Rightarrow> ''null'' | Some s \<Rightarrow> s)"

definition lease_object :: "runtime_job \<Rightarrow> (string \<times> jsval) list option" where
  "lease_object j =
     (case rj_leaseToken j of
        None \<Rightarrow> None
      | Some t \<Rightarrow> Some (some_field ''occurrenceKey'' (rj_occurrenceKey j) @
          [(''token'', JStr t), (''owner'', column_text (rj_leaseOwner j)), (''epoch'', column_text (rj_leaseEpoch j)),
           (''acquiredAt'', column_text (rj_leaseAcquiredAt j)), (''expiresAt'', column_text (rj_leaseExpiresAt j))]))"

definition hydrate :: "runtime_job \<Rightarrow> (string \<times> jsval) list" where
  "hydrate j =
     [(''schemaVersion'', JInt 1), (''id'', JStr (rj_id j)), (''status'', JStr (rj_status j)), (''payload'', rj_payload j),
      (''recoveryInputAvailable'', JBool (rj_recoverable j)), (''attempts'', JInt (rj_attempts j)), (''timeoutMs'', JInt (rj_timeoutMs j)),
      (''retrySafe'', JBool (rj_retrySafe j))] @
     some_field ''requestHash'' (rj_requestHash j) @ optional ''result'' (rj_result j) @ some_field ''error'' (rj_error j) @
     [(''createdAt'', JStr (rj_createdAt j)), (''updatedAt'', JStr (rj_updatedAt j))] @
     some_field ''startedAt'' (rj_startedAt j) @ some_field ''completedAt'' (rj_completedAt j) @ some_field ''recoveredAt'' (rj_recoveredAt j) @
     some_field ''occurrenceKey'' (rj_occurrenceKey j) @ some_field ''scheduledFor'' (rj_scheduledFor j) @ some_field ''nextRunAt'' (rj_nextRunAt j) @
     some_field ''executionRunId'' (rj_executionRunId j) @ some_field ''executionAttemptId'' (rj_executionAttemptId j) @
     some_field ''envelopeDigest'' (rj_envelopeDigest j) @ some_field ''auditCorrelationId'' (rj_auditCorrelationId j) @
     some_field ''cancellationControlReference'' (rj_cancellationReference j) @
     (if rj_imported j then [(''importedFromLegacy'', JBool True)] else []) @
     optional ''dispatchLease'' (map_option JObj (lease_object j))"

definition runtimeJobTool :: "(string \<times> jsval) list \<Rightarrow> string" where
  "runtimeJobTool payload = the_str (js_field (the_obj (js_field payload ''task'')) ''tool'')"

definition projectRuntimeJobResult :: "job_env \<Rightarrow> string \<Rightarrow> jsval \<Rightarrow> string + jsval" where
  "projectRuntimeJobResult E t v =
     (let out = projectDurableToolOutput (je_durable E) (je_patterns E) t in
      case v of
        JObj r \<Rightarrow>
          if hasOwn r ''output'' then
            bindR (out (js_field r ''output'')) (\<lambda>w.
            Inr (JObj (js_assign r ((if t \<in> set WORKSPACE_CONTENT_TOOLS then [(''contentUnavailableOnReplay'', JBool True)] else []) @ [(''output'', w)]))))
          else out v
      | _ \<Rightarrow> out v)"

definition or_string :: "string option \<Rightarrow> string option \<Rightarrow> string option" where
  "or_string a b = (case a of None \<Rightarrow> b | Some s \<Rightarrow> Some s)"

fun bounded_integer :: "int \<Rightarrow> int \<Rightarrow> jsval \<Rightarrow> int option" where
  "bounded_integer l u (JInt n) = (if is_safe_int n \<and> l \<le> n \<and> n \<le> u then Some n else None)"
| "bounded_integer l u _ = None"

text \<open>
  A job from an object and, when it exists, the row it replaces.  What the object does not have is taken
  from the row.
\<close>

definition normalizeRuntimeJob :: "job_env \<Rightarrow> (string \<times> jsval) list \<Rightarrow> runtime_job option \<Rightarrow> string + runtime_job" where
  "normalizeRuntimeJob E input current =
     (let old = (case current of None \<Rightarrow> [] | Some c \<Rightarrow> hydrate c);
          pick = (\<lambda>k. nullish (js_field input k) (js_field old k));
          kept = (\<lambda>k. or_string (optionalString (js_field input k)) (if hasOwn input k then None else optionalString (js_field old k)));
          flag = (\<lambda>k. js_field input k = JBool True \<or> \<not> hasOwn input k \<and> js_field old k = JBool True);
          i = js_String (js_field input ''id'');
          status = js_String (nullish (pick ''status'') (JStr ''queued'')) in
      bindR (guardR (i \<noteq> [] \<and> js_length i \<le> 512) ''runtime job id must contain 1 through 512 characters'') (\<lambda>_.
      bindR (guardR (status \<in> set JOB_STATES) (''runtime job '' @ i @ '' has invalid status: '' @ status)) (\<lambda>_.
      case nullish (pick ''payload'') (JObj []) of
        JObj source \<Rightarrow>
          bindR (projectDurableJobPayload (je_durable E) (je_patterns E) source) (\<lambda>payload.
          case bounded_integer 0 MAX_SAFE_INTEGER (js_Number (nullish (pick ''attempts'') (JInt 0))) of
            None \<Rightarrow> Inl (''runtime job '' @ i @ '' attempts must be a non-negative integer'')
          | Some attempts \<Rightarrow>
              (case bounded_integer 1 86400000 (js_Number (nullish (pick ''timeoutMs'') (JInt 120000))) of
                 None \<Rightarrow> Inl (''runtime job '' @ i @ '' timeoutMs is invalid'')
               | Some timeout \<Rightarrow>
                   bindR (if hasOwn input ''result''
                          then bindR (projectRuntimeJobResult E (runtimeJobTool source) (js_field input ''result'')) (\<lambda>r.
                            Inr (redactDurableValue (je_patterns E) None False r))
                          else Inr (js_field old ''result'')) (\<lambda>result.
                   let lease = (case js_field input ''dispatchLease'' of
                                  JObj l \<Rightarrow> l
                                | _ \<Rightarrow> if hasOwn input ''dispatchLease'' then [] else the_obj (js_field old ''dispatchLease'')) in
                   Inr \<lparr>rj_id = i, rj_status = status, rj_payload = json_clone payload,
                     rj_recoverable = (case current of Some c \<Rightarrow> rj_recoverable c | None \<Rightarrow> json_stringify (JObj source) = json_stringify payload),
                     rj_requestHash = optionalString (pick ''requestHash''), rj_retrySafe = flag ''retrySafe'',
                     rj_attempts = attempts, rj_timeoutMs = timeout,
                     rj_result = (if result = JUndef then None else Some (json_clone result)), rj_error = kept ''error'',
                     rj_createdAt = (case or_string (optionalString (js_field input ''createdAt'')) (map_option rj_createdAt current) of None \<Rightarrow> now_text E | Some t \<Rightarrow> t),
                     rj_updatedAt = (case optionalString (js_field input ''updatedAt'') of None \<Rightarrow> now_text E | Some t \<Rightarrow> t),
                     rj_startedAt = kept ''startedAt'', rj_completedAt = kept ''completedAt'', rj_recoveredAt = kept ''recoveredAt'',
                     rj_occurrenceKey = optionalString (pick ''occurrenceKey''), rj_scheduledFor = optionalString (pick ''scheduledFor''),
                     rj_nextRunAt = optionalString (js_field (if hasOwn input ''nextRunAt'' then input else old) ''nextRunAt''),
                     rj_executionRunId = or_string (optionalString (pick ''executionRunId''))
                       (optionalString (js_field (the_obj (js_field (the_obj payload) ''task'')) ''id'')),
                     rj_executionAttemptId = optionalString (pick ''executionAttemptId''), rj_envelopeDigest = optionalString (pick ''envelopeDigest''),
                     rj_auditCorrelationId = optionalString (pick ''auditCorrelationId''),
                     rj_cancellationReference = optionalString (pick ''cancellationControlReference''), rj_imported = flag ''importedFromLegacy'',
                     rj_leaseToken = optionalString (js_field lease ''token''), rj_leaseOwner = optionalString (js_field lease ''owner''),
                     rj_leaseEpoch = optionalString (js_field lease ''epoch''), rj_leaseAcquiredAt = optionalString (js_field lease ''acquiredAt''),
                     rj_leaseExpiresAt = optionalString (js_field lease ''expiresAt'')\<rparr>)))
      | _ \<Rightarrow> Inl (''runtime job '' @ i @ '' payload must be an object''))))"

section \<open>Writing\<close>

definition find_runtime_job :: "string \<Rightarrow> job_db \<Rightarrow> runtime_job option" where
  "find_runtime_job i db = List.find (\<lambda>j. rj_id j = i) (db_jobs db)"

text \<open>\<open>length\<close> of a text in SQL: its code points.\<close>

definition sql_length :: "string \<Rightarrow> nat" where
  "sql_length s = length (filter (\<lambda>c. let b = (of_char c :: int) in \<not> (128 \<le> b \<and> b < 192)) s)"

definition json_text :: "jsval \<Rightarrow> string" where
  "json_text v = (case json_stringify v of None \<Rightarrow> [] | Some t \<Rightarrow> t)"

definition clashes :: "(runtime_job \<Rightarrow> string option) \<Rightarrow> runtime_job \<Rightarrow> job_db \<Rightarrow> bool" where
  "clashes f j db \<longleftrightarrow> f j \<noteq> None \<and> list_ex (\<lambda>k. rj_id k \<noteq> rj_id j \<and> f k = f j) (db_jobs db)"

definition constraints_ok :: "runtime_job \<Rightarrow> job_db \<Rightarrow> bool" where
  "constraints_ok j db \<longleftrightarrow>
     int (length (json_text (rj_payload j))) \<le> 1048576 \<and>
     (case rj_requestHash j of None \<Rightarrow> True | Some h \<Rightarrow> int (sql_length h) \<le> 512) \<and>
     (case rj_result j of None \<Rightarrow> True | Some r \<Rightarrow> int (length (json_text r)) \<le> 1048576) \<and>
     (case rj_error j of None \<Rightarrow> True | Some e \<Rightarrow> int (length e) \<le> 16384) \<and>
     \<not> clashes rj_occurrenceKey j db \<and> \<not> clashes rj_executionAttemptId j db \<and> \<not> clashes rj_leaseToken j db \<and>
     (case rj_executionAttemptId j of None \<Rightarrow> True | Some a \<Rightarrow> list_ex (\<lambda>x. ea_id x = a) (db_attempts db))"

definition put_runtime_job :: "runtime_job \<Rightarrow> job_db \<Rightarrow> job_db" where
  "put_runtime_job j db =
     (if find_runtime_job (rj_id j) db = None then db\<lparr>db_jobs := db_jobs db @ [j]\<rparr>
      else db\<lparr>db_jobs := map (\<lambda>k. if rj_id k = rj_id j then j\<lparr>rj_createdAt := rj_createdAt k\<rparr> else k) (db_jobs db)\<rparr>)"

definition writeJob :: "runtime_job \<Rightarrow> job_db \<Rightarrow> string + job_db" where
  "writeJob j db = (if constraints_ok j db then Inr (put_runtime_job j db) else Inl ''constraint failed'')"

text \<open>The job after it has been written.\<close>

definition stored_job :: "string \<Rightarrow> job_db \<Rightarrow> string + runtime_job \<times> job_db" where
  "stored_job i db = (case find_runtime_job i db of None \<Rightarrow> Inl ''Cannot read properties of undefined'' | Some j \<Rightarrow> Inr (j, db))"

definition save_job :: "job_env \<Rightarrow> (string \<times> jsval) list \<Rightarrow> runtime_job \<Rightarrow> job_db \<Rightarrow> string + runtime_job \<times> job_db" where
  "save_job E input current db =
     bindR (normalizeRuntimeJob E input (Some current)) (\<lambda>j. bindR (writeJob j db) (\<lambda>db'. stored_job (rj_id j) db'))"

text \<open>The lease of a claim, when all of it is there.\<close>

definition insert_lease :: "string \<Rightarrow> runtime_job \<Rightarrow> job_db \<Rightarrow> string + job_db" where
  "insert_lease i j db =
     (case (rj_leaseToken j, rj_leaseOwner j, rj_leaseEpoch j, rj_leaseAcquiredAt j, rj_leaseExpiresAt j) of
        (Some t, Some ow, Some ep, Some ac, Some ex) \<Rightarrow>
          if list_ex (\<lambda>l. ls_token l = t) (db_leases db) then Inl ''constraint failed''
          else Inr (db\<lparr>db_leases := db_leases db @ [\<lparr>ls_token = t, ls_jobId = i, ls_occurrenceKey = rj_occurrenceKey j, ls_owner = ow, ls_epoch = ep,
            ls_acquiredAt = ac, ls_expiresAt = ex, ls_releasedAt = None, ls_releaseReason = None\<rparr>]\<rparr>)
      | _ \<Rightarrow> Inr db)"

definition claim_runtime_row :: "job_env \<Rightarrow> (string \<times> jsval) list \<Rightarrow> runtime_job \<Rightarrow> job_db \<Rightarrow> string + runtime_job option \<times> job_db" where
  "claim_runtime_row E input current db =
     bindR (normalizeRuntimeJob E input (Some current)) (\<lambda>j.
     bindR (writeJob j db) (\<lambda>db1.
     bindR (insert_lease (rj_id current) j db1) (\<lambda>db2.
     bindR (stored_job (rj_id current) db2) (\<lambda>(j', db3). Inr (Some j', db3)))))"

definition release_lease :: "string \<Rightarrow> string \<Rightarrow> (job_lease \<Rightarrow> bool) \<Rightarrow> job_db \<Rightarrow> job_db" where
  "release_lease now reason which db =
     db\<lparr>db_leases := map (\<lambda>l. if which l
       then l\<lparr>ls_releasedAt := or_string (ls_releasedAt l) (Some now), ls_releaseReason := or_string (ls_releaseReason l) (Some reason)\<rparr> else l) (db_leases db)\<rparr>"

definition settle_control :: "string \<Rightarrow> string option \<Rightarrow> job_db \<Rightarrow> job_db" where
  "settle_control now run db =
     db\<lparr>db_controls := map (\<lambda>c. if Some (cn_runId c) = run then c\<lparr>cn_settledAt := or_string (cn_settledAt c) (Some now)\<rparr> else c) (db_controls db)\<rparr>"

section \<open>Correlation with the execution\<close>

record execution_link =
  el_envelopeDigest :: string
  el_attemptId :: "string option"
  el_attemptState :: "string option"
  el_attemptErrorCode :: "string option"
  el_attemptNumber :: "int option"
  el_retrySafety :: string
  el_auditCorrelationId :: string
  el_cancellationReference :: string

text \<open>\<open>ORDER BY attempt_number DESC LIMIT 1\<close>\<close>

fun last_attempt :: "execution_attempt list \<Rightarrow> execution_attempt option" where
  "last_attempt [] = None"
| "last_attempt (a # as) = (case last_attempt as of None \<Rightarrow> Some a | Some b \<Rightarrow> if ea_number a < ea_number b then Some b else Some a)"

definition attempt_of :: "string \<Rightarrow> job_db \<Rightarrow> execution_attempt option" where
  "attempt_of run db = last_attempt (filter (\<lambda>a. ea_runId a = run) (db_attempts db))"

definition correlation :: "job_env \<Rightarrow> string option \<Rightarrow> job_db \<Rightarrow> string + execution_link option" where
  "correlation E run db =
     (case run of
        None \<Rightarrow> Inr None
      | Some r \<Rightarrow>
          (case List.find (\<lambda>e. ee_runId e = r) (db_envelopes db) of
             None \<Rightarrow> Inr None
           | Some row \<Rightarrow>
               bindR (guardR (is_obj (ee_json row)) (''execution envelope '' @ r @ '' must contain a JSON object'')) (\<lambda>_.
               bindR (validateExecutionEnvelopeV1 (ee_json row)) (\<lambda>e.
               bindR (digestExecutionEnvelopeV1 (je_sha E) (JObj e)) (\<lambda>d.
               bindR (guardR (d = ee_digest row) (''execution envelope integrity check failed during runtime job correlation: '' @ r)) (\<lambda>_.
               let a = attempt_of r db in
               Inr (Some \<lparr>el_envelopeDigest = ee_digest row, el_attemptId = map_option ea_id a, el_attemptState = map_option ea_state a,
                 el_attemptErrorCode = Option.bind a ea_errorCode, el_attemptNumber = map_option ea_number a,
                 el_retrySafety = js_String (js_field e ''retrySafety''), el_auditCorrelationId = js_String (js_field e ''auditCorrelationId''),
                 el_cancellationReference = js_String (js_field e ''cancellationControlReference'')\<rparr>)))))))"

definition opt_json :: "string option \<Rightarrow> jsval" where
  "opt_json v = (case v of None \<Rightarrow> JUndef | Some s \<Rightarrow> JStr s)"

definition link_fields :: "execution_link \<Rightarrow> (string \<times> jsval) list" where
  "link_fields l =
     [(''executionAttemptId'', opt_json (el_attemptId l)), (''envelopeDigest'', JStr (el_envelopeDigest l)),
      (''auditCorrelationId'', JStr (el_auditCorrelationId l)), (''cancellationControlReference'', JStr (el_cancellationReference l))]"

definition linked_fields :: "execution_link option \<Rightarrow> (string \<times> jsval) list" where
  "linked_fields l = (case l of None \<Rightarrow> [] | Some x \<Rightarrow> link_fields x)"

definition linked_state :: "execution_link option \<Rightarrow> string option" where
  "linked_state l = Option.bind l el_attemptState"

definition transitionAttempt ::
    "job_env \<Rightarrow> string option \<Rightarrow> string option \<Rightarrow> string \<Rightarrow> string option \<Rightarrow> job_db \<Rightarrow> string + job_db" where
  "transitionAttempt E attempt from to code db =
     (case (attempt, from) of
        (Some a, Some f) \<Rightarrow>
          if a = [] \<or> f \<in> set TERMINAL_ATTEMPT_STATES \<or> f = to then Inr db
          else if length (filter (\<lambda>x. ea_id x = a \<and> ea_state x = f) (db_attempts db)) \<noteq> 1
          then Inl (''execution attempt '' @ a @ '' changed concurrently during job recovery'')
          else Inr (db\<lparr>db_attempts := map (\<lambda>x. if ea_id x = a \<and> ea_state x = f
              then x\<lparr>ea_state := to, ea_startedAt := (if to = ''running'' then or_string (ea_startedAt x) (Some (now_text E)) else ea_startedAt x),
                ea_settledAt := (if to \<in> set TERMINAL_ATTEMPT_STATES then Some (now_text E) else None), ea_errorCode := code,
                ea_ownerReleasedAt := (if je_ownership E \<and> to \<in> set TERMINAL_ATTEMPT_STATES then or_string (ea_ownerReleasedAt x) (Some (now_text E))
                  else ea_ownerReleasedAt x)\<rparr> else x) (db_attempts db)\<rparr>)
      | _ \<Rightarrow> Inr db)"

definition transition_linked :: "job_env \<Rightarrow> execution_link option \<Rightarrow> string \<Rightarrow> string option \<Rightarrow> job_db \<Rightarrow> string + job_db" where
  "transition_linked E l to code db = transitionAttempt E (Option.bind l el_attemptId) (linked_state l) to code db"

section \<open>Listing\<close>

definition newest_jobs_first :: "runtime_job list \<Rightarrow> runtime_job list" where
  "newest_jobs_first js = sort_cmp (\<lambda>a b. if rj_updatedAt a = rj_updatedAt b then lex_cmp (rj_id a) (rj_id b) else lex_cmp (rj_updatedAt b) (rj_updatedAt a)) js"

definition list_runtime_jobs :: "int \<Rightarrow> int \<Rightarrow> job_db \<Rightarrow> runtime_job list" where
  "list_runtime_jobs limit offset db =
     (let l = (if is_safe_int limit \<and> 0 < limit then min limit 500 else 500); off = (if is_safe_int offset \<and> 0 \<le> offset then offset else 0) in
      take (nat l) (drop (nat off) (newest_jobs_first (db_jobs db))))"

definition job_search_text :: "runtime_job \<Rightarrow> string" where
  "job_search_text j =
     ''job '' @ rj_id j @ '' '' @ rj_status j @ '' '' @ json_text (rj_payload j) @ '' '' @ (if rj_retrySafe j then ''1'' else ''0'') @ '' '' @ int_text (rj_attempts j)"

definition job_needs_attention :: "runtime_job \<Rightarrow> bool" where
  "job_needs_attention j \<longleftrightarrow> rj_status j \<in> {''failed'', ''needs-review''}"

definition queryRuntimeJobs :: "int \<Rightarrow> int \<Rightarrow> string \<Rightarrow> string \<Rightarrow> job_db \<Rightarrow> runtime_job list \<times> nat \<times> nat \<times> int option" where
  "queryRuntimeJobs limit offset query status db =
     (let l = (if is_safe_int limit \<and> 0 \<le> limit then min limit 100000 else 50); off = (if is_safe_int offset \<and> 0 \<le> offset then offset else 0);
          needle = js_trim query; st = js_trim status;
          found = filter (\<lambda>j. (st = [] \<or> rj_status j = st) \<and>
            (needle = [] \<or> js_includes (map ascii_lower (job_search_text j)) (map ascii_lower needle))) (db_jobs db);
          items = take (nat l) (drop (nat off) (newest_jobs_first found)); next_offset = off + int (length items) in
      (items, length found, length (filter job_needs_attention found), if next_offset < int (length found) then Some next_offset else None))"

definition count_jobs :: "job_db \<Rightarrow> nat \<times> nat" where
  "count_jobs db = (length (db_jobs db), length (filter job_needs_attention (db_jobs db)))"

section \<open>Creation and claims\<close>

record reassignment_control =
  rc_graphRunId :: string
  rc_replacementJobId :: string
  rc_requestHash :: string
  rc_identityDigest :: string
  rc_principal :: string

definition reservation_matches :: "reassignment_control \<Rightarrow> runtime_job \<Rightarrow> reassignment \<Rightarrow> bool" where
  "reservation_matches c j r \<longleftrightarrow>
     rc_graphRunId c = ra_graphRunId r \<and> rc_replacementJobId c = rj_id j \<and> rc_requestHash c = ra_requestHash r \<and>
     Some (rc_requestHash c) = rj_requestHash j \<and> rc_identityDigest c = ra_identityDigest r \<and> rc_principal c = ra_principal r \<and>
     ra_status r = ''reserved''"

definition submit_reservation :: "string \<Rightarrow> reassignment_control \<Rightarrow> job_db \<Rightarrow> string + job_db" where
  "submit_reservation now c db =
     (let which = (\<lambda>r. ra_graphRunId r = rc_graphRunId c \<and> ra_replacementJobId r = rc_replacementJobId c \<and> ra_requestHash r = rc_requestHash c \<and>
            ra_identityDigest r = rc_identityDigest c \<and> ra_principal r = rc_principal c \<and> ra_status r = ''reserved'') in
      if length (filter which (db_reassignments db)) \<noteq> 1
      then Inl ''agent graph reassignment reservation changed during atomic job creation''
      else Inr (db\<lparr>db_reassignments := map (\<lambda>r. if which r
        then r\<lparr>ra_status := ''submitted'', ra_submittedAt := or_string (ra_submittedAt r) (Some now)\<rparr> else r) (db_reassignments db)\<rparr>))"

definition create_runtime_job :: "job_env \<Rightarrow> (string \<times> jsval) list \<Rightarrow> reassignment_control option \<Rightarrow> job_db \<Rightarrow> string + runtime_job \<times> job_db" where
  "create_runtime_job E job control db =
     bindR (guardR (find_runtime_job (the_str (js_field job ''id'')) db = None) (''job already exists: '' @ the_str (js_field job ''id''))) (\<lambda>_.
     bindR (normalizeRuntimeJob E job None) (\<lambda>j.
     case List.find (\<lambda>r. ra_replacementJobId r = rj_id j) (db_reassignments db) of
       None \<Rightarrow>
         bindR (guardR (control = None) ''agent graph reassignment reservation is unavailable during job creation'') (\<lambda>_.
         bindR (writeJob j db) (\<lambda>db'. stored_job (rj_id j) db'))
     | Some r \<Rightarrow>
         (case control of
            None \<Rightarrow> Inl ''job id is reserved for an exact agent graph reassignment''
          | Some c \<Rightarrow>
              bindR (guardR (reservation_matches c j r) ''job id is reserved for an exact agent graph reassignment'') (\<lambda>_.
              bindR (writeJob j db) (\<lambda>db1.
              bindR (submit_reservation (now_text E) c db1) (\<lambda>db2. stored_job (rj_id j) db2))))))"

text \<open>\<open>ORDER BY created_at ASC, id ASC LIMIT 1\<close>\<close>

definition next_queued :: "job_db \<Rightarrow> runtime_job option" where
  "next_queued db =
     (case sort_cmp (\<lambda>a b. if rj_createdAt a = rj_createdAt b then lex_cmp (rj_id a) (rj_id b) else lex_cmp (rj_createdAt a) (rj_createdAt b))
        (filter (\<lambda>j. rj_status j = ''queued'') (db_jobs db)) of
        [] \<Rightarrow> None
      | j # _ \<Rightarrow> Some j)"

definition requested_lease :: "job_env \<Rightarrow> runtime_job \<Rightarrow> (string \<times> jsval) list \<Rightarrow> (string \<times> jsval) list" where
  "requested_lease E j patch =
     (case js_field patch ''dispatchLease'' of
        JObj l \<Rightarrow>
          [(''dispatchLease'', JObj (js_assign l (some_field ''occurrenceKey'' (rj_occurrenceKey j) @
            [(''acquiredAt'', JStr (case optionalString (js_field l ''acquiredAt'') of None \<Rightarrow> now_text E | Some t \<Rightarrow> t)),
             (''expiresAt'', JStr (case optionalString (js_field l ''expiresAt'') of
                None \<Rightarrow> iso_text (je_now E + max (rj_timeoutMs j + 30000) 120000) | Some t \<Rightarrow> t))])))]
      | _ \<Rightarrow> [])"

definition claimNextRuntimeJob :: "job_env \<Rightarrow> (string \<times> jsval) list \<Rightarrow> job_db \<Rightarrow> string + runtime_job option \<times> job_db" where
  "claimNextRuntimeJob E patch db =
     (case next_queued db of
        None \<Rightarrow> Inr (None, db)
      | Some j \<Rightarrow>
          claim_runtime_row E (js_assign (js_assign (hydrate j) patch)
            ([(''id'', JStr (rj_id j)), (''status'', JStr ''running''), (''attempts'', JInt (rj_attempts j + 1)), (''createdAt'', JStr (rj_createdAt j)),
              (''updatedAt'', JStr (now_text E))] @ requested_lease E j patch)) j db)"

definition claim_runtime_job :: "job_env \<Rightarrow> string \<Rightarrow> (string \<times> jsval) list \<Rightarrow> job_db \<Rightarrow> string + runtime_job option \<times> job_db" where
  "claim_runtime_job E i patch db =
     (case find_runtime_job i db of
        None \<Rightarrow> Inr (None, db)
      | Some j \<Rightarrow>
          if rj_status j \<noteq> ''queued'' then Inr (None, db)
          else claim_runtime_row E (js_assign (js_assign (hydrate j) patch) [(''id'', JStr i)]) j db)"

definition claimApprovalJob :: "job_env \<Rightarrow> string \<Rightarrow> (string \<times> jsval) list \<Rightarrow> job_db \<Rightarrow> string + runtime_job option \<times> job_db" where
  "claimApprovalJob E i patch db =
     (case find_runtime_job i db of
        None \<Rightarrow> Inr (None, db)
      | Some j \<Rightarrow>
          if rj_status j \<noteq> ''awaiting-approval'' then Inr (None, db)
          else
            bindR (correlation E (rj_executionRunId j) db) (\<lambda>l.
            case l of
              None \<Rightarrow> Inr (None, db)
            | Some x \<Rightarrow>
                if el_attemptState x \<noteq> Some ''awaiting-approval'' then Inr (None, db)
                else claim_runtime_row E (js_assign (js_assign (hydrate j) patch) ([(''id'', JStr i)] @ link_fields x)) j db))"

section \<open>Settlement\<close>

text \<open>The status of the job and of its attempt, the error of the job and the code of the attempt.\<close>

definition approval_outcome :: "runtime_job \<Rightarrow> string option \<Rightarrow> bool \<Rightarrow> jsval \<Rightarrow> string \<times> jsval \<times> string option" where
  "approval_outcome j error dispatched interrupted =
     (case or_string (optionalString interrupted) (if rj_status j = ''cancelling'' then Some ''job cancellation was requested'' else None) of
        Some reason \<Rightarrow>
          if dispatched
          then (''needs-review'', JStr (''approval continuation was interrupted after dispatch; external outcome requires review: '' @ reason),
            Some ''APPROVAL_CONTINUATION_OUTCOME_UNCERTAIN'')
          else (''cancelled'', JStr (''approval continuation was cancelled before dispatch: '' @ reason), Some ''EXECUTION_CANCELLED'')
      | None \<Rightarrow>
          (case error of
             Some e \<Rightarrow> (''needs-review'', JStr (if e \<noteq> [] then e else ''approval continuation failed without a bounded error''), Some ''EXECUTION_OUTCOME_UNCERTAIN'')
           | None \<Rightarrow> (''completed'', JUndef, None)))"

definition settleApproval ::
    "job_env \<Rightarrow> string \<Rightarrow> string \<Rightarrow> jsval \<Rightarrow> string option \<Rightarrow> bool \<Rightarrow> jsval \<Rightarrow> job_db \<Rightarrow> string + runtime_job \<times> job_db" where
  "settleApproval E i expectedToken result error dispatched interrupted db =
     (case find_runtime_job i db of
        None \<Rightarrow> Inl (''job not found: '' @ i)
      | Some j \<Rightarrow>
          bindR (guardR (expectedToken \<noteq> [] \<and> rj_leaseToken j = Some expectedToken) ''STALE_APPROVAL_LEASE'') (\<lambda>_.
          bindR (guardR (rj_status j \<in> {''running'', ''cancelling''}) ''STALE_APPROVAL_STATE'') (\<lambda>_.
          bindR (correlation E (rj_executionRunId j) db) (\<lambda>l.
          bindR (guardR (Option.bind l el_attemptId \<notin> {None, Some []} \<and> linked_state l \<in> Some ` {''awaiting-approval'', ''running'', ''cancelling''})
            ''STALE_APPROVAL_ATTEMPT'') (\<lambda>_.
          case approval_outcome j error dispatched interrupted of (target, message, code) \<Rightarrow>
            bindR (transition_linked E l target code
              (release_lease (now_text E) target (\<lambda>x. ls_token x = expectedToken \<and> ls_jobId x = i \<and> ls_releasedAt x = None) db)) (\<lambda>db2.
            save_job E (js_assign (hydrate j) ([(''status'', JStr target), (''completedAt'', JStr (now_text E)),
                (''result'', if target = ''completed'' then result else JUndef), (''error'', message), (''dispatchLease'', JUndef)] @ linked_fields l))
              j (settle_control (now_text E) (rj_executionRunId j) db2)))))))"

text \<open>What the caller read when it verified a protected result.\<close>

record expectation =
  ex_status :: string
  ex_updatedAt :: "string option"
  ex_requestHash :: "string option"
  ex_occurrenceKey :: "string option"
  ex_executionRunId :: "string option"
  ex_executionAttemptId :: "string option"
  ex_envelopeDigest :: "string option"
  ex_auditCorrelationId :: "string option"
  ex_cancellationReference :: "string option"
  ex_lease :: "(string \<times> jsval) list"

definition lease_field :: "runtime_job \<Rightarrow> string \<Rightarrow> string option" where
  "lease_field j k = (case lease_object j of None \<Rightarrow> None | Some l \<Rightarrow> (case js_field l k of JStr s \<Rightarrow> Some s | _ \<Rightarrow> None))"

definition snapshot_matches :: "runtime_job \<Rightarrow> expectation \<Rightarrow> bool" where
  "snapshot_matches j x \<longleftrightarrow>
     rj_status j = ex_status x \<and> Some (rj_updatedAt j) = ex_updatedAt x \<and> rj_requestHash j = ex_requestHash x \<and>
     rj_occurrenceKey j = ex_occurrenceKey x \<and> rj_executionRunId j = ex_executionRunId x \<and>
     list_all (\<lambda>k. lease_field j k = optionalString (js_field (ex_lease x) k))
       [''token'', ''owner'', ''epoch'', ''acquiredAt'', ''expiresAt'', ''occurrenceKey'']"

definition agrees :: "string option \<Rightarrow> string option \<Rightarrow> bool" where
  "agrees a b \<longleftrightarrow> a = None \<or> a = Some [] \<or> a = b"

definition identity_matches :: "runtime_job \<Rightarrow> execution_link option \<Rightarrow> expectation \<Rightarrow> bool" where
  "identity_matches j l x \<longleftrightarrow>
     (case l of
        None \<Rightarrow> False
      | Some e \<Rightarrow>
          rj_executionRunId j \<noteq> None \<and> rj_executionRunId j = ex_executionRunId x \<and> el_attemptId e \<notin> {None, Some []} \<and>
          ex_executionAttemptId x = el_attemptId e \<and> ex_envelopeDigest x = Some (el_envelopeDigest e) \<and>
          ex_auditCorrelationId x = Some (el_auditCorrelationId e) \<and> ex_cancellationReference x = Some (el_cancellationReference e) \<and>
          agrees (rj_executionAttemptId j) (ex_executionAttemptId x) \<and> agrees (rj_envelopeDigest j) (ex_envelopeDigest x) \<and>
          agrees (rj_auditCorrelationId j) (ex_auditCorrelationId x) \<and> agrees (rj_cancellationReference j) (ex_cancellationReference x))"

definition control_of :: "runtime_job \<Rightarrow> job_db \<Rightarrow> cancellation_control option" where
  "control_of j db = (case rj_executionRunId j of None \<Rightarrow> None | Some r \<Rightarrow> List.find (\<lambda>c. cn_runId c = r) (db_controls db))"

definition control_matches :: "cancellation_control option \<Rightarrow> execution_link option \<Rightarrow> bool" where
  "control_matches c l \<longleftrightarrow> (case (c, l) of (Some x, Some e) \<Rightarrow> cn_id x = el_cancellationReference e | _ \<Rightarrow> False)"

definition cancellation_observed :: "cancellation_control option \<Rightarrow> bool" where
  "cancellation_observed c \<longleftrightarrow>
     (case c of None \<Rightarrow> False | Some x \<Rightarrow> cn_requestedAt x \<notin> {None, Some []} \<or> cn_acknowledgedAt x \<notin> {None, Some []})"

definition lease_matches :: "runtime_job \<Rightarrow> expectation \<Rightarrow> job_db \<Rightarrow> bool" where
  "lease_matches j x db \<longleftrightarrow>
     optionalString (js_field (ex_lease x) ''token'') \<noteq> None \<and>
     (case rj_leaseToken j of
        None \<Rightarrow> False
      | Some t \<Rightarrow>
          (case List.find (\<lambda>l. ls_token l = t \<and> ls_jobId l = rj_id j) (db_leases db) of
             None \<Rightarrow> False
           | Some l \<Rightarrow>
               ls_releasedAt l = None \<and> Some (ls_owner l) = lease_field j ''owner'' \<and> Some (ls_epoch l) = lease_field j ''epoch'' \<and>
               Some (ls_acquiredAt l) = lease_field j ''acquiredAt'' \<and> Some (ls_expiresAt l) = lease_field j ''expiresAt'' \<and>
               ls_occurrenceKey l = rj_occurrenceKey j))"

definition can_adopt :: "runtime_job \<Rightarrow> execution_link option \<Rightarrow> expectation \<Rightarrow> jsval \<Rightarrow> job_db \<Rightarrow> bool" where
  "can_adopt j l x interrupted db \<longleftrightarrow>
     rj_status j = ''running'' \<and> snapshot_matches j x \<and> identity_matches j l x \<and> control_matches (control_of j db) l \<and>
     \<not> cancellation_observed (control_of j db) \<and> optionalString interrupted = None \<and> lease_matches j x db \<and>
     linked_state l \<in> {Some ''running'', Some ''completed''}"

definition adoptProtectedResult ::
    "job_env \<Rightarrow> string \<Rightarrow> jsval \<Rightarrow> expectation \<Rightarrow> jsval \<Rightarrow> bool \<Rightarrow> job_db \<Rightarrow> string + runtime_job \<times> job_db" where
  "adoptProtectedResult E i result x interrupted recovering db =
     (case find_runtime_job i db of
        None \<Rightarrow> Inl (''job not found: '' @ i)
      | Some j \<Rightarrow>
          bindR (correlation E (rj_executionRunId j) db) (\<lambda>l.
          let adopt = can_adopt j l x interrupted db; now = now_text E;
              target = (if adopt then ''completed'' else ''needs-review'');
              cancelled = (rj_status j = ''cancelling'' \<or> cancellation_observed (control_of j db) \<or> linked_state l = Some ''cancelling'');
              message = (if adopt then JUndef
                else if cancelled then JStr ''protected channel result cannot override a cancellation; external outcome requires operator review''
                else if optionalString interrupted \<noteq> None
                then JStr ''protected channel result settlement was interrupted; external outcome requires operator review''
                else JStr ''protected channel result could not be atomically bound to its execution state; external outcome requires operator review'');
              db1 = (case rj_leaseToken j of None \<Rightarrow> db | Some t \<Rightarrow> release_lease now target (\<lambda>y. ls_token y = t \<and> ls_jobId y = rj_id j) db) in
          bindR (if adopt \<and> linked_state l = Some ''running'' then transition_linked E l ''completed'' None db1
                 else if \<not> adopt then transition_linked E l ''needs-review''
                   (Some (if cancelled then ''PROTECTED_RESULT_CANCELLATION_OUTCOME_UNCERTAIN'' else ''PROTECTED_RESULT_RECOVERY_STATE_UNCERTAIN'')) db1
                 else Inr db1) (\<lambda>db2.
          let db3 = (if control_matches (control_of j db) l then settle_control now (rj_executionRunId j) db2 else db2) in
          bindR (normalizeRuntimeJob E (js_assign (hydrate j) ([(''status'', JStr target), (''completedAt'', JStr now),
              (''result'', if adopt then result else JUndef), (''error'', message)] @
              (if recovering then [(''recoveredAt'', JStr now)] else []) @ [(''dispatchLease'', JUndef)] @ linked_fields l)) (Some j)) (\<lambda>n.
          bindR (writeJob (if adopt then n else n\<lparr>rj_result := None\<rparr>) db3) (\<lambda>db4. stored_job i db4)))))"

definition getProtectedResultSnapshot :: "job_env \<Rightarrow> string \<Rightarrow> job_db \<Rightarrow> string + (string \<times> jsval) list option" where
  "getProtectedResultSnapshot E i db =
     (case find_runtime_job i db of
        None \<Rightarrow> Inr None
      | Some j \<Rightarrow> bindR (correlation E (rj_executionRunId j) db) (\<lambda>l. Inr (Some (js_assign (hydrate j) (linked_fields l)))))"

text \<open>The status an update gives: a settled attempt decides, unless the job is put under review.\<close>

definition update_target :: "(string \<times> jsval) list \<Rightarrow> runtime_job \<Rightarrow> execution_link option \<Rightarrow> string" where
  "update_target patch j l =
     (let requested = js_String (nullish (js_field patch ''status'') (JStr (rj_status j))) in
      if requested = ''needs-review'' then requested
      else case linked_state l of
        Some st \<Rightarrow> if st \<in> set TERMINAL_ATTEMPT_STATES \<and> requested \<in> set TERMINAL_JOB_STATES then st else requested
      | None \<Rightarrow> requested)"

definition update_fields :: "(string \<times> jsval) list \<Rightarrow> runtime_job \<Rightarrow> execution_link option \<Rightarrow> (string \<times> jsval) list" where
  "update_fields patch j l =
     (let target = update_target patch j l in
      if target = js_String (nullish (js_field patch ''status'') (JStr (rj_status j))) then patch
      else js_assign patch [(''status'', JStr target), (''error'', if target = ''completed'' then JUndef
        else nullish (js_field patch ''error'') (nullish (opt_json (Option.bind l el_attemptErrorCode)) (opt_json (rj_error j))))])"

definition update_runtime_job :: "job_env \<Rightarrow> string \<Rightarrow> (string \<times> jsval) list \<Rightarrow> job_db \<Rightarrow> string + runtime_job \<times> job_db" where
  "update_runtime_job E i patch db =
     (case find_runtime_job i db of
        None \<Rightarrow> Inl (''job not found: '' @ i)
      | Some j \<Rightarrow>
          bindR (guardR (optionalString (js_field patch ''expectedLeaseToken'') \<in> {None, rj_leaseToken j}) ''STALE_DISPATCH_LEASE'') (\<lambda>_.
          bindR (correlation E (rj_executionRunId j) db) (\<lambda>l.
          let now = now_text E; target = update_target patch j l;
              db1 = (case rj_leaseToken j of
                Some t \<Rightarrow> if hasOwn patch ''dispatchLease'' \<and> js_field patch ''dispatchLease'' = JUndef
                  then release_lease now target (\<lambda>x. ls_token x = t) db else db
              | None \<Rightarrow> db) in
          bindR (if linked_state l \<noteq> None \<and> target \<in> set TERMINAL_JOB_STATES then
               bindR (transition_linked E l target
                 (if target = ''needs-review'' then Some ''EXECUTION_OUTCOME_UNCERTAIN'' else if target = ''cancelled'' then Some ''EXECUTION_CANCELLED'' else None) db1) (\<lambda>d.
               Inr (settle_control now (rj_executionRunId j) d))
             else Inr db1) (\<lambda>db2.
          save_job E (js_assign (js_assign (hydrate j) (update_fields patch j l)) ([(''id'', JStr i)] @ linked_fields l)) j db2))))"

definition renewLease :: "job_env \<Rightarrow> string \<Rightarrow> string \<Rightarrow> string \<Rightarrow> string \<Rightarrow> string \<Rightarrow> job_db \<Rightarrow> bool \<times> job_db" where
  "renewLease E i token owner epoch expiresAt db =
     (let held = (\<lambda>j. rj_id j = i \<and> rj_status j \<in> {''running'', ''cancelling''} \<and> rj_leaseToken j = Some token \<and> rj_leaseOwner j = Some owner \<and>
            rj_leaseEpoch j = Some epoch) in
      if length (filter held (db_jobs db)) \<noteq> 1 then (False, db)
      else (True, db\<lparr>db_jobs := map (\<lambda>j. if held j then j\<lparr>rj_leaseExpiresAt := Some expiresAt, rj_updatedAt := now_text E\<rparr> else j) (db_jobs db),
        db_leases := map (\<lambda>l. if ls_token l = token \<and> ls_owner l = owner \<and> ls_epoch l = epoch \<and> ls_releasedAt l = None
          then l\<lparr>ls_expiresAt := expiresAt\<rparr> else l) (db_leases db)\<rparr>))"

section \<open>Cancellation\<close>

definition request_cancellation :: "string \<Rightarrow> string \<Rightarrow> string \<Rightarrow> bool \<Rightarrow> string option \<Rightarrow> job_db \<Rightarrow> job_db" where
  "request_cancellation now by reason settled run db =
     db\<lparr>db_controls := map (\<lambda>c. if Some (cn_runId c) = run
       then c\<lparr>cn_requestedAt := or_string (cn_requestedAt c) (Some now), cn_requestedBy := or_string (cn_requestedBy c) (Some by),
         cn_reason := or_string (cn_reason c) (Some reason), cn_acknowledgedAt := or_string (cn_acknowledgedAt c) (Some now),
         cn_settledAt := (if settled then or_string (cn_settledAt c) (Some now) else cn_settledAt c)\<rparr> else c) (db_controls db)\<rparr>"

text \<open>A job whose execution has not settled: a running one is asked to stop, any other is cancelled.\<close>

definition cancel_open :: "job_env \<Rightarrow> runtime_job \<Rightarrow> execution_link option \<Rightarrow> string \<Rightarrow> string \<Rightarrow> job_db \<Rightarrow> string + runtime_job \<times> job_db" where
  "cancel_open E j l by reason db =
     (let now = now_text E; status = (if rj_status j \<in> {''running'', ''cancelling''} then ''cancelling'' else ''cancelled'');
          db1 = request_cancellation now by reason (status = ''cancelled'') (rj_executionRunId j) db in
      bindR (if linked_state l = Some ''running'' then transition_linked E l ''cancelling'' (Some ''EXECUTION_CANCELLATION_REQUESTED'') db1
             else if status = ''cancelled'' then transition_linked E l ''cancelled'' (Some ''EXECUTION_CANCELLED'') db1
             else Inr db1) (\<lambda>db2.
      save_job E (js_assign (hydrate j) ([(''status'', JStr status)] @ (if status = ''cancelled'' then [(''completedAt'', JStr now)] else []) @ linked_fields l))
        j db2))"

definition cancel_runtime_job :: "job_env \<Rightarrow> string \<Rightarrow> string \<Rightarrow> string \<Rightarrow> job_db \<Rightarrow> string + runtime_job \<times> job_db" where
  "cancel_runtime_job E i by reason db =
     (case find_runtime_job i db of
        None \<Rightarrow> Inl (''job not found: '' @ i)
      | Some j \<Rightarrow>
          if rj_status j \<in> set TERMINAL_JOB_STATES then Inr (j, db)
          else
            bindR (correlation E (rj_executionRunId j) db) (\<lambda>l.
            let now = now_text E in
            case linked_state l of
              Some st \<Rightarrow>
                if st \<in> set TERMINAL_ATTEMPT_STATES then
                  let db1 = (case rj_leaseToken j of None \<Rightarrow> db | Some t \<Rightarrow> release_lease now st (\<lambda>x. ls_token x = t) db) in
                  save_job E (js_assign (hydrate j) ([(''status'', JStr st), (''completedAt'', JStr (case rj_completedAt j of None \<Rightarrow> now | Some t \<Rightarrow> t)),
                      (''error'', if st = ''completed'' then JUndef else nullish (opt_json (rj_error j)) (opt_json (Option.bind l el_attemptErrorCode))),
                      (''dispatchLease'', JUndef)] @ linked_fields l))
                    j (settle_control now (rj_executionRunId j) db1)
                else cancel_open E j l by reason db
            | None \<Rightarrow> cancel_open E j l by reason db))"

section \<open>Recovery after a restart\<close>

text \<open>What becomes of a job: its status, error and completion, and how its attempt is settled.\<close>

record recovery =
  rv_status :: string
  rv_error :: "string option"
  rv_completedAt :: "string option"
  rv_transition :: "(string \<times> string) option"

definition lease_live :: "job_env \<Rightarrow> runtime_job \<Rightarrow> bool" where
  "lease_live E j \<longleftrightarrow>
     rj_status j \<in> {''running'', ''cancelling''} \<and>
     (case lease_field j ''expiresAt'' of
        None \<Rightarrow> False
      | Some t \<Rightarrow> t \<noteq> [] \<and> (case parse_iso t of None \<Rightarrow> False | Some ms \<Rightarrow> je_now E < ms))"

definition retry_allowed :: "runtime_job \<Rightarrow> execution_link option \<Rightarrow> bool" where
  "retry_allowed j l \<longleftrightarrow> rj_retrySafe j \<and> (case l of None \<Rightarrow> True | Some e \<Rightarrow> el_retrySafety e = ''retry-safe'')"

definition recovery_decision :: "string \<Rightarrow> int \<Rightarrow> runtime_job \<Rightarrow> execution_link option \<Rightarrow> recovery" where
  "recovery_decision now maxAttempts j l =
     (let retry = retry_allowed j l; again = (rj_attempts j < maxAttempts); st = linked_state l; status = rj_status j;
          code = Option.bind l el_attemptErrorCode;
          completed = (case rj_completedAt j of None \<Rightarrow> now | Some t \<Rightarrow> t);
          res = (\<lambda>s e c t. \<lparr>rv_status = s, rv_error = e, rv_completedAt = c, rv_transition = t\<rparr>) in
      if (st = Some ''failed'' \<or> st = Some ''cancelled'' \<and> status = ''queued'') \<and> status \<in> {''queued'', ''running''} \<and> retry \<and> again then
        res ''queued'' (Some ''retry-safe execution settled before its queued retry intent and is eligible for a new attempt'') None None
      else if st = Some ''completed'' then res ''completed'' None (Some completed) None
      else if status = ''cancelling'' then
        let s = (case st of Some x \<Rightarrow> if x \<in> set TERMINAL_ATTEMPT_STATES then x else if retry then ''cancelled'' else ''needs-review''
                 | None \<Rightarrow> if retry then ''cancelled'' else ''needs-review'') in
        res s
          (Some (if s = ''cancelled'' then ''cancellation was recovered after restart''
             else if s = ''failed'' then (case or_string (rj_error j) code of Some e \<Rightarrow> e | None \<Rightarrow> ''execution failed while cancellation was pending'')
             else ''execution was interrupted while cancellation was pending; outcome requires operator review''))
          (Some now) (Some (s, if s = ''needs-review'' then ''CANCELLATION_OUTCOME_UNCERTAIN'' else ''EXECUTION_CANCELLED''))
      else if (case st of Some x \<Rightarrow> x \<in> set TERMINAL_ATTEMPT_STATES | None \<Rightarrow> False) then
        res (the st) (Some (case or_string (rj_error j) code of Some e \<Rightarrow> e | None \<Rightarrow> ''execution attempt settled before runtime job projection''))
          (Some completed) None
      else if status = ''awaiting-approval'' \<and> st = Some ''awaiting-approval'' then res ''awaiting-approval'' (rj_error j) (rj_completedAt j) None
      else if st = Some ''awaiting-approval'' then
        res ''needs-review'' (Some ''an approval continuation lease expired before a terminal result was persisted; outcome requires operator review'')
          (Some now) (Some (''needs-review'', ''APPROVAL_CONTINUATION_OUTCOME_UNCERTAIN''))
      else if \<not> rj_recoverable j then
        let crossed = (st = Some ''running''); s = (if crossed \<and> \<not> retry then ''needs-review'' else ''failed'') in
        res s
          (Some (if crossed \<and> \<not> retry then ''execution crossed the dispatch boundary before volatile input was lost; outcome requires operator review''
             else ''volatile execution input is unavailable after restart; resubmit the job with fresh input''))
          (Some now) (Some (s, if s = ''needs-review'' then ''EXECUTION_OUTCOME_UNCERTAIN'' else ''RECOVERY_INPUT_UNAVAILABLE''))
      else if l = None \<and> rj_imported j \<and> (\<not> retry \<or> \<not> again) then
        res (if retry then ''failed'' else ''needs-review'')
          (Some (if retry then ''legacy retry-safe execution exhausted its attempt limit during restart recovery''
             else ''legacy execution was already running at SQLite cutover; outcome requires operator review'')) (Some now) None
      else if l = None \<or> st = Some ''queued'' then
        res ''queued'' (Some ''execution was interrupted before the dispatch boundary and is eligible for dispatch'') None None
      else if retry \<and> again then
        res ''queued'' (Some ''retry-safe execution was interrupted and is eligible for a new attempt'') None (Some (''failed'', ''EXECUTION_INTERRUPTED_RETRY_SAFE''))
      else
        let s = (if retry then ''failed'' else ''needs-review'') in
        res s
          (Some (if retry then ''retry-safe execution exhausted its attempt limit during restart recovery''
             else ''execution was interrupted after dispatch; outcome requires operator review''))
          (Some now) (Some (s, if s = ''needs-review'' then ''EXECUTION_OUTCOME_UNCERTAIN'' else ''EXECUTION_RETRY_EXHAUSTED'')))"

definition recover_runtime_job :: "job_env \<Rightarrow> int \<Rightarrow> job_db \<Rightarrow> runtime_job \<Rightarrow> string + job_db" where
  "recover_runtime_job E maxAttempts db j =
     bindR (correlation E (rj_executionRunId j) db) (\<lambda>l.
     if lease_live E j then Inr db
     else
       let now = now_text E; r = recovery_decision now maxAttempts j l in
       bindR (case rv_transition r of None \<Rightarrow> Inr db | Some (to, code) \<Rightarrow> transition_linked E l to (Some code) db) (\<lambda>db1.
       bindR (normalizeRuntimeJob E (js_assign (hydrate j) ([(''status'', JStr (rv_status r)), (''error'', opt_json (rv_error r)),
           (''completedAt'', opt_json (rv_completedAt r)), (''recoveredAt'', JStr now), (''dispatchLease'', JUndef)] @ linked_fields l)) (Some j)) (\<lambda>n.
       let db2 = (case rj_leaseToken j of None \<Rightarrow> db1 | Some t \<Rightarrow> release_lease now ''restart-recovery'' (\<lambda>x. ls_token x = t) db1);
           db3 = (if rv_status r \<in> set TERMINAL_JOB_STATES then settle_control now (rj_executionRunId j) db2 else db2) in
       writeJob n db3)))"

definition recovery_candidates :: "job_db \<Rightarrow> runtime_job list" where
  "recovery_candidates db =
     sort_cmp (\<lambda>a b. if rj_createdAt a = rj_createdAt b then lex_cmp (rj_id a) (rj_id b) else lex_cmp (rj_createdAt a) (rj_createdAt b))
       (filter (\<lambda>j. rj_status j \<in> {''running'', ''cancelling'', ''awaiting-approval''} \<or>
         rj_status j = ''queued'' \<and> (\<not> rj_recoverable j \<or> rj_executionRunId j \<noteq> None)) (db_jobs db))"

text \<open>The least expiry that is still to come; texts are compared.\<close>

definition next_lease_expiry :: "string \<Rightarrow> job_db \<Rightarrow> string option" where
  "next_lease_expiry now db =
     (case sort_cmp lex_cmp (concat (map (\<lambda>j. case rj_leaseExpiresAt j of
          Some t \<Rightarrow> if rj_status j \<in> {''running'', ''cancelling''} \<and> rj_leaseToken j \<noteq> None \<and> 0 < lex_cmp t now then [t] else []
        | None \<Rightarrow> []) (db_jobs db))) of
        [] \<Rightarrow> None
      | t # _ \<Rightarrow> Some t)"

definition status_counts :: "job_db \<Rightarrow> (string \<times> nat) list" where
  "status_counts db =
     map (\<lambda>st. (st, length (filter (\<lambda>j. rj_status j = st) (db_jobs db))))
       [''queued'', ''running'', ''awaiting-approval'', ''completed'', ''failed'', ''cancelled'', ''needs-review'']"

definition recover_runtime_jobs :: "job_env \<Rightarrow> int \<Rightarrow> job_db \<Rightarrow> string + ((string \<times> nat) list \<times> string option) \<times> job_db" where
  "recover_runtime_jobs E maxAttempts db =
     bindR (foldR (recover_runtime_job E maxAttempts) db (recovery_candidates db)) (\<lambda>db'.
     Inr ((status_counts db', next_lease_expiry (now_text E) db'), db'))"

section \<open>Import of the old store\<close>

text \<open>The file of the old store: its name, the bytes' digest, and what it holds when it is JSON.\<close>

record legacy_source =
  lg_name :: string
  lg_digest :: string
  lg_value :: "jsval option"

definition import_job :: "job_env \<Rightarrow> job_db \<times> int \<Rightarrow> jsval \<Rightarrow> string + job_db \<times> int" where
  "import_job E st v =
     (case st of (db, n) \<Rightarrow>
        bindR (guardR (is_obj v \<and> is_str (js_field (the_obj v) ''id'')) ''legacy runtime job store contains an invalid job'') (\<lambda>_.
        bindR (normalizeRuntimeJob E (js_assign (the_obj v) [(''importedFromLegacy'', JBool True)]) None) (\<lambda>j.
        if find_runtime_job (rj_id j) db = None then bindR (writeJob j db) (\<lambda>db'. Inr (db', n + 1)) else Inr (db, n))))"

definition importLegacy :: "job_env \<Rightarrow> legacy_source option \<Rightarrow> job_db \<Rightarrow> string + (bool \<times> int) \<times> job_db" where
  "importLegacy E source db =
     (case source of
        None \<Rightarrow> Inr ((False, 0), db)
      | Some s \<Rightarrow>
          (case lg_value s of
             None \<Rightarrow> Inl ''legacy runtime job store is corrupted''
           | Some v \<Rightarrow>
               bindR (guardR (is_obj v \<and> js_field (the_obj v) ''schemaVersion'' = JInt 1 \<and> is_obj (js_field (the_obj v) ''jobs''))
                 ''unsupported legacy runtime job store'') (\<lambda>_.
               case List.find (\<lambda>i. fst i = lg_name s) (db_imports db) of
                 Some (_, digest, n) \<Rightarrow>
                   if digest \<noteq> lg_digest s then Inl ''legacy runtime job store changed after SQLite cutover'' else Inr ((False, n), db)
               | None \<Rightarrow>
                   bindR (foldR (import_job E) (db, 0) (map snd (the_obj (js_field (the_obj v) ''jobs'')))) (\<lambda>(db', n).
                   Inr ((True, n), db'\<lparr>db_imports := db_imports db' @ [(lg_name s, lg_digest s, n)]\<rparr>)))))"

text \<open>\<open>recover\<close>: the import and the recovery are two transactions.\<close>

definition recover_job_store ::
    "job_env \<Rightarrow> legacy_source option \<Rightarrow> int \<Rightarrow> job_db \<Rightarrow> (string + (string \<times> nat) list \<times> string option) \<times> job_db" where
  "recover_job_store E source maxAttempts db =
     (case importLegacy E source db of
        Inl e \<Rightarrow> (Inl e, db)
      | Inr (_, db1) \<Rightarrow> (case recover_runtime_jobs E maxAttempts db1 of Inl e \<Rightarrow> (Inl e, db1) | Inr (r, db2) \<Rightarrow> (Inr r, db2)))"

section \<open>Histories\<close>

datatype job_op =
    Jo_create "(string \<times> jsval) list" "reassignment_control option"
  | Jo_claim_next "(string \<times> jsval) list"
  | Jo_claim string "(string \<times> jsval) list"
  | Jo_claim_approval string "(string \<times> jsval) list"
  | Jo_settle string string jsval "string option" bool jsval
  | Jo_adopt string jsval expectation jsval bool
  | Jo_update string "(string \<times> jsval) list"
  | Jo_renew string string string string string
  | Jo_cancel string string string
  | Jo_recover "legacy_source option" int

definition committed :: "job_db \<Rightarrow> string + 'a \<times> job_db \<Rightarrow> job_db" where
  "committed db r = (case r of Inl _ \<Rightarrow> db | Inr (_, db') \<Rightarrow> db')"

definition run_job_op :: "job_db \<Rightarrow> job_env \<times> job_op \<Rightarrow> job_db" where
  "run_job_op db p =
     (case p of (E, op) \<Rightarrow>
        (case op of
           Jo_create j c \<Rightarrow> committed db (create_runtime_job E j c db)
         | Jo_claim_next patch \<Rightarrow> committed db (claimNextRuntimeJob E patch db)
         | Jo_claim i patch \<Rightarrow> committed db (claim_runtime_job E i patch db)
         | Jo_claim_approval i patch \<Rightarrow> committed db (claimApprovalJob E i patch db)
         | Jo_settle i t r e d x \<Rightarrow> committed db (settleApproval E i t r e d x db)
         | Jo_adopt i r x y s \<Rightarrow> committed db (adoptProtectedResult E i r x y s db)
         | Jo_update i patch \<Rightarrow> committed db (update_runtime_job E i patch db)
         | Jo_renew i t ow ep ex \<Rightarrow> snd (renewLease E i t ow ep ex db)
         | Jo_cancel i by reason \<Rightarrow> committed db (cancel_runtime_job E i by reason db)
         | Jo_recover source m \<Rightarrow> snd (recover_job_store E source m db)))"

end
