(* ===== verification/Runtime_Job_Laws.thy ===== *)
theory Runtime_Job_Laws
  imports Runtime_Jobs
begin

text \<open>
  An attempt that has settled is final; a restart never queues an execution again that may have been
  dispatched, unless it is safe to retry; a settled job agrees with its attempt and its lease.
\<close>

section \<open>What a transaction leaves of the executions\<close>

text \<open>An attempt keeps its identity, a settled one everything, and none goes back to the queue.\<close>

definition attempt_step :: "execution_attempt \<Rightarrow> execution_attempt \<Rightarrow> bool" where
  "attempt_step a b \<longleftrightarrow> ea_id b = ea_id a \<and> ea_runId b = ea_runId a \<and> ea_number b = ea_number a \<and>
     (ea_state a \<in> set TERMINAL_ATTEMPT_STATES \<longrightarrow> b = a) \<and> (ea_state b = ''queued'' \<longrightarrow> ea_state a = ''queued'')"

definition exec_step :: "job_db \<Rightarrow> job_db \<Rightarrow> bool" where
  "exec_step db db' \<longleftrightarrow> db_envelopes db' = db_envelopes db \<and> list_all2 attempt_step (db_attempts db) (db_attempts db')"

lemma attempt_step_refl [simp]: "attempt_step a a" by (simp add: attempt_step_def)

lemma attempt_step_trans: "attempt_step a b \<Longrightarrow> attempt_step b c \<Longrightarrow> attempt_step a c"
  unfolding attempt_step_def by metis

lemma exec_step_refl [simp]: "exec_step db db" by (simp add: exec_step_def list_all2_refl)

lemma exec_step_trans:
  assumes "exec_step a b" "exec_step b c"
  shows "exec_step a c"
proof -
  have "list_all2 attempt_step (db_attempts a) (db_attempts c)"
    using assms unfolding exec_step_def list_all2_conv_all_nth by (metis attempt_step_trans)
  with assms show ?thesis by (simp add: exec_step_def)
qed

lemma exec_step_same: "db_envelopes db' = db_envelopes db \<Longrightarrow> db_attempts db' = db_attempts db \<Longrightarrow> exec_step db db'"
  by (simp add: exec_step_def list_all2_refl)

named_theorems exec "what keeps the executions"

lemma put_same [simp]: "db_envelopes (put_runtime_job j db) = db_envelopes db" "db_attempts (put_runtime_job j db) = db_attempts db"
  by (simp_all add: put_runtime_job_def)

lemma write_exec [exec]: "writeJob j db = Inr db' \<Longrightarrow> exec_step db db'"
  by (auto simp: writeJob_def intro!: exec_step_same split: if_splits)

lemma stored_exec [simp]: "stored_job i db = Inr (j, db') \<longleftrightarrow> find_runtime_job i db = Some j \<and> db' = db"
  by (auto simp: stored_job_def split: option.splits)

lemma lease_exec [exec]: "insert_lease i j db = Inr db' \<Longrightarrow> exec_step db db'"
  by (auto simp: insert_lease_def intro!: exec_step_same split: option.splits if_splits)

lemma release_exec [simp]: "exec_step db (release_lease now r w db)" "exec_step db (settle_control now run db)"
  "exec_step db (request_cancellation now u v b run db)"
  by (auto simp: release_lease_def settle_control_def request_cancellation_def intro!: exec_step_same)

lemma save_exec [exec]: "save_job E input c db = Inr (j, db') \<Longrightarrow> exec_step db db'"
  by (auto simp: save_job_def bindR_Inr_iff intro: write_exec)

lemma claim_exec [exec]: "claim_runtime_row E input c db = Inr (j, db') \<Longrightarrow> exec_step db db'"
  unfolding claim_runtime_row_def bindR_Inr_iff by clarsimp (rule exec_step_trans [OF write_exec lease_exec])

lemma transition_exec:
  assumes "transitionAttempt E a f to code db = Inr db'" "to \<noteq> ''queued''"
  shows "exec_step db db'"
proof -
  have step: "list_all2 attempt_step as (map (\<lambda>z. if ea_id z = y \<and> ea_state z = x then g z else z) as)"
    if "x \<notin> set TERMINAL_ATTEMPT_STATES" "\<And>z. ea_id (g z) = ea_id z \<and> ea_runId (g z) = ea_runId z \<and> ea_number (g z) = ea_number z \<and> ea_state (g z) = to"
    for x y g as
    using that assms(2) by (induction as) (auto simp: attempt_step_def)
  show ?thesis
  proof (cases "\<exists>x y. a = Some y \<and> f = Some x \<and> y \<noteq> [] \<and> x \<notin> set TERMINAL_ATTEMPT_STATES \<and> x \<noteq> to")
    case True
    then obtain x y where x: "a = Some y" "f = Some x" "y \<noteq> []" "x \<notin> set TERMINAL_ATTEMPT_STATES" "x \<noteq> to" by blast
    with assms(1) show ?thesis
      unfolding transitionAttempt_def exec_step_def by (auto intro!: step split: if_splits)
  next
    case False
    with assms(1) have "db' = db" by (auto simp: transitionAttempt_def split: option.splits if_splits)
    then show ?thesis by simp
  qed
qed

lemma linked_exec [exec]: "transition_linked E l to code db = Inr db' \<Longrightarrow> to \<noteq> ''queued'' \<Longrightarrow> exec_step db db'"
  unfolding transition_linked_def by (rule transition_exec)

section \<open>Every operation\<close>

lemma committed_exec: "(\<And>a db'. r = Inr (a, db') \<Longrightarrow> exec_step db db') \<Longrightarrow> exec_step db (committed db r)"
  by (auto simp: committed_def split: sum.splits prod.splits)

lemma bindR_E: "bindR m f = Inr b \<Longrightarrow> (\<And>a. m = Inr a \<Longrightarrow> f a = Inr b \<Longrightarrow> P) \<Longrightarrow> P"
  by (auto simp: bindR_Inr_iff)

lemma submit_exec [exec]: "submit_reservation now x db = Inr db' \<Longrightarrow> exec_step db db'"
  by (auto simp: submit_reservation_def Let_def intro!: exec_step_same split: if_splits)

lemma create_exec: "create_runtime_job E j c db = Inr (a, db') \<Longrightarrow> exec_step db db'"
  unfolding create_runtime_job_def
  by (elim bindR_E) (auto split: option.splits elim!: bindR_E intro: exec exec_step_trans [OF write_exec submit_exec])

lemma claims_exec:
  "claimNextRuntimeJob E patch db = Inr (a, db') \<Longrightarrow> exec_step db db'"
  "claim_runtime_job E i patch db = Inr (a, db') \<Longrightarrow> exec_step db db'"
  "claimApprovalJob E i patch db = Inr (a, db') \<Longrightarrow> exec_step db db'"
  by (auto simp: claimNextRuntimeJob_def claim_runtime_job_def claimApprovalJob_def bindR_Inr_iff intro: claim_exec split: option.splits if_splits)

lemma terminal_not_queued: "st \<in> set TERMINAL_ATTEMPT_STATES \<Longrightarrow> st \<noteq> ''queued''" "st \<in> set TERMINAL_JOB_STATES \<Longrightarrow> st \<noteq> ''queued''"
  by (auto simp: TERMINAL_ATTEMPT_STATES_def TERMINAL_JOB_STATES_def)

lemma outcome_target: "approval_outcome j e d x = (target, m, code) \<Longrightarrow> target \<in> {''completed'', ''cancelled'', ''needs-review''}"
  by (auto simp: approval_outcome_def split: option.splits if_splits)

lemma settle_exec:
  assumes "settleApproval E i t r e d x db = Inr (a, db')"
  shows "exec_step db db'"
proof (cases "find_runtime_job i db")
  case (Some j)
  obtain target m code where o: "approval_outcome j e d x = (target, m, code)" by (cases "approval_outcome j e d x")
  have t: "target \<noteq> ''queued''" using outcome_target [OF o] by auto
  from assms show ?thesis
    unfolding settleApproval_def Some o option.case prod.case
    by (elim bindR_E) (meson exec_step_trans linked_exec release_exec save_exec t)
qed (use assms in \<open>simp add: settleApproval_def\<close>)

lemma release_opt_exec [simp]: "exec_step db (case x of None \<Rightarrow> db | Some t \<Rightarrow> release_lease now r (w t) db)"
  by (simp split: option.split)

text \<open>The same after other steps.\<close>

lemma exec_from [exec]:
  "exec_step db d \<Longrightarrow> exec_step db (settle_control now run d)" "exec_step db d \<Longrightarrow> exec_step db (release_lease now u w d)"
  "exec_step db d \<Longrightarrow> exec_step db (request_cancellation now u v b run d)"
  "transition_linked E l to code d = Inr d' \<Longrightarrow> to \<noteq> ''queued'' \<Longrightarrow> exec_step db d \<Longrightarrow> exec_step db d'"
  "save_job E inp j d = Inr (a, d') \<Longrightarrow> exec_step db d \<Longrightarrow> exec_step db d'"
  "writeJob j d = Inr d' \<Longrightarrow> exec_step db d \<Longrightarrow> exec_step db d'"
  by (meson exec_step_trans release_exec linked_exec save_exec write_exec)+

lemma adopt_exec:
  assumes "adoptProtectedResult E i r x y s db = Inr (a, db')"
  shows "exec_step db db'"
proof (cases "find_runtime_job i db")
  case (Some j)
  from assms show ?thesis
    unfolding adoptProtectedResult_def Some option.case Let_def
  proof (elim bindR_E, goal_cases)
    case (1 l db2 n db4)
    have 2: "exec_step db db2"
      using 1(2) by (auto split: if_splits intro: exec_from(4))
    have "exec_step db2 (if control_matches (control_of j db) l then settle_control (now_text E) (rj_executionRunId j) db2 else db2)" by simp
    with 1(4,5) 2 show ?case by (auto intro: exec_from(6) exec_step_trans)
  qed
qed (use assms in \<open>simp add: adoptProtectedResult_def\<close>)

lemma update_exec:
  assumes "update_runtime_job E i patch db = Inr (a, db')"
  shows "exec_step db db'"
proof (cases "find_runtime_job i db")
  case (Some j)
  from assms show ?thesis
    unfolding update_runtime_job_def Some option.case Let_def
  proof (elim bindR_E, goal_cases)
    case (1 u l db2)
    let ?db1 = "case rj_leaseToken j of None \<Rightarrow> db | Some t \<Rightarrow>
      if hasOwn patch ''dispatchLease'' \<and> js_field patch ''dispatchLease'' = JUndef then release_lease (now_text E) (update_target patch j l) (\<lambda>x. ls_token x = t) db else db"
    have 2: "exec_step db ?db1" by (simp split: option.split)
    have "exec_step db db2"
    proof (cases "linked_state l \<noteq> None \<and> update_target patch j l \<in> set TERMINAL_JOB_STATES")
      case True
      then have t: "update_target patch j l \<noteq> ''queued''" using terminal_not_queued(2) by blast
      from 1(3) show ?thesis
        unfolding if_P [OF True] by (elim bindR_E) (simp, blast intro: exec_from(1) exec_from(4) [OF _ t 2])
    next
      case False
      from 1(3) 2 show ?thesis unfolding if_not_P [OF False] by simp
    qed
    then show ?case by (rule exec_from(5) [OF 1(4)])
  qed
qed (use assms in \<open>simp add: update_runtime_job_def\<close>)

lemma renew_exec: "exec_step db (snd (renewLease E i t ow ep ex db))"
  by (auto simp: renewLease_def Let_def intro!: exec_step_same)

lemma cancel_open_exec: "cancel_open E j l by reason db = Inr (a, db') \<Longrightarrow> exec_step db db'"
  unfolding cancel_open_def Let_def
proof (elim bindR_E, goal_cases)
  case (1 db2)
  let ?db1 = "request_cancellation (now_text E) by reason ((if rj_status j \<in> {''running'', ''cancelling''} then ''cancelling'' else ''cancelled'') = ''cancelled'')
    (rj_executionRunId j) db"
  have "exec_step ?db1 db2" using 1(1) by (auto split: if_splits intro: linked_exec)
  with save_exec [OF 1(2)] show ?case by (meson exec_step_trans release_exec)
qed

lemma cancel_exec:
  assumes "cancel_runtime_job E i by reason db = Inr (a, db')"
  shows "exec_step db db'"
proof (cases "find_runtime_job i db")
  case (Some j)
  show ?thesis
  proof (cases "rj_status j \<in> set TERMINAL_JOB_STATES")
    case True
    with assms Some show ?thesis by (simp add: cancel_runtime_job_def)
  next
    case False
    from assms show ?thesis
      unfolding cancel_runtime_job_def Some option.case if_not_P [OF False] Let_def
    proof (elim bindR_E, goal_cases)
      case (1 l)
      show ?case
      proof (cases "linked_state l")
        case None
        with 1(2) show ?thesis using cancel_open_exec by simp
      next
        case (Some st)
        show ?thesis
        proof (cases "st \<in> set TERMINAL_ATTEMPT_STATES")
          case True
          show ?thesis
            using 1(2) unfolding Some option.case if_P [OF True] by (rule exec_from(5)) (rule exec_from(1) [OF release_opt_exec])
        next
          case False
          with 1(2) Some show ?thesis using cancel_open_exec by simp
        qed
      qed
    qed
  qed
qed (use assms in \<open>simp add: cancel_runtime_job_def\<close>)

lemma recovery_target:
  assumes "rv_transition (recovery_decision now mx j l) = Some (to, code)"
  shows "to \<in> {''failed'', ''cancelled'', ''needs-review''} \<or> linked_state l = Some to \<and> to \<in> set TERMINAL_ATTEMPT_STATES"
  using assms unfolding recovery_decision_def Let_def
  by (cases "linked_state l") (auto split: if_splits)

lemma recover_job_exec:
  assumes "recover_runtime_job E mx db j = Inr db'"
  shows "exec_step db db'"
  using assms unfolding recover_runtime_job_def Let_def
proof (elim bindR_E, goal_cases)
  case (1 l)
  show ?case
  proof (cases "lease_live E j")
    case True
    with 1 show ?thesis by simp
  next
    case False
    from 1(2) show ?thesis
      unfolding if_not_P [OF False]
    proof (elim bindR_E, goal_cases)
      case (1 db1 n)
      have "exec_step db db1"
      proof (cases "rv_transition (recovery_decision (now_text E) mx j l)")
        case None
        with 1(1) show ?thesis by simp
      next
        case (Some p)
        obtain to code where p: "p = (to, code)" by (cases p)
        from recovery_target [OF Some [unfolded p]] have "to \<noteq> ''queued''" using terminal_not_queued(1) by auto
        with 1(1) Some p show ?thesis by (auto intro: linked_exec)
      qed
      then have "exec_step db (case rj_leaseToken j of None \<Rightarrow> db1 | Some t \<Rightarrow> release_lease (now_text E) ''restart-recovery'' (\<lambda>x. ls_token x = t) db1)"
        by (auto intro: exec_from split: option.split)
      then show ?case by (intro exec_from(6) [OF 1(3)]) (auto intro: exec_from(1))
    qed
  qed
qed

lemma foldR_exec:
  assumes "\<And>x d d'. f d x = Inr d' \<Longrightarrow> exec_step (p d) (p d')"
  shows "foldR f d xs = Inr d' \<Longrightarrow> exec_step (p d) (p d')"
proof (induction xs arbitrary: d)
  case (Cons x xs)
  then show ?case by (auto elim!: bindR_E dest: assms intro: exec_step_trans)
qed simp

lemma recover_jobs_exec: "recover_runtime_jobs E mx db = Inr (r, db') \<Longrightarrow> exec_step db db'"
  unfolding recover_runtime_jobs_def by (elim bindR_E) (clarsimp, erule foldR_exec [where p = "\<lambda>d. d", rotated], erule recover_job_exec)

lemma import_job_exec: "import_job E st v = Inr st' \<Longrightarrow> exec_step (fst st) (fst st')"
  by (auto simp: import_job_def elim!: bindR_E dest!: write_exec split: prod.splits if_splits)

lemma import_exec:
  assumes "importLegacy E src db = Inr (r, db')"
  shows "exec_step db db'"
proof -
  have *: "exec_step db d" if "foldR (import_job E) (db, 0) xs = Inr (d, n)" for xs d n
    using foldR_exec [where p = fst, OF import_job_exec that] by simp
  have "exec_step d (d\<lparr>db_imports := y\<rparr>)" for d y by (rule exec_step_same) simp_all
  with assms show ?thesis
    unfolding importLegacy_def
    by (auto elim!: bindR_E dest!: * split: option.splits prod.splits if_splits intro: exec_step_trans)
qed

lemma recover_store_exec: "exec_step db (snd (recover_job_store E src mx db))"
  by (auto simp: recover_job_store_def dest: import_exec recover_jobs_exec intro: exec_step_trans split: sum.splits prod.splits)

lemma op_exec: "exec_step db (run_job_op db p)"
  by (cases p, cases "snd p")
    (auto simp: run_job_op_def renew_exec recover_store_exec
      intro!: committed_exec dest: create_exec claims_exec settle_exec adopt_exec update_exec cancel_exec)

lemma run_exec: "exec_step db (foldl run_job_op db ops)"
  by (induction ops arbitrary: db) (auto intro: exec_step_trans op_exec)

text \<open>
  C37. An attempt that has settled is final: whatever operations follow, recoveries and cancellations
  included, its row is never changed again.
\<close>

theorem settled_attempt_final:
  assumes "a \<in> set (db_attempts db)" "ea_state a \<in> set TERMINAL_ATTEMPT_STATES"
  shows "a \<in> set (db_attempts (foldl run_job_op db ops))"
proof -
  have "list_all2 attempt_step (db_attempts db) (db_attempts (foldl run_job_op db ops))"
    using run_exec [of db ops] by (simp add: exec_step_def)
  moreover obtain k where "k < length (db_attempts db)" "db_attempts db ! k = a" using assms(1) by (auto simp: in_set_conv_nth)
  ultimately have "attempt_step a (db_attempts (foldl run_job_op db ops) ! k)" "k < length (db_attempts (foldl run_job_op db ops))"
    by (auto dest: list_all2_nthD list_all2_lengthD)
  then show ?thesis using assms(2) nth_mem by (fastforce simp: attempt_step_def)
qed

section \<open>The execution a job is correlated with\<close>

lemma attempt_stepD:
  "attempt_step a b \<Longrightarrow> ea_runId b = ea_runId a" "attempt_step a b \<Longrightarrow> ea_number b = ea_number a"
  "attempt_step a b \<Longrightarrow> ea_state b = ''queued'' \<Longrightarrow> ea_state a = ''queued''"
  by (simp_all add: attempt_step_def)

lemma last_attempt_step:
  "list_all2 attempt_step as bs \<Longrightarrow> rel_option attempt_step (last_attempt as) (last_attempt bs)"
  by (induction rule: list_all2_induct) (auto simp: attempt_stepD elim!: option.rel_cases)

lemma attempt_of_step:
  assumes "exec_step db d"
  shows "rel_option attempt_step (attempt_of run db) (attempt_of run d)"
proof -
  have "list_all2 attempt_step as bs \<Longrightarrow>
      list_all2 attempt_step (filter (\<lambda>a. ea_runId a = run) as) (filter (\<lambda>a. ea_runId a = run) bs)" for as bs
    by (induction rule: list_all2_induct) (auto dest: attempt_stepD(1))
  with assms show ?thesis by (auto simp: attempt_of_def exec_step_def intro: last_attempt_step)
qed

lemma correlation_step:
  assumes "exec_step db d" "correlation E run db = Inr (Some l)"
  shows "\<exists>l'. correlation E run d = Inr (Some l') \<and> el_retrySafety l' = el_retrySafety l \<and>
    (el_attemptState l' = Some ''queued'' \<longrightarrow> el_attemptState l = Some ''queued'')"
proof (cases run)
  case (Some r)
  have e: "db_envelopes d = db_envelopes db" using assms(1) by (simp add: exec_step_def)
  have "el_attemptState l = map_option ea_state (attempt_of r db)"
    using assms(2) by (auto simp: correlation_def Some Let_def elim!: bindR_E split: option.splits)
  moreover have "map_option ea_state (attempt_of r d) = Some ''queued'' \<Longrightarrow> map_option ea_state (attempt_of r db) = Some ''queued''"
    using attempt_of_step [OF assms(1), of r] by (auto dest: attempt_stepD(3) elim!: option.rel_cases)
  ultimately show ?thesis
    using assms(2) by (auto simp: correlation_def Some e Let_def bindR_Inr_iff split: option.splits)
qed (use assms in \<open>simp add: correlation_def\<close>)

section \<open>Recovery\<close>

lemma decision_repeats:
  assumes "linked_state (Some l) \<noteq> Some ''queued''" "\<not> (retry_allowed j (Some l) \<and> rj_attempts j < mx)"
  shows "rv_status (recovery_decision now mx j (Some l)) \<noteq> ''queued''"
  using assms terminal_not_queued(1) unfolding recovery_decision_def Let_def
  by (cases "linked_state (Some l)") (auto split: if_splits)

lemma put_jobs:
  "k \<in> set (db_jobs (put_runtime_job n d)) \<Longrightarrow> rj_id k \<noteq> rj_id n \<and> k \<in> set (db_jobs d) \<or> rj_id k = rj_id n \<and> rj_status k = rj_status n"
  by (auto simp: put_runtime_job_def find_runtime_job_def find_None_iff split: if_splits)

lemma write_jobs:
  "writeJob n d = Inr d' \<Longrightarrow> k \<in> set (db_jobs d') \<Longrightarrow>
    rj_id k \<noteq> rj_id n \<and> k \<in> set (db_jobs d) \<or> rj_id k = rj_id n \<and> rj_status k = rj_status n"
  by (auto simp: writeJob_def dest: put_jobs split: if_splits)

lemma obj_case_E:
  "(case v of JObj m \<Rightarrow> f m | _ \<Rightarrow> Inl e) = Inr b \<Longrightarrow> (\<And>m. v = JObj m \<Longrightarrow> f m = Inr b \<Longrightarrow> P) \<Longrightarrow> P"
  by (cases v) auto

lemma some_case_E: "(case v of None \<Rightarrow> Inl e | Some x \<Rightarrow> f x) = Inr b \<Longrightarrow> (\<And>x. v = Some x \<Longrightarrow> f x = Inr b \<Longrightarrow> P) \<Longrightarrow> P"
  by (cases v) auto

text \<open>What the object says of the new row.\<close>

definition current_fields :: "runtime_job option \<Rightarrow> (string \<times> jsval) list" where
  "current_fields cur = (case cur of None \<Rightarrow> [] | Some c \<Rightarrow> hydrate c)"

lemma normalize_row:
  assumes "normalizeRuntimeJob E inp cur = Inr n"
  shows "rj_id n = js_String (js_field inp ''id'')"
    "rj_status n = js_String (nullish (nullish (js_field inp ''status'') (js_field (current_fields cur) ''status'')) (JStr ''queued''))"
    "bounded_integer 0 MAX_SAFE_INTEGER (js_Number (nullish (nullish (js_field inp ''attempts'') (js_field (current_fields cur) ''attempts'')) (JInt 0))) = Some (rj_attempts n)"
  by (insert assms, unfold normalizeRuntimeJob_def Let_def current_fields_def,
    elim bindR_E obj_case_E some_case_E, drule Inr_inject, hypsubst, simp only: runtime_job.select_convs)+

lemma normalize_no_lease:
  assumes "normalizeRuntimeJob E inp cur = Inr n" "hasOwn inp ''dispatchLease''" "js_field inp ''dispatchLease'' = JUndef"
  shows "rj_leaseToken n = None"
  using assms(1) unfolding normalizeRuntimeJob_def Let_def
  by (elim bindR_E obj_case_E some_case_E) (drule Inr_inject, hypsubst, simp only: runtime_job.select_convs assms(2,3) jsval.case if_True js_field.simps optionalString.simps)

lemma normalize_keeps:
  assumes "normalizeRuntimeJob E inp cur = Inr n" "js_field inp ''id'' = JStr i" "js_field inp ''status'' = JStr s"
  shows "rj_id n = i" "rj_status n = s"
  using normalize_row(1,2) [OF assms(1)] assms(2,3) by (simp_all add: nullish_def)

lemma same_jobs [simp]:
  "db_jobs (release_lease now r w d) = db_jobs d" "db_jobs (settle_control now run d) = db_jobs d"
  "db_jobs (request_cancellation now u v b run d) = db_jobs d"
  by (simp_all add: release_lease_def settle_control_def request_cancellation_def)

lemma linked_jobs: "transition_linked E l to code d = Inr d' \<Longrightarrow> db_jobs d' = db_jobs d"
  by (auto simp: transition_linked_def transitionAttempt_def split: option.splits if_splits)

lemma recover_job_jobs:
  assumes "recover_runtime_job E mx d j = Inr d'" "k \<in> set (db_jobs d')"
  shows "rj_id k \<noteq> rj_id j \<and> k \<in> set (db_jobs d) \<or> lease_live E j \<and> k \<in> set (db_jobs d) \<or>
    (\<exists>l. correlation E (rj_executionRunId j) d = Inr l \<and> rj_id k = rj_id j \<and> rj_status k = rv_status (recovery_decision (now_text E) mx j l))"
  using assms(1) unfolding recover_runtime_job_def Let_def
proof (elim bindR_E, goal_cases)
  case (1 l)
  show ?case
  proof (cases "lease_live E j")
    case True
    with 1 assms(2) show ?thesis by simp
  next
    case False
    from 1(2) show ?thesis
      unfolding if_not_P [OF False]
    proof (elim bindR_E, goal_cases)
      case (1 d1 n)
      have n: "rj_id n = rj_id j" "rj_status n = rv_status (recovery_decision (now_text E) mx j l)"
        by (rule normalize_keeps [OF 1(2), where i = "rj_id j" and s = "rv_status (recovery_decision (now_text E) mx j l)"];
          simp add: hydrate_def linked_fields_def link_fields_def split: option.split)+
      have "db_jobs d1 = db_jobs d"
        using 1(1) by (auto dest: linked_jobs split: option.splits prod.splits)
      with write_jobs [OF 1(3) assms(2)] n \<open>correlation E (rj_executionRunId j) d = Inr l\<close> show ?case
        by (auto split: if_splits option.splits)
    qed
  qed
qed

lemma recovery_fold:
  assumes l: "correlation E (rj_executionRunId j) db = Inr (Some l)" "el_attemptState l \<noteq> Some ''queued''"
    "\<not> (retry_allowed j (Some l) \<and> rj_attempts j < mx)"
  shows "foldR (recover_runtime_job E mx) d cs = Inr d' \<Longrightarrow> exec_step db d \<Longrightarrow> \<forall>c\<in>set cs. rj_id c = rj_id j \<longrightarrow> c = j \<Longrightarrow>
    \<forall>k\<in>set (db_jobs d). rj_id k = rj_id j \<longrightarrow> rj_status k = ''queued'' \<longrightarrow> k = j \<and> j \<in> set cs \<Longrightarrow>
    \<forall>k\<in>set (db_jobs d'). rj_id k = rj_id j \<longrightarrow> rj_status k \<noteq> ''queued''"
proof (induction cs arbitrary: d)
  case (Cons c cs)
  from Cons.prems(1) obtain d1 where d1: "recover_runtime_job E mx d c = Inr d1" "foldR (recover_runtime_job E mx) d1 cs = Inr d'"
    by (auto elim!: bindR_E)
  have "exec_step db d1" using Cons.prems(2) recover_job_exec [OF d1(1)] by (rule exec_step_trans)
  moreover have "k = j \<and> j \<in> set cs" if k: "k \<in> set (db_jobs d1)" "rj_id k = rj_id j" "rj_status k = ''queued''" for k
  proof (cases "rj_id c = rj_id j")
    case False
    with recover_job_jobs [OF d1(1) k(1)] k Cons.prems(4) show ?thesis by auto
  next
    case True
    with Cons.prems(3) have c: "c = j" by simp
    from correlation_step [OF Cons.prems(2) l(1)] obtain l' where
      l': "correlation E (rj_executionRunId j) d = Inr (Some l')" "el_retrySafety l' = el_retrySafety l" "el_attemptState l' \<noteq> Some ''queued''"
      using l(2) by blast
    have "rv_status (recovery_decision (now_text E) mx j (Some l')) \<noteq> ''queued''"
      using l(3) l'(2,3) by (intro decision_repeats) (auto simp: linked_state_def retry_allowed_def)
    with recover_job_jobs [OF d1(1) k(1)] c k l' have "lease_live E j" "k \<in> set (db_jobs d)" by auto
    with Cons.prems(4) k show ?thesis by (auto simp: lease_live_def)
  qed
  ultimately show ?case using Cons.IH [OF d1(2)] Cons.prems(3) by auto
qed auto

text \<open>
  C38. A restart never queues again a job whose execution may have been dispatched, unless the job and its
  envelope are retry-safe and attempts are left: whatever the other jobs are, such a job is not queued
  after the recovery.
\<close>

theorem recovery_never_repeats:
  assumes "recover_runtime_jobs E mx db = Inr (r, db')" "distinct (map rj_id (db_jobs db))" "j \<in> set (db_jobs db)"
    "correlation E (rj_executionRunId j) db = Inr (Some l)" "el_attemptState l \<noteq> Some ''queued''"
    "\<not> (retry_allowed j (Some l) \<and> rj_attempts j < mx)" "k \<in> set (db_jobs db')" "rj_id k = rj_id j"
  shows "rj_status k \<noteq> ''queued''"
proof -
  have same: "c = j" if "c \<in> set (db_jobs db)" "rj_id c = rj_id j" for c
    using that assms(2,3) by (auto simp: distinct_map dest: inj_onD)
  have "rj_executionRunId j \<noteq> None"
  proof
    assume "rj_executionRunId j = None"
    with assms(4) show False by (simp add: correlation_def)
  qed
  then have cand: "rj_status j = ''queued'' \<Longrightarrow> j \<in> set (recovery_candidates db)"
    using assms(3) by (simp add: recovery_candidates_def)
  have "foldR (recover_runtime_job E mx) db (recovery_candidates db) = Inr db'"
    using assms(1) by (auto simp: recover_runtime_jobs_def elim!: bindR_E)
  moreover have "\<forall>c\<in>set (recovery_candidates db). rj_id c = rj_id j \<longrightarrow> c = j"
    using same by (auto simp: recovery_candidates_def)
  moreover have "\<forall>k\<in>set (db_jobs db). rj_id k = rj_id j \<longrightarrow> rj_status k = ''queued'' \<longrightarrow> k = j \<and> j \<in> set (recovery_candidates db)"
    using same cand by blast
  ultimately show ?thesis
    using recovery_fold [OF assms(4,5,6) _ exec_step_refl] assms(7,8) by blast
qed

section \<open>Settlement\<close>

lemma find_put:
  "find_runtime_job (rj_id n) (put_runtime_job n d) = Some (case find_runtime_job (rj_id n) d of None \<Rightarrow> n | Some k \<Rightarrow> n\<lparr>rj_createdAt := rj_createdAt k\<rparr>)"
proof -
  have "List.find (\<lambda>k. rj_id k = rj_id n) (map (\<lambda>k. if rj_id k = rj_id n then n\<lparr>rj_createdAt := rj_createdAt k\<rparr> else k) js) =
      map_option (\<lambda>k. n\<lparr>rj_createdAt := rj_createdAt k\<rparr>) (List.find (\<lambda>k. rj_id k = rj_id n) js)" for js
    by (induction js) auto
  moreover have "List.find P (js @ [n]) = Some n" if "List.find P js = None" "P n" for P js
    using that by (induction js) (auto split: if_splits)
  ultimately show ?thesis by (auto simp: put_runtime_job_def find_runtime_job_def split: option.splits)
qed

lemma find_id: "find_runtime_job i d = Some j \<Longrightarrow> rj_id j = i"
  by (auto simp: find_runtime_job_def find_Some_iff)

lemma hasOwn_set [simp]: "hasOwn (jm_set k v m) k' \<longleftrightarrow> k' = k \<or> hasOwn m k'"
  by (auto simp: hasOwn_def jm_keys_set)

text \<open>The job that a transaction writes and returns.\<close>

lemma save_job_E:
  assumes "save_job E inp c d = Inr (a, d')"
  obtains n where "normalizeRuntimeJob E inp (Some c) = Inr n" "d' = put_runtime_job n d"
    "rj_id a = rj_id n" "rj_status a = rj_status n" "rj_attempts a = rj_attempts n" "rj_leaseToken a = rj_leaseToken n" "a \<in> set (db_jobs d')"
proof -
  from assms obtain n where n: "normalizeRuntimeJob E inp (Some c) = Inr n" "d' = put_runtime_job n d" "find_runtime_job (rj_id n) d' = Some a"
    by (auto simp: save_job_def writeJob_def elim!: bindR_E split: if_splits)
  then have "a = (case find_runtime_job (rj_id n) d of None \<Rightarrow> n | Some k \<Rightarrow> n\<lparr>rj_createdAt := rj_createdAt k\<rparr>)"
    by (simp add: find_put)
  moreover have "a \<in> set (db_jobs d')"
    using n(3) by (auto simp: find_runtime_job_def find_Some_iff)
  ultimately show ?thesis by (intro that [OF n(1,2)]) (simp_all split: option.splits)
qed

lemma linked_settles:
  assumes "transition_linked E l to code d = Inr d'" "linked_state l \<in> Some ` {''awaiting-approval'', ''running'', ''cancelling''}"
    "Option.bind l el_attemptId = Some a" "a \<noteq> []" "to \<in> set TERMINAL_ATTEMPT_STATES"
  shows "\<exists>x\<in>set (db_attempts d'). ea_id x = a \<and> ea_state x = to"
proof -
  from assms(2) obtain f where f: "linked_state l = Some f" "f \<in> {''awaiting-approval'', ''running'', ''cancelling''}" by auto
  then have n: "f \<notin> set TERMINAL_ATTEMPT_STATES" "f \<noteq> to" using assms(5) by (auto simp: TERMINAL_ATTEMPT_STATES_def)
  with assms(1,3,4) f(1) have "length (filter (\<lambda>x. ea_id x = a \<and> ea_state x = f) (db_attempts d)) = 1"
    by (simp add: transition_linked_def transitionAttempt_def split: if_splits)
  then obtain x where x: "x \<in> set (db_attempts d)" "ea_id x = a" "ea_state x = f"
    by (metis (mono_tags, lifting) One_nat_def filter_False length_greater_0_conv list.size(3) zero_neq_one)
  have all: "list_all2 (\<lambda>z z'. ea_id z = a \<and> ea_state z = f \<longrightarrow> ea_id z' = a \<and> ea_state z' = to) (db_attempts d) (db_attempts d')"
    using assms(1,3,4) f(1) n
    by (auto simp: transition_linked_def transitionAttempt_def list.rel_map list_all2_same split: if_splits)
  from x(1) obtain k where "k < length (db_attempts d)" "db_attempts d ! k = x" by (auto simp: in_set_conv_nth)
  with list_all2_nthD [OF all this(1)] list_all2_lengthD [OF all] x(2,3) show ?thesis
    by (intro bexI [of _ "db_attempts d' ! k"]) simp_all
qed

lemma linked_leases: "transition_linked E l to code d = Inr d' \<Longrightarrow> db_leases d' = db_leases d"
  by (auto simp: transition_linked_def transitionAttempt_def split: option.splits if_splits)

lemma same_leases [simp]: "db_leases (settle_control now run d) = db_leases d" "db_leases (put_runtime_job n d) = db_leases d"
  "db_attempts (settle_control now run d) = db_attempts d" "db_attempts (release_lease now u w d) = db_attempts d"
  by (simp_all add: settle_control_def put_runtime_job_def release_lease_def)

lemma released: "l \<in> set (db_leases (release_lease now u w d)) \<Longrightarrow> (\<And>x. ls_releasedAt x = None \<Longrightarrow> ls_token x = ls_token l \<Longrightarrow> ls_jobId x = ls_jobId l \<Longrightarrow> w x) \<Longrightarrow> ls_releasedAt l \<noteq> None"
  by (auto simp: release_lease_def or_string_def split: option.splits)

lemma hydrate_fields [simp]: "js_field (hydrate j) ''id'' = JStr (rj_id j)" "js_field (hydrate j) ''attempts'' = JInt (rj_attempts j)"
  by (simp_all add: hydrate_def)

text \<open>
  C39. When an approval is settled, the job, its attempt and its lease say the same: the job holds no
  lease, every lease of the job with that token is released, and the attempt the execution is
  correlated with has settled with the status of the job.  The job is completed only when there is
  neither an error nor an interruption and no cancellation was under way.
\<close>

theorem settlement_consistent:
  assumes "settleApproval E i token result error dispatched interrupted db = Inr (j', db')"
  shows "rj_id j' = i \<and> j' \<in> set (db_jobs db') \<and> rj_leaseToken j' = None \<and>
    (\<forall>l\<in>set (db_leases db'). ls_token l = token \<and> ls_jobId l = i \<longrightarrow> ls_releasedAt l \<noteq> None) \<and>
    (\<exists>j l a. find_runtime_job i db = Some j \<and> rj_leaseToken j = Some token \<and> correlation E (rj_executionRunId j) db = Inr (Some l) \<and>
      a \<in> set (db_attempts db') \<and> el_attemptId l = Some (ea_id a) \<and> ea_state a = rj_status j' \<and>
      rj_status j' \<in> {''completed'', ''cancelled'', ''needs-review''} \<and>
      (rj_status j' = ''completed'' \<longrightarrow> error = None \<and> optionalString interrupted = None \<and> rj_status j = ''running''))"
proof -
  from assms obtain j where j: "find_runtime_job i db = Some j" by (auto simp: settleApproval_def split: option.splits)
  obtain target m code where o: "approval_outcome j error dispatched interrupted = (target, m, code)"
    by (cases "approval_outcome j error dispatched interrupted")
  let ?db1 = "release_lease (now_text E) target (\<lambda>x. ls_token x = token \<and> ls_jobId x = i \<and> ls_releasedAt x = None) db"
  let ?inp = "\<lambda>l. js_assign (hydrate j) ([(''status'', JStr target), (''completedAt'', JStr (now_text E)),
    (''result'', if target = ''completed'' then result else JUndef), (''error'', m), (''dispatchLease'', JUndef)] @ linked_fields l)"
  have t: "target \<in> {''completed'', ''cancelled'', ''needs-review''}" by (rule outcome_target [OF o])
  show ?thesis
    using assms unfolding settleApproval_def j option.case o prod.case
  proof (elim bindR_E, goal_cases)
    case (1 u v l w d)
    then have g: "rj_leaseToken j = Some token" "rj_status j \<in> {''running'', ''cancelling''}" "Option.bind l el_attemptId \<notin> {None, Some []}"
        "linked_state l \<in> Some ` {''awaiting-approval'', ''running'', ''cancelling''}"
      by (auto simp: guardR_Inr_iff)
    then obtain x a where x: "l = Some x" "el_attemptId x = Some a" "a \<noteq> []" by (cases l) auto
    obtain n where n: "normalizeRuntimeJob E (?inp l) (Some j) = Inr n" "db' = put_runtime_job n (settle_control (now_text E) (rj_executionRunId j) d)"
        "rj_id j' = rj_id n" "rj_status j' = rj_status n" "rj_leaseToken j' = rj_leaseToken n" "j' \<in> set (db_jobs db')"
      by (rule save_job_E [OF 1(6)]) blast
    have s: "rj_id n = i" "rj_status n = target"
      using find_id [OF j] by (auto intro!: normalize_keeps [OF n(1)] simp: x linked_fields_def link_fields_def)
    have lease: "rj_leaseToken n = None"
      by (rule normalize_no_lease [OF n(1)]) (simp_all add: x linked_fields_def link_fields_def)
    obtain y where y: "y \<in> set (db_attempts d)" "ea_id y = a" "ea_state y = target"
      using linked_settles [OF 1(5) g(4)] x t by (auto simp: TERMINAL_ATTEMPT_STATES_def)
    have free: "ls_releasedAt l \<noteq> None" if "l \<in> set (db_leases db')" "ls_token l = token" "ls_jobId l = i" for l
    proof (rule released [where w = "\<lambda>x. ls_token x = token \<and> ls_jobId x = i \<and> ls_releasedAt x = None"])
      show "l \<in> set (db_leases ?db1)" using that(1) linked_leases [OF 1(5)] unfolding n(2) same_leases by simp
    qed (use that in auto)
    have "target = ''completed'' \<Longrightarrow> error = None \<and> optionalString interrupted = None \<and> rj_status j = ''running''"
      using o g(2) by (auto simp: approval_outcome_def or_string_def split: option.splits if_splits)
    then show ?case
      using n(3-6) s lease y x free t g(1) 1(3) j same_leases(3) n(2) put_same(2) by auto
  qed
qed

section \<open>Claims\<close>

lemma sort_cmp_least:
  assumes "\<And>x y. cmp x y \<le> 0 \<or> cmp y x \<le> 0" "\<And>x y z. cmp x y \<le> 0 \<Longrightarrow> cmp y z \<le> 0 \<Longrightarrow> cmp x z \<le> 0"
  shows "\<forall>y\<in>set xs. case sort_cmp cmp xs of [] \<Rightarrow> False | h # _ \<Rightarrow> cmp h y \<le> 0"
proof (induction xs)
  case (Cons x xs)
  have r: "cmp x x \<le> 0" using assms(1) by blast
  show ?case
  proof (cases "sort_cmp cmp xs")
    case Nil
    with set_sort_cmp [of cmp xs] r show ?thesis by simp
  next
    case s: (Cons h t)
    have h: "\<forall>y\<in>set xs. cmp h y \<le> 0" using Cons.IH by (simp add: s)
    show ?thesis
    proof (cases "cmp x h \<le> 0")
      case True
      have "\<forall>y\<in>set xs. cmp x y \<le> 0" using h assms(2) [OF True] by blast
      with True s r show ?thesis by simp
    next
      case False
      then have "cmp h x \<le> 0" using assms(1) by blast
      with False h s show ?thesis by simp
    qed
  qed
qed simp

definition older_eq :: "runtime_job \<Rightarrow> runtime_job \<Rightarrow> bool" where
  "older_eq j k \<longleftrightarrow> rj_createdAt j < rj_createdAt k \<or> rj_createdAt j = rj_createdAt k \<and> rj_id j \<le> rj_id k"

lemma next_queued_oldest:
  assumes "next_queued db = Some j"
  shows "j \<in> set (db_jobs db)" "rj_status j = ''queued''" "k \<in> set (db_jobs db) \<Longrightarrow> rj_status k = ''queued'' \<Longrightarrow> older_eq j k"
proof -
  let ?cmp = "\<lambda>a b. if rj_createdAt a = rj_createdAt b then lex_cmp (rj_id a) (rj_id b) else lex_cmp (rj_createdAt a) (rj_createdAt b)"
  let ?q = "filter (\<lambda>j. rj_status j = ''queued'') (db_jobs db)"
  have le: "?cmp a b \<le> 0 \<longleftrightarrow> older_eq a b" for a b
    by (auto simp: lex_cmp_def older_eq_def)
  obtain t where s: "sort_cmp ?cmp ?q = j # t"
    using assms unfolding next_queued_def by (auto split: list.splits)
  then have "j \<in> set (sort_cmp ?cmp ?q)" by simp
  then show "j \<in> set (db_jobs db)" "rj_status j = ''queued''" by simp_all
  have "\<forall>y\<in>set ?q. case sort_cmp ?cmp ?q of [] \<Rightarrow> False | h # _ \<Rightarrow> ?cmp h y \<le> 0"
    by (rule sort_cmp_least) (auto simp only: le, auto simp: older_eq_def)
  then show "older_eq j k" if "k \<in> set (db_jobs db)" "rj_status k = ''queued''"
    using that unfolding s le list.case by simp
qed

lemma put_others:
  assumes "j \<in> set (db_jobs db)" "rj_id n = rj_id j"
  shows "map rj_id (db_jobs (put_runtime_job n db)) = map rj_id (db_jobs db)"
    "filter (\<lambda>k. rj_id k \<noteq> rj_id j) (db_jobs (put_runtime_job n db)) = filter (\<lambda>k. rj_id k \<noteq> rj_id j) (db_jobs db)"
proof -
  have "find_runtime_job (rj_id n) db \<noteq> None" using assms by (auto simp: find_runtime_job_def find_None_iff)
  then have p: "db_jobs (put_runtime_job n db) = map (\<lambda>k. if rj_id k = rj_id j then n\<lparr>rj_createdAt := rj_createdAt k\<rparr> else k) (db_jobs db)"
    using assms(2) by (simp add: put_runtime_job_def)
  have "map rj_id (map (\<lambda>k. if rj_id k = rj_id j then n\<lparr>rj_createdAt := rj_createdAt k\<rparr> else k) ks) = map rj_id ks \<and>
      filter (\<lambda>k. rj_id k \<noteq> rj_id j) (map (\<lambda>k. if rj_id k = rj_id j then n\<lparr>rj_createdAt := rj_createdAt k\<rparr> else k) ks) = filter (\<lambda>k. rj_id k \<noteq> rj_id j) ks" for ks
    by (induction ks) (simp_all add: assms(2))
  then show "map rj_id (db_jobs (put_runtime_job n db)) = map rj_id (db_jobs db)"
    "filter (\<lambda>k. rj_id k \<noteq> rj_id j) (db_jobs (put_runtime_job n db)) = filter (\<lambda>k. rj_id k \<noteq> rj_id j) (db_jobs db)"
    unfolding p by blast+
qed

text \<open>
  C40. A claim takes the queued job that was created first (of those of the same time the one with the least
  id): the job returned is its row afterwards, running, with one attempt more. The store has the same rows in
  the same order, those of the other jobs exactly as they were.
\<close>

theorem claim_takes_oldest:
  assumes "claimNextRuntimeJob E patch db = Inr (Some j', db')"
  shows "\<exists>j\<in>set (db_jobs db). rj_status j = ''queued'' \<and>
    (\<forall>k\<in>set (db_jobs db). rj_status k = ''queued'' \<longrightarrow> older_eq j k) \<and>
    rj_id j' = rj_id j \<and> rj_status j' = ''running'' \<and> rj_attempts j' = rj_attempts j + 1 \<and> j' \<in> set (db_jobs db') \<and>
    (\<forall>k\<in>set (db_jobs db'). rj_id k = rj_id j \<longrightarrow> rj_status k = ''running'') \<and>
    map rj_id (db_jobs db') = map rj_id (db_jobs db) \<and>
    filter (\<lambda>k. rj_id k \<noteq> rj_id j) (db_jobs db') = filter (\<lambda>k. rj_id k \<noteq> rj_id j) (db_jobs db)"
proof -
  from assms obtain j where j: "next_queued db = Some j" by (auto simp: claimNextRuntimeJob_def split: option.splits)
  let ?inp = "js_assign (js_assign (hydrate j) patch)
    ([(''id'', JStr (rj_id j)), (''status'', JStr ''running''), (''attempts'', JInt (rj_attempts j + 1)), (''createdAt'', JStr (rj_createdAt j)),
      (''updatedAt'', JStr (now_text E))] @ requested_lease E j patch)"
  have q: "requested_lease E j patch = [] \<or> (\<exists>v. requested_lease E j patch = [(''dispatchLease'', v)])"
    by (auto simp: requested_lease_def split: jsval.splits)
  show ?thesis
    using assms unfolding claimNextRuntimeJob_def j option.case claim_runtime_row_def
  proof (elim bindR_E, goal_cases)
    case (1 n d d2 p)
    have n: "rj_id n = rj_id j" "rj_status n = ''running''"
      using q by (auto intro!: normalize_keeps [OF 1(1)])
    have a: "rj_attempts n = rj_attempts j + 1"
      using normalize_row(3) [OF 1(1)] q by (auto simp: nullish_def split: if_splits)
    have d: "d = put_runtime_job n db" using 1(2) by (auto simp: writeJob_def split: if_splits)
    have d2: "db_jobs d2 = db_jobs d" using 1(3) by (auto simp: insert_lease_def split: option.splits if_splits)
    with 1(4,5) have f: "find_runtime_job (rj_id n) d = Some j'" "db' = d2"
      by (auto simp: n(1) stored_job_def find_runtime_job_def split: option.splits)
    have j': "rj_id j' = rj_id j" "rj_status j' = ''running''" "rj_attempts j' = rj_attempts j + 1"
      using f(1) n a unfolding d find_put by (auto split: option.splits)
    have "\<forall>k\<in>set (db_jobs db'). rj_id k = rj_id j \<longrightarrow> rj_status k = ''running''"
      using put_jobs [of _ n db] n f(2) d d2 by auto
    moreover have "map rj_id (db_jobs db') = map rj_id (db_jobs db)"
      "filter (\<lambda>k. rj_id k \<noteq> rj_id j) (db_jobs db') = filter (\<lambda>k. rj_id k \<noteq> rj_id j) (db_jobs db)"
      using put_others [of j db n] next_queued_oldest(1) [OF j] n(1) f(2) d d2 by simp_all
    moreover have "j' \<in> set (db_jobs db')" using f d2 by (auto simp: find_runtime_job_def find_Some_iff)
    ultimately show ?case using j' next_queued_oldest [OF j] by blast
  qed
qed

section \<open>A concrete job\<close>

definition sample_env :: job_env where
  "sample_env = \<lparr>je_now = 0, je_durable = \<lparr>de_hash = (\<lambda>s. ''h''), de_lower = (\<lambda>s. s)\<rparr>, je_patterns = (\<lambda>s. s), je_sha = (\<lambda>s. ''d''), je_ownership = True\<rparr>"

definition sample_runtime_job :: "string \<Rightarrow> runtime_job" where
  "sample_runtime_job st = \<lparr>rj_id = ''j'', rj_status = st, rj_payload = JObj [], rj_recoverable = True, rj_requestHash = None, rj_retrySafe = False,
     rj_attempts = 1, rj_timeoutMs = 5, rj_result = None, rj_error = None, rj_createdAt = ''c'', rj_updatedAt = ''u'', rj_startedAt = None,
     rj_completedAt = None, rj_recoveredAt = None, rj_occurrenceKey = None, rj_scheduledFor = None, rj_nextRunAt = None,
     rj_executionRunId = Some ''r'', rj_executionAttemptId = None, rj_envelopeDigest = None, rj_auditCorrelationId = None,
     rj_cancellationReference = None, rj_imported = False, rj_leaseToken = Some ''t'', rj_leaseOwner = Some ''o'', rj_leaseEpoch = Some ''e'',
     rj_leaseAcquiredAt = Some ''c'', rj_leaseExpiresAt = Some ''c''\<rparr>"

definition sample_attempt :: "string \<Rightarrow> execution_attempt" where
  "sample_attempt st = \<lparr>ea_id = ''a'', ea_runId = ''r'', ea_number = 1, ea_state = st, ea_startedAt = None, ea_settledAt = None,
     ea_errorCode = None, ea_ownerReleasedAt = None\<rparr>"

definition sample_db :: "string \<Rightarrow> job_db" where
  "sample_db st = \<lparr>db_jobs = [sample_runtime_job st],
     db_leases = [\<lparr>ls_token = ''t'', ls_jobId = ''j'', ls_occurrenceKey = None, ls_owner = ''o'', ls_epoch = ''e'', ls_acquiredAt = ''c'',
       ls_expiresAt = ''c'', ls_releasedAt = None, ls_releaseReason = None\<rparr>],
     db_attempts = [sample_attempt st], db_envelopes = [\<lparr>ee_runId = ''r'', ee_digest = ''d'', ee_json = sample_envelope\<rparr>],
     db_controls = [], db_reassignments = [], db_imports = []\<rparr>"

lemma sample_obj: "JObj (the_obj sample_envelope) = sample_envelope" "is_obj sample_envelope"
  by (simp_all add: sample_envelope_def)

definition sample_link :: "string \<Rightarrow> execution_link" where
  "sample_link st = \<lparr>el_envelopeDigest = ''d'', el_attemptId = Some ''a'', el_attemptState = Some st, el_attemptErrorCode = None, el_attemptNumber = Some 1,
     el_retrySafety = ''unknown'', el_auditCorrelationId = ''a'', el_cancellationReference = ''x''\<rparr>"

lemma sample_correlation: "correlation sample_env (Some ''r'') (sample_db st) = Inr (Some (sample_link st))"
proof -
  have f: "js_field (the_obj sample_envelope) ''retrySafety'' = JStr ''unknown''" "js_field (the_obj sample_envelope) ''auditCorrelationId'' = JStr ''a''"
      "js_field (the_obj sample_envelope) ''cancellationControlReference'' = JStr ''x''"
    by (simp_all add: sample_envelope_def)
  show ?thesis
    by (simp add: correlation_def sample_db_def sample_env_def sample_envelope_valid sample_obj digestExecutionEnvelopeV1_def
        canonicalizeExecutionEnvelopeV1_def attempt_of_def sample_attempt_def sample_link_def f Let_def)
qed

definition succeeds :: "string + 'a \<Rightarrow> bool" where
  "succeeds r \<longleftrightarrow> (case r of Inl _ \<Rightarrow> False | Inr _ \<Rightarrow> True)"

lemma succeedsE: "succeeds r \<Longrightarrow> \<exists>x. r = Inr x"
  by (simp add: succeeds_def split: sum.splits)

lemma sample_found: "find_runtime_job ''j'' (sample_db st) = Some (sample_runtime_job st)" "rj_executionRunId (sample_runtime_job st) = Some ''r''"
  by (simp_all add: find_runtime_job_def sample_db_def sample_runtime_job_def)

lemma sample_recovery_queue: "recovery_candidates (sample_db ''running'') = [sample_runtime_job ''running'']"
  by code_simp

lemma sample_recovers:
  "case recover_runtime_job sample_env 3 (sample_db ''running'') (sample_runtime_job ''running'') of Inl _ \<Rightarrow> False | Inr d \<Rightarrow> map rj_id (db_jobs d) = [''j'']"
  by (simp only: recover_runtime_job_def sample_found sample_correlation bindR_simps) code_simp

lemma sample_settles: "succeeds (settleApproval sample_env ''j'' ''t'' (JStr ''ok'') None True JUndef (sample_db ''running''))"
  by (simp only: settleApproval_def sample_found sample_correlation bindR_simps option.case) code_simp

definition sample_queue :: job_db where
  "sample_queue = (sample_db ''queued'')\<lparr>db_leases := []\<rparr>"

lemma sample_claims: "case claimNextRuntimeJob sample_env [] sample_queue of Inr (Some j, d) \<Rightarrow> True | _ \<Rightarrow> False"
  by code_simp

theorem settled_attempt_final_witness:
  "sample_attempt ''failed'' \<in> set (db_attempts (foldl run_job_op (sample_db ''failed'')
    [(sample_env, Jo_cancel ''j'' ''u'' ''stop''), (sample_env, Jo_recover None 3)]))"
  by (rule settled_attempt_final) (simp_all add: sample_db_def sample_attempt_def TERMINAL_ATTEMPT_STATES_def)

theorem recovery_never_repeats_witness:
  "\<exists>r d. recover_runtime_jobs sample_env 3 (sample_db ''running'') = Inr (r, d) \<and> (\<exists>k\<in>set (db_jobs d). rj_id k = ''j'' \<and> rj_status k \<noteq> ''queued'')"
proof -
  obtain d k where d: "recover_runtime_job sample_env 3 (sample_db ''running'') (sample_runtime_job ''running'') = Inr d"
      and k: "k \<in> set (db_jobs d)" "rj_id k = ''j''"
    using sample_recovers by (auto split: sum.splits)
  from d obtain r where r: "recover_runtime_jobs sample_env 3 (sample_db ''running'') = Inr (r, d)"
    by (simp add: recover_runtime_jobs_def sample_recovery_queue)
  have j: "sample_runtime_job ''running'' \<in> set (db_jobs (sample_db ''running''))" "distinct (map rj_id (db_jobs (sample_db ''running'')))"
    by (simp_all add: sample_db_def)
  have "rj_status k \<noteq> ''queued''"
    by (rule recovery_never_repeats [OF r j(2,1), of "sample_link ''running''"])
      (simp_all add: sample_found sample_correlation, simp_all add: sample_link_def retry_allowed_def sample_runtime_job_def k)
  with r k show ?thesis by blast
qed

theorem settlement_consistent_witness:
  "\<exists>j d. settleApproval sample_env ''j'' ''t'' (JStr ''ok'') None True JUndef (sample_db ''running'') = Inr (j, d) \<and> rj_id j = ''j'' \<and> rj_leaseToken j = None"
proof -
  obtain j d where r: "settleApproval sample_env ''j'' ''t'' (JStr ''ok'') None True JUndef (sample_db ''running'') = Inr (j, d)"
    using succeedsE [OF sample_settles] by auto
  with settlement_consistent [OF r] show ?thesis by blast
qed

theorem claim_takes_oldest_witness:
  "\<exists>j d. claimNextRuntimeJob sample_env [] sample_queue = Inr (Some j, d) \<and> rj_id j = ''j'' \<and> rj_status j = ''running''"
proof -
  obtain j d where r: "claimNextRuntimeJob sample_env [] sample_queue = Inr (Some j, d)"
    using sample_claims by (auto split: sum.splits option.splits prod.splits)
  from claim_takes_oldest [OF this] have "rj_id j = ''j'' \<and> rj_status j = ''running''"
    by (auto simp: sample_queue_def sample_db_def sample_runtime_job_def)
  with r show ?thesis by blast
qed

end
