(* ===== verification/Spec2Isabelle.thy ===== *)
theory Spec2Isabelle
  imports Prelude Capabilities Policy Workflow Workflow_Store Workflow_Runs Iso_Time Job_Store Session_Lanes Lane_Runs Lane_Drain
    Json_Visitor Automation Automation_Laws Automation_Control Agent_Graphs Agent_Graph_Laws Agent_Runner
    Agent_Runner_Laws Agent_Run_Samples Redaction Durable_Input Approvals Approval_Laws
    Checkpoints Checkpoint_Laws Durable_Output Execution_Envelope Runtime_Jobs Runtime_Job_Laws
begin

text \<open>
  Odinn Forge, a runtime for tool-using agents: the decisions that keep an agent within its
  authority, and the durable state machines that run its work.

  \<^bold>\<open>The program.\<close>  A task names a tool.  The policy (\<open>packages/policy\<close>) decides whether the tool may run, from the
  capabilities it is registered with and the capabilities that are allowed; a child agent gets a
  subset of the capabilities of its parent.  Work is queued and run in three ways: as jobs in session
  lanes (\<open>packages/kernel/src/session-lanes.ts\<close> over \<open>packages/store-file\<close>), as durable workflows
  (\<open>packages/protocol/src/workflow.ts\<close> over \<open>packages/store-sqlite/src/workflows.ts\<close>) and as graphs of agent
  dispatches (\<open>packages/kernel/src/agent-run-graphs.ts\<close>).  Schedules and events start work through
  \<open>packages/kernel/src/automation-primitives.ts\<close>.

  \<^bold>\<open>Values and effects.\<close>  Theory Prelude.  A JavaScript value is a \<open>jsval\<close>: undefined, null, booleans, integers,
  other numbers with their printed text, strings (as lists of bytes of their UTF-8 text), arrays, and
  objects as lists of fields in their own order.  An exception is the left of a sum (\<open>bindR\<close>, \<open>guardR\<close>,
  \<open>mapR\<close>, \<open>foldR\<close>); code that changes the state of an object before it throws is in the state monad with
  errors (\<open>bindS\<close>), which keeps the state reached.  A \<open>Map\<close> is an association list in insertion order
  (\<open>jm_set\<close>, \<open>jm_get\<close>), with the laws of the locale \<open>ordered_map\<close>.  Hashes, the locale's string comparison and
  the results of I/O are arguments of the definitions that use them.

  \<^bold>\<open>Capability registry\<close>, \<open>packages/policy/src/capabilities.ts\<close>.  Theory Capabilities: the two tables with every entry, the
  registry, delegation (\<open>intersectChildCapabilities\<close>), approval and effect policies, and the migration of
  legacy policies.  Its lemmas say exactly when a delegation succeeds and what it grants; the locale
  \<open>authority_narrowing\<close> carries this over chains of delegations.

  \<^bold>\<open>Task policy\<close>, \<open>packages/policy/src/index.ts\<close>.  Theory Policy: how a policy is assembled, evaluated for a task, previewed, and its
  invariants over paths and commands.  The lemmas give the exact condition of each decision.

  \<^bold>\<open>Workflow protocol\<close>, \<open>packages/protocol/src/workflow.ts\<close>.  Theory Workflow: bounded JSON, the validation of definitions with the
  depth-first cycle check, the digests and the table of transitions.  The search has fuel for one more
  than the steps, and \<open>visit_all_iff\<close> proves that it never runs out.

  \<^bold>\<open>Workflow store\<close>, \<open>packages/store-sqlite/src/workflows.ts\<close>.  Theories Workflow_Store and Workflow_Runs: the four tables are lists of
  records, every SQL statement is an update of them, and an operation that throws leaves the store as it
  was (the transaction is rolled back).  Every operation keeps the invariant of the store; reachable
  stores are runs of operations.

  \<^bold>\<open>Session lanes\<close>, \<open>packages/kernel/src/session-lanes.ts\<close>, with the parts of \<open>packages/store-file/src/index.ts\<close> it uses.  Theories Job_Store,
  Session_Lanes, Lane_Runs and Lane_Drain, and Iso_Time for the timestamps.  The state is the object with its tasks
  and the stored jobs; the outcome of each read and write of the store is an argument (\<open>io\<close>), so that a
  failing disk is covered.  Each step between two suspensions of the code is one step of a run.
  \<open>drain\<close> is given, turn by turn, the operations that run before its claim and while it waits for the state
  chain, and whether it is called again meanwhile; \<open>drain_terminates\<close> bounds its turns by the queued jobs, the
  submissions and these calls, and shows that it ends in a state that steps reach.

  \<^bold>\<open>Automation primitives\<close>, \<open>packages/kernel/src/automation-primitives.ts\<close>.  Theories Json_Visitor, Automation, Automation_Laws and
  Automation_Control: declarations, the next due time of a schedule, event cursors and windows,
  candidates and the control messages of a dispatch.  What a candidate and an accepted chain of
  messages promise is proved for every input that is accepted.

  \<^bold>\<open>Agent run graphs\<close>, \<open>packages/kernel/src/agent-run-graphs.ts\<close>.  Theories Agent_Graphs (manifests, graphs and the depth search, with fuel for
  one more than the nodes, enough by \<open>depth_fuel\<close>), Agent_Graph_Laws, Agent_Runner (requests, receipts,
  batches and runs), Agent_Runner_Laws and Agent_Run_Samples.  A level of a node is computed with fuel 8,
  the longest chain an accepted graph has.  The runner is a function of an environment that says, batch
  by batch, whether the run has been aborted and how each dispatch ends.

  \<^bold>\<open>What is stored of a request\<close>, \<open>packages/protocol/src/index.ts\<close>.  Theory Redaction: secrets hidden by the name of their field, private
  keys removed from texts, bounded depth and width; the recursion is on the depth, at most eight.  Theory
  Durable_Input: the projection of the input of every tool, with digests in place of content: of the texts of a mutation only
  their digests and lengths are left (\<open>projected_scalars\<close>).  The regular
  expressions of secret texts, SHA-256 and \<open>toLowerCase\<close> are arguments.

  \<^bold>\<open>Approvals\<close>, \<open>packages/kernel/src/approvals.ts\<close>.  Theory Approvals: actions and their effects, binding tags, the durable record
  (redacted as above) and every operation of a store; a world of processes that share a file and lose
  their memory.  Theory Approval_Laws: an invariant of what has been issued, claimed and consumed, kept by
  every operation, and from it that an approval is consumed once and as it was granted.  The theorems
  assume identifiers and tags that do not look like secrets and actions of at most 900 fields, since the
  redaction rewrites the record otherwise.

  \<^bold>\<open>Checkpoints\<close>, \<open>packages/kernel/src/checkpoint-coordinator.ts\<close>.  Theory Checkpoints: the tables of boundaries, checkpoints, journal and
  manifests, every operation of the coordinator and the artifact store it publishes to; each transaction is
  one write that may fail, and a history is any calls with any failures.  Theory Checkpoint_Laws: the
  invariant of the histories with the environments of their calls, in one of which the file of the manifest of
  every completed checkpoint was read with the recorded size and digest, what recovery makes of every interrupted checkpoint, and when a restore is
  free of conflicts.

  \<^bold>\<open>What is stored of a result\<close>, \<open>packages/protocol/src/index.ts\<close>.  Theory Durable_Output: the projection of the result of every tool, what
  fields the results of providers may have (\<open>shown\<close>), the placeholder of live content, and the normal forms of task requests and audit events.

  \<^bold>\<open>Execution envelopes\<close>, \<open>packages/protocol/src/execution-envelope.ts\<close>.  Theory Execution_Envelope: the fields of an envelope with their
  checks, the order in which they are checked, the canonical text and the digest.  What an
  accepted envelope holds is stated part by part (\<open>envelope_ok\<close>); it is a fixed point of the validation.

  \<^bold>\<open>Runtime jobs\<close>, \<open>packages/store-sqlite/src/runtime-jobs.ts\<close>.  Theory Runtime_Jobs: the tables of jobs, leases, attempts, envelopes,
  cancellation controls and reservations, and every operation as one transaction over them, with the import
  of the old store and the recovery after a restart.  Theory Runtime_Job_Laws: what every transaction keeps of
  the attempts, and from it that a settled attempt is final, that a restart does not repeat an execution that
  may have been dispatched, that a settlement leaves job, attempt and lease in agreement, and that a claim
  takes the oldest job.

  \<^bold>\<open>Composition.\<close>  The runner asks the capability registry for the authority of each node; \<open>dispatch_authority_within_parent\<close>
  rests on the exactness of delegation.  The session lanes rest on the store through the interface of
  their io; the workflow store on the transitions and the validation of the protocol.  Approvals rest on
  the effect policies of the registry, on the redaction and on the projection of requests; checkpoints on the
  projection of mutations, on the redaction and on the path rules of the policy.  Runtime jobs rest on the
  projections of requests and results and on the validation and digest of envelopes: a job whose envelope does
  not have the digest stored with it is neither settled nor recovered.

  \<^bold>\<open>Bounds.\<close>  Numbers of the code are checked to be safe integers before they are used, and so are integers
  here, with the check written out.  Texts are limited by the code in characters or bytes; a model
  string is a list of bytes, so the two agree on ASCII, to which identifiers are restricted.

  \<^bold>\<open>Not modelled.\<close>  Process, network and file I/O (sandbox, MCP, browser, mail, calendars, channels, HTTP server, command
  line); SQL schemas and migrations; frozen objects, accessors and prototypes beyond own fields; the reading of wire
  bytes before \<open>JSON.parse\<close>; regular expressions beyond the fixed patterns; real time and timers, which appear
  as arguments; the lock files, the key file and the ciphers of the approval store.  The kernel entry point
  and skills are not modelled, nor is the parsing of an envelope from text.
\<close>

end
